(* ===== verification/Prelude.thy ===== *)
theory Prelude
  imports Main "HOL-Library.Word"
begin

text \<open>
  The shared vocabulary of the development: names for the Go types that occur in every
  component (times and durations in nanoseconds, byte slices), the generic lemmas on lists,
  maps and words the components share, and the interfaces several components implement.

  The interfaces are locales.
  \<^item> \<open>op_machine\<close>: a component whose operations keep a well-formedness invariant;
    \<open>refining_machine\<close> adds an abstract machine the operations implement.
  \<^item> \<open>owner_map\<close>: a table of connected peers keyed by peer id, where removing an entry
    compares the stored object with the given one.
  \<^item> \<open>codec\<close>: an encoder with a decoder that undoes it.
  Each is interpreted in the theories of the components that provide it.
\<close>

section \<open>Types and constants\<close>

type_synonym duration = int
type_synonym time = int
type_synonym byte = "8 word"
type_synonym bytes = "8 word list"

abbreviation millisecond :: duration where "millisecond \<equiv> 1000000"
abbreviation second :: duration where "second \<equiv> 1000000000"
abbreviation minute :: duration where "minute \<equiv> 60000000000"
abbreviation hour :: duration where "hour \<equiv> 3600000000000"

named_theorems model_defs "definitions of operations, for unfolding"
named_theorems lookup_laws "what a lookup returns after an update"

section \<open>Lists\<close>

lemma take_drop_prefix [simp]:
  "length xs = n \<Longrightarrow> take n (xs @ ys) = xs" "length xs = n \<Longrightarrow> drop n (xs @ ys) = ys"
  by simp_all

lemma filter_eq_idem: "(\<And>x. x \<in> set xs \<Longrightarrow> P x) \<Longrightarrow> filter P xs = xs"
  by (induction xs) auto

lemma sorted_wrt_filter_iff: "sorted_wrt R xs \<Longrightarrow> sorted_wrt R (filter P xs)"
  by (induction xs) auto

lemma distinct_map_filter_iff: "distinct (map f xs) \<Longrightarrow> distinct (map f (filter P xs))"
  by (induction xs) auto

lemma dropWhile_sorted_filter:
  fixes d :: "'a \<Rightarrow> int"
  shows "sorted (map d xs) \<Longrightarrow> dropWhile (\<lambda>x. d x \<le> t) xs = filter (\<lambda>x. t < d x) xs"
proof (induction xs)
  case (Cons x xs)
  then show ?case by (fastforce intro!: filter_eq_idem [symmetric])
qed simp

lemma takeWhile_sorted_filter:
  fixes d :: "'a \<Rightarrow> int"
  shows "sorted (map d xs) \<Longrightarrow> takeWhile (\<lambda>x. d x \<le> t) xs = filter (\<lambda>x. d x \<le> t) xs"
proof (induction xs)
  case (Cons x xs)
  show ?case
  proof (cases "d x \<le> t")
    case False
    with Cons.prems have "filter (\<lambda>x. d x \<le> t) xs = []"
      by (fastforce simp: filter_empty_conv)
    with False show ?thesis by simp
  qed (use Cons in simp)
qed simp

lemma sorted_snoc_iff:
  fixes x :: "'a :: linorder"
  shows "sorted (xs @ [x]) \<longleftrightarrow> sorted xs \<and> (\<forall>y \<in> set xs. y \<le> x)"
  by (auto simp: sorted_append)

lemma foldl_filter_noop:
  "(\<And>x s. x \<in> set xs \<Longrightarrow> \<not> P x \<Longrightarrow> f s x = s) \<Longrightarrow> foldl f s (filter P xs) = foldl f s xs"
  by (induction xs arbitrary: s) auto

text \<open>
  What a loop appends that remembers the keys it has seen and skips an element whose key it knows.
\<close>

primrec dedup :: "('a \<Rightarrow> 'k) \<Rightarrow> ('a \<Rightarrow> 'b list) \<Rightarrow> 'k set \<Rightarrow> 'a list \<Rightarrow> 'b list" where
  "dedup key emit S [] = []"
| "dedup key emit S (x # xs) =
     (if key x \<in> S then dedup key emit S xs else emit x @ dedup key emit (insert (key x) S) xs)"

lemma set_dedup:
  assumes "\<And>x y. x \<in> set xs \<Longrightarrow> y \<in> set xs \<Longrightarrow> key x = key y \<Longrightarrow> set (emit x) = set (emit y)"
  shows "set (dedup key emit S xs) = (\<Union>x \<in> {x \<in> set xs. key x \<notin> S}. set (emit x))"
  using assms
proof (induction xs arbitrary: S)
  case (Cons x xs)
  have IH: "set (dedup key emit T xs) = (\<Union>x \<in> {x \<in> set xs. key x \<notin> T}. set (emit x))" for T
    by (rule Cons.IH) (use Cons.prems in simp)
  have "set (emit y) = set (emit x)" if "y \<in> set xs" "key y = key x" for y
    using that Cons.prems by simp
  then show ?case by (auto simp: IH)
qed simp

lemma dedup_keys:
  assumes "\<And>x. x \<in> set xs \<Longrightarrow> map kf (emit x) = [key x]"
  shows "distinct (map kf (dedup key emit S xs)) \<and> kf ` set (dedup key emit S xs) \<inter> S = {}"
  using assms
proof (induction xs arbitrary: S)
  case (Cons x xs)
  obtain y where y: "emit x = [y]" "kf y = key x" using Cons.prems [of x] by auto
  have "distinct (map kf (dedup key emit T xs)) \<and> kf ` set (dedup key emit T xs) \<inter> T = {}" for T
    by (rule Cons.IH) (use Cons.prems in simp)
  from this [of S] this [of "insert (key x) S"] y show ?case by auto
qed simp

section \<open>Runs of a machine\<close>

text \<open>
  A component with state is a step function over the list of operations it is given.
  \<open>legal_run\<close> says that every operation of a run is legal in the state it meets, for
  operations whose callers owe a precondition.
\<close>

primrec legal_run :: "('s \<Rightarrow> 'a \<Rightarrow> bool) \<Rightarrow> ('s \<Rightarrow> 'a \<Rightarrow> 's) \<Rightarrow> 's \<Rightarrow> 'a list \<Rightarrow> bool" where
  "legal_run legal step s [] = True"
| "legal_run legal step s (a # as) = (legal s a \<and> legal_run legal step (step s a) as)"

lemma legal_run_append:
  "legal_run legal step s (as @ bs) \<longleftrightarrow>
     legal_run legal step s as \<and> legal_run legal step (foldl step s as) bs"
  by (induction as arbitrary: s) auto

lemma legal_run_True [simp]: "legal_run (\<lambda>s a. True) step s as"
  by (induction as arbitrary: s) auto

locale op_machine =
  fixes step :: "'s \<Rightarrow> 'a \<Rightarrow> 's"
    and legal :: "'s \<Rightarrow> 'a \<Rightarrow> bool"
    and inv :: "'s \<Rightarrow> bool"
  assumes step_inv: "inv s \<Longrightarrow> legal s a \<Longrightarrow> inv (step s a)"
begin

lemma run_inv: "inv s \<Longrightarrow> legal_run legal step s as \<Longrightarrow> inv (foldl step s as)"
  by (induction as arbitrary: s) (auto intro: step_inv)

end

locale refining_machine = op_machine step legal inv
  for step :: "'s \<Rightarrow> 'a \<Rightarrow> 's" and legal inv +
  fixes abst :: "'s \<Rightarrow> 't"
    and astep :: "'t \<Rightarrow> 'a \<Rightarrow> 't"
  assumes abs_step: "inv s \<Longrightarrow> legal s a \<Longrightarrow> abst (step s a) = astep (abst s) a"
begin

lemma run_refines:
  "inv s \<Longrightarrow> legal_run legal step s as \<Longrightarrow> abst (foldl step s as) = foldl astep (abst s) as"
  by (induction as arbitrary: s) (simp_all add: abs_step step_inv)

end

section \<open>Tables of connected peers\<close>

text \<open>
  A table maps a key to the object registered last. \<open>add\<close> stores an object the table
  accepts; \<open>del\<close> removes an entry only while it still holds the given object, so that the
  clean-up of a replaced connection does not remove its replacement.
\<close>

locale owner_map =
  fixes lookup :: "'s \<Rightarrow> 'k \<Rightarrow> 'r option"
    and key :: "'p \<Rightarrow> 'k"
    and ref :: "'p \<Rightarrow> 'r"
    and accepts :: "'s \<Rightarrow> 'p \<Rightarrow> bool"
    and add :: "'s \<Rightarrow> 'p \<Rightarrow> 's"
    and del :: "'s \<Rightarrow> 'p \<Rightarrow> 's"
  assumes lookup_add:
      "lookup (add s p) k = (if accepts s p \<and> k = key p then Some (ref p) else lookup s k)"
    and lookup_del:
      "lookup (del s p) k = (if k = key p \<and> lookup s k = Some (ref p) then None else lookup s k)"
begin

lemma del_del: "lookup (del (del s p) p) = lookup (del s p)"
  by (rule ext) (auto simp: lookup_del)

lemma replaced_del:
  assumes "accepts s q" "key p = key q" "ref p \<noteq> ref q"
  shows "lookup (del (add s q) p) = lookup (add s q)"
  using assms by (intro ext) (simp add: lookup_del lookup_add)

lemma late_dels:
  assumes "accepts s q"
    and "\<And>p. p \<in> set ps \<Longrightarrow> key p = key q \<Longrightarrow> ref p \<noteq> ref q"
  shows "lookup (foldl del (add s q) ps) (key q) = Some (ref q)"
proof -
  have "lookup t (key q) = Some (ref q) \<Longrightarrow>
      (\<And>p. p \<in> set ps \<Longrightarrow> key p = key q \<Longrightarrow> ref p \<noteq> ref q) \<Longrightarrow>
      lookup (foldl del t ps) (key q) = Some (ref q)" for t
  proof (induction ps arbitrary: t)
    case (Cons p ps)
    have "lookup (del t p) (key q) = Some (ref q)"
      using Cons.prems(1) Cons.prems(2) [of p] by (auto simp: lookup_del)
    then show ?case using Cons by simp
  qed simp
  moreover have "lookup (add s q) (key q) = Some (ref q)"
    using assms(1) by (simp add: lookup_add)
  ultimately show ?thesis using assms(2) by blast
qed

end

section \<open>Encoders and decoders\<close>

locale codec =
  fixes enc :: "'a \<Rightarrow> 'b"
    and dec :: "'b \<Rightarrow> 'e + 'a"
    and wf :: "'a \<Rightarrow> bool"
  assumes dec_enc: "wf a \<Longrightarrow> dec (enc a) = Inr a"
begin

lemma enc_inj: "wf a \<Longrightarrow> wf b \<Longrightarrow> enc a = enc b \<Longrightarrow> a = b"
  by (metis dec_enc sum.inject(2))

lemma dec_all: "(\<And>a. a \<in> set as \<Longrightarrow> wf a) \<Longrightarrow> map (dec \<circ> enc) as = map Inr as"
  by (simp add: dec_enc)

end

section \<open>Tables of flows\<close>

text \<open>
  A table whose keys come from the operations that open them: no operation adds a key other
  than those it opens. The packet filter lets an inbound packet pass only for a key of such a
  table.
\<close>

locale flow_table =
  fixes step :: "'s \<Rightarrow> 'a \<Rightarrow> 's"
    and keys :: "'s \<Rightarrow> 'k set"
    and opens :: "'a \<Rightarrow> 'k set"
  assumes keys_step: "keys (step s a) \<subseteq> keys s \<union> opens a"
begin

lemma keys_run: "keys (foldl step s as) \<subseteq> keys s \<union> (\<Union>a \<in> set as. opens a)"
proof (induction as arbitrary: s)
  case (Cons a as)
  show ?case using Cons [of "step s a"] keys_step [of s a] by auto
qed simp

lemma opened: "keys s = {} \<Longrightarrow> k \<in> keys (foldl step s as) \<Longrightarrow> \<exists>a \<in> set as. k \<in> opens a"
  using keys_run [of s as] by auto

end

text \<open>
  A table that remembers for every key when it was last used, drops idle keys in sweeps and
  answers whether a key is still in use. When the sweeps run does not matter for the answer.
\<close>

definition sweeps :: "(int \<Rightarrow> 'k list \<Rightarrow> 's \<Rightarrow> 's) \<Rightarrow> 's \<Rightarrow> (int \<times> 'k list) list \<Rightarrow> 's" where
  "sweeps sweep s sw = foldl (\<lambda>s (now, ks). sweep now ks s) s sw"

lemma sweeps_Cons: "sweeps sweep s ((now, ks) # sw) = sweeps sweep (sweep now ks s) sw"
  by (simp add: sweeps_def)

locale idle_table =
  fixes seen :: "'s \<Rightarrow> 'k \<Rightarrow> int option"
    and limit :: "'s \<Rightarrow> int"
    and sweep :: "int \<Rightarrow> 'k list \<Rightarrow> 's \<Rightarrow> 's"
    and valid :: "int \<Rightarrow> 's \<Rightarrow> 'k \<Rightarrow> bool"
  assumes seen_sweep: "seen (sweep now ks s) k = seen s k \<or>
      seen (sweep now ks s) k = None \<and> (\<forall>u. seen s k = Some u \<longrightarrow> limit s < now - u)"
    and limit_sweep: "limit (sweep now ks s) = limit s"
    and valid_iff: "valid now s k \<longleftrightarrow> (\<exists>u. seen s k = Some u \<and> now - u \<le> limit s)"
begin

lemma swept_stays: "seen s k = None \<Longrightarrow> seen (sweeps sweep s sw) k = None"
proof (induction sw arbitrary: s)
  case (Cons a sw)
  obtain now ks where a: "a = (now, ks)" by fastforce
  have "seen (sweep now ks s) k = None" using seen_sweep [of now ks s k] Cons.prems by auto
  with Cons.IH show ?case by (simp add: a sweeps_Cons)
qed (simp add: sweeps_def)

lemma sweeps_seen:
  assumes "seen s k = Some u" and "\<And>t ks. (t, ks) \<in> set sw \<Longrightarrow> t \<le> now"
  shows "limit (sweeps sweep s sw) = limit s \<and>
    (seen (sweeps sweep s sw) k = Some u \<or> seen (sweeps sweep s sw) k = None \<and> limit s < now - u)"
  using assms
proof (induction sw arbitrary: s)
  case (Cons a sw)
  obtain t ks where a: "a = (t, ks)" by fastforce
  have t: "t \<le> now" using Cons.prems(2) [of t ks] a by simp
  consider "seen (sweep t ks s) k = Some u" | "seen (sweep t ks s) k = None" "limit s < t - u"
    using seen_sweep [of t ks s k] Cons.prems(1) by auto
  then show ?case
  proof cases
    case 1
    have "u' \<le> now" if "(u', ks') \<in> set sw" for u' ks' using Cons.prems(2) [of u' ks'] that by simp
    from Cons.IH [OF 1] this limit_sweep show ?thesis by (simp add: a sweeps_Cons)
  next
    case 2
    have "limit (sweeps sweep x sw) = limit x" for x
      by (induction sw arbitrary: x) (auto simp: sweeps_def limit_sweep)
    with 2 t swept_stays [OF 2(1)] limit_sweep show ?thesis by (simp add: a sweeps_Cons)
  qed
qed (simp add: sweeps_def)

lemma window:
  assumes "seen s k = Some u" and "\<And>t ks. (t, ks) \<in> set sw \<Longrightarrow> t \<le> now"
  shows "valid now (sweeps sweep s sw) k \<longleftrightarrow> now - u \<le> limit s"
proof -
  have "limit (sweeps sweep s sw) = limit s \<and>
    (seen (sweeps sweep s sw) k = Some u \<or> seen (sweeps sweep s sw) k = None \<and> limit s < now - u)"
    by (rule sweeps_seen [OF assms(1)]) (rule assms(2))
  then show ?thesis by (auto simp: valid_iff)
qed

end

end
