(* ===== verification/Redis.thy ===== *)
theory Redis
  imports Prelude
begin

text \<open>
  The Redis server and its Go client \<open>github.com/redis/go-redis\<close> are not part of the
  repository. They are a parameter of the model: a record of the commands the servers issue,
  over an abstract server state \<open>'r\<close>. A write command returns the new server state and the
  error of the reply; a read command returns the error or the value. \<open>RedisNil\<close> is
  \<open>redis.Nil\<close>, the error value the client documents for a reply that holds no value;
  \<open>RedisFail\<close> is any other error (connection, timeout, server).

  What the servers rely on is stated as named hypotheses: \<open>hash_laws\<close>, \<open>string_laws\<close>,
  \<open>zset_laws\<close> and \<open>pubsub_laws\<close> relate the commands to the contents of the keys, as the
  command reference documents them; \<open>redis_up\<close> says that no command fails.
  \<open>mem_redis\<close> is a concrete server that satisfies all of them; it shows that the
  hypotheses can hold.
\<close>

datatype redis_err = RedisNil | RedisFail

record 'r redis_api =
  HGet :: "'r \<Rightarrow> string \<Rightarrow> string \<Rightarrow> redis_err + string"
  HSet :: "'r \<Rightarrow> string \<Rightarrow> string \<Rightarrow> string \<Rightarrow> 'r \<times> redis_err option"
  HDel :: "'r \<Rightarrow> string \<Rightarrow> string \<Rightarrow> 'r \<times> redis_err option"
  Expire :: "'r \<Rightarrow> string \<Rightarrow> duration \<Rightarrow> 'r \<times> redis_err option"
  Get :: "'r \<Rightarrow> string \<Rightarrow> redis_err + string"
  SetNX :: "'r \<Rightarrow> string \<Rightarrow> string \<Rightarrow> duration \<Rightarrow> 'r \<times> (redis_err + bool)"
  Del :: "'r \<Rightarrow> string \<Rightarrow> 'r \<times> (redis_err + int)"
  ZAdd :: "'r \<Rightarrow> string \<Rightarrow> int \<Rightarrow> string \<Rightarrow> 'r \<times> redis_err option"
  ZRem :: "'r \<Rightarrow> string \<Rightarrow> string \<Rightarrow> 'r \<times> redis_err option"
  ZRangeByScore :: "'r \<Rightarrow> string \<Rightarrow> int \<Rightarrow> int \<Rightarrow> redis_err + string list"
  Publish :: "'r \<Rightarrow> string \<Rightarrow> string \<Rightarrow> 'r \<times> redis_err option"

section \<open>Documented behaviour\<close>

text \<open>
  \<open>hv r k\<close> is the hash stored at key \<open>k\<close>. A reply without error says what the hash is;
  an acknowledged write has the effect of the command; setting a positive time to live changes
  no contents.
\<close>

definition hash_laws :: "('r, 'z) redis_api_scheme \<Rightarrow> ('r \<Rightarrow> string \<Rightarrow> string \<Rightarrow> string option) \<Rightarrow> bool" where
  "hash_laws api hv \<longleftrightarrow>
     (\<forall>r k f v. HGet api r k f = Inr v \<longrightarrow> hv r k f = Some v) \<and>
     (\<forall>r k f. HGet api r k f = Inl RedisNil \<longrightarrow> hv r k f = None) \<and>
     (\<forall>r k f v. snd (HSet api r k f v) = None \<longrightarrow>
        hv (fst (HSet api r k f v)) = (hv r)(k := (hv r k)(f := Some v))) \<and>
     (\<forall>r k f. snd (HDel api r k f) = None \<longrightarrow>
        hv (fst (HDel api r k f)) = (hv r)(k := (hv r k)(f := None))) \<and>
     (\<forall>r k d. 0 < d \<longrightarrow> hv (fst (Expire api r k d)) = hv r)"

text \<open>
  \<open>sv r k\<close> is the string stored at key \<open>k\<close>. \<open>SET NX\<close> stores only where nothing is. A
  write whose reply is an error (a lost connection) either had its effect or had none.
\<close>

definition string_laws :: "('r, 'z) redis_api_scheme \<Rightarrow> ('r \<Rightarrow> string \<Rightarrow> string option) \<Rightarrow> bool" where
  "string_laws api sv \<longleftrightarrow>
     (\<forall>r k v. Get api r k = Inr v \<longrightarrow> sv r k = Some v) \<and>
     (\<forall>r k. Get api r k = Inl RedisNil \<longrightarrow> sv r k = None) \<and>
     (\<forall>r k v d. snd (SetNX api r k v d) = Inr True \<longrightarrow>
        sv r k = None \<and> sv (fst (SetNX api r k v d)) = (sv r)(k := Some v)) \<and>
     (\<forall>r k v d. snd (SetNX api r k v d) = Inr False \<longrightarrow>
        sv r k \<noteq> None \<and> sv (fst (SetNX api r k v d)) = sv r) \<and>
     (\<forall>r k v d e. snd (SetNX api r k v d) = Inl e \<longrightarrow>
        sv (fst (SetNX api r k v d)) = sv r \<or>
        sv r k = None \<and> sv (fst (SetNX api r k v d)) = (sv r)(k := Some v)) \<and>
     (\<forall>r k n. snd (Del api r k) = Inr n \<longrightarrow> sv (fst (Del api r k)) = (sv r)(k := None)) \<and>
     (\<forall>r k e. snd (Del api r k) = Inl e \<longrightarrow>
        sv (fst (Del api r k)) = sv r \<or> sv (fst (Del api r k)) = (sv r)(k := None)) \<and>
     (\<forall>r k d. 0 < d \<longrightarrow> sv (fst (Expire api r k d)) = sv r)"

text \<open>\<open>zv r k\<close> is the sorted set at key \<open>k\<close>, as the score of each member.\<close>

definition zset_laws :: "('r, 'z) redis_api_scheme \<Rightarrow> ('r \<Rightarrow> string \<Rightarrow> string \<Rightarrow> int option) \<Rightarrow> bool" where
  "zset_laws api zv \<longleftrightarrow>
     (\<forall>r k s m. snd (ZAdd api r k s m) = None \<longrightarrow>
        zv (fst (ZAdd api r k s m)) = (zv r)(k := (zv r k)(m := Some s))) \<and>
     (\<forall>r k m. snd (ZRem api r k m) = None \<longrightarrow>
        zv (fst (ZRem api r k m)) = (zv r)(k := (zv r k)(m := None))) \<and>
     (\<forall>r k lo hi ms. ZRangeByScore api r k lo hi = Inr ms \<longrightarrow>
        distinct ms \<and> set ms = {m. \<exists>s. zv r k m = Some s \<and> lo \<le> s \<and> s \<le> hi})"

text \<open>A command on the string at one key leaves the hashes at the other keys.\<close>

definition frame_laws :: "('r, 'z) redis_api_scheme \<Rightarrow> ('r \<Rightarrow> string \<Rightarrow> string \<Rightarrow> string option) \<Rightarrow> bool" where
  "frame_laws api hv \<longleftrightarrow>
     (\<forall>r k v d k'. k' \<noteq> k \<longrightarrow> hv (fst (SetNX api r k v d)) k' = hv r k') \<and>
     (\<forall>r k k'. k' \<noteq> k \<longrightarrow> hv (fst (Del api r k)) k' = hv r k')"

text \<open>\<open>pv r\<close> lists the published messages, oldest first, as channel and payload.\<close>

definition pubsub_laws :: "('r, 'z) redis_api_scheme \<Rightarrow> ('r \<Rightarrow> (string \<times> string) list) \<Rightarrow> bool" where
  "pubsub_laws api pv \<longleftrightarrow>
     (\<forall>r c p. snd (Publish api r c p) = None \<longrightarrow> pv (fst (Publish api r c p)) = pv r @ [(c, p)])"

definition redis_up :: "('r, 'z) redis_api_scheme \<Rightarrow> bool" where
  "redis_up api \<longleftrightarrow>
     (\<forall>r k f. HGet api r k f \<noteq> Inl RedisFail) \<and>
     (\<forall>r k f v. snd (HSet api r k f v) = None) \<and>
     (\<forall>r k f. snd (HDel api r k f) = None) \<and>
     (\<forall>r k d. snd (Expire api r k d) = None) \<and>
     (\<forall>r k. Get api r k \<noteq> Inl RedisFail) \<and>
     (\<forall>r k v d. \<exists>b. snd (SetNX api r k v d) = Inr b) \<and>
     (\<forall>r k. \<exists>n. snd (Del api r k) = Inr n) \<and>
     (\<forall>r k s m. snd (ZAdd api r k s m) = None) \<and>
     (\<forall>r k m. snd (ZRem api r k m) = None) \<and>
     (\<forall>r k lo hi. \<exists>ms. ZRangeByScore api r k lo hi = Inr ms) \<and>
     (\<forall>r c p. snd (Publish api r c p) = None)"

lemma hash_lawsD:
  assumes "hash_laws api hv"
  shows "HGet api r k f = Inr v \<Longrightarrow> hv r k f = Some v"
    and "HGet api r k f = Inl RedisNil \<Longrightarrow> hv r k f = None"
    and "snd (HSet api r k f v) = None \<Longrightarrow>
      hv (fst (HSet api r k f v)) = (hv r)(k := (hv r k)(f := Some v))"
    and "snd (HDel api r k f) = None \<Longrightarrow>
      hv (fst (HDel api r k f)) = (hv r)(k := (hv r k)(f := None))"
    and "0 < d \<Longrightarrow> hv (fst (Expire api r k d)) = hv r"
  using assms unfolding hash_laws_def by blast+

lemma string_lawsD:
  assumes "string_laws api sv"
  shows "Get api r k = Inr v \<Longrightarrow> sv r k = Some v"
    and "Get api r k = Inl RedisNil \<Longrightarrow> sv r k = None"
    and "snd (SetNX api r k v d) = Inr True \<Longrightarrow>
      sv r k = None \<and> sv (fst (SetNX api r k v d)) = (sv r)(k := Some v)"
    and "snd (SetNX api r k v d) = Inr False \<Longrightarrow>
      sv r k \<noteq> None \<and> sv (fst (SetNX api r k v d)) = sv r"
    and "snd (SetNX api r k v d) = Inl e \<Longrightarrow>
      sv (fst (SetNX api r k v d)) = sv r \<or>
      sv r k = None \<and> sv (fst (SetNX api r k v d)) = (sv r)(k := Some v)"
    and "sv (fst (Del api r k)) = sv r \<or> sv (fst (Del api r k)) = (sv r)(k := None)"
    and "0 < d \<Longrightarrow> sv (fst (Expire api r k d)) = sv r"
proof -
  show "sv (fst (Del api r k)) = sv r \<or> sv (fst (Del api r k)) = (sv r)(k := None)"
    using assms by (cases "snd (Del api r k)") (simp_all add: string_laws_def)
qed (use assms in \<open>simp_all add: string_laws_def\<close>)

lemma redis_upD:
  assumes "redis_up api"
  shows "HGet api r k f \<noteq> Inl RedisFail"
    and "snd (HSet api r k f v) = None"
    and "snd (HDel api r k f) = None"
    and "snd (Expire api r k d) = None"
    and "Get api r k \<noteq> Inl RedisFail"
    and "\<exists>b. snd (SetNX api r k v d) = Inr b"
    and "\<exists>n. snd (Del api r k) = Inr n"
    and "snd (ZAdd api r k sc m) = None"
    and "snd (ZRem api r k m) = None"
    and "\<exists>ms. ZRangeByScore api r k lo hi = Inr ms"
    and "snd (Publish api r c pl) = None"
  using assms by (simp_all add: redis_up_def)

text \<open>With Redis reachable every command is its documented effect.\<close>

lemma HSet_up:
  assumes "hash_laws api hv" and "redis_up api"
  obtains r' where "HSet api r k f v = (r', None)"
    and "hv r' = (hv r)(k := (hv r k)(f := Some v))"
  using hash_lawsD(3) [OF assms(1) redis_upD(2) [OF assms(2)]] redis_upD(2) [OF assms(2), of r k f v]
  by (metis prod.collapse)

lemma HDel_up:
  assumes "hash_laws api hv" and "redis_up api"
  obtains r' where "HDel api r k f = (r', None)"
    and "hv r' = (hv r)(k := (hv r k)(f := None))"
  using hash_lawsD(4) [OF assms(1) redis_upD(3) [OF assms(2)]] redis_upD(3) [OF assms(2), of r k f]
  by (metis prod.collapse)

lemma Expire_up:
  assumes "redis_up api"
  obtains r' where "Expire api r k d = (r', None)"
    and "\<And>hv. hash_laws api hv \<Longrightarrow> 0 < d \<Longrightarrow> hv r' = hv r"
    and "\<And>sv. string_laws api sv \<Longrightarrow> 0 < d \<Longrightarrow> sv r' = sv r"
proof
  show "Expire api r k d = (fst (Expire api r k d), None)"
    using redis_upD(4) [OF assms] by (metis prod.collapse)
qed (simp_all add: hash_lawsD(5) string_lawsD(7))

lemma Del_up:
  assumes "string_laws api sv" and "redis_up api"
  obtains r' n where "Del api r k = (r', Inr n)" and "sv r' = (sv r)(k := None)"
proof -
  obtain n where n: "snd (Del api r k) = Inr n" using redis_upD(7) [OF assms(2)] by blast
  then have "sv (fst (Del api r k)) = (sv r)(k := None)"
    using assms(1) by (simp add: string_laws_def)
  with n that show ?thesis by (metis prod.collapse)
qed

lemma Publish_up:
  assumes "pubsub_laws api pv" and "redis_up api"
  obtains r' where "Publish api r c p = (r', None)" and "pv r' = pv r @ [(c, p)]"
  using assms redis_upD(11) [OF assms(2), of r c p] unfolding pubsub_laws_def
  by (metis prod.collapse)

lemma HGet_up:
  assumes "hash_laws api hv" and "redis_up api"
  shows "HGet api r k f = (case hv r k f of Some v \<Rightarrow> Inr v | None \<Rightarrow> Inl RedisNil)"
proof (cases "HGet api r k f")
  case (Inl e)
  then have "e = RedisNil" using assms(2) unfolding redis_up_def by (metis redis_err.exhaust)
  with Inl show ?thesis using hash_lawsD(2) [OF assms(1)] by simp
next
  case (Inr v)
  then show ?thesis using hash_lawsD(1) [OF assms(1)] by simp
qed

lemma Get_up:
  assumes "string_laws api sv" and "redis_up api"
  shows "Get api r k = (case sv r k of Some v \<Rightarrow> Inr v | None \<Rightarrow> Inl RedisNil)"
proof (cases "Get api r k")
  case (Inl e)
  then have "e = RedisNil" using assms(2) unfolding redis_up_def by (metis redis_err.exhaust)
  with Inl show ?thesis using string_lawsD(2) [OF assms(1)] by simp
next
  case (Inr v)
  then show ?thesis using string_lawsD(1) [OF assms(1)] by simp
qed

section \<open>A server in memory\<close>

record mem_server =
  mem_hash :: "string \<Rightarrow> string \<Rightarrow> string option"
  mem_str :: "string \<Rightarrow> string option"
  mem_zset :: "string \<Rightarrow> (string \<times> int) list"
  mem_pub :: "(string \<times> string) list"

definition empty_server :: mem_server where
  "empty_server = \<lparr>mem_hash = (\<lambda>k f. None), mem_str = (\<lambda>k. None), mem_zset = (\<lambda>k. []), mem_pub = []\<rparr>"

definition mem_zdel :: "string \<Rightarrow> (string \<times> int) list \<Rightarrow> (string \<times> int) list" where
  "mem_zdel m xs = filter (\<lambda>x. fst x \<noteq> m) xs"

definition mem_redis :: "mem_server redis_api" where
  "mem_redis =
     \<lparr>HGet = (\<lambda>r k f. case mem_hash r k f of Some v \<Rightarrow> Inr v | None \<Rightarrow> Inl RedisNil),
      HSet = (\<lambda>r k f v. (r\<lparr>mem_hash := (mem_hash r)(k := (mem_hash r k)(f := Some v))\<rparr>, None)),
      HDel = (\<lambda>r k f. (r\<lparr>mem_hash := (mem_hash r)(k := (mem_hash r k)(f := None))\<rparr>, None)),
      Expire = (\<lambda>r k d. (if 0 < d then r
        else r\<lparr>mem_hash := (mem_hash r)(k := (\<lambda>f. None)), mem_str := (mem_str r)(k := None)\<rparr>, None)),
      Get = (\<lambda>r k. case mem_str r k of Some v \<Rightarrow> Inr v | None \<Rightarrow> Inl RedisNil),
      SetNX = (\<lambda>r k v d. if mem_str r k = None
                 then (r\<lparr>mem_str := (mem_str r)(k := Some v)\<rparr>, Inr True) else (r, Inr False)),
      Del = (\<lambda>r k. (r\<lparr>mem_str := (mem_str r)(k := None)\<rparr>,
                    Inr (if mem_str r k = None then 0 else 1))),
      ZAdd = (\<lambda>r k s m. (r\<lparr>mem_zset := (mem_zset r)(k := (m, s) # mem_zdel m (mem_zset r k))\<rparr>, None)),
      ZRem = (\<lambda>r k m. (r\<lparr>mem_zset := (mem_zset r)(k := mem_zdel m (mem_zset r k))\<rparr>, None)),
      ZRangeByScore = (\<lambda>r k lo hi.
        Inr (remdups (map fst (filter (\<lambda>x. map_of (mem_zset r k) (fst x) = Some (snd x) \<and>
                                           lo \<le> snd x \<and> snd x \<le> hi) (mem_zset r k))))),
      Publish = (\<lambda>r c p. (r\<lparr>mem_pub := mem_pub r @ [(c, p)]\<rparr>, None))\<rparr>"

lemma map_of_mem_zdel: "map_of (mem_zdel m xs) = (map_of xs)(m := None)"
  by (induction xs) (auto simp: mem_zdel_def)

lemma mem_hash_laws: "hash_laws mem_redis mem_hash"
  by (auto simp: hash_laws_def mem_redis_def split: option.splits)

lemma mem_string_laws: "string_laws mem_redis mem_str"
  by (auto simp: string_laws_def mem_redis_def split: option.splits if_splits)

lemma mem_zset_laws: "zset_laws mem_redis (\<lambda>r k. map_of (mem_zset r k))"
proof -
  have "set (remdups (map fst (filter (\<lambda>x. map_of zs (fst x) = Some (snd x) \<and> lo \<le> snd x \<and> snd x \<le> hi) zs)))
      = {m. \<exists>s. map_of zs m = Some s \<and> lo \<le> s \<and> s \<le> hi}" for zs :: "(string \<times> int) list" and lo hi
    by (force dest: map_of_SomeD)
  then show ?thesis
    by (auto simp: zset_laws_def mem_redis_def map_of_mem_zdel fun_eq_iff)
qed

lemma mem_frame_laws: "frame_laws mem_redis mem_hash"
  by (simp add: frame_laws_def mem_redis_def)

lemma mem_pubsub_laws: "pubsub_laws mem_redis mem_pub"
  by (simp add: pubsub_laws_def mem_redis_def)

lemma mem_redis_up: "redis_up mem_redis"
  by (auto simp: redis_up_def mem_redis_def split: option.split)

end
