(* ===== verification/GoLib.thy ===== *)
theory GoLib
  imports Prelude "HOL-Library.Multiset"
begin

text \<open>
  The part of Go's standard library the modelled code calls: functions of the packages
  \<open>strings\<close>, \<open>strconv\<close>, \<open>encoding/hex\<close> and \<open>slices\<close>. A Go string is a byte
  sequence and is modelled as a list of \<^typ>\<open>char\<close>. Case conversion is modelled on ASCII
  letters, which is what the callers feed it (DNS names, country codes); bytes above 127
  are left alone.
\<close>

section \<open>Package strings\<close>

definition HasPrefix :: "string \<Rightarrow> string \<Rightarrow> bool" where
  "HasPrefix s p = (take (length p) s = p)"

definition HasSuffix :: "string \<Rightarrow> string \<Rightarrow> bool" where
  "HasSuffix s p = (length p \<le> length s \<and> drop (length s - length p) s = p)"

definition TrimPrefix :: "string \<Rightarrow> string \<Rightarrow> string" where
  "TrimPrefix s p = (if HasPrefix s p then drop (length p) s else s)"

definition TrimSuffix :: "string \<Rightarrow> string \<Rightarrow> string" where
  "TrimSuffix s p = (if HasSuffix s p then take (length s - length p) s else s)"

text \<open>\<open>strings.Split\<close> with a separator of one byte.\<close>

fun Split :: "string \<Rightarrow> char \<Rightarrow> string list" where
  "Split [] c = [[]]"
| "Split (x # xs) c =
     (if x = c then [] # Split xs c
      else (case Split xs c of [] \<Rightarrow> [[x]] | y # ys \<Rightarrow> (x # y) # ys))"

text \<open>\<open>strings.SplitN\<close> with a separator of one byte and at most two parts.\<close>

definition SplitN2 :: "string \<Rightarrow> char \<Rightarrow> string list" where
  "SplitN2 s c =
     (case dropWhile (\<lambda>x. x \<noteq> c) s of
        [] \<Rightarrow> [s]
      | _ # rest \<Rightarrow> [takeWhile (\<lambda>x. x \<noteq> c) s, rest])"

definition lower_char :: "char \<Rightarrow> char" where
  "lower_char c = (let n = (of_char c :: nat) in if 65 \<le> n \<and> n \<le> 90 then char_of (n + 32) else c)"

definition upper_char :: "char \<Rightarrow> char" where
  "upper_char c = (let n = (of_char c :: nat) in if 97 \<le> n \<and> n \<le> 122 then char_of (n - 32) else c)"

definition ToLower :: "string \<Rightarrow> string" where
  "ToLower s = map lower_char s"

definition ToUpper :: "string \<Rightarrow> string" where
  "ToUpper s = map upper_char s"

definition EqualFold :: "string \<Rightarrow> string \<Rightarrow> bool" where
  "EqualFold s t = (ToLower s = ToLower t)"

section \<open>Numbers as text\<close>

definition digit_char :: "nat \<Rightarrow> char" where
  "digit_char d = char_of (if d < 10 then 48 + d else 87 + d)"

fun itoa :: "nat \<Rightarrow> string" where
  "itoa n = (if n < 10 then [digit_char n] else itoa (n div 10) @ [digit_char (n mod 10)])"

declare itoa.simps [simp del]

definition FormatInt :: "int \<Rightarrow> string" where
  "FormatInt i = (if i < 0 then CHR ''-'' # itoa (nat (- i)) else itoa (nat i))"

text \<open>\<open>strconv.ParseInt\<close> in base 10 and 64 bits.\<close>

fun parse_digits :: "string \<Rightarrow> nat \<Rightarrow> nat option" where
  "parse_digits [] acc = Some acc"
| "parse_digits (c # cs) acc =
     (let d = (of_char c :: nat) in
      if 48 \<le> d \<and> d \<le> 57 then parse_digits cs (10 * acc + (d - 48)) else None)"

definition ParseInt :: "string \<Rightarrow> int option" where
  "ParseInt s =
     (case s of
        [] \<Rightarrow> None
      | c # cs \<Rightarrow>
          let neg = (c = CHR ''-''); ds = (if c = CHR ''-'' \<or> c = CHR ''+'' then cs else s) in
          if ds = [] then None
          else (case parse_digits ds 0 of
                  None \<Rightarrow> None
                | Some n \<Rightarrow>
                    let v = (if neg then - int n else int n) in
                    if - (2 ^ 63) \<le> v \<and> v < 2 ^ 63 then Some v else None))"

text \<open>The conversions between \<open>string\<close> and \<open>[]byte\<close>.\<close>

definition bytes_of :: "string \<Rightarrow> bytes" where
  "bytes_of s = map (\<lambda>c. word_of_nat (of_char c)) s"

definition string_of :: "bytes \<Rightarrow> string" where
  "string_of bs = map (\<lambda>b. char_of (unat b)) bs"

definition hex_byte :: "byte \<Rightarrow> string" where
  "hex_byte b = [digit_char (unat b div 16), digit_char (unat b mod 16)]"

definition hex_bytes :: "bytes \<Rightarrow> string" where
  "hex_bytes bs = concat (map hex_byte bs)"

section \<open>Package net/netip\<close>

text \<open>An address: the zero \<open>Addr\<close>, an IPv4 address, or an IPv6 address with its zone.\<close>

datatype Addr = NoAddr | Addr4 "32 word" | Addr6 "128 word" string

section \<open>Iteration over maps\<close>

text \<open>
  The iteration over a map is a function \<open>iter\<close> from a list of its keys to the keys in the order in which
  they are visited; Go promises that every key is visited once.
\<close>

definition iteration :: "('a list \<Rightarrow> 'a list) \<Rightarrow> bool" where
  "iteration iter \<longleftrightarrow> (\<forall>xs. mset (iter xs) = mset xs)"

section \<open>Lemmas\<close>

lemma iteration_mset: "iteration iter \<Longrightarrow> mset (iter xs) = mset xs"
  by (simp add: iteration_def)

lemma iteration_set [simp]: "iteration iter \<Longrightarrow> set (iter xs) = set xs"
  by (metis iteration_mset set_mset_mset)

lemma iteration_distinct [simp]: "iteration iter \<Longrightarrow> distinct (iter xs) = distinct xs"
  by (metis iteration_mset mset_eq_imp_distinct_iff)

lemma iteration_id [simp]: "iteration (\<lambda>xs. xs)"
  by (simp add: iteration_def)

lemma iteration_rev [simp]: "iteration rev"
  by (simp add: iteration_def)

lemma HasPrefix_append [simp]: "HasPrefix (p @ s) p"
  by (simp add: HasPrefix_def)

lemma TrimPrefix_append [simp]: "TrimPrefix (p @ s) p = s"
  by (simp add: TrimPrefix_def)

lemma HasPrefix_iff: "HasPrefix s p \<longleftrightarrow> (\<exists>t. s = p @ t)"
  by (metis HasPrefix_append HasPrefix_def append_take_drop_id)

lemma HasSuffix_iff: "HasSuffix s p \<longleftrightarrow> (\<exists>t. s = t @ p)"
proof
  assume "HasSuffix s p"
  then have "s = take (length s - length p) s @ p"
    unfolding HasSuffix_def by (metis append_take_drop_id)
  then show "\<exists>t. s = t @ p" ..
qed (auto simp: HasSuffix_def)

lemma TrimSuffix_append [simp]: "TrimSuffix (s @ p) p = s"
  by (simp add: TrimSuffix_def HasSuffix_def)

lemma Split_nonempty [simp]: "Split s c \<noteq> []"
  by (induction s) (auto split: list.splits)

lemma length_Split: "length (Split s c) = Suc (count_list s c)"
proof (induction s)
  case (Cons x s)
  then show ?case by (cases "Split s c") auto
qed simp

lemma SplitN2_join:
  assumes "c \<notin> set a"
  shows "SplitN2 (a @ c # b) c = [a, b]"
proof -
  have *: "\<And>x. x \<in> set a \<Longrightarrow> x \<noteq> c" using assms by blast
  have "dropWhile (\<lambda>x. x \<noteq> c) (a @ c # b) = c # b"
    using * by (subst dropWhile_append2) auto
  moreover have "takeWhile (\<lambda>x. x \<noteq> c) (a @ c # b) = a"
    using * by (subst takeWhile_append2) auto
  ultimately show ?thesis by (simp add: SplitN2_def)
qed

lemma SplitN2_parts:
  assumes "SplitN2 s c = [a, b]"
  shows "s = a @ c # b" and "c \<notin> set a"
proof -
  from assms obtain x where d: "dropWhile (\<lambda>x. x \<noteq> c) s = x # b"
    and a: "a = takeWhile (\<lambda>x. x \<noteq> c) s"
    by (auto simp: SplitN2_def split: list.splits)
  from d have "x = c" using hd_dropWhile [of "\<lambda>x. x \<noteq> c" s] by simp
  with d a show "s = a @ c # b" by (metis takeWhile_dropWhile_id)
  show "c \<notin> set a" unfolding a by (auto dest: set_takeWhileD)
qed

lemma SplitN2_length: "length (SplitN2 s c) = (if c \<in> set s then 2 else 1)"
proof (cases "c \<in> set s")
  case True
  then have "dropWhile (\<lambda>x. x \<noteq> c) s \<noteq> []" by (auto simp: dropWhile_eq_Nil_conv)
  then show ?thesis using True by (auto simp: SplitN2_def split: list.splits)
next
  case False
  then have *: "dropWhile (\<lambda>x. x \<noteq> c) s = []" by (auto simp: dropWhile_eq_Nil_conv)
  show ?thesis unfolding SplitN2_def * using False by simp
qed

lemma lower_char_idem [simp]: "lower_char (lower_char c) = lower_char c"
  by (simp add: lower_char_def Let_def)

lemma ToLower_idem [simp]: "ToLower (ToLower s) = ToLower s"
  by (simp add: ToLower_def)

lemma ToLower_append [simp]: "ToLower (s @ t) = ToLower s @ ToLower t"
  by (simp add: ToLower_def)

lemma EqualFold_refl [simp]: "EqualFold s s"
  by (simp add: EqualFold_def)

lemma EqualFold_ToLower [simp]: "EqualFold (ToLower s) t = EqualFold s t" "EqualFold s (ToLower t) = EqualFold s t"
  by (simp_all add: EqualFold_def)

lemma itoa_nonempty [simp]: "itoa n \<noteq> []"
  by (subst itoa.simps) simp

lemma length_hex_bytes [simp]: "length (hex_bytes bs) = 2 * length bs"
  by (induction bs) (auto simp: hex_bytes_def hex_byte_def)

lemma string_of_bytes_of [simp]: "string_of (bytes_of s) = s"
proof -
  have "unat (word_of_nat (of_char c) :: byte) = of_char c" for c :: char
    by (simp add: unsigned_of_nat take_bit_nat_eq_self of_char_of)
  then show ?thesis by (simp add: string_of_def bytes_of_def comp_def)
qed

lemma length_bytes_of [simp]: "length (bytes_of s) = length s"
  by (simp add: bytes_of_def)

lemma parse_digits_append:
  "parse_digits (xs @ ys) acc = Option.bind (parse_digits xs acc) (parse_digits ys)"
  by (induction xs acc rule: parse_digits.induct) (simp_all add: Let_def)

lemma of_digit_char: "d < 10 \<Longrightarrow> (of_char (digit_char d) :: nat) = 48 + d"
  by (simp add: digit_char_def)

lemma parse_digits_itoa: "parse_digits (itoa n) 0 = Some n"
proof (induction n rule: itoa.induct)
  case (1 n)
  show ?case
  proof (cases "n < 10")
    case True
    then show ?thesis by (subst itoa.simps) (simp add: of_digit_char)
  next
    case False
    with 1 show ?thesis by (subst itoa.simps) (simp add: parse_digits_append of_digit_char)
  qed
qed

lemma itoa_digits: "c \<in> set (itoa n) \<Longrightarrow> 48 \<le> (of_char c :: nat) \<and> (of_char c :: nat) \<le> 57"
proof (induction n rule: itoa.induct)
  case (1 n)
  then show ?case
    using itoa.simps [of n] by (auto simp: of_digit_char split: if_splits)
qed

lemma ParseInt_FormatInt:
  assumes "- (2 ^ 63) \<le> i" and "i < 2 ^ 63"
  shows "ParseInt (FormatInt i) = Some i"
proof -
  obtain c cs where c: "itoa (nat i) = c # cs" using itoa_nonempty by (cases "itoa (nat i)") auto
  have "48 \<le> (of_char c :: nat)" using itoa_digits [of c "nat i"] c by simp
  then have sgn: "c \<noteq> CHR ''-''" "c \<noteq> CHR ''+''" by auto
  have "parse_digits (c # cs) 0 = Some (nat i)" using parse_digits_itoa [of "nat i"] c by simp
  then have "0 \<le> i \<Longrightarrow> ?thesis"
    using assms sgn c by (simp add: ParseInt_def FormatInt_def Let_def del: parse_digits.simps)
  moreover have "i < 0 \<Longrightarrow> ?thesis"
    using assms by (simp add: ParseInt_def FormatInt_def Let_def parse_digits_itoa)
  ultimately show ?thesis by linarith
qed

lemma length_itoa: "10 ^ k \<le> n \<Longrightarrow> k < length (itoa n)"
proof (induction n arbitrary: k rule: itoa.induct)
  case (1 n)
  show ?case
  proof (cases k)
    case (Suc j)
    with 1(2) have "10 ^ j \<le> n div 10" by (simp add: less_eq_div_iff_mult_less_eq mult.commute)
    moreover have "10 * 1 \<le> 10 * (10::nat) ^ j" by (rule mult_le_mono2) simp
    then have "\<not> n < 10" using 1(2) Suc by (simp only: power_Suc)
    ultimately show ?thesis using 1(1) Suc by (subst itoa.simps) simp
  qed simp
qed

lemma length_itoa_le: "n < 10 ^ Suc k \<Longrightarrow> length (itoa n) \<le> Suc k"
proof (induction n arbitrary: k rule: itoa.induct)
  case (1 n)
  show ?case
  proof (cases "n < 10")
    case False
    with 1(2) obtain j where j: "k = Suc j" by (cases k) auto
    with 1(2) have "n div 10 < 10 ^ Suc j" by (simp add: less_mult_imp_div_less mult.commute)
    from 1(1) [OF False this] False j show ?thesis by (subst itoa.simps) simp
  qed (subst itoa.simps, simp)
qed

lemma length_FormatInt: "0 \<le> i \<Longrightarrow> i < 2 ^ 63 \<Longrightarrow> length (FormatInt i) \<le> 19"
  using length_itoa_le [of "nat i" 18] by (simp add: FormatInt_def nat_less_iff)

end
