(* ===== verification/HAConfiguration.thy ===== *)
theory HAConfiguration
  imports GoLib
begin

text \<open>
  The configuration of the high-availability mode: \<open>shared/distributed/config.go\<close> and
  \<open>redis.go\<close> (the part shared by the servers), \<open>signal/server/config.go\<close> and
  \<open>management/server/distributed/config.go\<close> (the extensions of the two servers).
  Go struct embedding is record extension. \<open>Validate\<close> has a pointer receiver: it returns
  the possibly changed configuration beside its error. The environment
  (\<open>os.Getenv\<close>), the random source and the clock are arguments.
\<close>

unbundle bit_operations_syntax

section \<open>shared/distributed/config.go\<close>

definition MaxTimeout :: duration where
  "MaxTimeout = 30 * second"

record HAConfig =
  Enabled :: bool
  RedisAddress :: string
  RedisPassword :: string
  RedisDB :: int
  DialTimeout :: duration
  ReadTimeout :: duration
  WriteTimeout :: duration
  PoolSize :: int
  MaxIdleConns :: int
  MinIdleConns :: int
  ConnMaxLifetime :: duration
  TLSEnabled :: bool
  InstanceID :: string

datatype config_error =
    RedisAddressRequired
  | DialTimeoutExceeds duration
  | ReadTimeoutExceeds duration
  | WriteTimeoutExceeds duration

definition DefaultHAConfig :: HAConfig where
  "DefaultHAConfig =
     \<lparr>Enabled = False, RedisAddress = ''localhost:6379'', RedisPassword = '''', RedisDB = 0,
      DialTimeout = 5 * second, ReadTimeout = 3 * second, WriteTimeout = 3 * second,
      PoolSize = 10, MaxIdleConns = 5, MinIdleConns = 1, ConnMaxLifetime = hour,
      TLSEnabled = False, InstanceID = ''''\<rparr>"

text \<open>\<open>rnd\<close> is what the random source delivers, \<^const>\<open>None\<close> when it fails.\<close>

definition generateUUID :: "bytes option \<Rightarrow> time \<Rightarrow> string" where
  "generateUUID rnd now =
     (case rnd of
        None \<Rightarrow> ''auto-'' @ FormatInt now
      | Some b0 \<Rightarrow>
          let b1 = b0[6 := (b0 ! 6 AND 0x0f) OR 0x40];
              b = b1[8 := (b1 ! 8 AND 0x3f) OR 0x80]
          in hex_bytes (take 4 b) @ ''-'' @ hex_bytes (take 2 (drop 4 b)) @ ''-'' @
             hex_bytes (take 2 (drop 6 b)) @ ''-'' @ hex_bytes (take 2 (drop 8 b)) @ ''-'' @
             hex_bytes (take 6 (drop 10 b)))"

definition DetectInstanceID ::
    "(string \<Rightarrow> string) \<Rightarrow> bytes option \<Rightarrow> time \<Rightarrow> string \<Rightarrow> string" where
  "DetectInstanceID getenv rnd now cfgValue =
     (if cfgValue \<noteq> '''' then cfgValue
      else if getenv ''NB_HA_INSTANCE_ID'' \<noteq> '''' then getenv ''NB_HA_INSTANCE_ID''
      else generateUUID rnd now)"

definition orDefault :: "int \<Rightarrow> int \<Rightarrow> int" where
  "orDefault v d = (if v \<le> 0 then d else v)"

definition HAConfig_Validate ::
    "(string \<Rightarrow> string) \<Rightarrow> bytes option \<Rightarrow> time \<Rightarrow> 'a HAConfig_scheme \<Rightarrow>
     'a HAConfig_scheme \<times> config_error option" where
  "HAConfig_Validate getenv rnd now c =
     (if \<not> Enabled c then (c, None)
      else if RedisAddress c = '''' then (c, Some RedisAddressRequired)
      else
        let c = c\<lparr>DialTimeout := orDefault (DialTimeout c) (5 * second)\<rparr> in
        if DialTimeout c > MaxTimeout then (c, Some (DialTimeoutExceeds (DialTimeout c))) else
        let c = c\<lparr>ReadTimeout := orDefault (ReadTimeout c) (3 * second)\<rparr> in
        if ReadTimeout c > MaxTimeout then (c, Some (ReadTimeoutExceeds (ReadTimeout c))) else
        let c = c\<lparr>WriteTimeout := orDefault (WriteTimeout c) (3 * second)\<rparr> in
        if WriteTimeout c > MaxTimeout then (c, Some (WriteTimeoutExceeds (WriteTimeout c))) else
        let c = c\<lparr>PoolSize := orDefault (PoolSize c) 10\<rparr>;
            c = c\<lparr>MaxIdleConns := if MaxIdleConns c < 0 then 5 else MaxIdleConns c\<rparr>;
            c = c\<lparr>MinIdleConns := if MinIdleConns c < 0 then 1 else MinIdleConns c\<rparr>;
            c = c\<lparr>MinIdleConns := if MinIdleConns c > MaxIdleConns c then MaxIdleConns c
                                  else MinIdleConns c\<rparr>;
            c = c\<lparr>ConnMaxLifetime := orDefault (ConnMaxLifetime c) hour\<rparr>;
            c = c\<lparr>InstanceID := DetectInstanceID getenv rnd now (InstanceID c)\<rparr>
        in (c, None))"

definition HAConfig_IsEnabled :: "'a HAConfig_scheme option \<Rightarrow> bool" where
  "HAConfig_IsEnabled c = (case c of None \<Rightarrow> False | Some c \<Rightarrow> Enabled c)"

text \<open>
  The loop of \<open>SanitizeRedisKey\<close> runs over the runes of the key. All runes it replaces
  are ASCII, so on a valid UTF-8 key it is the same replacement byte by byte.
\<close>

definition redis_meta :: "char set" where
  "redis_meta = {CHR '':'', CHR ''*'', CHR ''?'', CHR ''['', CHR 0x5C, CHR 0x0A, CHR 0x0D}"

definition SanitizeRedisKey :: "string \<Rightarrow> string" where
  "SanitizeRedisKey k = map (\<lambda>r. if r \<in> redis_meta then CHR ''_'' else r) k"

section \<open>shared/distributed/redis.go\<close>

record redis_options =
  opt_Addr :: string
  opt_Password :: string
  opt_DB :: int
  opt_DialTimeout :: duration
  opt_ReadTimeout :: duration
  opt_WriteTimeout :: duration
  opt_PoolSize :: int
  opt_MaxIdleConns :: int
  opt_MinIdleConns :: int
  opt_ConnMaxLifetime :: duration
  opt_TLS :: bool

record Client =
  client_options :: redis_options
  client_config :: HAConfig

datatype client_error = HANotEnabled | InvalidHAConfig config_error | PingFailed string

text \<open>\<open>ping\<close> says whether the server at the given options answers within the dial timeout.\<close>

definition NewClient ::
    "(string \<Rightarrow> string) \<Rightarrow> bytes option \<Rightarrow> time \<Rightarrow> (redis_options \<Rightarrow> bool) \<Rightarrow> HAConfig \<Rightarrow>
     client_error + Client" where
  "NewClient getenv rnd now ping cfg =
     (if \<not> Enabled cfg then Inl HANotEnabled
      else case HAConfig_Validate getenv rnd now cfg of
        (cfg, Some e) \<Rightarrow> Inl (InvalidHAConfig e)
      | (cfg, None) \<Rightarrow>
          let opts =
            \<lparr>opt_Addr = RedisAddress cfg, opt_Password = RedisPassword cfg, opt_DB = RedisDB cfg,
             opt_DialTimeout = DialTimeout cfg, opt_ReadTimeout = ReadTimeout cfg,
             opt_WriteTimeout = WriteTimeout cfg, opt_PoolSize = PoolSize cfg,
             opt_MaxIdleConns = MaxIdleConns cfg, opt_MinIdleConns = MinIdleConns cfg,
             opt_ConnMaxLifetime = ConnMaxLifetime cfg, opt_TLS = TLSEnabled cfg\<rparr>
          in if \<not> ping opts then Inl (PingFailed (RedisAddress cfg))
             else Inr \<lparr>client_options = opts, client_config = cfg\<rparr>)"

definition Client_InstanceID :: "Client \<Rightarrow> string" where
  "Client_InstanceID c = InstanceID (client_config c)"

section \<open>signal/server/config.go\<close>

record SignalHAConfig = HAConfig +
  RegistryKey :: string
  ChannelPrefix :: string
  sig_PeerTTL :: duration
  sig_HeartbeatInterval :: duration
  SendTimeout :: duration
  Secret :: string

definition DefaultSignalHAConfig :: SignalHAConfig where
  "DefaultSignalHAConfig =
     (let d = DefaultHAConfig in
        \<lparr>Enabled = Enabled d, RedisAddress = RedisAddress d, RedisPassword = RedisPassword d,
         RedisDB = RedisDB d, DialTimeout = DialTimeout d, ReadTimeout = ReadTimeout d,
         WriteTimeout = WriteTimeout d, PoolSize = PoolSize d, MaxIdleConns = MaxIdleConns d,
         MinIdleConns = MinIdleConns d, ConnMaxLifetime = ConnMaxLifetime d,
         TLSEnabled = TLSEnabled d, InstanceID = InstanceID d,
         RegistryKey = ''nb:signal:registry'', ChannelPrefix = ''nb:signal:instance:'',
        sig_PeerTTL = 30 * second, sig_HeartbeatInterval = 10 * second,
        SendTimeout = 10 * second, Secret = ''''\<rparr>)"

definition SignalHAConfig_Validate ::
    "(string \<Rightarrow> string) \<Rightarrow> bytes option \<Rightarrow> time \<Rightarrow> SignalHAConfig \<Rightarrow>
     SignalHAConfig \<times> config_error option" where
  "SignalHAConfig_Validate getenv rnd now c =
     (case HAConfig_Validate getenv rnd now c of
        (c, Some e) \<Rightarrow> (c, Some e)
      | (c, None) \<Rightarrow>
          if \<not> Enabled c then (c, None)
          else
            (c\<lparr>RegistryKey := if RegistryKey c = '''' then ''nb:signal:registry'' else RegistryKey c,
               ChannelPrefix := if ChannelPrefix c = '''' then ''nb:signal:instance:''
                                else ChannelPrefix c,
               sig_PeerTTL := orDefault (sig_PeerTTL c) (30 * second),
               sig_HeartbeatInterval := orDefault (sig_HeartbeatInterval c) (10 * second),
               SendTimeout := orDefault (SendTimeout c) (10 * second)\<rparr>, None))"

section \<open>management/server/distributed/config.go\<close>

record ManagementHAConfig = HAConfig +
  PeersRegistryKey :: string
  AccountChannelPrefix :: string
  LockPrefix :: string
  LoginFilterKey :: string
  EphemeralKey :: string
  mgmt_PeerTTL :: duration
  mgmt_HeartbeatInterval :: duration
  LockTTL :: duration

definition DefaultManagementHAConfig :: ManagementHAConfig where
  "DefaultManagementHAConfig =
     (let d = DefaultHAConfig in
        \<lparr>Enabled = Enabled d, RedisAddress = RedisAddress d, RedisPassword = RedisPassword d,
         RedisDB = RedisDB d, DialTimeout = DialTimeout d, ReadTimeout = ReadTimeout d,
         WriteTimeout = WriteTimeout d, PoolSize = PoolSize d, MaxIdleConns = MaxIdleConns d,
         MinIdleConns = MinIdleConns d, ConnMaxLifetime = ConnMaxLifetime d,
         TLSEnabled = TLSEnabled d, InstanceID = InstanceID d,
         PeersRegistryKey = ''netbird:management:peers:registry'',
        AccountChannelPrefix = ''netbird:management:account:'',
        LockPrefix = ''netbird:management:lock:'',
        LoginFilterKey = ''netbird:management:login:filter'',
        EphemeralKey = ''nb:mgmt:ephemeral'',
        mgmt_PeerTTL = 30 * second, mgmt_HeartbeatInterval = 10 * second,
        LockTTL = 15 * second\<rparr>)"

definition envString :: "(string \<Rightarrow> string) \<Rightarrow> string \<Rightarrow> string \<Rightarrow> string" where
  "envString getenv var old = (if getenv var \<noteq> '''' then getenv var else old)"

text \<open>\<open>parse\<close> stands for \<open>time.ParseDuration\<close>.\<close>

definition envDuration ::
    "(string \<Rightarrow> string) \<Rightarrow> (string \<Rightarrow> duration option) \<Rightarrow> string \<Rightarrow> duration \<Rightarrow> duration" where
  "envDuration getenv parse var old =
     (if getenv var \<noteq> '''' then (case parse (getenv var) of Some d \<Rightarrow> d | None \<Rightarrow> old) else old)"

definition LoadManagementHAConfigFromEnv ::
    "(string \<Rightarrow> string) \<Rightarrow> (string \<Rightarrow> duration option) \<Rightarrow> ManagementHAConfig" where
  "LoadManagementHAConfigFromEnv getenv parse =
     (let cfg = DefaultManagementHAConfig;
          str = envString getenv;
          dur = envDuration getenv parse;
          cfg = cfg\<lparr>PeersRegistryKey := str ''NB_MGMT_PEERS_REGISTRY_KEY'' (PeersRegistryKey cfg)\<rparr>;
          cfg = cfg\<lparr>AccountChannelPrefix :=
                      str ''NB_MGMT_ACCOUNT_CHANNEL_PREFIX'' (AccountChannelPrefix cfg)\<rparr>;
          cfg = cfg\<lparr>LockPrefix := str ''NB_MGMT_LOCK_PREFIX'' (LockPrefix cfg)\<rparr>;
          cfg = cfg\<lparr>LoginFilterKey := str ''NB_MGMT_LOGIN_FILTER_KEY'' (LoginFilterKey cfg)\<rparr>;
          cfg = cfg\<lparr>EphemeralKey := str ''NB_MGMT_EPHEMERAL_KEY'' (EphemeralKey cfg)\<rparr>;
          cfg = cfg\<lparr>mgmt_PeerTTL := dur ''NB_MGMT_PEER_TTL'' (mgmt_PeerTTL cfg)\<rparr>;
          cfg = cfg\<lparr>mgmt_HeartbeatInterval :=
                      dur ''NB_MGMT_HEARTBEAT_INTERVAL'' (mgmt_HeartbeatInterval cfg)\<rparr>;
          cfg = cfg\<lparr>LockTTL := dur ''NB_MGMT_LOCK_TTL'' (LockTTL cfg)\<rparr>;
          cfg = cfg\<lparr>Enabled := (if getenv ''NB_HA_ENABLED'' = ''true'' then True else Enabled cfg)\<rparr>;
          cfg = cfg\<lparr>RedisAddress := str ''NB_HA_REDIS_ADDRESS'' (RedisAddress cfg)\<rparr>;
          cfg = cfg\<lparr>RedisPassword := str ''NB_HA_REDIS_PASSWORD'' (RedisPassword cfg)\<rparr>;
          cfg = cfg\<lparr>DialTimeout := dur ''NB_HA_REDIS_DIAL_TIMEOUT'' (DialTimeout cfg)\<rparr>;
          cfg = cfg\<lparr>ReadTimeout := dur ''NB_HA_REDIS_READ_TIMEOUT'' (ReadTimeout cfg)\<rparr>;
          cfg = cfg\<lparr>WriteTimeout := dur ''NB_HA_REDIS_WRITE_TIMEOUT'' (WriteTimeout cfg)\<rparr>;
          cfg = cfg\<lparr>InstanceID := str ''NB_HA_INSTANCE_ID'' (InstanceID cfg)\<rparr>
      in cfg)"

definition ManagementHAConfig_Validate ::
    "(string \<Rightarrow> string) \<Rightarrow> bytes option \<Rightarrow> time \<Rightarrow> ManagementHAConfig \<Rightarrow>
     ManagementHAConfig \<times> config_error option" where
  "ManagementHAConfig_Validate getenv rnd now c =
     (case HAConfig_Validate getenv rnd now c of
        (c, Some e) \<Rightarrow> (c, Some e)
      | (c, None) \<Rightarrow>
          if \<not> Enabled c then (c, None)
          else
            (c\<lparr>mgmt_PeerTTL := orDefault (mgmt_PeerTTL c) (30 * second),
               mgmt_HeartbeatInterval := orDefault (mgmt_HeartbeatInterval c) (10 * second),
               LockTTL := orDefault (LockTTL c) (15 * second)\<rparr>, None))"

section \<open>What validation establishes\<close>

definition config_ok :: "'a HAConfig_scheme \<Rightarrow> bool" where
  "config_ok c \<longleftrightarrow>
     Enabled c \<and> RedisAddress c \<noteq> '''' \<and>
     DialTimeout c \<in> {0<..MaxTimeout} \<and> ReadTimeout c \<in> {0<..MaxTimeout} \<and>
     WriteTimeout c \<in> {0<..MaxTimeout} \<and> 0 < PoolSize c \<and>
     0 \<le> MinIdleConns c \<and> MinIdleConns c \<le> MaxIdleConns c \<and>
     0 < ConnMaxLifetime c \<and> InstanceID c \<noteq> ''''"

lemma generateUUID_nonempty [simp]: "generateUUID rnd now \<noteq> ''''"
  by (simp add: generateUUID_def Let_def split: option.split)

lemma DetectInstanceID_nonempty [simp]: "DetectInstanceID getenv rnd now v \<noteq> ''''"
  by (simp add: DetectInstanceID_def)

lemma DetectInstanceID_set [simp]: "v \<noteq> '''' \<Longrightarrow> DetectInstanceID getenv rnd now v = v"
  by (simp add: DetectInstanceID_def)

lemma orDefault_pos [simp]: "0 < d \<Longrightarrow> 0 < orDefault v d"
  by (simp add: orDefault_def)

lemma orDefault_id [simp]: "0 < v \<Longrightarrow> orDefault v d = v"
  by (simp add: orDefault_def)

lemma HAConfig_Validate_disabled: "\<not> Enabled c \<Longrightarrow> HAConfig_Validate g r n c = (c, None)"
  by (simp add: HAConfig_Validate_def)

lemma HAConfig_Validate_accepts:
  assumes "HAConfig_Validate g r n c = (c', None)" and "Enabled c"
  shows "config_ok c'"
  using assms
  by (auto simp: HAConfig_Validate_def config_ok_def Let_def split: if_splits)

lemma HAConfig_Validate_fixed:
  assumes "config_ok c"
  shows "HAConfig_Validate g r n c = (c, None)"
  using assms by (simp add: HAConfig_Validate_def config_ok_def Let_def)

lemma HAConfig_Validate_keeps_Enabled:
  "HAConfig_Validate g r n c = (c', e) \<Longrightarrow> Enabled c' = Enabled c"
  by (auto simp: HAConfig_Validate_def Let_def split: if_splits)

lemma SanitizeRedisKey_clean: "set (SanitizeRedisKey k) \<inter> redis_meta = {}"
  by (auto simp: SanitizeRedisKey_def redis_meta_def)

lemma SanitizeRedisKey_id: "set k \<inter> redis_meta = {} \<Longrightarrow> SanitizeRedisKey k = k"
  by (auto simp: SanitizeRedisKey_def intro!: map_idI)

lemma SanitizeRedisKey_idem [simp]: "SanitizeRedisKey (SanitizeRedisKey k) = SanitizeRedisKey k"
  by (simp add: SanitizeRedisKey_id SanitizeRedisKey_clean)

lemma length_SanitizeRedisKey [simp]: "length (SanitizeRedisKey k) = length k"
  by (simp add: SanitizeRedisKey_def)

lemma SanitizeRedisKey_append [simp]:
  "SanitizeRedisKey (a @ b) = SanitizeRedisKey a @ SanitizeRedisKey b"
  by (simp add: SanitizeRedisKey_def)

section \<open>Properties\<close>

text \<open>
  C28. What \<open>HAConfig.Validate\<close> establishes when it accepts an enabled configuration: an
  address, the three timeouts in \<open>(0, MaxTimeout]\<close>, a positive pool size and connection
  lifetime, \<open>0 \<le> MinIdleConns \<le> MaxIdleConns\<close> and a non-empty instance ID, whatever the
  environment, the random source and the clock. A second validation, in any environment,
  accepts the result and changes nothing, so the instance ID stays.
\<close>

theorem validate_establishes:
  assumes "HAConfig_Validate getenv rnd now c = (c', None)" and "Enabled c"
  shows "config_ok c' \<and> HAConfig_Validate getenv' rnd' now' c' = (c', None)"
  using HAConfig_Validate_accepts [OF assms] HAConfig_Validate_fixed by blast

theorem validate_establishes_witness:
  "\<exists>c'. HAConfig_Validate (\<lambda>k. '''') None 7
          (DefaultHAConfig\<lparr>Enabled := True, RedisAddress := ''redis:6379'', ReadTimeout := 0\<rparr>) = (c', None) \<and>
        config_ok c'"
proof -
  let ?c = "DefaultHAConfig\<lparr>Enabled := True, RedisAddress := ''redis:6379'', ReadTimeout := 0\<rparr>"
  obtain c' where c': "HAConfig_Validate (\<lambda>k. '''') None 7 ?c = (c', None)"
    by (simp add: HAConfig_Validate_def DefaultHAConfig_def Let_def MaxTimeout_def orDefault_def)
  with validate_establishes [OF c'] show ?thesis by simp
qed

end
