(* ===== verification/DistLock.thy ===== *)
theory DistLock
  imports Redis HAConfiguration
begin

text \<open>
  \<open>management/server/distributed/lock.go\<close> and \<open>registry.go\<close>: the distributed lock
  (\<open>SET NX\<close>, a heartbeat that extends the time to live, a release by a check-and-delete
  script) and the peer registry. A held lock is the record \<open>lock_handle\<close>: what the closures
  of \<open>Acquire\<close> capture, with the flags \<open>released\<close> and \<open>heartbeat\<close> (the background
  goroutine is running). One iteration of the goroutine is \<open>heartbeat_tick\<close>.

  \<open>lock_step\<close> interleaves any number of callers with the expiry of keys on the server; the
  invariant \<open>lock_inv\<close> gives mutual exclusion between callers on different instances.
\<close>

section \<open>lock.go\<close>

datatype lock_error = AcquireFailed string | LockAlreadyHeld string | ReleaseFailed string

record lock_handle =
  lh_key :: string
  lh_value :: string
  lh_ttl :: duration
  lh_resource :: string
  released :: bool
  heartbeat :: bool

definition lock_key :: "string \<Rightarrow> string" where
  "lock_key resource = ''lock:'' @ SanitizeRedisKey resource"

definition Acquire ::
    "('r, 'z) redis_api_scheme \<Rightarrow> 'r \<Rightarrow> string \<Rightarrow> string \<Rightarrow> duration \<Rightarrow> 'r \<times> (lock_error + lock_handle)" where
  "Acquire api r instanceID resource ttl =
     (let key = lock_key resource; val = instanceID in
      case SetNX api r key val ttl of
        (r', Inl e) \<Rightarrow> (r', Inl (AcquireFailed resource))
      | (r', Inr False) \<Rightarrow> (r', Inl (LockAlreadyHeld resource))
      | (r', Inr True) \<Rightarrow>
          (r', Inr \<lparr>lh_key = key, lh_value = val, lh_ttl = ttl, lh_resource = resource,
                    released = False, heartbeat = True\<rparr>))"

text \<open>One tick of the ticker of the heartbeat goroutine.\<close>

definition heartbeat_tick ::
    "('r, 'z) redis_api_scheme \<Rightarrow> 'r \<Rightarrow> lock_handle \<Rightarrow> 'r \<times> lock_handle" where
  "heartbeat_tick api r h =
     (if \<not> heartbeat h then (r, h)
      else case Get api r (lh_key h) of
        Inl e \<Rightarrow> (r, h\<lparr>heartbeat := False\<rparr>)
      | Inr currentValue \<Rightarrow>
          if currentValue \<noteq> lh_value h then (r, h\<lparr>heartbeat := False\<rparr>)
          else case Expire api r (lh_key h) (lh_ttl h) of
            (r', Some e) \<Rightarrow> (r', h\<lparr>heartbeat := False\<rparr>)
          | (r', None) \<Rightarrow> (r', h))"

text \<open>The Lua script runs atomically on the server.\<close>

definition unlockScript ::
    "('r, 'z) redis_api_scheme \<Rightarrow> 'r \<Rightarrow> string \<Rightarrow> string \<Rightarrow> 'r \<times> (redis_err + int)" where
  "unlockScript api r key arg =
     (case Get api r key of
        Inr v \<Rightarrow> if v = arg then Del api r key else (r, Inr 0)
      | Inl RedisNil \<Rightarrow> (r, Inr 0)
      | Inl RedisFail \<Rightarrow> (r, Inl RedisFail))"

definition release ::
    "('r, 'z) redis_api_scheme \<Rightarrow> 'r \<Rightarrow> lock_handle \<Rightarrow> 'r \<times> lock_handle \<times> lock_error option" where
  "release api r h =
     (if released h then (r, h, None)
      else
        let h = h\<lparr>released := True, heartbeat := False\<rparr> in
        case unlockScript api r (lh_key h) (lh_value h) of
          (r', Inl e) \<Rightarrow> (r', h, Some (ReleaseFailed (lh_resource h)))
        | (r', Inr n) \<Rightarrow> (r', h, None))"

text \<open>
  \<open>acquirePeerLockByUID\<close> of \<open>management/internals/shared/grpc/server.go\<close>: a failed
  acquisition is logged and the caller goes on without a lock (\<^const>\<open>None\<close>).
\<close>

definition acquirePeerLockByUID ::
    "('r, 'z) redis_api_scheme \<Rightarrow> 'r \<Rightarrow> string \<Rightarrow> string \<Rightarrow> 'r \<times> lock_handle option" where
  "acquirePeerLockByUID api r instanceID uniqueID =
     (case Acquire api r instanceID uniqueID (15 * second) of
        (r', Inl e) \<Rightarrow> (r', None)
      | (r', Inr h) \<Rightarrow> (r', Some h))"

section \<open>registry.go\<close>

datatype registry_error = RegisterFailed string | RegistryTTLFailed | DeregisterFailed string | GetInstanceFailed string

definition peersRegistryKey :: "ManagementHAConfig \<Rightarrow> string" where
  "peersRegistryKey cfg =
     (if PeersRegistryKey cfg \<noteq> '''' then PeersRegistryKey cfg
      else ''netbird:management:peers:registry'')"

definition RedisRegistry_RegisterPeer ::
    "('r, 'z) redis_api_scheme \<Rightarrow> ManagementHAConfig \<Rightarrow> 'r \<Rightarrow> string \<Rightarrow> string \<Rightarrow> duration \<Rightarrow>
     'r \<times> registry_error option" where
  "RedisRegistry_RegisterPeer api cfg r peerID inst ttl =
     (let key = peersRegistryKey cfg in
      case HSet api r key peerID inst of
        (r', Some e) \<Rightarrow> (r', Some (RegisterFailed peerID))
      | (r', None) \<Rightarrow>
          (case Expire api r' key ttl of
             (r'', Some e) \<Rightarrow> (r'', Some RegistryTTLFailed)
           | (r'', None) \<Rightarrow> (r'', None)))"

definition RedisRegistry_DeregisterPeer ::
    "('r, 'z) redis_api_scheme \<Rightarrow> ManagementHAConfig \<Rightarrow> 'r \<Rightarrow> string \<Rightarrow> 'r \<times> registry_error option" where
  "RedisRegistry_DeregisterPeer api cfg r peerID =
     (case HDel api r (peersRegistryKey cfg) peerID of
        (r', Some e) \<Rightarrow> (r', Some (DeregisterFailed peerID))
      | (r', None) \<Rightarrow> (r', None))"

definition RedisRegistry_GetPeerInstance ::
    "('r, 'z) redis_api_scheme \<Rightarrow> ManagementHAConfig \<Rightarrow> 'r \<Rightarrow> string \<Rightarrow> registry_error + string" where
  "RedisRegistry_GetPeerInstance api cfg r peerID =
     (case HGet api r (peersRegistryKey cfg) peerID of
        Inl e \<Rightarrow> Inl (GetInstanceFailed peerID)
      | Inr inst \<Rightarrow> Inr inst)"

section \<open>Callers interleaved with expiry\<close>

text \<open>
  \<open>holders\<close> is the handle of each caller that has one. \<open>overrun\<close> is a ghost component: the
  callers whose key the server has expired since they acquired it (their heartbeat missed
  its deadline). \<open>inst\<close> is the instance each caller runs on.
\<close>

record 'r lock_sys =
  srv :: 'r
  holders :: "nat \<Rightarrow> lock_handle option"
  overrun :: "nat set"

definition owns :: "'r lock_sys \<Rightarrow> nat \<Rightarrow> string \<Rightarrow> bool" where
  "owns s p k \<longleftrightarrow>
     (\<exists>h. holders s p = Some h \<and> lh_key h = k \<and> \<not> released h) \<and> p \<notin> overrun s"

inductive lock_step ::
    "('r, 'z) redis_api_scheme \<Rightarrow> ('r \<Rightarrow> string \<Rightarrow> string option) \<Rightarrow> (nat \<Rightarrow> string) \<Rightarrow>
     'r lock_sys \<Rightarrow> 'r lock_sys \<Rightarrow> bool"
  for api sv inst where
  acquire_ok:
    "holders s p = None \<or> (\<exists>h. holders s p = Some h \<and> released h) \<Longrightarrow>
     0 < ttl \<Longrightarrow> Acquire api (srv s) (inst p) res ttl = (r', Inr h) \<Longrightarrow>
     lock_step api sv inst s
       (s\<lparr>srv := r', holders := (holders s)(p := Some h), overrun := overrun s - {p}\<rparr>)"
| acquire_fail:
    "Acquire api (srv s) (inst p) res ttl = (r', Inl e) \<Longrightarrow>
     lock_step api sv inst s (s\<lparr>srv := r'\<rparr>)"
| beat:
    "holders s p = Some h \<Longrightarrow> heartbeat_tick api (srv s) h = (r', h') \<Longrightarrow>
     lock_step api sv inst s (s\<lparr>srv := r', holders := (holders s)(p := Some h')\<rparr>)"
| let_go:
    "holders s p = Some h \<Longrightarrow> release api (srv s) h = (r', h', e) \<Longrightarrow>
     lock_step api sv inst s (s\<lparr>srv := r', holders := (holders s)(p := Some h')\<rparr>)"
| expire:
    "sv r' = (sv (srv s))(k := None) \<Longrightarrow>
     lock_step api sv inst s
       (s\<lparr>srv := r', overrun := overrun s \<union> {p. owns s p k}\<rparr>)"

inductive lock_reach ::
    "('r, 'z) redis_api_scheme \<Rightarrow> ('r \<Rightarrow> string \<Rightarrow> string option) \<Rightarrow> (nat \<Rightarrow> string) \<Rightarrow> 'r lock_sys \<Rightarrow> bool"
  for api sv inst where
  init: "(\<And>p. holders s p = None) \<Longrightarrow> lock_reach api sv inst s"
| more: "lock_reach api sv inst s \<Longrightarrow> lock_step api sv inst s t \<Longrightarrow> lock_reach api sv inst t"

definition lock_inv :: "('r \<Rightarrow> string \<Rightarrow> string option) \<Rightarrow> (nat \<Rightarrow> string) \<Rightarrow> 'r lock_sys \<Rightarrow> bool" where
  "lock_inv sv inst s \<longleftrightarrow>
     (\<forall>p h. holders s p = Some h \<longrightarrow> lh_value h = inst p \<and> 0 < lh_ttl h) \<and>
     (\<forall>p k. owns s p k \<longrightarrow> sv (srv s) k = Some (inst p))"

section \<open>Lemmas\<close>

lemma Acquire_okD:
  assumes "string_laws api sv" and "Acquire api r i res ttl = (r', Inr h)"
  shows "sv r (lock_key res) = None" and "sv r' = (sv r)(lock_key res := Some i)"
    and "h = \<lparr>lh_key = lock_key res, lh_value = i, lh_ttl = ttl, lh_resource = res,
              released = False, heartbeat = True\<rparr>"
  using assms(2) string_lawsD(3) [OF assms(1), of r "lock_key res" i ttl]
  by (auto simp: Acquire_def Let_def split: prod.splits sum.splits bool.splits)

lemma Acquire_errD:
  assumes "string_laws api sv" and "Acquire api r i res ttl = (r', Inl e)"
  shows "sv r' = sv r \<or> sv r (lock_key res) = None \<and> sv r' = (sv r)(lock_key res := Some i)"
  using assms(2) string_lawsD(4,5) [OF assms(1), of r "lock_key res" i ttl]
  by (auto simp: Acquire_def Let_def split: prod.splits sum.splits bool.splits)

lemma heartbeat_tickD:
  assumes "string_laws api sv" and "heartbeat_tick api r h = (r', h')" and "0 < lh_ttl h"
  shows "sv r' = sv r" and "h' = h \<or> h' = h\<lparr>heartbeat := False\<rparr>"
  using assms(2) string_lawsD(7) [OF assms(1,3), of r "lh_key h"]
  by (auto simp: heartbeat_tick_def split: prod.splits sum.splits if_splits option.splits)

lemma unlockScriptD:
  assumes "string_laws api sv" and "unlockScript api r k v = (r', x)"
  shows "sv r' = sv r \<or> sv r k = Some v \<and> sv r' = (sv r)(k := None)"
  using assms(2) string_lawsD(6) [OF assms(1), of r k] string_lawsD(1) [OF assms(1), of r k v]
  by (auto simp: unlockScript_def split: prod.splits sum.splits if_splits redis_err.splits)

lemma releaseD:
  assumes "string_laws api sv" and "release api r h = (r', h', e)"
  shows "sv r' = sv r \<or> \<not> released h \<and> sv r (lh_key h) = Some (lh_value h) \<and>
      sv r' = (sv r)(lh_key h := None)"
    and "released h'" and "lh_key h' = lh_key h" and "lh_value h' = lh_value h"
    and "lh_ttl h' = lh_ttl h"
  using assms(2) unlockScriptD [OF assms(1), of r "lh_key h" "lh_value h"]
  by (auto simp: release_def Let_def split: prod.splits sum.splits if_splits)

lemma lock_step_inv:
  assumes laws: "string_laws api sv" and inj: "inj inst"
    and step: "lock_step api sv inst s t" and inv: "lock_inv sv inst s"
  shows "lock_inv sv inst t"
  using step
proof cases
  case (acquire_ok p ttl res r' h)
  note a = Acquire_okD [OF laws acquire_ok(4)]
  have "\<not> owns s q (lock_key res)" for q
    using inv a(1) by (auto simp: lock_inv_def)
  then show ?thesis
    using inv a(2,3) acquire_ok(1,3) by (auto simp: lock_inv_def owns_def)
next
  case (acquire_fail p res ttl r' e)
  show ?thesis
    using inv acquire_fail(1) Acquire_errD [OF laws acquire_fail(2)]
    by (fastforce simp: lock_inv_def owns_def)
next
  case (beat p h r' h')
  have "0 < lh_ttl h" using inv beat(2) by (simp add: lock_inv_def)
  then show ?thesis
    using inv beat(1,2) heartbeat_tickD [OF laws beat(3)]
    by (auto simp: lock_inv_def owns_def split: if_splits)
next
  case (let_go p h r' h' e)
  note r = releaseD [OF laws let_go(3)]
  have own: "lh_value h = inst p" using inv let_go(2) by (simp add: lock_inv_def)
  have others: "sv r' k = Some (inst q)" if "owns s q k" "q \<noteq> p" for q k
  proof -
    have "sv (srv s) k = Some (inst q)" using inv that(1) by (simp add: lock_inv_def)
    moreover have "inst q \<noteq> inst p" using inj that(2) by (auto dest: injD)
    ultimately show ?thesis using r(1) own by auto
  qed
  have "owns s q k \<and> q \<noteq> p" if "owns t q k" for q k
    using that r(2) let_go(1) by (auto simp: owns_def split: if_splits)
  then show ?thesis
    using inv others let_go(1,2) own r(4,5) by (auto simp: lock_inv_def split: if_splits)
next
  case (expire r' k)
  then show ?thesis
    using inv by (auto simp: lock_inv_def owns_def)
qed

lemma lock_reach_inv:
  assumes "string_laws api sv" and "inj inst" and "lock_reach api sv inst s"
  shows "lock_inv sv inst s"
  using assms(3)
proof induction
  case (init s)
  then show ?case by (simp add: lock_inv_def owns_def)
next
  case (more s t)
  then show ?case using lock_step_inv [OF assms(1,2)] by blast
qed

lemma release_present:
  assumes "string_laws api sv" and "redis_up api" and "\<not> released h"
    and "sv r (lh_key h) = Some v"
  shows "sv (fst (release api r h)) = (sv r)(lh_key h := if v = lh_value h then None else Some v)"
proof -
  obtain r' n where "Del api r (lh_key h) = (r', Inr n)" "sv r' = (sv r)(lh_key h := None)"
    by (rule Del_up [OF assms(1,2)])
  with assms(3,4) show ?thesis
    by (auto simp: release_def unlockScript_def Get_up [OF assms(1,2)] fun_upd_idem)
qed

section \<open>Properties\<close>

text \<open>
  C5. Mutual exclusion of the distributed lock. In every state that any interleaving of
  acquisitions, failed acquisitions, heartbeat ticks, releases and expiries of keys on the
  server reaches, two callers that hold the lock on the same key, and whose key has not
  expired under them, are the same caller, provided that callers run on different instances
  (the lock's value is the instance ID).
\<close>

theorem lock_mutual_exclusion:
  assumes "string_laws api sv" and "inj inst" and "lock_reach api sv inst s"
    and "owns s p k" and "owns s q k"
  shows "p = q"
proof -
  have "sv (srv s) k = Some (inst p)" and "sv (srv s) k = Some (inst q)"
    using lock_reach_inv [OF assms(1-3)] assms(4,5) unfolding lock_inv_def by blast+
  then show ?thesis using assms(2) by (auto dest: injD)
qed

definition lock_demo :: "mem_server lock_sys" where
  "lock_demo =
     (case Acquire mem_redis empty_server ''a'' ''peer'' second of
        (r, Inr h) \<Rightarrow> \<lparr>srv = r, holders = [0 \<mapsto> h], overrun = {}\<rparr>
      | (r, Inl e) \<Rightarrow> \<lparr>srv = r, holders = Map.empty, overrun = {}\<rparr>)"

definition lock_demo_inst :: "nat \<Rightarrow> string" where
  "lock_demo_inst p = replicate p CHR ''b'' @ ''a''"

lemma lock_demo_reach: "lock_reach mem_redis mem_str lock_demo_inst lock_demo"
proof -
  let ?s = "\<lparr>srv = empty_server, holders = Map.empty, overrun = {}\<rparr> :: mem_server lock_sys"
  have "lock_step mem_redis mem_str lock_demo_inst ?s lock_demo"
    using lock_step.acquire_ok [of ?s 0 second mem_redis lock_demo_inst "''peer''"]
    by (simp add: lock_demo_def Acquire_def mem_redis_def empty_server_def lock_demo_inst_def Let_def)
  then show ?thesis by (rule lock_reach.more [rotated]) (rule lock_reach.init, simp)
qed

theorem lock_mutual_exclusion_witness:
  "{q. owns lock_demo q (lock_key ''peer'')} = {0}"
proof -
  have "owns lock_demo 0 (lock_key ''peer'')"
    by (simp add: owns_def lock_demo_def Acquire_def mem_redis_def empty_server_def Let_def)
  moreover have "inj lock_demo_inst"
    by (rule injI) (simp add: lock_demo_inst_def)
  ultimately show ?thesis
    using lock_mutual_exclusion [OF mem_string_laws _ lock_demo_reach] by blast
qed

lemma Acquire_free:
  assumes "string_laws api sv" and "redis_up api" and "sv r (lock_key res) = None"
  shows "\<exists>r' h. Acquire api r i res ttl = (r', Inr h)"
proof -
  obtain b where "snd (SetNX api r (lock_key res) i ttl) = Inr b" using redis_upD(6) [OF assms(2)] by blast
  moreover from this string_lawsD(4) [OF assms(1), of r "lock_key res" i ttl] assms(3) have "b" by (cases b) auto
  ultimately show ?thesis by (cases "SetNX api r (lock_key res) i ttl") (simp add: Acquire_def)
qed

lemma acquire_step:
  assumes "string_laws api sv" and "redis_up api" and "\<And>h. holders s p = Some h \<Longrightarrow> released h"
    and "sv (srv s) (lock_key res) = None"
  shows "\<exists>t. lock_step api sv inst s t \<and> owns t p (lock_key res)"
proof -
  obtain r' h where a: "Acquire api (srv s) (inst p) res 1 = (r', Inr h)" using Acquire_free [OF assms(1,2,4)] by blast
  have "lock_step api sv inst s (s\<lparr>srv := r', holders := (holders s)(p := Some h), overrun := overrun s - {p}\<rparr>)"
    by (rule lock_step.acquire_ok [where ttl = 1 and res = res]) (use assms(3) a in \<open>cases "holders s p"; auto\<close>)+
  then show ?thesis using Acquire_okD(3) [OF assms(1) a] by (auto simp: owns_def)
qed

text \<open>
  C22. The lock is never stuck. In every reachable state and for every caller without a lock of its
  own, an acquisition succeeds at once when nobody has the key, after the release of the owner when
  there is one, and after the expiry of the key in any case, also when the owner is gone.
\<close>

theorem lock_progress:
  assumes "string_laws api sv" and "redis_up api" and "inj inst" and "lock_reach api sv inst s"
    and "\<And>h. holders s p = Some h \<Longrightarrow> released h"
  shows "(sv (srv s) (lock_key res) = None \<longrightarrow> (\<exists>t. lock_step api sv inst s t \<and> owns t p (lock_key res))) \<and>
    (\<forall>q h. owns s q (lock_key res) \<and> holders s q = Some h \<longrightarrow>
       (\<exists>r' h' e t. release api (srv s) h = (r', h', e) \<and>
          lock_step api sv inst (s\<lparr>srv := r', holders := (holders s)(q := Some h')\<rparr>) t \<and> owns t p (lock_key res))) \<and>
    (\<forall>r'. sv r' = (sv (srv s))(lock_key res := None) \<longrightarrow>
       (\<exists>t. lock_step api sv inst (s\<lparr>srv := r', overrun := overrun s \<union> {q. owns s q (lock_key res)}\<rparr>) t \<and> owns t p (lock_key res)))"
proof (intro conjI impI allI)
  show "\<exists>t. lock_step api sv inst s t \<and> owns t p (lock_key res)" if "sv (srv s) (lock_key res) = None"
    by (rule acquire_step [OF assms(1,2,5) that])
next
  fix q h
  assume o: "owns s q (lock_key res) \<and> holders s q = Some h"
  then have h: "\<not> released h" "lh_key h = lock_key res" by (auto simp: owns_def)
  have "sv (srv s) (lock_key res) = Some (inst q)" "lh_value h = inst q"
    using lock_reach_inv [OF assms(1,3,4)] o unfolding lock_inv_def by blast+
  then have f: "sv (fst (release api (srv s) h)) (lock_key res) = None"
    using release_present [OF assms(1,2) h(1), of "srv s" "inst q"] h(2) by simp
  obtain r' h' e where r: "release api (srv s) h = (r', h', e)" by (metis surj_pair)
  let ?t = "s\<lparr>srv := r', holders := (holders s)(q := Some h')\<rparr>"
  have "\<exists>t. lock_step api sv inst ?t t \<and> owns t p (lock_key res)"
    by (rule acquire_step [OF assms(1,2)]) (use assms(5) releaseD(2) [OF assms(1) r] f r in \<open>auto split: if_splits\<close>)
  with r show "\<exists>r' h' e t. release api (srv s) h = (r', h', e) \<and>
      lock_step api sv inst (s\<lparr>srv := r', holders := (holders s)(q := Some h')\<rparr>) t \<and> owns t p (lock_key res)" by blast
next
  fix r'
  assume "sv r' = (sv (srv s))(lock_key res := None)"
  then show "\<exists>t. lock_step api sv inst (s\<lparr>srv := r', overrun := overrun s \<union> {q. owns s q (lock_key res)}\<rparr>) t \<and> owns t p (lock_key res)"
    by (intro acquire_step [OF assms(1,2)]) (use assms(5) in simp_all)
qed

theorem lock_progress_witness:
  "\<exists>t. lock_step mem_redis mem_str lock_demo_inst
     (lock_demo\<lparr>srv := empty_server, overrun := {0}\<rparr>) t \<and> owns t 1 (lock_key ''peer'')"
proof -
  have inj: "inj lock_demo_inst" by (rule injI) (simp add: lock_demo_inst_def)
  have d: "holders lock_demo 1 = None" "mem_str empty_server = (mem_str (srv lock_demo))(lock_key ''peer'' := None)"
    "overrun lock_demo \<union> {q. owns lock_demo q (lock_key ''peer'')} = {0}"
    by (auto simp: lock_demo_def Acquire_def mem_redis_def empty_server_def owns_def Let_def split: if_splits)
  have "\<And>h. holders lock_demo 1 = Some h \<Longrightarrow> released h" using d(1) by simp
  from lock_progress [OF mem_string_laws mem_redis_up inj lock_demo_reach this, where res = "''peer''"] d(2,3)
  show ?thesis by metis
qed

text \<open>
  What a late release does. Caller A (instance \<open>i\<close>) acquires, its key expires, caller B
  (instance \<open>j\<close>) acquires, then A releases. If the instances differ, B's lock stays; if they
  are the same, A's release deletes B's lock, because the value stored in Redis is the
  instance ID and not a value of the acquisition.
\<close>

lemma late_release:
  assumes "string_laws api sv" and "redis_up api"
    and "Acquire api r i res ttl = (r1, Inr h)"
    and "sv r2 = (sv r1)(lock_key res := None)"
    and "Acquire api r2 j res ttl' = (r3, Inr h')"
  shows "sv (fst (release api r3 h)) (lock_key res) = (if i = j then None else Some j)"
  using release_present [OF assms(1,2), of h r3 j] Acquire_okD(3) [OF assms(1,3)]
    Acquire_okD(2) [OF assms(1,5)]
  by auto

text \<open>
  The peer registry is a map: with Redis reachable and a positive time to live, a
  registered peer is found on the instance that registered it, a deregistered peer is not
  found, and no other peer's entry changes in either case.
\<close>

lemma registry_lookup:
  assumes "hash_laws api hv" and "redis_up api" and "0 < ttl"
  shows "RedisRegistry_GetPeerInstance api cfg
           (fst (RedisRegistry_RegisterPeer api cfg r peerID inst ttl)) q =
         (if q = peerID then Inr inst else RedisRegistry_GetPeerInstance api cfg r q) \<and>
         RedisRegistry_GetPeerInstance api cfg
           (fst (RedisRegistry_DeregisterPeer api cfg r peerID)) q =
         (if q = peerID then Inl (GetInstanceFailed peerID)
          else RedisRegistry_GetPeerInstance api cfg r q)"
proof -
  let ?k = "peersRegistryKey cfg"
  obtain r' where w: "HSet api r ?k peerID inst = (r', None)"
      "hv r' = (hv r)(?k := (hv r ?k)(peerID := Some inst))"
    by (rule HSet_up [OF assms(1,2)])
  obtain r'' where x: "Expire api r' ?k ttl = (r'', None)" "hv r'' = hv r'"
    using Expire_up [OF assms(2)] assms(1,3) by metis
  obtain d where d: "HDel api r ?k peerID = (d, None)" "hv d = (hv r)(?k := (hv r ?k)(peerID := None))"
    by (rule HDel_up [OF assms(1,2)])
  show ?thesis
    using w x d by (simp add: RedisRegistry_GetPeerInstance_def RedisRegistry_RegisterPeer_def
        RedisRegistry_DeregisterPeer_def HGet_up [OF assms(1,2)])
qed

end
