(* ===== verification/SignalRegistry.thy ===== *)
theory SignalRegistry
  imports Prelude
begin

text \<open>
  \<open>signal/peer/peer.go\<close>: the registry of the streams connected to one signal server. A
  \<open>*Peer\<close> is the record \<open>Peer\<close> with its address \<open>addr\<close>: \<open>sync.Map\<close> compares pointers in
  \<open>CompareAndSwap\<close> and \<open>CompareAndDelete\<close>. Calls of \<open>Peer.Cancel\<close> and the counters of the
  metrics are components of the registry's state.

  \<open>Register\<close> is the call without interference. \<open>Register_step\<close> splits it into its
  atomic actions (the operations on the map, the cancellation, the counters), and \<open>race_step\<close> interleaves any number of such calls.
\<close>

section \<open>sync.Map\<close>

record Peer =
  addr :: nat
  Id :: string
  StreamID :: int
  RegisteredAt :: time

type_synonym peers = "string \<Rightarrow> Peer option"

definition LoadOrStore :: "peers \<Rightarrow> string \<Rightarrow> Peer \<Rightarrow> peers \<times> Peer option" where
  "LoadOrStore m k v = (case m k of Some x \<Rightarrow> (m, Some x) | None \<Rightarrow> (m(k := Some v), None))"

definition CompareAndSwap :: "peers \<Rightarrow> string \<Rightarrow> Peer \<Rightarrow> Peer \<Rightarrow> peers \<times> bool" where
  "CompareAndSwap m k old new =
     (case m k of
        Some x \<Rightarrow> if addr x = addr old then (m(k := Some new), True) else (m, False)
      | None \<Rightarrow> (m, False))"

definition CompareAndDelete :: "peers \<Rightarrow> string \<Rightarrow> Peer \<Rightarrow> peers \<times> bool" where
  "CompareAndDelete m k old =
     (case m k of
        Some x \<Rightarrow> if addr x = addr old then (m(k := None), True) else (m, False)
      | None \<Rightarrow> (m, False))"

section \<open>Registry\<close>

record Registry =
  Peers :: peers
  ActivePeers :: int
  Registrations :: int
  Deregistrations :: int
  cancelled :: "nat list"

datatype register_error = ErrPeerAlreadyRegistered

definition NewPeer :: "nat \<Rightarrow> time \<Rightarrow> time \<Rightarrow> string \<Rightarrow> Peer" where
  "NewPeer a now now' i = \<lparr>addr = a, Id = i, StreamID = now, RegisteredAt = now'\<rparr>"

definition NewRegistry :: Registry where
  "NewRegistry = \<lparr>Peers = (\<lambda>k. None), ActivePeers = 0, Registrations = 0, Deregistrations = 0,
     cancelled = []\<rparr>"

definition Registry_Get :: "Registry \<Rightarrow> string \<Rightarrow> Peer option" where
  "Registry_Get r peerId = Peers r peerId"

definition IsPeerRegistered :: "Registry \<Rightarrow> string \<Rightarrow> bool" where
  "IsPeerRegistered r peerId = (case Peers r peerId of Some p \<Rightarrow> True | None \<Rightarrow> False)"

text \<open>
  The places of a call: before \<open>LoadOrStore\<close>, before \<open>CompareAndSwap\<close>, before the replaced peer is cancelled, before the counters of a new
  peer are raised (nothing reads them, so raising both is one action), and after the return.
\<close>

datatype register_pc = RegLoad | RegSwap Peer | RegCancel Peer | RegCount | RegDone "register_error option"

fun Register_step :: "Peer \<Rightarrow> Registry \<times> register_pc \<Rightarrow> Registry \<times> register_pc" where
  "Register_step peer (r, RegLoad) =
     (case LoadOrStore (Peers r) (Id peer) peer of
        (m, Some pp) \<Rightarrow>
          if StreamID peer > StreamID pp then (r, RegSwap pp)
          else (r, RegDone (Some ErrPeerAlreadyRegistered))
      | (m, None) \<Rightarrow> (r\<lparr>Peers := m\<rparr>, RegCount))"
| "Register_step peer (r, RegSwap pp) =
     (case CompareAndSwap (Peers r) (Id peer) pp peer of
        (m, False) \<Rightarrow> (r, RegLoad)
      | (m, True) \<Rightarrow> (r\<lparr>Peers := m\<rparr>, RegCancel pp))"
| "Register_step peer (r, RegCancel pp) = (r\<lparr>cancelled := cancelled r @ [addr pp]\<rparr>, RegDone None)"
| "Register_step peer (r, RegCount) =
     (r\<lparr>ActivePeers := ActivePeers r + 1, Registrations := Registrations r + 1\<rparr>, RegDone None)"
| "Register_step peer (r, RegDone e) = (r, RegDone e)"

definition Register :: "Registry \<Rightarrow> Peer \<Rightarrow> Registry \<times> register_error option" where
  "Register r peer =
     (case (Register_step peer ^^ 3) (r, RegLoad) of
        (r', RegDone e) \<Rightarrow> (r', e)
      | (r', pc) \<Rightarrow> (r', Some ErrPeerAlreadyRegistered))"

definition Deregister :: "Registry \<Rightarrow> Peer \<Rightarrow> Registry" where
  "Deregister r peer =
     (case CompareAndDelete (Peers r) (Id peer) peer of
        (m, True) \<Rightarrow> r\<lparr>Peers := m, ActivePeers := ActivePeers r - 1,
                       Deregistrations := Deregistrations r + 1\<rparr>
      | (m, False) \<Rightarrow> r)"

section \<open>Behaviour of one call\<close>

definition accepts :: "Registry \<Rightarrow> Peer \<Rightarrow> bool" where
  "accepts r p = (case Peers r (Id p) of None \<Rightarrow> True | Some pp \<Rightarrow> StreamID p > StreamID pp)"

text \<open>Without interference the call ends after at most three steps and never retries.\<close>

lemma Register_cases:
  "Register r p =
     (case Peers r (Id p) of
        None \<Rightarrow> (r\<lparr>Peers := (Peers r)(Id p := Some p), ActivePeers := ActivePeers r + 1,
                  Registrations := Registrations r + 1\<rparr>, None)
      | Some pp \<Rightarrow>
          if StreamID p > StreamID pp
          then (r\<lparr>Peers := (Peers r)(Id p := Some p), cancelled := cancelled r @ [addr pp]\<rparr>, None)
          else (r, Some ErrPeerAlreadyRegistered))"
  by (simp add: Register_def LoadOrStore_def CompareAndSwap_def numeral_3_eq_3 split: option.split)

lemma Register_three_steps: "(Register_step p ^^ 3) (r, RegLoad) = (fst (Register r p), RegDone (snd (Register r p)))"
  by (simp add: Register_def LoadOrStore_def CompareAndSwap_def numeral_3_eq_3 split: option.split)

lemma Peers_Register [lookup_laws]:
  "Peers (fst (Register r p)) k = (if accepts r p \<and> k = Id p then Some p else Peers r k)"
  by (simp add: Register_cases accepts_def split: option.split)

lemma Register_error [lookup_laws]:
  "snd (Register r p) = (if accepts r p then None else Some ErrPeerAlreadyRegistered)"
  by (simp add: Register_cases accepts_def split: option.split)

lemma Peers_Deregister [lookup_laws]:
  "Peers (Deregister r p) k =
     (if k = Id p \<and> map_option addr (Peers r k) = Some (addr p) then None else Peers r k)"
  by (auto simp: Deregister_def CompareAndDelete_def split: option.split)

interpretation reg: owner_map
  "\<lambda>r k. map_option addr (Peers r k)" Id addr accepts "\<lambda>r p. fst (Register r p)" Deregister
  by unfold_locales (auto simp: lookup_laws)

section \<open>The registry as a machine\<close>

datatype registry_op = OpRegister Peer | OpDeregister Peer

primrec registry_step :: "Registry \<Rightarrow> registry_op \<Rightarrow> Registry" where
  "registry_step r (OpRegister p) = fst (Register r p)"
| "registry_step r (OpDeregister p) = Deregister r p"

definition registry_inv :: "Registry \<Rightarrow> bool" where
  "registry_inv r \<longleftrightarrow>
     finite (dom (Peers r)) \<and> ActivePeers r = int (card (dom (Peers r))) \<and>
     (\<forall>k p. Peers r k = Some p \<longrightarrow> Id p = k)"

lemma registry_inv_Register: "registry_inv r \<Longrightarrow> registry_inv (fst (Register r p))"
  by (auto simp: registry_inv_def Register_cases domIff card_insert_if insert_absorb
      split: option.split)

lemma registry_inv_Deregister:
  assumes "registry_inv r"
  shows "registry_inv (Deregister r p)"
proof (cases "map_option addr (Peers r (Id p)) = Some (addr p)")
  case True
  then have "Id p \<in> dom (Peers r)" by auto
  then have "int (card (dom (Peers r) - {Id p})) = int (card (dom (Peers r))) - 1"
    using assms card.remove [of "dom (Peers r)" "Id p"] by (simp add: registry_inv_def)
  then show ?thesis
    using assms True
    by (auto simp: registry_inv_def Deregister_def CompareAndDelete_def split: if_splits)
next
  case False
  then have "Deregister r p = r"
    by (auto simp: Deregister_def CompareAndDelete_def split: option.split)
  with assms show ?thesis by simp
qed

interpretation reg_machine: op_machine registry_step "\<lambda>r a. True" registry_inv
proof
  fix r a
  show "registry_inv r \<Longrightarrow> True \<Longrightarrow> registry_inv (registry_step r a)"
    by (cases a) (simp_all add: registry_inv_Register registry_inv_Deregister)
qed

section \<open>Racing registrations\<close>

text \<open>
  \<open>calls\<close> is what each goroutine registers and where it is. A goroutine starts with a peer
  at an address of its own.
\<close>

record race =
  registry :: Registry
  calls :: "nat \<Rightarrow> (Peer \<times> register_pc) option"

inductive race_step :: "race \<Rightarrow> race \<Rightarrow> bool" where
  spawn: "calls s t = None \<Longrightarrow> (\<And>u q pc. calls s u = Some (q, pc) \<Longrightarrow> addr q \<noteq> addr p) \<Longrightarrow>
    race_step s (s\<lparr>calls := (calls s)(t := Some (p, RegLoad))\<rparr>)"
| advance: "calls s t = Some (p, pc) \<Longrightarrow> Register_step p (registry s, pc) = (r', pc') \<Longrightarrow>
    race_step s (s\<lparr>registry := r', calls := (calls s)(t := Some (p, pc'))\<rparr>)"

inductive race_reach :: "race \<Rightarrow> bool" where
  race_init: "race_reach \<lparr>registry = NewRegistry, calls = (\<lambda>t. None)\<rparr>"
| race_more: "race_reach s \<Longrightarrow> race_step s s' \<Longrightarrow> race_reach s'"

definition known :: "race \<Rightarrow> Peer \<Rightarrow> bool" where
  "known s q \<longleftrightarrow> (\<exists>t pc. calls s t = Some (q, pc))"

text \<open>
  A stream that was stored is the registered one, or has been cancelled, or the call that replaced it is about to cancel it.
\<close>

definition held :: "race \<Rightarrow> Peer \<Rightarrow> bool" where
  "held s p \<longleftrightarrow> Peers (registry s) (Id p) = Some p \<or> addr p \<in> set (cancelled (registry s)) \<or>
     (\<exists>u q. calls s u = Some (q, RegCancel p))"

definition superseded :: "Registry \<Rightarrow> Peer \<Rightarrow> bool" where
  "superseded r p \<longleftrightarrow> (\<exists>q. Peers r (Id p) = Some q \<and> StreamID p \<le> StreamID q)"

definition call_ok :: "race \<Rightarrow> Peer \<Rightarrow> register_pc \<Rightarrow> bool" where
  "call_ok s p pc =
     (case pc of
        RegLoad \<Rightarrow> True
      | RegSwap pp \<Rightarrow> Id pp = Id p \<and> StreamID pp < StreamID p \<and> known s pp
      | RegCancel pp \<Rightarrow> superseded (registry s) p \<and> held s p
      | RegCount \<Rightarrow> superseded (registry s) p \<and> held s p
      | RegDone e \<Rightarrow> superseded (registry s) p \<and> (e = None \<longrightarrow> held s p))"

definition race_inv :: "race \<Rightarrow> bool" where
  "race_inv s \<longleftrightarrow>
     (\<forall>p q. known s p \<and> known s q \<and> addr p = addr q \<longrightarrow> p = q) \<and>
     (\<forall>k q. Peers (registry s) k = Some q \<longrightarrow> known s q \<and> Id q = k) \<and>
     (\<forall>t p pc. calls s t = Some (p, pc) \<longrightarrow> call_ok s p pc)"

text \<open>
  What one step does to the registry: nothing, or it stores the peer of the call where nothing
  was or over a peer of a smaller stream ID that it goes on to cancel, or it cancels a peer, or it only counts.
\<close>

datatype effect = Nothing | Stored "Peer option" | Cancelled Peer

definition effect_of :: "Registry \<Rightarrow> Peer \<Rightarrow> register_pc \<Rightarrow> Registry \<Rightarrow> register_pc \<Rightarrow> effect \<Rightarrow> bool" where
  "effect_of r p pc r' pc' e =
     (case e of
        Nothing \<Rightarrow> Peers r' = Peers r \<and> cancelled r' = cancelled r \<and> (\<forall>pp. pc \<noteq> RegCancel pp) \<and> (\<forall>pp. pc' \<noteq> RegCancel pp)
      | Stored old \<Rightarrow> Peers r' = (Peers r)(Id p := Some p) \<and> cancelled r' = cancelled r \<and> Peers r (Id p) = old \<and>
          (\<forall>pp. pc \<noteq> RegCancel pp) \<and> pc' = (case old of None \<Rightarrow> RegCount | Some pp \<Rightarrow> RegCancel pp) \<and>
          (\<forall>pp. old = Some pp \<longrightarrow> StreamID pp < StreamID p)
      | Cancelled pp \<Rightarrow> Peers r' = Peers r \<and> cancelled r' = cancelled r @ [addr pp] \<and> pc = RegCancel pp \<and> pc' = RegDone None)"

lemma Register_step_effect:
  assumes "Register_step p (r, pc) = (r', pc')"
    and swap: "\<And>x pp. pc = RegSwap pp \<Longrightarrow> StreamID pp < StreamID p \<and> (Peers r (Id p) = Some x \<and> addr x = addr pp \<longrightarrow> x = pp)"
  shows "\<exists>e. effect_of r p pc r' pc' e"
proof (cases pc)
  case RegLoad
  then show ?thesis using assms(1)
    by (cases "Peers r (Id p)")
      (auto simp: LoadOrStore_def effect_of_def split: if_splits intro: exI [of _ Nothing] exI [of _ "Stored None"])
next
  case (RegSwap pp)
  show ?thesis
  proof (cases "map_option addr (Peers r (Id p)) = Some (addr pp)")
    case True
    then have "Peers r (Id p) = Some pp" using swap [OF RegSwap] by auto
    then show ?thesis using assms(1) RegSwap swap [OF RegSwap]
      by (auto simp: CompareAndSwap_def effect_of_def intro!: exI [of _ "Stored (Some pp)"])
  next
    case False
    then have "r' = r" "pc' = RegLoad" using assms(1) RegSwap by (auto simp: CompareAndSwap_def split: option.splits if_splits)
    then show ?thesis using RegSwap by (auto simp: effect_of_def intro: exI [of _ Nothing])
  qed
next
  case (RegCancel pp)
  then show ?thesis using assms(1) by (auto simp: effect_of_def intro!: exI [of _ "Cancelled pp"])
next
  case RegCount
  then show ?thesis using assms(1) by (auto simp: effect_of_def intro!: exI [of _ Nothing])
next
  case (RegDone e)
  then show ?thesis using assms(1) by (auto simp: effect_of_def intro!: exI [of _ Nothing])
qed

lemma known_upd:
  assumes "\<And>pc q. calls s t = Some (q, pc) \<Longrightarrow> q = p"
  shows "known (s\<lparr>registry := r, calls := (calls s)(t := Some (p, pc'))\<rparr>) q \<longleftrightarrow> q = p \<or> known s q"
    and "known (s\<lparr>calls := (calls s)(t := Some (p, pc'))\<rparr>) q \<longleftrightarrow> q = p \<or> known s q"
proof -
  have "(\<exists>u pd. ((calls s)(t := Some (p, pc'))) u = Some (q, pd)) \<longleftrightarrow> q = p \<or> known s q"
  proof (cases "q = p")
    case True
    then show ?thesis by (auto intro: exI [of _ t])
  next
    case False
    then have "((calls s)(t := Some (p, pc'))) u = Some (q, pd) \<longleftrightarrow> calls s u = Some (q, pd)" for u pd
      using assms by (cases "u = t") auto
    with False show ?thesis by (simp add: known_def)
  qed
  then show "known (s\<lparr>registry := r, calls := (calls s)(t := Some (p, pc'))\<rparr>) q \<longleftrightarrow> q = p \<or> known s q"
    and "known (s\<lparr>calls := (calls s)(t := Some (p, pc'))\<rparr>) q \<longleftrightarrow> q = p \<or> known s q"
    by (simp_all add: known_def [of "_\<lparr>calls := _\<rparr>"])
qed

lemma race_invD:
  assumes "race_inv s"
  shows "known s p \<Longrightarrow> known s q \<Longrightarrow> addr p = addr q \<Longrightarrow> p = q"
    and "Peers (registry s) k = Some q \<Longrightarrow> known s q"
    and "Peers (registry s) k = Some q \<Longrightarrow> Id q = k"
    and "calls s t = Some (p, pc) \<Longrightarrow> call_ok s p pc"
  using assms unfolding race_inv_def by blast+

lemma race_invI:
  assumes "\<And>p q. known s p \<Longrightarrow> known s q \<Longrightarrow> addr p = addr q \<Longrightarrow> p = q"
    and "\<And>k q. Peers (registry s) k = Some q \<Longrightarrow> known s q \<and> Id q = k"
    and "\<And>t p pc. calls s t = Some (p, pc) \<Longrightarrow> call_ok s p pc"
  shows "race_inv s"
  using assms unfolding race_inv_def by blast

text \<open>What the step of a call keeps for the other calls.\<close>

lemma superseded_step:
  assumes "effect_of r p pc r' pc' e" and "superseded r q"
  shows "superseded r' q"
proof (cases e)
  case (Stored old)
  obtain x where x: "Peers r (Id q) = Some x" "StreamID q \<le> StreamID x" using assms(2) by (auto simp: superseded_def)
  have "StreamID x < StreamID p" if "Id q = Id p" using assms(1) Stored x that by (auto simp: effect_of_def)
  with x show ?thesis using assms(1) Stored by (auto simp: effect_of_def superseded_def)
qed (use assms in \<open>auto simp: effect_of_def superseded_def\<close>)

lemma held_step:
  assumes "effect_of (registry s) p pc r' pc' e" and "calls s t = Some (p, pc)" and "held s q"
    and s': "registry s' = r'" "calls s' = (calls s)(t := Some (p, pc'))"
  shows "held s' q"
proof -
  consider "Peers (registry s) (Id q) = Some q" | "addr q \<in> set (cancelled (registry s))" | u x where "calls s u = Some (x, RegCancel q)"
    using assms(3) by (auto simp: held_def)
  then show ?thesis
  proof cases
    case 1
    show ?thesis
    proof (cases "\<exists>old. e = Stored old \<and> Id q = Id p \<and> p \<noteq> q")
      case True
      then have "pc' = RegCancel q" using assms(1) 1 by (auto simp: effect_of_def)
      then have "calls s' t = Some (p, RegCancel q)" using s' by simp
      then show ?thesis by (auto simp: held_def)
    next
      case False
      then have "Peers r' (Id q) = Some q" using assms(1) 1 by (cases e) (auto simp: effect_of_def)
      then show ?thesis using s' by (simp add: held_def)
    qed
  next
    case 2
    then have "addr q \<in> set (cancelled r')" using assms(1) by (cases e) (auto simp: effect_of_def)
    then show ?thesis using s' by (simp add: held_def)
  next
    case 3
    show ?thesis
    proof (cases "u = t")
      case True
      then have "pc = RegCancel q" using 3 assms(2) by simp
      then have "addr q \<in> set (cancelled r')" using assms(1) by (cases e) (auto simp: effect_of_def)
      then show ?thesis using s' by (simp add: held_def)
    next
      case False
      then have "calls s' u = Some (x, RegCancel q)" using 3 s' by simp
      then show ?thesis by (auto simp: held_def)
    qed
  qed
qed

lemma call_ok_other:
  assumes "effect_of (registry s) p pc r' pc' e" and "calls s t = Some (p, pc)" and "call_ok s q pd"
    and s': "registry s' = r'" "calls s' = (calls s)(t := Some (p, pc'))" and kn: "\<And>x. known s x \<Longrightarrow> known s' x"
  shows "call_ok s' q pd"
  using assms(3) superseded_step [OF assms(1)] held_step [OF assms(1,2) _ s'] kn s'(1)
  by (cases pd) (auto simp: call_ok_def)

text \<open>Where the call itself stands afterwards.\<close>

lemma call_ok_self:
  assumes "Register_step p (registry s, pc) = (r', pc')" and "call_ok s p pc" and "calls s t = Some (p, pc)"
    and e: "effect_of (registry s) p pc r' pc' e" and s': "registry s' = r'" "calls s' = (calls s)(t := Some (p, pc'))"
    and kn: "\<And>x. known s x \<Longrightarrow> known s' x" and keys: "\<And>q. Peers (registry s) (Id p) = Some q \<Longrightarrow> known s q \<and> Id q = Id p"
  shows "call_ok s' p pc'"
proof -
  have stored: "superseded r' p \<and> held s' p" if "Peers r' (Id p) = Some p"
    using that s'(1) by (simp add: superseded_def held_def)
  have moved: "superseded r' p \<and> held s' p" if "superseded (registry s) p \<and> held s p"
    using that superseded_step [OF e] held_step [OF e assms(3) _ s'] by blast
  show ?thesis
  proof (cases pc)
    case RegLoad
    show ?thesis
    proof (cases "Peers (registry s) (Id p)")
      case None
      then have "pc' = RegCount" "Peers r' (Id p) = Some p" using assms(1) RegLoad by (auto simp: LoadOrStore_def)
      then show ?thesis using stored s'(1) by (simp add: call_ok_def)
    next
      case (Some pp)
      then show ?thesis using assms(1) RegLoad keys [OF Some] kn s'(1)
        by (auto simp: LoadOrStore_def call_ok_def superseded_def split: if_splits)
    qed
  next
    case (RegSwap pp)
    then have "pc' = RegLoad \<or> (\<exists>x. pc' = RegCancel x) \<and> Peers r' (Id p) = Some p"
      using assms(1) by (auto simp: CompareAndSwap_def split: option.splits if_splits)
    then show ?thesis using stored s'(1) by (auto simp: call_ok_def)
  next
    case (RegCancel pp)
    then show ?thesis using assms(1,2) moved s'(1) by (auto simp: call_ok_def)
  next
    case RegCount
    then show ?thesis using assms(1,2) moved s'(1) by (auto simp: call_ok_def)
  next
    case (RegDone err)
    then have "pc' = RegDone err" using assms(1) by simp
    then show ?thesis using call_ok_other [OF e assms(3,2) s' kn] RegDone by simp
  qed
qed

lemma race_inv_advance:
  assumes inv: "race_inv s" and call: "calls s t = Some (p, pc)"
    and step: "Register_step p (registry s, pc) = (r', pc')"
  shows "race_inv (s\<lparr>registry := r', calls := (calls s)(t := Some (p, pc'))\<rparr>)" (is "race_inv ?s'")
proof -
  let ?r = "registry s"
  have p: "known s p" using call by (auto simp: known_def)
  have kn: "known ?s' q = known s q" for q
    using known_upd(1) [of s t p] call p by auto
  note ok = race_invD(4) [OF inv call]
  have "StreamID pp < StreamID p \<and> (Peers ?r (Id p) = Some x \<and> addr x = addr pp \<longrightarrow> x = pp)" if "pc = RegSwap pp" for x pp
    using ok that race_invD(1,2) [OF inv] by (auto simp: call_ok_def)
  then obtain e where e: "effect_of ?r p pc r' pc' e" using Register_step_effect [OF step] by blast
  have s': "registry ?s' = r'" "calls ?s' = (calls s)(t := Some (p, pc'))" by simp_all
  have self: "call_ok ?s' p pc'"
    using call_ok_self [OF step ok call e s'] kn race_invD(2,3) [OF inv] by blast
  have entry: "known s q \<and> Id q = k" if "Peers r' k = Some q" for k q
  proof -
    have "Peers r' = Peers ?r \<or> Peers r' = (Peers ?r)(Id p := Some p)" using e by (cases e) (auto simp: effect_of_def)
    with that have "Peers ?r k = Some q \<or> k = Id p \<and> q = p" by (auto split: if_splits)
    then show ?thesis using race_invD(2,3) [OF inv] p by blast
  qed
  show ?thesis
  proof (rule race_invI, unfold kn)
    fix u q pd assume "calls ?s' u = Some (q, pd)"
    then show "call_ok ?s' q pd"
      using self call_ok_other [OF e call _ s'] kn race_invD(4) [OF inv] by (cases "u = t") auto
  qed (use race_invD(1) [OF inv] entry in simp_all)
qed

lemma race_reach_inv: "race_reach s \<Longrightarrow> race_inv s"
proof (induction rule: race_reach.induct)
  case race_init
  show ?case by (simp add: race_inv_def known_def NewRegistry_def)
next
  case (race_more s s')
  from race_more.hyps(2) show ?case
  proof cases
    case (spawn t p)
    have kn: "known s' q \<longleftrightarrow> known s q \<or> q = p" for q
      using known_upd(2) [of s t p] spawn(1,2) by auto
    have new: "known s q \<Longrightarrow> addr q \<noteq> addr p" for q
      using spawn(3) by (auto simp: known_def)
    have s': "calls s' = (calls s)(t := Some (p, RegLoad))" "registry s' = registry s"
      using spawn(1) by simp_all
    note ih = race_invD [OF race_more.IH]
    have held: "held s' q" if "held s q" for q
    proof -
      have "calls s' u = Some (x, RegCancel q)" if "calls s u = Some (x, RegCancel q)" for u x
        using that s' spawn(2) by auto
      then show ?thesis using that s'(2) unfolding held_def by metis
    qed
    show ?thesis
    proof (rule race_invI)
      fix u q pd assume "calls s' u = Some (q, pd)"
      then have "pd = RegLoad \<or> call_ok s q pd" using ih(4) s'(1) by (cases "u = t") auto
      then show "call_ok s' q pd" using held kn s'(2) by (cases pd) (auto simp: call_ok_def)
    next
      fix a b assume "known s' a" "known s' b" "addr a = addr b"
      then show "a = b" using ih(1) kn new by metis
    qed (use ih(2,3) kn s'(2) in auto)
  next
    case (advance t p pc r' pc')
    then show ?thesis using race_inv_advance race_more.IH by simp
  qed
qed

section \<open>Properties\<close>

text \<open>
  C21. Racing registrations of one peer. In every state that any interleaving of the atomic actions of
  registrations reaches, a call that has returned leaves the peer registered with a stream at
  least as new as its own; and if it reported success, then its own stream is the registered
  one, or has been cancelled, or the call that replaced it in the registry is about to cancel it. Once all calls have returned, no stream is left
  connected but unreachable.
\<close>

theorem register_race:
  assumes "race_reach s" and "calls s t = Some (p, RegDone e)"
  shows "\<exists>q. Peers (registry s) (Id p) = Some q \<and> StreamID p \<le> StreamID q \<and>
           (e = None \<longrightarrow> q = p \<or> addr p \<in> set (cancelled (registry s)) \<or> (\<exists>u p'. calls s u = Some (p', RegCancel p))) \<and>
           (e = None \<and> (\<forall>u p' pc. calls s u = Some (p', pc) \<longrightarrow> (\<exists>e'. pc = RegDone e')) \<longrightarrow>
              q = p \<or> addr p \<in> set (cancelled (registry s)))"
proof -
  have "call_ok s p (RegDone e)" using race_invD(4) [OF race_reach_inv [OF assms(1)] assms(2)] .
  then show ?thesis by (fastforce simp: call_ok_def held_def superseded_def)
qed

definition race_demo :: race where
  "race_demo =
     \<lparr>registry = fst (Register NewRegistry (NewPeer 1 5 5 ''a'')),
      calls = [0 \<mapsto> (NewPeer 1 5 5 ''a'', RegDone None)]\<rparr>"

lemma race_demo_reach: "race_reach race_demo"
proof -
  let ?p = "NewPeer 1 5 5 ''a''"
  let ?s0 = "\<lparr>registry = NewRegistry, calls = (\<lambda>t. None)\<rparr>"
  let ?r1 = "NewRegistry\<lparr>Peers := [''a'' \<mapsto> ?p]\<rparr>"
  have "race_step ?s0 (?s0\<lparr>calls := [0 \<mapsto> (?p, RegLoad)]\<rparr>)"
    using race_step.spawn [of ?s0 0 ?p] by simp
  moreover have "race_step (?s0\<lparr>calls := [0 \<mapsto> (?p, RegLoad)]\<rparr>) \<lparr>registry = ?r1, calls = [0 \<mapsto> (?p, RegCount)]\<rparr>"
    using race_step.advance [of "?s0\<lparr>calls := [0 \<mapsto> (?p, RegLoad)]\<rparr>" 0 ?p RegLoad ?r1 RegCount]
    by (simp add: LoadOrStore_def NewRegistry_def NewPeer_def)
  moreover have "race_step \<lparr>registry = ?r1, calls = [0 \<mapsto> (?p, RegCount)]\<rparr> race_demo"
    using race_step.advance [of "\<lparr>registry = ?r1, calls = [0 \<mapsto> (?p, RegCount)]\<rparr>" 0 ?p RegCount]
    by (simp add: race_demo_def Register_cases NewRegistry_def NewPeer_def)
  ultimately show ?thesis
    using race_init race_more by blast
qed

theorem register_race_witness:
  "\<exists>q. Peers (registry race_demo) ''a'' = Some q \<and> 5 \<le> StreamID q"
  using register_race [OF race_demo_reach, of 0 "NewPeer 1 5 5 ''a''" None]
  by (auto simp: race_demo_def NewPeer_def)

text \<open>
  A late clean-up does no harm. After a stream has been registered over older ones, any
  sequence of deregistrations of other streams, of the same peer or not, leaves it registered.
\<close>

lemma late_deregister:
  assumes "accepts r q" and "\<forall>p \<in> set ps. Id p = Id q \<longrightarrow> addr p \<noteq> addr q"
  shows "map_option addr (Peers (foldl Deregister (fst (Register r q)) ps) (Id q)) = Some (addr q)"
  using reg.late_dels [of r q ps] assms by blast

text \<open>
  The gauge of active peers. After any sequence of registrations and deregistrations,
  in any order and of any streams, \<open>ActivePeers\<close> is the number of registered peers and every
  peer is stored under its own ID.
\<close>

lemma active_peers_exact: "registry_inv (foldl registry_step NewRegistry ops)"
  by (rule reg_machine.run_inv) (simp_all add: registry_inv_def NewRegistry_def)

end
