(* ===== verification/Sha256.thy ===== *)
theory Sha256
  imports Prelude "HOL-Library.Word"
begin

text \<open>
  \<open>crypto/sha256\<close> and \<open>crypto/hmac\<close> of the Go library, as far as the relay uses them: the hash
  of a byte slice and the code of a byte slice under a key. Both are executable.
\<close>

unbundle bit_operations_syntax

type_synonym w32 = "32 word"

text \<open>
  The constants of FIPS 180-4 by their meaning: the first 32 bits of the fractional parts of the
  cube roots of the first 64 primes and, for the initial state, of the square roots of the
  first eight.
\<close>

definition root_floor :: "nat \<Rightarrow> int \<Rightarrow> int" where
  "root_floor k n = foldl (\<lambda>r b. if (r + b) ^ k \<le> n then r + b else r) 0 (map ((^) 2) (rev [0..<36]))"

definition primes_upto :: "int \<Rightarrow> int list" where
  "primes_upto n = filter (\<lambda>p. list_all (\<lambda>d. p mod d \<noteq> 0) [2..p - 1]) [2..n]"

definition root_bits :: "nat \<Rightarrow> int \<Rightarrow> w32" where
  "root_bits k p = word_of_int (root_floor k (p * 2 ^ (32 * k)))"

definition sha_K :: "w32 list" where
  "sha_K = map (root_bits 3) (primes_upto 311)"

record sha_state =
  sa :: w32
  sb :: w32
  sc :: w32
  sd :: w32
  se :: w32
  sf :: w32
  sg :: w32
  sh :: w32

definition sha_init :: sha_state where
  "sha_init = \<lparr>sa = root_bits 2 2, sb = root_bits 2 3, sc = root_bits 2 5, sd = root_bits 2 7,
     se = root_bits 2 11, sf = root_bits 2 13, sg = root_bits 2 17, sh = root_bits 2 19\<rparr>"

definition be_bytes :: "nat \<Rightarrow> 'a::len word \<Rightarrow> bytes" where
  "be_bytes n w = map (\<lambda>i. ucast (drop_bit (8 * i) w)) (rev [0..<n])"

definition be_word :: "bytes \<Rightarrow> w32" where
  "be_word bs = foldl (\<lambda>w b. push_bit 8 w OR ucast b) 0 bs"

definition sha_pad :: "bytes \<Rightarrow> bytes" where
  "sha_pad msg =
     (let n = length msg; z = (119 - n mod 64) mod 64
      in msg @ [0x80] @ replicate z 0 @ be_bytes 8 (word_of_nat (8 * n) :: 64 word))"

fun chunks :: "nat \<Rightarrow> 'a list \<Rightarrow> 'a list list" where
  "chunks n xs = (if n = 0 \<or> xs = [] then [] else take n xs # chunks n (drop n xs))"

declare chunks.simps [simp del]

primrec sha_extend :: "nat \<Rightarrow> w32 list \<Rightarrow> w32 list" where
  "sha_extend 0 ws = ws"
| "sha_extend (Suc k) ws =
     (let n = length ws;
          w15 = ws ! (n - 15); w2 = ws ! (n - 2);
          s0 = (word_rotr 7 w15) XOR (word_rotr 18 w15) XOR (drop_bit 3 w15);
          s1 = (word_rotr 17 w2) XOR (word_rotr 19 w2) XOR (drop_bit 10 w2)
      in sha_extend k (ws @ [ws ! (n - 16) + s0 + ws ! (n - 7) + s1]))"

definition sha_round :: "sha_state \<Rightarrow> w32 \<times> w32 \<Rightarrow> sha_state" where
  "sha_round s kw =
     (let e = se s; a = sa s;
          S1 = (word_rotr 6 e) XOR (word_rotr 11 e) XOR (word_rotr 25 e);
          ch = (e AND sf s) XOR ((NOT e) AND sg s);
          t1 = sh s + S1 + ch + fst kw + snd kw;
          S0 = (word_rotr 2 a) XOR (word_rotr 13 a) XOR (word_rotr 22 a);
          maj = (a AND sb s) XOR (a AND sc s) XOR (sb s AND sc s);
          t2 = S0 + maj
      in \<lparr>sa = t1 + t2, sb = a, sc = sb s, sd = sc s, se = sd s + t1, sf = e, sg = sf s, sh = sg s\<rparr>)"

definition sha_block :: "sha_state \<Rightarrow> bytes \<Rightarrow> sha_state" where
  "sha_block s blk =
     (let ws = sha_extend 48 (map be_word (chunks 4 blk));
          t = foldl sha_round s (zip sha_K ws)
      in \<lparr>sa = sa s + sa t, sb = sb s + sb t, sc = sc s + sc t, sd = sd s + sd t,
          se = se s + se t, sf = sf s + sf t, sg = sg s + sg t, sh = sh s + sh t\<rparr>)"

definition sha256 :: "bytes \<Rightarrow> bytes" where
  "sha256 msg =
     (let s = foldl sha_block sha_init (chunks 64 (sha_pad msg))
      in concat (map (be_bytes 4) [sa s, sb s, sc s, sd s, se s, sf s, sg s, sh s]))"

definition hmac_sha256 :: "bytes \<Rightarrow> bytes \<Rightarrow> bytes" where
  "hmac_sha256 key msg =
     (let k = (if length key > 64 then sha256 key else key);
          k = k @ replicate (64 - length k) 0;
          ipad = map (\<lambda>b. b XOR 0x36) k;
          opad = map (\<lambda>b. b XOR 0x5c) k
      in sha256 (opad @ sha256 (ipad @ msg)))"

lemma sha_constants:
  "root_bits 3 2 = 0x428a2f98" "root_bits 3 311 = 0xc67178f2" "root_bits 2 2 = 0x6a09e667" "root_bits 2 19 = 0x5be0cd19"
  by code_simp+

lemma length_be_bytes [simp]: "length (be_bytes n w) = n"
  by (simp add: be_bytes_def)

lemma length_sha256 [simp]: "length (sha256 msg) = 32"
  by (simp add: sha256_def Let_def)

lemma length_hmac_sha256 [simp]: "length (hmac_sha256 key msg) = 32"
  by (simp add: hmac_sha256_def Let_def)

lemma concat_chunks: "0 < n \<Longrightarrow> concat (chunks n xs) = xs"
  by (induction n xs rule: chunks.induct) (subst chunks.simps, auto)

lemma length_chunk: "0 < n \<Longrightarrow> c \<in> set (chunks n xs) \<Longrightarrow> length c \<le> n \<and> c \<noteq> []"
proof (induction n xs rule: chunks.induct)
  case (1 n xs)
  then show ?case using chunks.simps [of n xs] by (auto split: if_splits)
qed

end
