(* ===== verification/SignalServer.thy ===== *)
theory SignalServer
  imports SignalRegistry HAConfiguration Redis Sha256
begin

text \<open>
  \<open>signal/server/signal.go\<close>: the signal server, alone and as one of several instances that
  share Redis. \<open>Server\<close> is one instance; the state of Redis is passed next to it. What the
  server sends on a stream is the log \<open>sent\<close> (address of the peer, message); \<open>heartbeats\<close>
  are its running heartbeat goroutines.

  Parameters (\<open>signal_lib\<close>): the text form of an envelope (\<open>json.Marshal\<close> and
  \<open>json.Unmarshal\<close>) and the dispatcher package, which is not part of the repository. \<open>outcome\<close> is what the select of \<open>forwardMessageToPeer\<close> sees first
  for a stream. A panic is the value \<open>Inl Panic\<close>.
\<close>

section \<open>Data\<close>

record EncryptedMessage =
  Key :: string
  RemoteKey :: string
  Body :: bytes

record signalEnvelope =
  FromInstance :: string
  ToPeer :: string
  Message :: "EncryptedMessage option"
  Signature :: string

datatype send_error = DispatchError | SignError | MarshalError | PublishError

datatype stream_outcome = StreamSent | StreamError | StreamClosed | StreamTimeout

datatype panic = Panic

record signal_lib =
  Marshal :: "signalEnvelope \<Rightarrow> string option"
  Unmarshal :: "string \<Rightarrow> signalEnvelope option"
  SendMessage :: "EncryptedMessage \<Rightarrow> send_error + EncryptedMessage"
  ListenFails :: "string \<Rightarrow> bool"

record Server =
  s_registry :: Registry
  haConfig :: SignalHAConfig
  redisClient :: bool
  instanceID :: string
  s_sendTimeout :: duration
  subscribed :: "string option"
  sent :: "(nat \<times> EncryptedMessage) list"
  heartbeats :: "string list"
  MessagesForwarded :: int
  MessageForwardFailures :: int
  RegistrationFailures :: int

definition EmptyMessage :: EncryptedMessage where
  "EmptyMessage = \<lparr>Key = '''', RemoteKey = '''', Body = []\<rparr>"

section \<open>Start\<close>

datatype server_error = InvalidConfig config_error | RedisConnect client_error

definition instance_channel :: "SignalHAConfig \<Rightarrow> string \<Rightarrow> string" where
  "instance_channel cfg inst = SanitizeRedisKey (ChannelPrefix cfg @ inst)"

definition base_HAConfig :: "'a HAConfig_scheme \<Rightarrow> HAConfig" where
  "base_HAConfig c = HAConfig.truncate c"

definition initHA ::
    "(string \<Rightarrow> string) \<Rightarrow> bytes option \<Rightarrow> time \<Rightarrow> (redis_options \<Rightarrow> bool) \<Rightarrow> Server \<Rightarrow>
     Server \<times> server_error option" where
  "initHA getenv rnd now ping s =
     (case SignalHAConfig_Validate getenv rnd now (haConfig s) of
        (cfg, Some e) \<Rightarrow> (s\<lparr>haConfig := cfg\<rparr>, Some (InvalidConfig e))
      | (cfg, None) \<Rightarrow>
          (case NewClient getenv rnd now ping (base_HAConfig cfg) of
             Inl e \<Rightarrow> (s\<lparr>haConfig := cfg\<rparr>, Some (RedisConnect e))
           | Inr client \<Rightarrow>
               (s\<lparr>haConfig := cfg, redisClient := True, instanceID := InstanceID cfg,
                  subscribed := Some (instance_channel cfg (InstanceID cfg))\<rparr>, None)))"

definition NewServer ::
    "(string \<Rightarrow> string) \<Rightarrow> (string \<Rightarrow> duration option) \<Rightarrow> bytes option \<Rightarrow> time \<Rightarrow>
     (redis_options \<Rightarrow> bool) \<Rightarrow> SignalHAConfig option \<Rightarrow> server_error + Server" where
  "NewServer getenv parse rnd now ping cfg =
     (let sTimeout =
            (case parse (getenv ''NB_SIGNAL_SEND_TIMEOUT'') of
               Some d \<Rightarrow> if d > 0 then d else 10 * second
             | None \<Rightarrow> 10 * second);
          s = \<lparr>s_registry = NewRegistry,
               haConfig = (case cfg of Some c \<Rightarrow> c | None \<Rightarrow> DefaultSignalHAConfig),
               redisClient = False, instanceID = '''', s_sendTimeout = sTimeout, subscribed = None,
               sent = [], heartbeats = [], MessagesForwarded = 0, MessageForwardFailures = 0,
               RegistrationFailures = 0\<rparr>
      in case cfg of
           None \<Rightarrow> Inr s
         | Some c \<Rightarrow>
             if Enabled c
             then (case initHA getenv rnd now ping s of
                     (s', Some e) \<Rightarrow> Inl e
                   | (s', None) \<Rightarrow> Inr s')
             else Inr s)"

section \<open>Forwarding to a local stream\<close>

definition forwardMessageToPeer ::
    "(Peer \<Rightarrow> EncryptedMessage \<Rightarrow> stream_outcome) \<Rightarrow> Server \<Rightarrow> EncryptedMessage \<Rightarrow> Server" where
  "forwardMessageToPeer outcome s msg =
     (case Registry_Get (s_registry s) (RemoteKey msg) of
        None \<Rightarrow> s\<lparr>MessageForwardFailures := MessageForwardFailures s + 1\<rparr>
      | Some dstPeer \<Rightarrow>
          (case outcome dstPeer msg of
             StreamSent \<Rightarrow> s\<lparr>sent := sent s @ [(addr dstPeer, msg)],
                             MessagesForwarded := MessagesForwarded s + 1\<rparr>
           | StreamError \<Rightarrow> s\<lparr>MessageForwardFailures := MessageForwardFailures s + 1\<rparr>
           | StreamClosed \<Rightarrow> s\<lparr>MessageForwardFailures := MessageForwardFailures s + 1\<rparr>
           | StreamTimeout \<Rightarrow>
               s\<lparr>s_registry := (s_registry s)\<lparr>cancelled := cancelled (s_registry s) @ [addr dstPeer]\<rparr>,
                 MessageForwardFailures := MessageForwardFailures s + 1\<rparr>))"

section \<open>Envelopes\<close>

definition hmac_hex :: "string \<Rightarrow> string \<Rightarrow> string" where
  "hmac_hex key data = hex_bytes (hmac_sha256 (bytes_of key) (bytes_of data))"

definition signEnvelope ::
    "signal_lib \<Rightarrow> SignalHAConfig \<Rightarrow> signalEnvelope \<Rightarrow> signalEnvelope option" where
  "signEnvelope lib cfg e =
     (if Secret cfg = '''' then Some e
      else case Marshal lib e of
        None \<Rightarrow> None
      | Some data \<Rightarrow> Some (e\<lparr>Signature := hmac_hex (Secret cfg) data\<rparr>))"

definition verifyEnvelope :: "signal_lib \<Rightarrow> SignalHAConfig \<Rightarrow> signalEnvelope \<Rightarrow> bool" where
  "verifyEnvelope lib cfg e =
     (if Secret cfg = '''' \<or> Signature e = '''' then True
      else case Marshal lib (e\<lparr>Signature := ''''\<rparr>) of
        None \<Rightarrow> False
      | Some data \<Rightarrow> Signature e = hmac_hex (Secret cfg) data)"

text \<open>
  The body of the loop of \<open>haMessageListener\<close> over the messages of the subscription. An
  envelope without a message reaches \<open>forwardMessageToPeer\<close> with a nil pointer, which reads
  \<open>msg.Key\<close>.
\<close>

definition ha_message ::
    "signal_lib \<Rightarrow> (Peer \<Rightarrow> EncryptedMessage \<Rightarrow> stream_outcome) \<Rightarrow> Server \<Rightarrow> string \<Rightarrow> panic + Server" where
  "ha_message lib outcome s payload =
     (case Unmarshal lib payload of
        None \<Rightarrow> Inr s
      | Some envelope \<Rightarrow>
          if \<not> verifyEnvelope lib (haConfig s) envelope then Inr s
          else case Message envelope of
            None \<Rightarrow> Inl Panic
          | Some msg \<Rightarrow> Inr (forwardMessageToPeer outcome s msg))"

text \<open>The waiting times of the reconnection loop of \<open>haMessageListener\<close>.\<close>

primrec reconnect_backoff :: "nat \<Rightarrow> duration" where
  "reconnect_backoff 0 = second"
| "reconnect_backoff (Suc n) =
     (let b = 2 * reconnect_backoff n in if b > 30 * second then 30 * second else b)"

section \<open>Looking up the instance of a peer\<close>

text \<open>
  The run of the loop depends on the clock. \<open>lk_clock i\<close> is the time at which iteration \<open>i\<close>
  reads it, \<open>lk_done i\<close> says whether the context is done when the iteration starts and
  \<open>lk_done_wait i\<close> whether it is done before the wait ends. \<open>reply i\<close> is the reply to the
  iteration's \<open>HGET\<close>. The result carries the number of lookups made.
\<close>

record lookup_env =
  lk_start :: time
  lk_clock :: "nat \<Rightarrow> time"
  lk_done :: "nat \<Rightarrow> bool"
  lk_done_wait :: "nat \<Rightarrow> bool"

datatype lookup_error = CtxErr | DeadlineExceeded

partial_function (option) lookup_loop ::
    "lookup_env \<Rightarrow> (nat \<Rightarrow> redis_err + string) \<Rightarrow> time \<Rightarrow> nat \<Rightarrow> duration \<Rightarrow>
     ((lookup_error + string) \<times> nat) option" where
  "lookup_loop env reply deadline i backoff =
     (if lk_done env i then Some (Inl CtxErr, i)
      else
        let remaining = deadline - lk_clock env i in
        if remaining \<le> 0 then Some (Inl DeadlineExceeded, i)
        else if (case reply i of Inr v \<Rightarrow> v \<noteq> '''' | Inl e \<Rightarrow> False)
        then Some (case reply i of Inr v \<Rightarrow> Inr v | Inl e \<Rightarrow> Inl CtxErr, Suc i)
        else if remaining \<le> backoff then Some (Inl DeadlineExceeded, Suc i)
        else if lk_done_wait env i then Some (Inl CtxErr, Suc i)
        else lookup_loop env reply deadline (Suc i)
               (if 2 * backoff > 400 * millisecond then 400 * millisecond else 2 * backoff))"

definition lookupPeerInstance ::
    "('r, 'z) redis_api_scheme \<Rightarrow> SignalHAConfig \<Rightarrow> lookup_env \<Rightarrow> (nat \<Rightarrow> 'r) \<Rightarrow> string \<Rightarrow>
     ((lookup_error + string) \<times> nat) option" where
  "lookupPeerInstance api cfg env rs peerID =
     lookup_loop env
       (\<lambda>i. HGet api (rs i) (SanitizeRedisKey (RegistryKey cfg)) (SanitizeRedisKey peerID))
       (lk_start env + 3 * second) 0 (100 * millisecond)"

section \<open>Send\<close>

text \<open>\<open>rs i\<close> is the state of Redis at the \<open>i\<close>-th lookup and \<open>r\<close> its state after them.\<close>

definition Send ::
    "signal_lib \<Rightarrow> ('r, 'z) redis_api_scheme \<Rightarrow> lookup_env \<Rightarrow>
     (Peer \<Rightarrow> EncryptedMessage \<Rightarrow> stream_outcome) \<Rightarrow> (nat \<Rightarrow> 'r) \<Rightarrow> 'r \<Rightarrow> Server \<Rightarrow> EncryptedMessage \<Rightarrow>
     (Server \<times> 'r \<times> (send_error + EncryptedMessage)) option" where
  "Send lib api env outcome rs r s msg =
     (if redisClient s then
        (case lookupPeerInstance api (haConfig s) env rs (RemoteKey msg) of
           None \<Rightarrow> None
         | Some (Inr inst, n) \<Rightarrow>
             if inst \<noteq> '''' then
               if inst = instanceID s then
                 (case Registry_Get (s_registry s) (RemoteKey msg) of
                    Some p \<Rightarrow> Some (forwardMessageToPeer outcome s msg, r, Inr EmptyMessage)
                  | None \<Rightarrow> Some (s, r, Inr EmptyMessage))
               else
                 let envelope = \<lparr>FromInstance = instanceID s, ToPeer = RemoteKey msg,
                                 Message = Some msg, Signature = ''''\<rparr> in
                 (case signEnvelope lib (haConfig s) envelope of
                    None \<Rightarrow> Some (s, r, Inl SignError)
                  | Some envelope \<Rightarrow>
                      (case Marshal lib envelope of
                         None \<Rightarrow> Some (s, r, Inl MarshalError)
                       | Some payload \<Rightarrow>
                           (case Publish api r (instance_channel (haConfig s) inst) payload of
                              (r', Some e) \<Rightarrow> Some (s, r', Inl PublishError)
                            | (r', None) \<Rightarrow> Some (s, r', Inr EmptyMessage))))
             else Some (s, r, SendMessage lib msg)
         | Some (Inl e, n) \<Rightarrow> Some (s, r, SendMessage lib msg))
      else
        (case Registry_Get (s_registry s) (RemoteKey msg) of
           Some p \<Rightarrow> Some (forwardMessageToPeer outcome s msg, r, Inr EmptyMessage)
         | None \<Rightarrow> Some (s, r, SendMessage lib msg)))"

section \<open>Streams\<close>

definition registerPeerInRedis ::
    "('r, 'z) redis_api_scheme \<Rightarrow> Server \<Rightarrow> 'r \<Rightarrow> string \<Rightarrow> Server \<times> 'r" where
  "registerPeerInRedis api s r peerID =
     (if \<not> redisClient s then (s, r)
      else
        let sanitizedPeerID = SanitizeRedisKey peerID;
            sanitizedKey = SanitizeRedisKey (RegistryKey (haConfig s)) in
        case HSet api r sanitizedKey sanitizedPeerID (instanceID s) of
          (r1, Some e) \<Rightarrow> (s, r1)
        | (r1, None) \<Rightarrow>
            (case Expire api r1 sanitizedKey (sig_PeerTTL (haConfig s)) of
               (r2, Some e) \<Rightarrow> (s, fst (HDel api r2 sanitizedKey sanitizedPeerID))
             | (r2, None) \<Rightarrow> (s\<lparr>heartbeats := heartbeats s @ [peerID]\<rparr>, r2)))"

text \<open>One tick of the goroutine \<open>peerHeartbeat\<close>; it ends when the peer is gone.\<close>

definition peerHeartbeat ::
    "('r, 'z) redis_api_scheme \<Rightarrow> Server \<Rightarrow> 'r \<Rightarrow> string \<Rightarrow> Server \<times> 'r" where
  "peerHeartbeat api s r peerID =
     (case Registry_Get (s_registry s) peerID of
        None \<Rightarrow> (s\<lparr>heartbeats := remove1 peerID (heartbeats s)\<rparr>, r)
      | Some p \<Rightarrow>
          let sanitizedPeerID = SanitizeRedisKey peerID;
              sanitizedKey = SanitizeRedisKey (RegistryKey (haConfig s)) in
          case HSet api r sanitizedKey sanitizedPeerID (instanceID s) of
            (r1, Some e) \<Rightarrow> (s, r1)
          | (r1, None) \<Rightarrow> (s, fst (Expire api r1 sanitizedKey (sig_PeerTTL (haConfig s)))))"

definition deregisterPeerFromRedis ::
    "('r, 'z) redis_api_scheme \<Rightarrow> Server \<Rightarrow> 'r \<Rightarrow> string \<Rightarrow> 'r" where
  "deregisterPeerFromRedis api s r peerID =
     (if \<not> redisClient s then r
      else fst (HDel api r (SanitizeRedisKey (RegistryKey (haConfig s))) (SanitizeRedisKey peerID)))"

datatype connect_error = MissingId | RegisterErr register_error | ListenError | HeaderError | ErrPeerRegisteredAgain

text \<open>
  \<open>hdr\<close> is the ID header of the stream, \<open>a\<close> the address of the new \<open>Peer\<close>, \<open>now\<close> and \<open>now'\<close>
  the two readings of the clock in \<open>NewPeer\<close>.
\<close>

definition RegisterPeer ::
    "signal_lib \<Rightarrow> ('r, 'z) redis_api_scheme \<Rightarrow> nat \<Rightarrow> time \<Rightarrow> time \<Rightarrow> Server \<Rightarrow> 'r \<Rightarrow> string option \<Rightarrow>
     Server \<times> 'r \<times> (connect_error + Peer)" where
  "RegisterPeer lib api a now now' s r hdr =
     (case hdr of
        None \<Rightarrow> (s\<lparr>RegistrationFailures := RegistrationFailures s + 1\<rparr>, r, Inl MissingId)
      | Some i \<Rightarrow>
          let p = NewPeer a now now' i in
          (case Register (s_registry s) p of
             (reg', Some e) \<Rightarrow> (s\<lparr>s_registry := reg'\<rparr>, r, Inl (RegisterErr e))
           | (reg', None) \<Rightarrow>
               (case registerPeerInRedis api (s\<lparr>s_registry := reg'\<rparr>) r i of
                  (s', r') \<Rightarrow>
                    if ListenFails lib i
                    then (s'\<lparr>RegistrationFailures := RegistrationFailures s' + 1\<rparr>, r', Inl ListenError)
                    else (s', r', Inr p))))"

definition DeregisterPeer ::
    "('r, 'z) redis_api_scheme \<Rightarrow> Server \<Rightarrow> 'r \<Rightarrow> Peer \<Rightarrow> Server \<times> 'r" where
  "DeregisterPeer api s r p =
     (let s' = s\<lparr>s_registry := Deregister (s_registry s) p\<rparr>
      in (s', deregisterPeerFromRedis api s' r (Id p)))"

text \<open>
  A stream from its connection to its end. \<open>header_fails\<close> is the result of sending the
  header; \<open>others\<close> is what the other goroutines do while the stream is open; \<open>replaced\<close> says
  which case of the final select fires.
\<close>

definition ConnectStream ::
    "signal_lib \<Rightarrow> ('r, 'z) redis_api_scheme \<Rightarrow> nat \<Rightarrow> time \<Rightarrow> time \<Rightarrow> bool \<Rightarrow>
     (Server \<times> 'r \<Rightarrow> Server \<times> 'r) \<Rightarrow> bool \<Rightarrow> Server \<Rightarrow> 'r \<Rightarrow> string option \<Rightarrow>
     Server \<times> 'r \<times> connect_error option" where
  "ConnectStream lib api a now now' header_fails others replaced s r hdr =
     (case RegisterPeer lib api a now now' s r hdr of
        (s1, r1, Inl e) \<Rightarrow> (s1, r1, Some e)
      | (s1, r1, Inr p) \<Rightarrow>
          if header_fails
          then (case DeregisterPeer api (s1\<lparr>RegistrationFailures := RegistrationFailures s1 + 1\<rparr>) r1 p of
                  (s2, r2) \<Rightarrow> (s2, r2, Some HeaderError))
          else
            (case others (s1, r1) of
               (s2, r2) \<Rightarrow>
                 (case DeregisterPeer api s2 r2 p of
                    (s3, r3) \<Rightarrow> (s3, r3, if replaced then Some ErrPeerRegisteredAgain else None))))"

section \<open>Lookup\<close>

primrec lookup_backoff :: "nat \<Rightarrow> duration" where
  "lookup_backoff 0 = 100 * millisecond"
| "lookup_backoff (Suc i) =
     (if 2 * lookup_backoff i > 400 * millisecond then 400 * millisecond else 2 * lookup_backoff i)"

text \<open>The clock of a run: \<open>time.After\<close> fires no earlier than the wait it was given.\<close>

definition clock_ok :: "lookup_env \<Rightarrow> bool" where
  "clock_ok env \<longleftrightarrow>
     lk_start env \<le> lk_clock env 0 \<and>
     (\<forall>i. lk_clock env i + lookup_backoff i \<le> lk_clock env (Suc i))"

lemma clock_ninth:
  assumes "clock_ok env"
  shows "lk_start env + 2700 * millisecond \<le> lk_clock env 8"
proof -
  have step: "lk_clock env i + lookup_backoff i \<le> lk_clock env (Suc i)" for i
    using assms by (simp add: clock_ok_def)
  show ?thesis
    using assms step [of 0] step [of 1] step [of 2] step [of 3] step [of 4] step [of 5]
      step [of 6] step [of 7]
    by (simp add: clock_ok_def numeral_eq_Suc)
qed

lemma lookup_loop_ends:
  assumes "clock_ok env" and "i \<le> 8"
  shows "\<exists>res n. lookup_loop env reply (lk_start env + 3 * second) i (lookup_backoff i) = Some (res, n) \<and> n \<le> 9"
  using assms(2)
proof (induction "8 - i" arbitrary: i)
  case 0
  then have i: "i = 8" by simp
  have "lookup_backoff 8 = 400 * millisecond" by (simp add: numeral_eq_Suc)
  then show ?case
    using clock_ninth [OF assms(1)] unfolding i
    by (subst lookup_loop.simps) (simp add: Let_def split: sum.split)
next
  case (Suc k)
  then have "8 - Suc i = k" "Suc i \<le> 8" by simp_all
  from Suc.hyps(1) [of "Suc i"] this
  show ?case by (subst lookup_loop.simps) (auto simp: Let_def split: sum.split)
qed

lemma lookup_hit:
  assumes "\<not> lk_done env 0" and "lk_clock env 0 < lk_start env + 3 * second"
    and "HGet api (rs 0) (SanitizeRedisKey (RegistryKey cfg)) (SanitizeRedisKey k) = Inr v" and "v \<noteq> ''''"
  shows "lookupPeerInstance api cfg env rs k = Some (Inr v, 1)"
  unfolding lookupPeerInstance_def using assms by (subst lookup_loop.simps) (simp add: Let_def)

section \<open>Start and registration\<close>

lemma initHA_ready:
  assumes "initHA getenv rnd now ping s0 = (s, None)" and "Enabled (haConfig s0)"
  shows "redisClient s" and "instanceID s \<noteq> ''''" and "0 < sig_PeerTTL (haConfig s)"
    and "subscribed s = Some (instance_channel (haConfig s) (instanceID s))"
proof -
  obtain c where v: "HAConfig_Validate getenv rnd now (haConfig s0) = (c, None)"
    using assms
    by (auto simp: initHA_def SignalHAConfig_Validate_def split: prod.splits option.splits sum.splits)
  then have ok: "config_ok c" using HAConfig_Validate_accepts assms(2) by blast
  then have "Enabled c" "InstanceID c \<noteq> ''''" by (simp_all add: config_ok_def)
  with assms v show "redisClient s" "instanceID s \<noteq> ''''" "0 < sig_PeerTTL (haConfig s)"
    and "subscribed s = Some (instance_channel (haConfig s) (instanceID s))"
    by (auto simp: initHA_def SignalHAConfig_Validate_def split: prod.splits option.splits sum.splits)
qed

definition registry_entry ::
    "('r \<Rightarrow> string \<Rightarrow> string \<Rightarrow> string option) \<Rightarrow> SignalHAConfig \<Rightarrow> 'r \<Rightarrow> string \<Rightarrow> string option" where
  "registry_entry hv cfg r k = hv r (SanitizeRedisKey (RegistryKey cfg)) (SanitizeRedisKey k)"

lemma registerPeerInRedis_entry:
  assumes "hash_laws api hv" and "redis_up api" and "redisClient s" and "0 < sig_PeerTTL (haConfig s)"
  shows "\<exists>r'. registerPeerInRedis api s r k = (s\<lparr>heartbeats := heartbeats s @ [k]\<rparr>, r') \<and>
           registry_entry hv (haConfig s) r' k = Some (instanceID s)"
proof -
  let ?k = "SanitizeRedisKey (RegistryKey (haConfig s))"
  obtain r1 where 1: "HSet api r ?k (SanitizeRedisKey k) (instanceID s) = (r1, None)"
      "hv r1 = (hv r)(?k := (hv r ?k)(SanitizeRedisKey k := Some (instanceID s)))"
    by (rule HSet_up [OF assms(1,2)])
  obtain r2 where "Expire api r1 ?k (sig_PeerTTL (haConfig s)) = (r2, None)" "hv r2 = hv r1"
    using Expire_up [OF assms(2)] assms(1,4) by metis
  with 1 assms(3) show ?thesis
    by (simp add: registerPeerInRedis_def registry_entry_def Let_def)
qed

lemma RegisterPeer_ok:
  assumes "hash_laws api hv" and "redis_up api" and "redisClient s" and "0 < sig_PeerTTL (haConfig s)"
    and "RegisterPeer lib api a now now' s r (Some k) = (s', r', Inr p)"
  shows "Registry_Get (s_registry s') k = Some p" and "p = NewPeer a now now' k"
    and "registry_entry hv (haConfig s) r' k = Some (instanceID s)"
    and "haConfig s' = haConfig s" and "instanceID s' = instanceID s" and "redisClient s'"
    and "sent s' = sent s"
proof -
  let ?p = "NewPeer a now now' k"
  have acc: "accepts (s_registry s) ?p"
    using assms(5) Register_error [of "s_registry s" ?p]
    by (auto simp: RegisterPeer_def Let_def split: prod.splits option.splits if_splits)
  obtain reg' where reg': "Register (s_registry s) ?p = (reg', None)"
    using acc Register_error [of "s_registry s" ?p] by (metis prod.collapse)
  have "Peers reg' k = Some ?p"
    using Peers_Register [of "s_registry s" ?p k] acc reg' by (simp add: NewPeer_def)
  moreover obtain r2 where
    "registerPeerInRedis api (s\<lparr>s_registry := reg'\<rparr>) r k =
       (s\<lparr>s_registry := reg', heartbeats := heartbeats s @ [k]\<rparr>, r2)"
    "registry_entry hv (haConfig s) r2 k = Some (instanceID s)"
    using registerPeerInRedis_entry [OF assms(1,2), of "s\<lparr>s_registry := reg'\<rparr>" r k] assms(3,4) by auto
  ultimately show "Registry_Get (s_registry s') k = Some p" "p = ?p"
    "registry_entry hv (haConfig s) r' k = Some (instanceID s)"
    "haConfig s' = haConfig s" "instanceID s' = instanceID s" "redisClient s'" "sent s' = sent s"
    using assms(3,5) reg' by (auto simp: RegisterPeer_def Let_def Registry_Get_def split: if_splits)
qed

section \<open>Envelopes\<close>

lemma length_hmac_hex: "length (hmac_hex k d) = 64"
  by (simp add: hmac_hex_def)

lemma verify_signed:
  assumes "signEnvelope lib cfg e = Some e'" and "Signature e = ''''"
  shows "verifyEnvelope lib cfg e'" and "Message e' = Message e"
    and "FromInstance e' = FromInstance e" and "ToPeer e' = ToPeer e"
proof -
  show "verifyEnvelope lib cfg e'"
    using assms
    by (cases e) (auto simp: signEnvelope_def verifyEnvelope_def split: if_splits option.splits)
qed (use assms in \<open>auto simp: signEnvelope_def split: if_splits option.splits\<close>)

section \<open>Properties\<close>

text \<open>
  C6. A message reaches a peer of another instance. Two instances start with HA enabled and
  the same registry key, channel prefix and secret; a peer connects to instance \<open>b\<close>; then
  \<open>Send\<close> on instance \<open>a\<close> of a message for that peer succeeds and publishes exactly one
  payload, on the channel \<open>b\<close> subscribed to at its start, and the listener of \<open>b\<close> verifies
  that payload and sends the message, unchanged, on the peer's stream. Redis is reachable, the
  context is alive at the first lookup, and an envelope of this message survives its text form.
\<close>

theorem cross_instance_delivery:
  assumes redis: "hash_laws api hv" "pubsub_laws api pv" "redis_up api"
    and start: "initHA ga ra ta pinga a0 = (a, None)" "initHA gb rb tb pingb b0 = (b, None)"
      "Enabled (haConfig a0)" "Enabled (haConfig b0)"
    and config: "instanceID a \<noteq> instanceID b" "RegistryKey (haConfig a) = RegistryKey (haConfig b)"
      "ChannelPrefix (haConfig a) = ChannelPrefix (haConfig b)" "Secret (haConfig a) = Secret (haConfig b)"
    and peer: "RegisterPeer lib api ad now now' b r (Some (RemoteKey msg)) = (b', r1, Inr p)"
      "outcome p msg = StreamSent"
    and time: "\<not> lk_done env 0" "lk_clock env 0 < lk_start env + 3 * second"
    and json: "\<And>e. Message e = Some msg \<Longrightarrow> FromInstance e = instanceID a \<Longrightarrow> ToPeer e = RemoteKey msg \<Longrightarrow>
      \<exists>d. Marshal lib e = Some d \<and> Unmarshal lib d = Some e"
  shows "\<exists>payload r2 chan b''.
           Send lib api env outcome (\<lambda>i. r1) r1 a msg = Some (a, r2, Inr EmptyMessage) \<and>
           pv r2 = pv r1 @ [(chan, payload)] \<and> subscribed b = Some chan \<and>
           ha_message lib outcome b' payload = Inr b'' \<and>
           sent b'' = sent b @ [(addr p, msg)]"
proof -
  note A = initHA_ready [OF start(1,3)] and B = initHA_ready [OF start(2,4)]
  note P = RegisterPeer_ok [OF redis(1,3) B(1,3) peer(1)]
  let ?e = "\<lparr>FromInstance = instanceID a, ToPeer = RemoteKey msg, Message = Some msg, Signature = ''''\<rparr>"
  have "HGet api r1 (SanitizeRedisKey (RegistryKey (haConfig a))) (SanitizeRedisKey (RemoteKey msg)) = Inr (instanceID b)"
    using P(3) config(2) by (simp add: HGet_up [OF redis(1,3)] registry_entry_def)
  then have look: "lookupPeerInstance api (haConfig a) env (\<lambda>i. r1) (RemoteKey msg) = Some (Inr (instanceID b), 1)"
    using lookup_hit time B(2) by simp
  have "\<exists>e1. signEnvelope lib (haConfig a) ?e = Some e1"
    using json [of ?e] by (auto simp: signEnvelope_def)
  then obtain e1 where sig: "signEnvelope lib (haConfig a) ?e = Some e1" by blast
  note V = verify_signed [OF sig, simplified]
  obtain d where d: "Marshal lib e1 = Some d" "Unmarshal lib d = Some e1"
    using json [of e1] V(2-4) by auto
  obtain r2 where r2: "Publish api r1 (instance_channel (haConfig a) (instanceID b)) d = (r2, None)"
      "pv r2 = pv r1 @ [(instance_channel (haConfig a) (instanceID b), d)]"
    by (rule Publish_up [OF redis(2,3)])
  have chan: "instance_channel (haConfig a) (instanceID b) = instance_channel (haConfig b) (instanceID b)"
    using config(3) by (simp add: instance_channel_def)
  have "Send lib api env outcome (\<lambda>i. r1) r1 a msg = Some (a, r2, Inr EmptyMessage)"
    using A(1) B(2) look config(1) sig d(1) r2(1) by (simp add: Send_def Let_def)
  moreover have "verifyEnvelope lib (haConfig b') e1"
    using V(1) unfolding verifyEnvelope_def P(4) config(4) .
  then have "ha_message lib outcome b' d = Inr (forwardMessageToPeer outcome b' msg)"
    using d(2) V(2) by (simp add: ha_message_def)
  moreover have "sent (forwardMessageToPeer outcome b' msg) = sent b @ [(addr p, msg)]"
    using P(1,7) peer(2) by (simp add: forwardMessageToPeer_def)
  ultimately show ?thesis using r2(2) chan B(4) by metis
qed

definition demo_msg :: EncryptedMessage where
  "demo_msg = \<lparr>Key = ''p'', RemoteKey = ''q'', Body = [1, 2]\<rparr>"

definition demo_lib :: signal_lib where
  "demo_lib =
     \<lparr>Marshal = (\<lambda>e. Some (Signature e)),
      Unmarshal = (\<lambda>d. Some \<lparr>FromInstance = ''a'', ToPeer = ''q'', Message = Some demo_msg, Signature = d\<rparr>),
      SendMessage = (\<lambda>m. Inl DispatchError), ListenFails = (\<lambda>i. False)\<rparr>"

definition demo_raw :: "string \<Rightarrow> Server" where
  "demo_raw i =
     \<lparr>s_registry = NewRegistry,
      haConfig = DefaultSignalHAConfig\<lparr>Enabled := True, RedisAddress := ''redis'', InstanceID := i, Secret := ''k''\<rparr>,
      redisClient = False, instanceID = '''', s_sendTimeout = second, subscribed = None, sent = [],
      heartbeats = [], MessagesForwarded = 0, MessageForwardFailures = 0, RegistrationFailures = 0\<rparr>"

definition demo_server :: "string \<Rightarrow> Server" where
  "demo_server i = fst (initHA (\<lambda>k. '''') None 0 (\<lambda>opts. True) (demo_raw i))"

lemmas demo_start_defs = initHA_def demo_raw_def SignalHAConfig_Validate_def
  HAConfig_Validate_def DefaultSignalHAConfig_def DefaultHAConfig_def Let_def MaxTimeout_def
  orDefault_def NewClient_def base_HAConfig_def HAConfig.truncate_def DetectInstanceID_def

lemma demo_start:
  assumes "i \<noteq> ''''"
  shows "initHA (\<lambda>k. '''') None 0 (\<lambda>opts. True) (demo_raw i) = (demo_server i, None)"
    and "instanceID (demo_server i) = i" and "Enabled (haConfig (demo_raw i))"
    and "RegistryKey (haConfig (demo_server i)) = ''nb:signal:registry''"
    and "ChannelPrefix (haConfig (demo_server i)) = ''nb:signal:instance:''"
    and "Secret (haConfig (demo_server i)) = ''k''"
    and "s_registry (demo_server i) = NewRegistry" and "sent (demo_server i) = []"
  using assms by (simp_all add: demo_server_def demo_start_defs)

definition demo_env :: lookup_env where
  "demo_env = \<lparr>lk_start = 0, lk_clock = (\<lambda>i. int i * second), lk_done = (\<lambda>i. False), lk_done_wait = (\<lambda>i. False)\<rparr>"

lemma demo_register:
  obtains b' r1 p where
    "RegisterPeer demo_lib mem_redis 1 5 5 (demo_server ''b'') empty_server (Some ''q'') = (b', r1, Inr p)"
proof -
  have "snd (Register NewRegistry (NewPeer 1 5 5 ''q'')) = None"
    by (simp add: Register_error accepts_def NewRegistry_def)
  then have "\<exists>b' r1 p. RegisterPeer demo_lib mem_redis 1 5 5 (demo_server ''b'') empty_server (Some ''q'') = (b', r1, Inr p)"
    using demo_start(7) [of "''b''"]
    by (auto simp: RegisterPeer_def Let_def demo_lib_def split: prod.splits)
  with that show thesis by blast
qed

theorem cross_instance_delivery_witness:
  "\<exists>b' r1 p payload r2 b''.
     RegisterPeer demo_lib mem_redis 1 5 5 (demo_server ''b'') empty_server (Some ''q'') = (b', r1, Inr p) \<and>
     Send demo_lib mem_redis demo_env (\<lambda>p m. StreamSent) (\<lambda>i. r1) r1 (demo_server ''a'') demo_msg =
       Some (demo_server ''a'', r2, Inr EmptyMessage) \<and>
     ha_message demo_lib (\<lambda>p m. StreamSent) b' payload = Inr b'' \<and> sent b'' = [(addr p, demo_msg)]"
proof -
  note A = demo_start [of "''a''", simplified] and B = demo_start [of "''b''", simplified]
  obtain b' r1 p where
    q: "RegisterPeer demo_lib mem_redis 1 5 5 (demo_server ''b'') empty_server (Some ''q'') = (b', r1, Inr p)"
    by (rule demo_register)
  have p: "RegisterPeer demo_lib mem_redis 1 5 5 (demo_server ''b'') empty_server (Some (RemoteKey demo_msg)) = (b', r1, Inr p)"
    using q by (simp add: demo_msg_def)
  have "\<exists>payload r2 chan b''.
      Send demo_lib mem_redis demo_env (\<lambda>p m. StreamSent) (\<lambda>i. r1) r1 (demo_server ''a'') demo_msg =
        Some (demo_server ''a'', r2, Inr EmptyMessage) \<and>
      mem_pub r2 = mem_pub r1 @ [(chan, payload)] \<and> subscribed (demo_server ''b'') = Some chan \<and>
      ha_message demo_lib (\<lambda>p m. StreamSent) b' payload = Inr b'' \<and>
      sent b'' = sent (demo_server ''b'') @ [(addr p, demo_msg)]"
    by (rule cross_instance_delivery [OF mem_hash_laws mem_pubsub_laws mem_redis_up A(1) B(1) A(3) B(3) _ _ _ _ p])
      (simp_all add: A B demo_env_def demo_lib_def demo_msg_def)
  then show ?thesis using q B(8) by auto
qed

text \<open>
  C31. The lookup in \<open>Send\<close> always returns, after at most nine \<open>HGET\<close>s, whatever Redis
  replies and however long each reply takes, provided that a wait lasts at least as long as
  it was asked to.
\<close>

theorem lookup_terminates:
  assumes "clock_ok env"
  shows "\<exists>res n. lookupPeerInstance api cfg env rs peerID = Some (res, n) \<and> n \<le> 9"
  using lookup_loop_ends [OF assms, of 0] by (simp add: lookupPeerInstance_def)

theorem lookup_terminates_witness:
  "\<exists>res n. lookupPeerInstance mem_redis DefaultSignalHAConfig
     \<lparr>lk_start = 0, lk_clock = (\<lambda>i. int i * second), lk_done = (\<lambda>i. False), lk_done_wait = (\<lambda>i. False)\<rparr>
     (\<lambda>i. empty_server) ''p'' = Some (res, n) \<and> n \<le> 9"
proof (rule lookup_terminates)
  have "lookup_backoff i \<le> 400 * millisecond" for i by (induction i) simp_all
  then have "lookup_backoff i \<le> second" for i
    by (rule order_trans) simp
  then show "clock_ok \<lparr>lk_start = 0, lk_clock = (\<lambda>i. int i * second), lk_done = (\<lambda>i. False),
      lk_done_wait = (\<lambda>i. False)\<rparr>"
    by (simp add: clock_ok_def algebra_simps)
qed

text \<open>
  C24. A signed envelope verifies on every instance with the same secret, and verification of
  a signature is exact: with a secret set and a signature present, it accepts precisely the
  envelopes whose signature is the code of the envelope without its signature.
\<close>

theorem envelope_signature:
  assumes "Signature e = ''''"
  shows "(\<forall>e'. signEnvelope lib cfg e = Some e' \<longrightarrow> verifyEnvelope lib cfg e') \<and>
         (Secret cfg \<noteq> '''' \<and> sig \<noteq> '''' \<longrightarrow>
            verifyEnvelope lib cfg (e\<lparr>Signature := sig\<rparr>) =
            (\<exists>data. Marshal lib e = Some data \<and> sig = hmac_hex (Secret cfg) data))"
  using verify_signed(1) assms
  by (cases e) (auto simp: verifyEnvelope_def split: option.splits)

theorem envelope_signature_witness:
  "verifyEnvelope demo_lib (DefaultSignalHAConfig\<lparr>Secret := ''k''\<rparr>)
     \<lparr>FromInstance = ''a'', ToPeer = ''q'', Message = None, Signature = hmac_hex ''k'' ''''\<rparr> \<and>
   \<not> verifyEnvelope demo_lib (DefaultSignalHAConfig\<lparr>Secret := ''k''\<rparr>)
     \<lparr>FromInstance = ''a'', ToPeer = ''q'', Message = None, Signature = ''x''\<rparr>"
proof -
  have "hmac_hex ''k'' '''' \<noteq> ''x''" "hmac_hex ''k'' '''' \<noteq> ''''"
    using length_hmac_hex [of "''k''" "''''"] by auto
  then show ?thesis
    using envelope_signature [of "\<lparr>FromInstance = ''a'', ToPeer = ''q'', Message = None, Signature = ''''\<rparr>"
        demo_lib "DefaultSignalHAConfig\<lparr>Secret := ''k''\<rparr>" "''x''"]
      envelope_signature [of "\<lparr>FromInstance = ''a'', ToPeer = ''q'', Message = None, Signature = ''''\<rparr>"
        demo_lib "DefaultSignalHAConfig\<lparr>Secret := ''k''\<rparr>" "hmac_hex ''k'' ''''"]
    by (auto simp: demo_lib_def dest: sym)
qed

text \<open>
  C39. An unsigned payload without a message stops the process. Whatever the secret, an
  envelope with no signature passes verification, and one that also has no message makes the
  listener dereference a nil pointer.
\<close>

theorem unsigned_payload_panics:
  assumes "Unmarshal lib payload = Some e" and "Signature e = ''''" and "Message e = None"
  shows "ha_message lib outcome s payload = Inl Panic"
  using assms by (simp add: ha_message_def verifyEnvelope_def)

theorem unsigned_payload_panics_witness:
  "ha_message (demo_lib\<lparr>Unmarshal := (\<lambda>d. Some \<lparr>FromInstance = '''', ToPeer = '''', Message = None, Signature = ''''\<rparr>)\<rparr>)
     (\<lambda>p m. StreamSent) (demo_server ''a'') ''{}'' = Inl Panic"
  by (rule unsigned_payload_panics
      [of _ _ "\<lparr>FromInstance = '''', ToPeer = '''', Message = None, Signature = ''''\<rparr>"]) simp_all

text \<open>
  A deregistration is not tied to the stream that registered. After a peer has
  registered on instance \<open>b\<close>, the end of an older stream of the same peer on another instance
  \<open>a\<close> removes the peer's entry, so that lookups find nothing, until the next heartbeat of \<open>b\<close>
  restores it.
\<close>

lemma late_deregister_drops_entry:
  assumes "hash_laws api hv" and "redis_up api"
    and "redisClient a" and "redisClient b" and "0 < sig_PeerTTL (haConfig b)"
    and "RegistryKey (haConfig a) = RegistryKey (haConfig b)"
    and "RegisterPeer lib api ad now now' b r (Some k) = (b', r1, Inr p)"
    and "DeregisterPeer api a r1 old = (a', r2)" and "Id old = k"
  shows "registry_entry hv (haConfig b) r1 k = Some (instanceID b) \<and>
         registry_entry hv (haConfig b) r2 k = None \<and>
         registry_entry hv (haConfig b) (snd (peerHeartbeat api b' r2 k)) k = Some (instanceID b)"
proof -
  note P = RegisterPeer_ok [OF assms(1,2,4,5,7)]
  let ?k = "SanitizeRedisKey (RegistryKey (haConfig b))"
  obtain d where "HDel api r1 ?k (SanitizeRedisKey k) = (d, None)"
      "hv d = (hv r1)(?k := (hv r1 ?k)(SanitizeRedisKey k := None))"
    by (rule HDel_up [OF assms(1,2)])
  then have gone: "registry_entry hv (haConfig b) r2 k = None"
    using assms(3,6,8,9)
    by (auto simp: DeregisterPeer_def deregisterPeerFromRedis_def Let_def registry_entry_def)
  obtain r3 where r3: "HSet api r2 ?k (SanitizeRedisKey k) (instanceID b) = (r3, None)"
      "hv r3 = (hv r2)(?k := (hv r2 ?k)(SanitizeRedisKey k := Some (instanceID b)))"
    by (rule HSet_up [OF assms(1,2)])
  have "hv (fst (Expire api r3 ?k (sig_PeerTTL (haConfig b)))) = hv r3"
    using hash_lawsD(5) [OF assms(1,5)] .
  with r3 P show ?thesis
    using gone by (simp add: peerHeartbeat_def registry_entry_def Let_def)
qed

end
