(* ===== verification/LoginFilter.thy ===== *)
theory LoginFilter
  imports DistLock "HOL-Library.Word"
begin

text \<open>
  \<open>management/internals/shared/grpc/loginfilter.go\<close>: the filter that bans peers that log in
  too often or with changing metadata, alone and with its state in Redis. Every reading of the
  clock is an argument. \<open>is_object\<close> says whether a text is a JSON object: \<open>peerState\<close> has no
  exported field, so \<open>json.Marshal\<close> gives \<open>{}\<close> for every state and \<open>json.Unmarshal\<close> of any
  object leaves the zero state.
\<close>

section \<open>State\<close>

record lfConfig =
  reconnThreshold :: duration
  baseBlockDuration :: duration
  reconnLimitForBan :: int
  metaChangeLimit :: int

definition initCfg :: lfConfig where
  "initCfg = \<lparr>reconnThreshold = 5 * minute, baseBlockDuration = 10 * minute,
     reconnLimitForBan = 30, metaChangeLimit = 3\<rparr>"

record peerState =
  currentHash :: "64 word"
  sessionCounter :: "64 word"
  sessionStart :: time
  lastSeen :: time
  isBanned :: bool
  banLevel :: int
  banExpiresAt :: time
  metaChangeCounter :: int
  metaChangeWindowStart :: time

record loginFilter =
  lf_cfg :: lfConfig
  logged :: "string \<Rightarrow> peerState option"
  redis :: bool
  lf_key :: string
  loginLock :: bool

definition newLoginFilterWithCfg :: "lfConfig \<Rightarrow> loginFilter" where
  "newLoginFilterWithCfg c =
     \<lparr>lf_cfg = c, logged = (\<lambda>k. None), redis = False, lf_key = '''', loginLock = False\<rparr>"

definition newLoginFilter :: loginFilter where
  "newLoginFilter = newLoginFilterWithCfg initCfg"

definition newLoginFilterWithRedis :: "string \<Rightarrow> bool \<Rightarrow> loginFilter" where
  "newLoginFilterWithRedis key lock =
     \<lparr>lf_cfg = initCfg, logged = (\<lambda>k. None), redis = True, lf_key = key, loginLock = lock\<rparr>"

section \<open>The text form of a state\<close>

text \<open>The zero \<open>time.Time\<close> is the first of January of year 1.\<close>

definition zero_time :: time where
  "zero_time = - 62135596800 * second"

definition zero_state :: peerState where
  "zero_state = \<lparr>currentHash = 0, sessionCounter = 0, sessionStart = zero_time, lastSeen = zero_time,
     isBanned = False, banLevel = 0, banExpiresAt = zero_time, metaChangeCounter = 0,
     metaChangeWindowStart = zero_time\<rparr>"

definition marshal_state :: "peerState \<Rightarrow> string" where
  "marshal_state st = ''{}''"

definition unmarshal_state :: "(string \<Rightarrow> bool) \<Rightarrow> string \<Rightarrow> peerState option" where
  "unmarshal_state is_object data = (if is_object data then Some zero_state else None)"

section \<open>Operations\<close>

definition allowLoginUnderLock ::
    "('r, 'z) redis_api_scheme \<Rightarrow> (string \<Rightarrow> bool) \<Rightarrow> time \<Rightarrow> time \<Rightarrow> 'r \<Rightarrow> loginFilter \<Rightarrow> string \<Rightarrow>
     64 word \<Rightarrow> loginFilter \<times> bool" where
  "allowLoginUnderLock api is_object now now' r l wgPubKey metaHash =
     (let check = (\<lambda>l state.
            if isBanned state \<and> now < banExpiresAt state then (l, False)
            else if metaHash \<noteq> currentHash state \<and>
                    now' < metaChangeWindowStart state + reconnThreshold (lf_cfg l) \<and>
                    metaChangeCounter state \<ge> metaChangeLimit (lf_cfg l) then (l, False)
            else (l, True))
      in case logged l wgPubKey of
           Some state \<Rightarrow> check l state
         | None \<Rightarrow>
             if redis l then
               (case HGet api r (lf_key l) wgPubKey of
                  Inl e \<Rightarrow> (l, False)
                | Inr data \<Rightarrow>
                    if data \<noteq> '''' then
                      (case unmarshal_state is_object data of
                         Some state \<Rightarrow> check (l\<lparr>logged := (logged l)(wgPubKey := Some state)\<rparr>) state
                       | None \<Rightarrow> (l, True))
                    else (l, True))
             else (l, True))"

definition syncToRedis ::
    "('r, 'z) redis_api_scheme \<Rightarrow> 'r \<Rightarrow> loginFilter \<Rightarrow> string \<Rightarrow> peerState \<Rightarrow> 'r" where
  "syncToRedis api r l wgPubKey state =
     (if \<not> redis l then r
      else
        let r' = fst (HSet api r (lf_key l) wgPubKey (marshal_state state))
        in fst (Expire api r' (lf_key l) (2 * baseBlockDuration (lf_cfg l))))"

text \<open>
  What \<open>addLoginUnderLock\<close> does to the state of a known peer. The factor of the block
  duration is \<open>math.Pow(2, banLevel - 1)\<close>, which is exact.
\<close>

definition add_known :: "lfConfig \<Rightarrow> time \<Rightarrow> 64 word \<Rightarrow> peerState \<Rightarrow> peerState" where
  "add_known c now metaHash st =
     (let st = (if isBanned st \<and> now > banExpiresAt st then st\<lparr>isBanned := False\<rparr> else st);
          st = (if banLevel st > 0 \<and> now - lastSeen st > 2 * baseBlockDuration c
                then st\<lparr>banLevel := 0\<rparr> else st)
      in if metaHash \<noteq> currentHash st then
           let st = (if now > metaChangeWindowStart st + reconnThreshold c
                     then st\<lparr>metaChangeWindowStart := now, metaChangeCounter := 1\<rparr>
                     else st\<lparr>metaChangeCounter := metaChangeCounter st + 1\<rparr>)
           in st\<lparr>currentHash := metaHash, sessionCounter := 1, sessionStart := now, lastSeen := now\<rparr>
         else
           let st = (if sessionCounter st > (- 1) - 1000 then st\<lparr>sessionCounter := 0\<rparr> else st);
               st = st\<lparr>sessionCounter := sessionCounter st + 1\<rparr>;
               st = (if sessionCounter st > word_of_int (reconnLimitForBan c) \<and>
                        now - sessionStart st < reconnThreshold c
                     then let lvl = banLevel st + 1 in
                          st\<lparr>isBanned := True, banLevel := lvl,
                             banExpiresAt := now + baseBlockDuration c * 2 ^ nat (lvl - 1),
                             sessionCounter := 0, sessionStart := now\<rparr>
                     else st)
           in st\<lparr>lastSeen := now\<rparr>)"

definition new_state :: "time \<Rightarrow> 64 word \<Rightarrow> peerState" where
  "new_state now metaHash =
     \<lparr>currentHash = metaHash, sessionCounter = 1, sessionStart = now, lastSeen = now,
      isBanned = False, banLevel = 0, banExpiresAt = zero_time, metaChangeCounter = 1,
      metaChangeWindowStart = now\<rparr>"

definition addLoginUnderLock ::
    "('r, 'z) redis_api_scheme \<Rightarrow> time \<Rightarrow> 'r \<Rightarrow> loginFilter \<Rightarrow> string \<Rightarrow> 64 word \<Rightarrow> 'r \<times> loginFilter" where
  "addLoginUnderLock api now r l wgPubKey metaHash =
     (let state = (case logged l wgPubKey of
                     None \<Rightarrow> new_state now metaHash
                   | Some st \<Rightarrow> add_known (lf_cfg l) now metaHash st)
      in (syncToRedis api r l wgPubKey state, l\<lparr>logged := (logged l)(wgPubKey := Some state)\<rparr>))"

text \<open>The readings of the clock by one login: two in the check, one in the record.\<close>

record login_clock =
  t_check :: time
  t_meta :: time
  t_add :: time

definition check_and_add ::
    "('r, 'z) redis_api_scheme \<Rightarrow> (string \<Rightarrow> bool) \<Rightarrow> login_clock \<Rightarrow> 'r \<Rightarrow> loginFilter \<Rightarrow> string \<Rightarrow>
     64 word \<Rightarrow> 'r \<times> loginFilter \<times> bool" where
  "check_and_add api is_object t r l wgPubKey metaHash =
     (case allowLoginUnderLock api is_object (t_check t) (t_meta t) r l wgPubKey metaHash of
        (l', False) \<Rightarrow> (r, l', False)
      | (l', True) \<Rightarrow>
          (case addLoginUnderLock api (t_add t) r l' wgPubKey metaHash of
             (r', l'') \<Rightarrow> (r', l'', True)))"

definition CheckAndAddLogin ::
    "('r, 'z) redis_api_scheme \<Rightarrow> (string \<Rightarrow> bool) \<Rightarrow> string \<Rightarrow> login_clock \<Rightarrow> 'r \<Rightarrow> loginFilter \<Rightarrow>
     string \<Rightarrow> 64 word \<Rightarrow> 'r \<times> loginFilter \<times> bool" where
  "CheckAndAddLogin api is_object instanceID t r l wgPubKey metaHash =
     (if \<not> loginLock l then check_and_add api is_object t r l wgPubKey metaHash
      else
        (case Acquire api r instanceID (''loginfilter:'' @ wgPubKey) (5 * second) of
           (r', Inl e) \<Rightarrow> (r', l, False)
         | (r', Inr h) \<Rightarrow>
             (case check_and_add api is_object t r' l wgPubKey metaHash of
                (r'', l', ok) \<Rightarrow> (fst (release api r'' h), l', ok))))"

text \<open>One tick of \<open>cleanupStaleEntries\<close>.\<close>

definition cleanupStaleEntries :: "time \<Rightarrow> loginFilter \<Rightarrow> loginFilter" where
  "cleanupStaleEntries now l =
     l\<lparr>logged := (\<lambda>k. case logged l k of
          None \<Rightarrow> None
        | Some st \<Rightarrow>
            if isBanned st \<and> now < banExpiresAt st then Some st
            else if now - lastSeen st > 2 * baseBlockDuration (lf_cfg l) then None
            else Some st)\<rparr>"

section \<open>The hash of the metadata\<close>

text \<open>\<open>hash/fnv\<close>, variant 1a, 64 bits. \<open>Mac\<close> is the list of the runes of the address.\<close>

definition fnv64a :: "string \<Rightarrow> 64 word" where
  "fnv64a s = foldl (\<lambda>h c. (xor h (word_of_nat (of_char c))) * 1099511628211) 14695981039346656037 s"

record PeerSystemMeta =
  WtVersion :: string
  OSVersion :: string
  KernelVersion :: string
  Hostname :: string
  SystemSerialNumber :: string
  NetworkAddresses :: "32 word list list"

definition metaHash :: "PeerSystemMeta \<Rightarrow> string \<Rightarrow> 64 word" where
  "metaHash meta pubip =
     (let h = fnv64a (WtVersion meta @ OSVersion meta @ KernelVersion meta @ Hostname meta @
                      SystemSerialNumber meta @ pubip);
          macs = foldl (\<lambda>acc mac. foldl (\<lambda>acc r. acc + scast r) acc mac) 0 (NetworkAddresses meta)
      in h + macs)"

section \<open>Runs\<close>

text \<open>A run of attempts by one peer, with the results.\<close>

primrec login_run ::
    "('r, 'z) redis_api_scheme \<Rightarrow> (string \<Rightarrow> bool) \<Rightarrow> string \<Rightarrow> string \<Rightarrow> (login_clock \<times> 64 word) list \<Rightarrow>
     'r \<times> loginFilter \<Rightarrow> ('r \<times> loginFilter) \<times> bool list" where
  "login_run api is_object inst k [] s = (s, [])"
| "login_run api is_object inst k (a # as) s =
     (case CheckAndAddLogin api is_object inst (fst a) (fst s) (snd s) k (snd a) of
        (r', l', ok) \<Rightarrow>
          (case login_run api is_object inst k as (r', l') of (s', oks) \<Rightarrow> (s', ok # oks)))"

section \<open>Counting towards a ban\<close>

definition counting :: "64 word \<Rightarrow> time \<Rightarrow> nat \<Rightarrow> peerState \<Rightarrow> bool" where
  "counting h t0 j st \<longleftrightarrow>
     currentHash st = h \<and> sessionCounter st = word_of_nat j \<and> sessionStart st = t0 \<and>
     \<not> isBanned st \<and> banLevel st = 0"

definition local :: "loginFilter \<Rightarrow> bool" where
  "local l \<longleftrightarrow> \<not> redis l \<and> \<not> loginLock l"

lemma counting_new: "counting h t 1 (new_state t h)"
  by (simp add: counting_def new_state_def)

lemma of_nat_less_word:
  assumes "j < 2 ^ 32" and "n < 2 ^ 32"
  shows "(word_of_nat j :: 64 word) < word_of_nat n \<longleftrightarrow> j < n"
    and "\<not> (word_of_nat j :: 64 word) > (- 1) - 1000"
proof -
  have u: "unat (word_of_nat j :: 64 word) = j" "unat (word_of_nat n :: 64 word) = n"
    using assms by (simp_all add: unsigned_of_nat take_bit_nat_eq_self)
  then show "(word_of_nat j :: 64 word) < word_of_nat n \<longleftrightarrow> j < n" by (simp add: word_less_nat_alt)
  have "unat ((- 1) - 1000 :: 64 word) = 2 ^ 64 - 1001" by simp
  with u assms show "\<not> (word_of_nat j :: 64 word) > (- 1) - 1000"
    by (simp add: word_less_nat_alt)
qed

lemma add_known_counting:
  assumes "counting h t0 j st" and "j \<le> n" and "n < 2 ^ 31" and "reconnLimitForBan c = int n"
    and "now - t0 < reconnThreshold c"
  shows "if j < n then counting h t0 (Suc j) (add_known c now h st)
         else isBanned (add_known c now h st) \<and>
              banExpiresAt (add_known c now h st) = now + baseBlockDuration c"
proof -
  have cnt: "sessionCounter st + 1 = word_of_nat (Suc j)"
    using assms(1) by (simp add: counting_def)
  have wrap: "((- 1) - 1000 < sessionCounter st) = False"
    using of_nat_less_word(2) [of j n] assms by (simp add: counting_def)
  have over: "(word_of_int (reconnLimitForBan c) < sessionCounter st + 1) = (n \<le> j)"
    using of_nat_less_word(1) [of n "Suc j"] assms(2-4) unfolding cnt
    by (simp del: of_nat_Suc add: less_Suc_eq_le)
  have st: "currentHash st = h" "sessionStart st = t0" "\<not> isBanned st" "banLevel st = 0"
    using assms(1) by (simp_all add: counting_def)
  have "add_known c now h st =
      (if n \<le> j
       then st\<lparr>isBanned := True, banLevel := 1, banExpiresAt := now + baseBlockDuration c,
               sessionCounter := 0, sessionStart := now, lastSeen := now\<rparr>
       else st\<lparr>sessionCounter := sessionCounter st + 1, lastSeen := now\<rparr>)"
    using assms(5) by (simp add: add_known_def Let_def st wrap [simplified] over)
  then show ?thesis
    using st cnt by (simp add: counting_def)
qed

lemma CheckAndAddLogin_allowed:
  assumes "local l" and "logged l k = Some st" and "\<not> isBanned st" and "currentHash st = h"
  shows "CheckAndAddLogin api io inst t r l k h =
    (r, l\<lparr>logged := (logged l)(k := Some (add_known (lf_cfg l) (t_add t) h st))\<rparr>, True)"
  using assms
  by (simp add: CheckAndAddLogin_def check_and_add_def allowLoginUnderLock_def
      addLoginUnderLock_def syncToRedis_def local_def Let_def)

lemma CheckAndAddLogin_banned:
  assumes "local l" and "logged l k = Some st" and "isBanned st" and "t_check t < banExpiresAt st"
  shows "CheckAndAddLogin api io inst t r l k h = (r, l, False)"
  using assms
  by (simp add: CheckAndAddLogin_def check_and_add_def allowLoginUnderLock_def local_def Let_def)

lemma CheckAndAddLogin_first:
  assumes "local l" and "logged l k = None"
  shows "CheckAndAddLogin api io inst t r l k h =
    (r, l\<lparr>logged := (logged l)(k := Some (new_state (t_add t) h))\<rparr>, True)"
  using assms
  by (simp add: CheckAndAddLogin_def check_and_add_def allowLoginUnderLock_def
      addLoginUnderLock_def syncToRedis_def local_def Let_def)

lemma counting_run:
  assumes "local l" and "logged l k = Some st" and "counting h t0 j st"
    and "j + length ts = Suc n" and "ts \<noteq> []" and "n < 2 ^ 31"
    and "reconnLimitForBan (lf_cfg l) = int n"
    and "\<And>t. t \<in> set ts \<Longrightarrow> t_add t - t0 < reconnThreshold (lf_cfg l)"
  shows "\<exists>l' st'. login_run api io inst k (map (\<lambda>t. (t, h)) ts) (r, l) = ((r, l'), replicate (length ts) True) \<and>
           local l' \<and> logged l' k = Some st' \<and> isBanned st' \<and>
           banExpiresAt st' = t_add (last ts) + baseBlockDuration (lf_cfg l)"
  using assms
proof (induction ts arbitrary: l st j)
  case (Cons t ts)
  let ?st = "add_known (lf_cfg l) (t_add t) h st"
  let ?l = "l\<lparr>logged := (logged l)(k := Some ?st)\<rparr>"
  have step: "CheckAndAddLogin api io inst t r l k h = (r, ?l, True)"
    by (rule CheckAndAddLogin_allowed [OF Cons.prems(1,2)])
      (use Cons.prems(3) in \<open>simp_all add: counting_def\<close>)
  have loc: "local ?l" using Cons.prems(1) by (simp add: local_def)
  note add = add_known_counting [OF Cons.prems(3) _ Cons.prems(6,7), of "t_add t"]
  show ?case
  proof (cases "ts = []")
    case True
    with Cons.prems(4) have "j = n" by simp
    with add Cons.prems(8) True step loc show ?thesis by simp
  next
    case False
    with Cons.prems(4) have "j < n" by (cases ts) auto
    with add Cons.prems(8) have "counting h t0 (Suc j) ?st" by simp
    from Cons.IH [OF loc _ this] Cons.prems(4,6-8) False step
    show ?thesis by auto
  qed
qed simp

section \<open>The filter as a machine\<close>

datatype lf_op = Login login_clock string "64 word" | Allow time time string "64 word" | Sweep time

primrec lf_step ::
    "('r, 'z) redis_api_scheme \<Rightarrow> (string \<Rightarrow> bool) \<Rightarrow> string \<Rightarrow> 'r \<times> loginFilter \<Rightarrow> lf_op \<Rightarrow> 'r \<times> loginFilter" where
  "lf_step api io inst s (Login t k h) =
     (case CheckAndAddLogin api io inst t (fst s) (snd s) k h of (r', l', ok) \<Rightarrow> (r', l'))"
| "lf_step api io inst s (Allow now now' k h) =
     (fst s, fst (allowLoginUnderLock api io now now' (fst s) (snd s) k h))"
| "lf_step api io inst s (Sweep now) = (fst s, cleanupStaleEntries now (snd s))"

definition lf_legal :: "'r \<times> loginFilter \<Rightarrow> lf_op \<Rightarrow> bool" where
  "lf_legal s a = (case a of Login t k h \<Rightarrow> t_check t \<le> t_add t | _ \<Rightarrow> True)"

text \<open>
  A state of ban level 3 is banned for four block durations after its last login; by then
  the level is reset, because the peer has been silent for more than two.
\<close>

definition level_ok :: "lfConfig \<Rightarrow> peerState \<Rightarrow> bool" where
  "level_ok c st \<longleftrightarrow>
     0 \<le> banLevel st \<and> banLevel st \<le> 3 \<and>
     (banLevel st = 3 \<longrightarrow> isBanned st \<and> lastSeen st + 4 * baseBlockDuration c \<le> banExpiresAt st)"

definition lf_inv :: "'r \<times> loginFilter \<Rightarrow> bool" where
  "lf_inv s \<longleftrightarrow>
     0 < baseBlockDuration (lf_cfg (snd s)) \<and>
     (\<forall>k st. logged (snd s) k = Some st \<longrightarrow> level_ok (lf_cfg (snd s)) st)"

lemma level_ok_new: "level_ok c (new_state now h)" "level_ok c zero_state"
  by (simp_all add: level_ok_def new_state_def zero_state_def)

lemma level_ok_add:
  assumes "level_ok c st" and "0 < baseBlockDuration c"
    and "\<not> (isBanned st \<and> t < banExpiresAt st)" and "t \<le> now"
  shows "level_ok c (add_known c now h st)"
proof -
  define lvl where "lvl = (if banLevel st > 0 \<and> now - lastSeen st > 2 * baseBlockDuration c then 0 else banLevel st)"
  have lvl: "0 \<le> lvl" "lvl \<le> 2"
    using assms by (auto simp: lvl_def level_ok_def)
  have "banLevel (add_known c now h st) = lvl \<or>
      banLevel (add_known c now h st) = lvl + 1 \<and> isBanned (add_known c now h st) \<and>
      lastSeen (add_known c now h st) = now \<and>
      banExpiresAt (add_known c now h st) = now + baseBlockDuration c * 2 ^ nat lvl"
    by (auto simp: add_known_def Let_def lvl_def)
  then show ?thesis
    using lvl by (auto simp: level_ok_def)
qed

lemma allow_result:
  assumes "allowLoginUnderLock api io now now' r l k h = (l', ok)" and "lf_inv (r, l)"
  shows "lf_inv (r', l')" and "lf_cfg l' = lf_cfg l"
    and "ok \<Longrightarrow> logged l' k = Some st \<Longrightarrow> \<not> (isBanned st \<and> now < banExpiresAt st)"
  using assms level_ok_new(2)
  by (auto simp: allowLoginUnderLock_def lf_inv_def unmarshal_state_def Let_def
      split: option.splits sum.splits if_splits)

lemma check_and_add_inv:
  assumes "check_and_add api io t r l k h = (r', l', ok)" and "lf_inv (r, l)" and "t_check t \<le> t_add t"
  shows "lf_inv (r'', l')"
proof -
  obtain l1 b where a: "allowLoginUnderLock api io (t_check t) (t_meta t) r l k h = (l1, b)"
    by (cases "allowLoginUnderLock api io (t_check t) (t_meta t) r l k h")
  note al = allow_result [OF a assms(2)]
  show ?thesis
  proof (cases b)
    case True
    have "level_ok (lf_cfg l1)
        (case logged l1 k of None \<Rightarrow> new_state (t_add t) h | Some st \<Rightarrow> add_known (lf_cfg l1) (t_add t) h st)"
      using al(1,3) True level_ok_new(1) level_ok_add [OF _ _ _ assms(3)]
      by (auto simp: lf_inv_def split: option.split)
    with al(1) show ?thesis
      using assms(1) a True by (auto simp: check_and_add_def addLoginUnderLock_def Let_def lf_inv_def split: if_splits)
  next
    case False
    with assms(1) a al(1) show ?thesis by (simp add: check_and_add_def)
  qed
qed

lemma CheckAndAddLogin_inv:
  assumes "CheckAndAddLogin api io inst t r l k h = (r', l', ok)" and "lf_inv (r, l)"
    and "t_check t \<le> t_add t"
  shows "lf_inv (r', l')"
proof (cases "loginLock l")
  case True
  have inv: "lf_inv (x, l)" for x :: 'a using assms(2) by (simp add: lf_inv_def)
  with True assms(1,3) show ?thesis
    by (auto simp: CheckAndAddLogin_def split: prod.splits sum.splits dest: check_and_add_inv)
next
  case False
  with assms show ?thesis by (auto simp: CheckAndAddLogin_def dest: check_and_add_inv)
qed

interpretation lf: op_machine "lf_step api io inst" lf_legal lf_inv for api io inst
proof
  fix s :: "'a \<times> loginFilter" and a
  assume inv: "lf_inv s" and legal: "lf_legal s a"
  show "lf_inv (lf_step api io inst s a)"
  proof (cases a)
    case (Login t k h)
    then show ?thesis
      using CheckAndAddLogin_inv [of api io inst t "fst s" "snd s" k h] inv legal
      by (auto simp: lf_legal_def split: prod.split)
  next
    case (Allow now now' k h)
    obtain l1 b where "allowLoginUnderLock api io now now' (fst s) (snd s) k h = (l1, b)"
      by (cases "allowLoginUnderLock api io now now' (fst s) (snd s) k h")
    with allow_result(1) [OF this] inv Allow show ?thesis by simp
  next
    case (Sweep now)
    then show ?thesis
      using inv by (auto simp: lf_inv_def cleanupStaleEntries_def split: option.splits if_splits)
  qed
qed

section \<open>Unknown peers with Redis\<close>

lemma Acquire_frame:
  assumes "frame_laws api hv" and "Acquire api r i res ttl = (r', x)" and "k \<noteq> lock_key res"
  shows "hv r' k = hv r k" and "x = Inr h \<Longrightarrow> lh_key h = lock_key res"
  using assms
  by (auto simp: Acquire_def Let_def frame_laws_def split: prod.splits sum.splits bool.splits)
    (metis fst_conv)+

lemma release_frame:
  assumes "frame_laws api hv" and "k \<noteq> lh_key h"
  shows "hv (fst (release api r h)) k = hv r k"
  using assms
  by (auto simp: release_def unlockScript_def Let_def frame_laws_def
      split: prod.splits sum.splits redis_err.splits) (metis fst_conv)+

lemma unknown_denied:
  assumes "hash_laws api hv" and "frame_laws api hv" and "redis_up api"
    and "redis l" and "logged l k = None" and "lf_key l \<noteq> lock_key (''loginfilter:'' @ k)"
    and "hv r (lf_key l) k = None"
  shows "\<exists>r'. CheckAndAddLogin api io inst t r l k h = (r', l, False) \<and> hv r' (lf_key l) k = None"
proof -
  have no: "check_and_add api io t r0 l k h = (r0, l, False)" if "hv r0 (lf_key l) k = None" for r0
    using assms(4,5) that
    by (simp add: check_and_add_def allowLoginUnderLock_def HGet_up [OF assms(1,3)] Let_def)
  show ?thesis
  proof (cases "loginLock l")
    case True
    obtain r1 x where a: "Acquire api r inst (''loginfilter:'' @ k) (5 * second) = (r1, x)"
      by (cases "Acquire api r inst (''loginfilter:'' @ k) (5 * second)")
    note fr = Acquire_frame [OF assms(2) a assms(6)]
    then have gone: "hv r1 (lf_key l) k = None" using assms(7) by simp
    show ?thesis
    proof (cases x)
      case (Inr hd)
      with fr(2) assms(6) have "lf_key l \<noteq> lh_key hd" by metis
      with release_frame [OF assms(2)] True a Inr no [OF gone] gone show ?thesis
        by (simp add: CheckAndAddLogin_def)
    qed (use True a gone in \<open>simp add: CheckAndAddLogin_def\<close>)
  next
    case False
    with no assms(7) show ?thesis by (simp add: CheckAndAddLogin_def)
  qed
qed

section \<open>Properties\<close>

text \<open>
  C29. The ban. A peer unknown to a filter without Redis logs in \<open>n + 1\<close> times with the same
  metadata, \<open>n\<close> being the limit of the configuration, all within the threshold after the
  first: every one of these logins is allowed, the last one bans the peer for the base block
  duration, and every login it tries before the ban ends, with whatever metadata, is denied
  and leaves the filter unchanged.
\<close>

theorem ban_after_limit:
  assumes "local l" and "logged l k = None" and "reconnLimitForBan (lf_cfg l) = int n"
    and "0 < n" and "n < 2 ^ 31" and "length ts = n"
    and "\<And>t. t \<in> set ts \<Longrightarrow> t_add t - t_add t0 < reconnThreshold (lf_cfg l)"
  shows "\<exists>l'. login_run api io inst k (map (\<lambda>t. (t, h)) (t0 # ts)) (r, l) =
                ((r, l'), replicate (Suc n) True) \<and>
              (\<forall>t h'. t_check t < t_add (last ts) + baseBlockDuration (lf_cfg l) \<longrightarrow>
                 CheckAndAddLogin api io inst t r l' k h' = (r, l', False))"
proof -
  let ?l = "l\<lparr>logged := (logged l)(k := Some (new_state (t_add t0) h))\<rparr>"
  have loc: "local ?l" using assms(1) by (simp add: local_def)
  obtain l' st' where run: "login_run api io inst k (map (\<lambda>t. (t, h)) ts) (r, ?l) = ((r, l'), replicate (length ts) True)"
    and l': "local l'" "logged l' k = Some st'" "isBanned st'"
      "banExpiresAt st' = t_add (last ts) + baseBlockDuration (lf_cfg l)"
    using counting_run [OF loc, of k "new_state (t_add t0) h" h "t_add t0" 1 ts n api io inst r]
      counting_new assms(3-7) by auto
  have "login_run api io inst k (map (\<lambda>t. (t, h)) (t0 # ts)) (r, l) = ((r, l'), replicate (Suc n) True)"
    using run assms(6) by (simp add: CheckAndAddLogin_first [OF assms(1,2)])
  with l' show ?thesis
    using CheckAndAddLogin_banned [OF l'(1-3)] by auto
qed

theorem ban_after_limit_witness:
  "\<exists>l'. login_run mem_redis (\<lambda>d. True) ''i'' ''p''
          (map (\<lambda>t. (t, 7)) (replicate 31 \<lparr>t_check = 1, t_meta = 1, t_add = 1\<rparr>)) (empty_server, newLoginFilter) =
        ((empty_server, l'), replicate 31 True)"
proof -
  let ?t = "\<lparr>t_check = 1, t_meta = 1, t_add = 1\<rparr> :: login_clock"
  have "replicate 31 ?t = ?t # replicate 30 ?t" by (simp add: numeral_eq_Suc)
  then show ?thesis
    using ban_after_limit [of newLoginFilter "''p''" 30 "replicate 30 ?t" ?t mem_redis "\<lambda>d. True" "''i''" 7 empty_server]
    by (auto simp: local_def newLoginFilter_def newLoginFilterWithCfg_def initCfg_def simp del: login_run.simps)
qed

text \<open>
  The ban level stays between 0 and 3, for any configuration with a positive block
  duration and any sequence of logins, checks and clean-ups by any peers, with or without
  Redis: the exponential back-off never passes four block durations, since the level is
  reset after two block durations of silence.
\<close>

lemma ban_level_bounded:
  assumes "legal_run lf_legal (lf_step api io inst) (r, l) ops"
    and "0 < baseBlockDuration (lf_cfg l)" and "logged l = (\<lambda>k. None)"
    and "logged (snd (foldl (lf_step api io inst) (r, l) ops)) k = Some st"
  shows "banLevel st \<in> {0..3}"
  using lf.run_inv [OF _ assms(1)] assms(2-4) by (auto simp: lf_inv_def level_ok_def)

text \<open>
  C30. With Redis, a peer nobody has recorded can never log in. Redis answers the lookup of
  an absent field with its nil error, which the filter takes for an outage: every attempt, in
  a run of any length, is denied, and none of them records the peer, neither in the filter nor in Redis.
\<close>

theorem unknown_peer_denied:
  assumes "hash_laws api hv" and "frame_laws api hv" and "redis_up api"
    and "redis l" and "logged l k = None" and "lf_key l \<noteq> lock_key (''loginfilter:'' @ k)"
    and "hv r (lf_key l) k = None"
  shows "\<exists>r'. login_run api io inst k as (r, l) = ((r', l), replicate (length as) False) \<and> hv r' (lf_key l) k = None"
  using assms(7)
proof (induction as arbitrary: r)
  case (Cons a as)
  then obtain r' where "CheckAndAddLogin api io inst (fst a) r l k (snd a) = (r', l, False)" "hv r' (lf_key l) k = None"
    using unknown_denied [OF assms(1-6)] by blast
  with Cons.IH [of r'] show ?case by auto
qed simp

theorem unknown_peer_denied_witness:
  "\<exists>r'. login_run mem_redis (\<lambda>d. True) ''i'' ''p'' [(\<lparr>t_check = 1, t_meta = 1, t_add = 1\<rparr>, 7)]
          (empty_server, newLoginFilterWithRedis ''key'' True) = ((r', newLoginFilterWithRedis ''key'' True), [False])"
  using unknown_peer_denied [OF mem_hash_laws mem_frame_laws mem_redis_up,
      of "newLoginFilterWithRedis ''key'' True" "''p''" empty_server "\<lambda>d. True" "''i''"
        "[(\<lparr>t_check = 1, t_meta = 1, t_add = 1\<rparr>, 7)]"]
  by (auto simp: newLoginFilterWithRedis_def lock_key_def empty_server_def)

text \<open>
  Bans are not shared between instances. Whatever state an instance writes to Redis for
  a peer, banned or not, another instance that has not seen the peer reads back the zero state
  and allows the login.
\<close>

lemma ban_not_shared:
  assumes "hash_laws api hv" and "redis_up api" and "io ''{}''"
    and "redis a" and "redis b" and "lf_key a = lf_key b" and "logged b k = None"
    and "0 < baseBlockDuration (lf_cfg a)" and "0 < metaChangeLimit (lf_cfg b)"
  shows "snd (allowLoginUnderLock api io now now' (syncToRedis api r a k st) b k h)"
proof -
  obtain r1 where r1: "HSet api r (lf_key a) k ''{}'' = (r1, None)"
      "hv r1 = (hv r)(lf_key a := (hv r (lf_key a))(k := Some ''{}''))"
    by (rule HSet_up [OF assms(1,2)])
  have "hv (fst (Expire api r1 (lf_key a) (2 * baseBlockDuration (lf_cfg a)))) = hv r1"
    using hash_lawsD(5) [OF assms(1)] assms(8) by simp
  with r1 have "HGet api (syncToRedis api r a k st) (lf_key b) k = Inr ''{}''"
    using assms(4,6) by (simp add: syncToRedis_def marshal_state_def HGet_up [OF assms(1,2)])
  with assms(3,5,7,9) show ?thesis
    by (simp add: allowLoginUnderLock_def unmarshal_state_def zero_state_def Let_def)
qed

end
