(* ===== verification/Ephemeral.thy ===== *)
theory Ephemeral
  imports GoLib Redis
begin

text \<open>
  \<open>management/internals/modules/peers/ephemeral/manager/ephemeral.go\<close>: the manager that
  deletes ephemeral peers some time after they disconnect. Its singly linked list is modelled
  as the code has it, with nodes in an explicit heap, a head and a tail pointer; \<open>peer_list\<close> is
  the list it represents, and the operations on pointers refine operations on lists. A nil
  dereference, or a list that never ends, is the value \<^const>\<open>None\<close>.

  \<open>timer\<close> is the time at which the pending clean-up fires. Calls of \<open>DeletePeers\<close> are the log
  \<open>deleted\<close> of accounts and peer IDs, the requests to delete; Go iterates over the map of accounts in no fixed
  order, and the theorems speak of the set of requested peers only. What a request does to the stored peers is
  \<open>DeletePeers\<close> of \<open>management/internals/modules/peers/manager.go\<close>, which spares a peer that is connected or was seen lately.
\<close>

section \<open>State\<close>

record ephemeralPeer =
  id :: string
  accountID :: string
  deadline :: time
  nextp :: "nat option"

record EphemeralManager =
  heap :: "nat \<Rightarrow> ephemeralPeer option"
  headPeer :: "nat option"
  tailPeer :: "nat option"
  timer :: "time option"
  lifeTime :: duration
  cleanupWindow :: duration
  haRedis :: bool
  ephemeralKey :: string
  polling :: bool
  stopped :: bool
  deleted :: "(string \<times> string list) list"

record nbPeer =
  ID :: string
  AccountID :: string
  Ephemeral_flag :: bool

definition NewEphemeralManager :: EphemeralManager where
  "NewEphemeralManager =
     \<lparr>heap = (\<lambda>a. None), headPeer = None, tailPeer = None, timer = None, lifeTime = 10 * minute,
      cleanupWindow = minute, haRedis = False, ephemeralKey = '''', polling = False, stopped = False,
      deleted = []\<rparr>"

definition WithRedis :: "EphemeralManager \<Rightarrow> string \<Rightarrow> EphemeralManager" where
  "WithRedis e key = e\<lparr>haRedis := True, ephemeralKey := key\<rparr>"

definition haEnabled :: "EphemeralManager \<Rightarrow> bool" where
  "haEnabled e \<longleftrightarrow> haRedis e \<and> ephemeralKey e \<noteq> ''''"

definition newDeadLine :: "time \<Rightarrow> EphemeralManager \<Rightarrow> time" where
  "newDeadLine now e = now + lifeTime e"

section \<open>The linked list\<close>

text \<open>\<open>a\<close> is the address the allocator returns.\<close>

definition addPeer :: "nat \<Rightarrow> EphemeralManager \<Rightarrow> string \<Rightarrow> string \<Rightarrow> time \<Rightarrow> EphemeralManager option" where
  "addPeer a e acc peerID dl =
     (let h = (heap e)(a := Some \<lparr>id = peerID, accountID = acc, deadline = dl, nextp = None\<rparr>);
          e = e\<lparr>heap := h, headPeer := (if headPeer e = None then Some a else headPeer e)\<rparr>
      in case tailPeer e of
           None \<Rightarrow> Some (e\<lparr>tailPeer := Some a\<rparr>)
         | Some t \<Rightarrow>
             (case h t of
                None \<Rightarrow> None
              | Some nd \<Rightarrow> Some (e\<lparr>heap := h(t := Some (nd\<lparr>nextp := Some a\<rparr>)), tailPeer := Some a\<rparr>)))"

partial_function (option) on_list :: "(nat \<Rightarrow> ephemeralPeer option) \<Rightarrow> nat option \<Rightarrow> string \<Rightarrow> bool option" where
  "on_list h p peerID =
     (case p of
        None \<Rightarrow> Some False
      | Some a \<Rightarrow>
          (case h a of
             None \<Rightarrow> None
           | Some nd \<Rightarrow> if id nd = peerID then Some True else on_list h (nextp nd) peerID))"

definition isPeerOnList :: "EphemeralManager \<Rightarrow> string \<Rightarrow> bool option" where
  "isPeerOnList e peerID = on_list (heap e) (headPeer e) peerID"

text \<open>The loop of \<open>removePeer\<close> at the node \<open>p\<close>: the new heap and the new tail.\<close>

partial_function (option) remove_after ::
    "(nat \<Rightarrow> ephemeralPeer option) \<Rightarrow> nat option \<Rightarrow> nat \<Rightarrow> string \<Rightarrow>
     ((nat \<Rightarrow> ephemeralPeer option) \<times> nat option) option" where
  "remove_after h tailp p peerID =
     (case h p of
        None \<Rightarrow> None
      | Some nd \<Rightarrow>
          (case nextp nd of
             None \<Rightarrow> Some (h, tailp)
           | Some q \<Rightarrow>
               (case h q of
                  None \<Rightarrow> None
                | Some nq \<Rightarrow>
                    if id nq = peerID then
                      (case tailp of
                         None \<Rightarrow> None
                       | Some t \<Rightarrow>
                           (case h t of
                              None \<Rightarrow> None
                            | Some nt \<Rightarrow>
                                Some (h(p := Some (nd\<lparr>nextp := nextp nq\<rparr>)),
                                      if id nt = peerID then Some p else tailp)))
                    else remove_after h tailp q peerID)))"

definition removePeer :: "EphemeralManager \<Rightarrow> string \<Rightarrow> EphemeralManager option" where
  "removePeer e peerID =
     (case headPeer e of
        None \<Rightarrow> Some e
      | Some a \<Rightarrow>
          (case heap e a of
             None \<Rightarrow> None
           | Some nd \<Rightarrow>
               if id nd = peerID then
                 (case tailPeer e of
                    None \<Rightarrow> None
                  | Some t \<Rightarrow>
                      (case heap e t of
                         None \<Rightarrow> None
                       | Some nt \<Rightarrow>
                           Some (e\<lparr>headPeer := nextp nd,
                                   tailPeer := (if id nt = peerID then None else tailPeer e)\<rparr>)))
               else
                 (case remove_after (heap e) (tailPeer e) a peerID of
                    None \<Rightarrow> None
                  | Some (h, tailp) \<Rightarrow> Some (e\<lparr>heap := h, tailPeer := tailp\<rparr>))))"

text \<open>
  The loop of \<open>cleanup\<close>: the expired nodes, in order, the new head and the new tail.
\<close>

partial_function (option) expire_loop ::
    "(nat \<Rightarrow> ephemeralPeer option) \<Rightarrow> time \<Rightarrow> nat option \<Rightarrow> nat option \<Rightarrow> (string \<times> string) list \<Rightarrow>
     ((string \<times> string) list \<times> nat option \<times> nat option) option" where
  "expire_loop h now p tailp acc =
     (case p of
        None \<Rightarrow> Some (acc, None, tailp)
      | Some a \<Rightarrow>
          (case h a of
             None \<Rightarrow> None
           | Some nd \<Rightarrow>
               if now < deadline nd then Some (acc, Some a, tailp)
               else expire_loop h now (nextp nd) (if nextp nd = None then None else tailp)
                      (acc @ [(accountID nd, id nd)])))"

text \<open>\<open>peerIDsPerAccount\<close>: the IDs of each account, in the order they are met.\<close>

fun add_to_group :: "(string \<times> string list) list \<Rightarrow> string \<times> string \<Rightarrow> (string \<times> string list) list" where
  "add_to_group [] (acc, i) = [(acc, [i])]"
| "add_to_group ((a, is) # gs) (acc, i) =
     (if a = acc then (a, is @ [i]) # gs else (a, is) # add_to_group gs (acc, i))"

definition peerIDsPerAccount :: "(string \<times> string) list \<Rightarrow> (string \<times> string list) list" where
  "peerIDsPerAccount xs = foldl add_to_group [] xs"

definition cleanup_delay :: "time \<Rightarrow> EphemeralManager \<Rightarrow> ephemeralPeer \<Rightarrow> duration" where
  "cleanup_delay now e nd =
     (let delay = (deadline nd - now) + cleanupWindow e in if delay < 0 then 0 else delay)"

definition cleanup :: "time \<Rightarrow> time \<Rightarrow> EphemeralManager \<Rightarrow> EphemeralManager option" where
  "cleanup now now' e =
     (case expire_loop (heap e) now (headPeer e) (tailPeer e) [] of
        None \<Rightarrow> None
      | Some (dels, hd', tailp') \<Rightarrow>
          let e1 = e\<lparr>headPeer := hd', tailPeer := tailp',
                     deleted := deleted e @ peerIDsPerAccount dels\<rparr> in
          (case hd' of
             None \<Rightarrow> Some (e1\<lparr>timer := None\<rparr>)
           | Some a \<Rightarrow>
               (case heap e a of
                  None \<Rightarrow> None
                | Some nd \<Rightarrow> Some (e1\<lparr>timer := Some (now' + cleanup_delay now' e nd)\<rparr>))))"

section \<open>Redis\<close>

definition ephemeral_member :: "string \<Rightarrow> string \<Rightarrow> string" where
  "ephemeral_member peerID acc = peerID @ ''|'' @ acc"

definition UnixMilli :: "time \<Rightarrow> int" where
  "UnixMilli t = t div millisecond"

definition redisZAdd :: "('r, 'z) redis_api_scheme \<Rightarrow> EphemeralManager \<Rightarrow> 'r \<Rightarrow> string \<Rightarrow> string \<Rightarrow> time \<Rightarrow> 'r" where
  "redisZAdd api e r peerID acc dl =
     fst (ZAdd api r (ephemeralKey e) (UnixMilli dl) (ephemeral_member peerID acc))"

definition redisZRem :: "('r, 'z) redis_api_scheme \<Rightarrow> EphemeralManager \<Rightarrow> 'r \<Rightarrow> string \<Rightarrow> string \<Rightarrow> 'r" where
  "redisZRem api e r peerID acc = fst (ZRem api r (ephemeralKey e) (ephemeral_member peerID acc))"

text \<open>The members that \<open>strings.SplitN\<close> cuts in two, as account and peer ID.\<close>

definition valid_members :: "string list \<Rightarrow> string list" where
  "valid_members ms = filter (\<lambda>m. length (SplitN2 m CHR ''|'') = 2) ms"

definition member_pair :: "string \<Rightarrow> string \<times> string" where
  "member_pair m = (let parts = SplitN2 m CHR ''|'' in (parts ! 1, parts ! 0))"

fun remove_all :: "EphemeralManager \<Rightarrow> string list \<Rightarrow> EphemeralManager option" where
  "remove_all e [] = Some e"
| "remove_all e (m # ms) =
     (case removePeer e (snd (member_pair m)) of None \<Rightarrow> None | Some e' \<Rightarrow> remove_all e' ms)"

text \<open>
  The transaction of one attempt of \<open>redisCleanup\<close>. \<open>conflict\<close> says that the watched key
  changed, so that the pipeline fails and nothing is removed.
\<close>

definition redis_attempt ::
    "('r, 'z) redis_api_scheme \<Rightarrow> bool \<Rightarrow> time \<Rightarrow> EphemeralManager \<times> 'r \<Rightarrow> ((EphemeralManager \<times> 'r) \<times> bool) option" where
  "redis_attempt api conflict now s =
     (let (e, r) = s in
      case ZRangeByScore api r (ephemeralKey e) 0 (UnixMilli now) of
        Inl err \<Rightarrow> Some (s, False)
      | Inr members \<Rightarrow>
          let valid = valid_members members in
          if valid = [] then Some (s, True)
          else if conflict then Some (s, False)
          else
            (case remove_all e valid of
               None \<Rightarrow> None
             | Some e' \<Rightarrow>
                 Some ((e'\<lparr>deleted := deleted e' @ peerIDsPerAccount (map member_pair valid)\<rparr>,
                        foldl (\<lambda>r m. fst (ZRem api r (ephemeralKey e) m)) r valid), True)))"

text \<open>\<open>redisCleanup\<close>, with the clock and the outcome of the watch for each of its attempts.\<close>

fun redisCleanup ::
    "('r, 'z) redis_api_scheme \<Rightarrow> (bool \<times> time) list \<Rightarrow> EphemeralManager \<times> 'r \<Rightarrow> (EphemeralManager \<times> 'r) option" where
  "redisCleanup api [] s = Some s"
| "redisCleanup api ((conflict, now) # as) s =
     (case redis_attempt api conflict now s of
        None \<Rightarrow> None
      | Some (s', True) \<Rightarrow> Some s'
      | Some (s', False) \<Rightarrow> redisCleanup api as s')"

section \<open>Events\<close>

definition OnPeerConnected ::
    "('r, 'z) redis_api_scheme \<Rightarrow> EphemeralManager \<times> 'r \<Rightarrow> nbPeer \<Rightarrow> (EphemeralManager \<times> 'r) option" where
  "OnPeerConnected api s peer =
     (if \<not> Ephemeral_flag peer then Some s
      else case removePeer (fst s) (ID peer) of
        None \<Rightarrow> None
      | Some e \<Rightarrow>
          let r = (if haEnabled e then redisZRem api e (snd s) (ID peer) (AccountID peer) else snd s)
          in Some (if headPeer e = None \<and> timer e \<noteq> None then e\<lparr>timer := None\<rparr> else e, r))"

definition OnPeerDisconnected ::
    "('r, 'z) redis_api_scheme \<Rightarrow> nat \<Rightarrow> time \<Rightarrow> time \<Rightarrow> EphemeralManager \<times> 'r \<Rightarrow> nbPeer \<Rightarrow>
     (EphemeralManager \<times> 'r) option" where
  "OnPeerDisconnected api a now now' s peer =
     (let (e, r) = s in
      if \<not> Ephemeral_flag peer then Some s
      else case isPeerOnList e (ID peer) of
        None \<Rightarrow> None
      | Some True \<Rightarrow> Some s
      | Some False \<Rightarrow>
          let dl = newDeadLine now e in
          (case addPeer a e (AccountID peer) (ID peer) dl of
             None \<Rightarrow> None
           | Some e' \<Rightarrow>
               let r' = (if haEnabled e' then redisZAdd api e' r (ID peer) (AccountID peer) dl else r) in
               if \<not> haEnabled e' \<and> timer e' = None then
                 (case headPeer e' of
                    None \<Rightarrow> None
                  | Some p \<Rightarrow>
                      (case heap e' p of
                         None \<Rightarrow> None
                       | Some nd \<Rightarrow> Some (e'\<lparr>timer := Some (now' + cleanup_delay now' e' nd)\<rparr>, r')))
               else Some (e', r')))"

text \<open>
  \<open>LoadInitialPeers\<close>. \<open>stored\<close> is the result of \<open>GetAllEphemeralPeers\<close>, with the address of
  each new node; \<open>pl\<close> collects what the loop over the list would visit.
\<close>

fun load_peers :: "time \<Rightarrow> (nat \<times> nbPeer) list \<Rightarrow> EphemeralManager \<Rightarrow> EphemeralManager option" where
  "load_peers t [] e = Some e"
| "load_peers t ((a, p) # ps) e =
     (case addPeer a e (AccountID p) (ID p) t of None \<Rightarrow> None | Some e' \<Rightarrow> load_peers t ps e')"

partial_function (option) sync_loop ::
    "('r, 'z) redis_api_scheme \<Rightarrow> EphemeralManager \<Rightarrow> nat option \<Rightarrow> 'r \<Rightarrow> 'r option" where
  "sync_loop api e p r =
     (case p of
        None \<Rightarrow> Some r
      | Some a \<Rightarrow>
          (case heap e a of
             None \<Rightarrow> None
           | Some nd \<Rightarrow> sync_loop api e (nextp nd) (redisZAdd api e r (id nd) (accountID nd) (deadline nd))))"

definition LoadInitialPeers ::
    "('r, 'z) redis_api_scheme \<Rightarrow> time \<Rightarrow> (nat \<times> nbPeer) list option \<Rightarrow> EphemeralManager \<times> 'r \<Rightarrow>
     (EphemeralManager \<times> 'r) option" where
  "LoadInitialPeers api now stored s =
     (let (e, r) = s in
      case (case stored of None \<Rightarrow> Some e | Some ps \<Rightarrow> load_peers (newDeadLine now e) ps e) of
        None \<Rightarrow> None
      | Some e \<Rightarrow>
          if haEnabled e then
            (case sync_loop api e (headPeer e) r of
               None \<Rightarrow> None
             | Some r' \<Rightarrow> Some (e\<lparr>polling := True\<rparr>, r'))
          else if headPeer e \<noteq> None then Some (e\<lparr>timer := Some (now + lifeTime e)\<rparr>, r)
          else Some (e, r))"

text \<open>\<open>Stop\<close> stops the timer and keeps the pointer to it.\<close>

definition Stop :: "EphemeralManager \<Rightarrow> EphemeralManager" where
  "Stop e = e\<lparr>stopped := True, polling := False\<rparr>"

section \<open>Deletion requests\<close>

text \<open>
  \<open>DeletePeers\<close> on the peers of the store, by account and ID. \<open>settings_ok\<close> says whether the settings of the account can be read, \<open>tx_ok\<close>
  whether the transaction that removes a peer with its groups and policies commits; it changes nothing otherwise. The groups, policies, events
  and the update of the account are not part of the state.
\<close>

record PeerStatus =
  LastSeen :: time
  Connected_status :: bool

type_synonym peer_store = "string \<times> string \<rightharpoonup> PeerStatus"

abbreviation (input) "EphemeralLifeTime \<equiv> 10 * minute"

definition delete_peer :: "time \<Rightarrow> (string \<Rightarrow> bool) \<Rightarrow> bool \<Rightarrow> string \<Rightarrow> peer_store \<Rightarrow> string \<Rightarrow> peer_store" where
  "delete_peer now tx_ok checkConnected acc st peerID =
     (case st (acc, peerID) of
        None \<Rightarrow> st
      | Some peer \<Rightarrow>
          if checkConnected \<and> (Connected_status peer \<or> LastSeen peer > now + - (EphemeralLifeTime - 10 * second)) then st
          else if tx_ok peerID then st((acc, peerID) := None) else st)"

definition DeletePeers ::
    "time \<Rightarrow> (string \<Rightarrow> bool) \<Rightarrow> (string \<Rightarrow> bool) \<Rightarrow> peer_store \<Rightarrow> string \<Rightarrow> string list \<Rightarrow> bool \<Rightarrow> peer_store" where
  "DeletePeers now settings_ok tx_ok st acc peerIDs checkConnected =
     (if \<not> settings_ok acc then st else foldl (delete_peer now tx_ok checkConnected acc) st peerIDs)"

text \<open>The requests of a clean-up, one for each account.\<close>

definition run_requests ::
    "time \<Rightarrow> (string \<Rightarrow> bool) \<Rightarrow> (string \<Rightarrow> bool) \<Rightarrow> peer_store \<Rightarrow> (string \<times> string list) list \<Rightarrow> peer_store" where
  "run_requests now settings_ok tx_ok st requests =
     foldl (\<lambda>st (acc, peerIDs). DeletePeers now settings_ok tx_ok st acc peerIDs True) st requests"

section \<open>What the pointers represent\<close>

type_synonym eheap = "nat \<Rightarrow> ephemeralPeer option"
type_synonym entry = "string \<times> string \<times> time"

partial_function (option) walk :: "eheap \<Rightarrow> nat option \<Rightarrow> entry list option" where
  "walk h p =
     (case p of
        None \<Rightarrow> Some []
      | Some a \<Rightarrow>
          (case h a of
             None \<Rightarrow> None
           | Some nd \<Rightarrow>
               Option.bind (walk h (nextp nd))
                 (\<lambda>xs. Some ((id nd, accountID nd, deadline nd) # xs))))"

definition peer_list :: "EphemeralManager \<Rightarrow> entry list" where
  "peer_list e = the (walk (heap e) (headPeer e))"

fun chain :: "eheap \<Rightarrow> nat option \<Rightarrow> nat list \<Rightarrow> bool" where
  "chain h p [] \<longleftrightarrow> p = None"
| "chain h p (a # as) \<longleftrightarrow> p = Some a \<and> (\<exists>nd. h a = Some nd \<and> chain h (nextp nd) as)"

definition entry_at :: "eheap \<Rightarrow> nat \<Rightarrow> entry" where
  "entry_at h a = (let nd = the (h a) in (id nd, accountID nd, deadline nd))"

definition repr :: "EphemeralManager \<Rightarrow> nat list \<Rightarrow> bool" where
  "repr e as \<longleftrightarrow>
     chain (heap e) (headPeer e) as \<and> distinct as \<and>
     tailPeer e = (if as = [] then None else Some (last as))"

lemma chain_Some: "chain h p as \<Longrightarrow> a \<in> set as \<Longrightarrow> \<exists>nd. h a = Some nd"
  by (induction as arbitrary: p) auto

lemma chain_frame:
  assumes "chain h p as" and "\<And>a. a \<in> set as \<Longrightarrow> h' a = h a"
  shows "chain h' p as"
  using assms by (induction as arbitrary: p) auto

lemma walk_chain: "chain h p as \<Longrightarrow> walk h p = Some (map (entry_at h) as)"
proof (induction as arbitrary: p)
  case Nil
  then show ?case by (subst walk.simps) simp
next
  case (Cons a as)
  then obtain nd where "p = Some a" "h a = Some nd" "chain h (nextp nd) as" by auto
  with Cons.IH show ?case by (subst walk.simps) (simp add: entry_at_def)
qed

lemma peer_list_repr: "repr e as \<Longrightarrow> peer_list e = map (entry_at (heap e)) as"
  by (auto simp: repr_def peer_list_def dest: walk_chain)

lemma on_list_chain: "chain h p as \<Longrightarrow> on_list h p i = Some (i \<in> fst ` entry_at h ` set as)"
proof (induction as arbitrary: p)
  case Nil
  then show ?case by (subst on_list.simps) simp
next
  case (Cons a as)
  then obtain nd where "p = Some a" "h a = Some nd" "chain h (nextp nd) as" by auto
  with Cons.IH show ?case by (subst on_list.simps) (auto simp: entry_at_def)
qed

lemma chain_snoc:
  assumes "chain h p as" "as \<noteq> []" "distinct as" "a \<notin> set as"
    and "h a = Some na" "nextp na = None" "h (last as) = Some nt"
  shows "chain (h(last as := Some (nt\<lparr>nextp := Some a\<rparr>))) p (as @ [a])"
  using assms
proof (induction as arbitrary: p)
  case (Cons b as)
  show ?case
  proof (cases "as = []")
    case False
    with Cons.prems(3) have "b \<noteq> last as" by auto
    with False Cons.IH Cons.prems show ?thesis by auto
  qed (use Cons.prems in auto)
qed simp

lemma addPeer_repr:
  assumes "repr e as" and "a \<notin> set as"
  obtains e' where "addPeer a e acc i dl = Some e'" and "repr e' (as @ [a])"
    and "peer_list e' = peer_list e @ [(i, acc, dl)]" and "e' = e\<lparr>heap := heap e', headPeer := headPeer e', tailPeer := Some a\<rparr>"
proof -
  let ?h = "(heap e)(a := Some \<lparr>id = i, accountID = acc, deadline = dl, nextp = None\<rparr>)"
  have frame: "chain ?h (headPeer e) as"
    using assms by (auto simp: repr_def elim!: chain_frame)
  show ?thesis
  proof (cases "as = []")
    case True
    let ?e = "e\<lparr>heap := ?h, headPeer := Some a, tailPeer := Some a\<rparr>"
    have "addPeer a e acc i dl = Some ?e"
      using assms(1) True by (simp add: addPeer_def repr_def)
    moreover have r: "repr ?e [a]" by (simp add: repr_def)
    moreover have "peer_list ?e = peer_list e @ [(i, acc, dl)]"
      using peer_list_repr [OF r] peer_list_repr [OF assms(1)] True by (simp add: entry_at_def)
    ultimately show ?thesis using that True by auto
  next
    case False
    then have "last as \<in> set as" by simp
    then obtain nt where nt: "heap e (last as) = Some nt" "last as \<noteq> a"
      using assms chain_Some by (fastforce simp: repr_def)
    let ?h' = "?h(last as := Some (nt\<lparr>nextp := Some a\<rparr>))"
    let ?e = "e\<lparr>heap := ?h', headPeer := headPeer e, tailPeer := Some a\<rparr>"
    have hd: "headPeer e \<noteq> None" using assms(1) False by (cases as) (auto simp: repr_def)
    have "addPeer a e acc i dl = Some ?e"
      using assms(1) False nt hd by (simp add: addPeer_def repr_def Let_def)
    moreover have "chain ?h' (headPeer e) (as @ [a])"
      using chain_snoc [OF frame False _ assms(2)] assms(1) nt by (simp add: repr_def)
    then have r: "repr ?e (as @ [a])" using assms by (simp add: repr_def)
    moreover have "map (entry_at ?h') as = map (entry_at (heap e)) as"
      using nt assms(2) by (auto simp: entry_at_def)
    then have "peer_list ?e = peer_list e @ [(i, acc, dl)]"
      using peer_list_repr [OF r] peer_list_repr [OF assms(1)] nt by (simp add: entry_at_def)
    ultimately show ?thesis using that by auto
  qed
qed

lemma expire_loop_chain:
  assumes "chain h p as"
  shows "expire_loop h now p t acc =
    Some (acc @ map (\<lambda>a. (fst (snd (entry_at h a)), fst (entry_at h a)))
                 (takeWhile (\<lambda>a. \<not> now < snd (snd (entry_at h a))) as),
          case dropWhile (\<lambda>a. \<not> now < snd (snd (entry_at h a))) as of [] \<Rightarrow> None | b # bs \<Rightarrow> Some b,
          if as \<noteq> [] \<and> dropWhile (\<lambda>a. \<not> now < snd (snd (entry_at h a))) as = [] then None else t)"
  using assms
proof (induction as arbitrary: p t acc)
  case Nil
  then show ?case by (subst expire_loop.simps) simp
next
  case (Cons a as)
  then obtain nd where nd: "p = Some a" "h a = Some nd" "chain h (nextp nd) as" by auto
  have "nextp nd = None \<longleftrightarrow> as = []" using nd(3) by (cases as) auto
  with nd Cons.IH [OF nd(3)] show ?case
    by (subst expire_loop.simps) (auto simp: entry_at_def)
qed

lemma chain_dropWhile:
  "chain h p as \<Longrightarrow> chain h (case dropWhile P as of [] \<Rightarrow> None | b # bs \<Rightarrow> Some b) (dropWhile P as)"
  by (induction as arbitrary: p) auto

definition ids :: "eheap \<Rightarrow> nat list \<Rightarrow> string list" where
  "ids h as = map (\<lambda>a. fst (entry_at h a)) as"

lemma filter_other_ids: "i \<notin> set (ids h as) \<Longrightarrow> filter (\<lambda>b. fst (entry_at h b) \<noteq> i) as = as"
  by (auto simp: ids_def intro!: filter_True)

lemma remove_after_chain:
  assumes "chain h (Some a) (a # as)" and "distinct (a # as)" and "distinct (ids h as)"
  shows "\<exists>h'. remove_after h (Some (last (a # as))) a i =
           Some (h', Some (last (a # filter (\<lambda>b. fst (entry_at h b) \<noteq> i) as))) \<and>
         chain h' (Some a) (a # filter (\<lambda>b. fst (entry_at h b) \<noteq> i) as) \<and>
         (\<forall>b. entry_at h' b = entry_at h b) \<and> (\<forall>b. b \<notin> set (a # as) \<longrightarrow> h' b = h b)"
  using assms
proof (induction as arbitrary: a)
  case Nil
  then show ?case by (subst remove_after.simps) auto
next
  case (Cons q qs)
  then obtain nd nq where nd: "h a = Some nd" "nextp nd = Some q" and nq: "h q = Some nq" "chain h (nextp nq) qs"
    by auto
  show ?case
  proof (cases "id nq = i")
    case True
    let ?h = "h(a := Some (nd\<lparr>nextp := nextp nq\<rparr>))"
    have i: "i \<notin> set (ids h qs)" "fst (entry_at h q) = i"
      using Cons.prems(3) True nq(1) by (auto simp: ids_def entry_at_def)
    have "chain h (Some q) (q # qs)" using nq by simp
    then obtain nt where nt: "h (last (q # qs)) = Some nt"
      using chain_Some last_in_set [of "q # qs"] by blast
    have "id nt = i \<longleftrightarrow> qs = []"
    proof (cases "qs = []")
      case False
      then have "fst (entry_at h (last qs)) \<in> set (ids h qs)" by (simp add: ids_def)
      with i False nt show ?thesis by (auto simp: entry_at_def)
    qed (use True nq nt in simp)
    moreover have "chain ?h (nextp nq) qs"
      using nq(2) Cons.prems(2) by (auto elim!: chain_frame)
    moreover have "entry_at ?h b = entry_at h b" for b using nd(1) by (simp add: entry_at_def)
    ultimately show ?thesis
      using nd nq nt True i filter_other_ids [OF i(1)] by (subst remove_after.simps) auto
  next
    case False
    have pre: "chain h (Some q) (q # qs)" "distinct (q # qs)" "distinct (ids h qs)"
      using nq Cons.prems(2,3) by (simp_all add: ids_def)
    obtain h' where h': "remove_after h (Some (last (q # qs))) q i =
           Some (h', Some (last (q # filter (\<lambda>b. fst (entry_at h b) \<noteq> i) qs)))"
        "chain h' (Some q) (q # filter (\<lambda>b. fst (entry_at h b) \<noteq> i) qs)"
        "\<forall>b. entry_at h' b = entry_at h b" "\<forall>b. b \<notin> set (q # qs) \<longrightarrow> h' b = h b"
      using Cons.IH [OF pre] by blast
    have "h' a = Some nd" using h'(4) nd(1) Cons.prems(2) by simp
    moreover have "fst (entry_at h q) \<noteq> i" using False nq(1) by (simp add: entry_at_def)
    moreover have "remove_after h (Some (last (a # q # qs))) a i = remove_after h (Some (last (q # qs))) q i"
      using nd nq(1) False by (subst remove_after.simps) simp
    ultimately show ?thesis using h' nd(2) by auto
  qed
qed

lemma removePeer_repr:
  assumes "repr e as" and "distinct (ids (heap e) as)"
  obtains e' where "removePeer e i = Some e'"
    and "repr e' (filter (\<lambda>b. fst (entry_at (heap e) b) \<noteq> i) as)"
    and "\<And>b. entry_at (heap e') b = entry_at (heap e) b"
    and "e' = e\<lparr>heap := heap e', headPeer := headPeer e', tailPeer := tailPeer e'\<rparr>"
proof (cases as)
  case Nil
  with assms(1) have "removePeer e i = Some e" by (simp add: removePeer_def repr_def)
  then show ?thesis by (rule that) (use assms(1) Nil in simp_all)
next
  case (Cons a bs)
  then obtain nd where nd: "headPeer e = Some a" "heap e a = Some nd" "chain (heap e) (nextp nd) bs"
    and t: "tailPeer e = Some (last as)" and dist: "distinct (a # bs)"
    using assms(1) by (auto simp: repr_def)
  show ?thesis
  proof (cases "id nd = i")
    case True
    then have i: "i \<notin> set (ids (heap e) bs)" "fst (entry_at (heap e) a) = i"
      using assms(2) Cons nd(2) by (auto simp: ids_def entry_at_def)
    obtain nt where nt: "heap e (last as) = Some nt"
      using assms(1) chain_Some last_in_set [of as] Cons unfolding repr_def by blast
    have tail: "id nt = i \<longleftrightarrow> bs = []"
    proof (cases "bs = []")
      case False
      then have "fst (entry_at (heap e) (last bs)) \<in> set (ids (heap e) bs)" by (simp add: ids_def)
      with i False nt Cons show ?thesis by (auto simp: entry_at_def)
    qed (use True nd nt Cons in simp)
    let ?e = "e\<lparr>headPeer := nextp nd, tailPeer := (if id nt = i then None else tailPeer e)\<rparr>"
    have rm: "removePeer e i = Some ?e" using nd t nt True by (simp add: removePeer_def)
    have rp: "repr ?e bs"
      using nd(3) dist tail t Cons by (auto simp: repr_def)
    show ?thesis
      by (rule that [OF rm]) (use rp i filter_other_ids [OF i(1)] Cons in simp_all)
  next
    case False
    have "chain (heap e) (Some a) (a # bs)" "distinct (ids (heap e) bs)"
      using nd assms(2) Cons by (simp_all add: ids_def)
    from remove_after_chain [OF this(1) dist this(2), of i]
    obtain h' where h': "remove_after (heap e) (Some (last (a # bs))) a i =
           Some (h', Some (last (a # filter (\<lambda>b. fst (entry_at (heap e) b) \<noteq> i) bs)))"
        "chain h' (Some a) (a # filter (\<lambda>b. fst (entry_at (heap e) b) \<noteq> i) bs)"
        "\<forall>b. entry_at h' b = entry_at (heap e) b"
      by blast
    let ?e = "e\<lparr>heap := h', tailPeer := Some (last (a # filter (\<lambda>b. fst (entry_at (heap e) b) \<noteq> i) bs))\<rparr>"
    have a: "fst (entry_at (heap e) a) \<noteq> i" using False nd(2) by (simp add: entry_at_def)
    have rm: "removePeer e i = Some ?e" using nd t h'(1) False Cons by (simp add: removePeer_def)
    have rp: "repr ?e (a # filter (\<lambda>b. fst (entry_at (heap e) b) \<noteq> i) bs)"
      using h'(2) nd(1) dist by (simp add: repr_def)
    show ?thesis by (rule that [OF rm]) (use rp h'(3) a Cons in simp_all)
  qed
qed

section \<open>Operations on the represented list\<close>

definition linked :: "EphemeralManager \<Rightarrow> bool" where
  "linked e \<longleftrightarrow> (\<exists>as. repr e as) \<and> distinct (map fst (peer_list e))"

lemma linkedE:
  assumes "linked e"
  obtains as where "repr e as" and "peer_list e = map (entry_at (heap e)) as" and "distinct (ids (heap e) as)"
  using assms peer_list_repr unfolding linked_def ids_def by (fastforce simp: comp_def)

lemma linked_empty: "linked e \<Longrightarrow> headPeer e = None \<longleftrightarrow> peer_list e = []"
  by (erule linkedE) (auto simp: repr_def neq_Nil_conv elim: chain.elims)

lemma removePeer_list:
  assumes "linked e"
  obtains e' where "removePeer e i = Some e'" and "linked e'"
    and "peer_list e' = filter (\<lambda>x. fst x \<noteq> i) (peer_list e)"
    and "e' = e\<lparr>heap := heap e', headPeer := headPeer e', tailPeer := tailPeer e'\<rparr>"
proof -
  obtain as where as: "repr e as" "peer_list e = map (entry_at (heap e)) as" "distinct (ids (heap e) as)"
    using assms by (rule linkedE)
  obtain e' where e': "removePeer e i = Some e'"
      "repr e' (filter (\<lambda>b. fst (entry_at (heap e) b) \<noteq> i) as)"
      "\<And>b. entry_at (heap e') b = entry_at (heap e) b"
      "e' = e\<lparr>heap := heap e', headPeer := headPeer e', tailPeer := tailPeer e'\<rparr>"
    using removePeer_repr [OF as(1,3)] by metis
  have l: "peer_list e' = filter (\<lambda>x. fst x \<noteq> i) (peer_list e)"
    using peer_list_repr [OF e'(2)] e'(3) as(2) by (simp add: filter_map comp_def)
  then have "linked e'"
    using e'(2) assms by (auto simp: linked_def distinct_map_filter)
  with e' l that show thesis by blast
qed

lemma isPeerOnList_list:
  assumes "linked e"
  shows "isPeerOnList e i = Some (i \<in> fst ` set (peer_list e))"
proof -
  obtain as where "repr e as" "peer_list e = map (entry_at (heap e)) as"
    using assms by (rule linkedE)
  then show ?thesis by (auto simp: isPeerOnList_def repr_def on_list_chain)
qed

lemma addPeer_list:
  assumes "linked e" and "heap e a = None" and "i \<notin> fst ` set (peer_list e)"
  obtains e' where "addPeer a e acc i dl = Some e'" and "linked e'"
    and "peer_list e' = peer_list e @ [(i, acc, dl)]"
    and "e' = e\<lparr>heap := heap e', headPeer := headPeer e', tailPeer := Some a\<rparr>"
proof -
  obtain as where as: "repr e as" using assms(1) by (auto simp: linked_def)
  then have "a \<notin> set as" using assms(2) chain_Some by (fastforce simp: repr_def)
  with addPeer_repr [OF as] obtain e' where e': "addPeer a e acc i dl = Some e'" "repr e' (as @ [a])"
      "peer_list e' = peer_list e @ [(i, acc, dl)]"
      "e' = e\<lparr>heap := heap e', headPeer := headPeer e', tailPeer := Some a\<rparr>"
    by metis
  moreover have "linked e'" using e'(2,3) assms(1,3) by (auto simp: linked_def)
  ultimately show thesis using that by blast
qed

definition deleted_pairs :: "(string \<times> string list) list \<Rightarrow> (string \<times> string) set" where
  "deleted_pairs gs = {(a, i). \<exists>is. (a, is) \<in> set gs \<and> i \<in> set is}"

lemma deleted_pairs_append [simp]: "deleted_pairs (gs @ gs') = deleted_pairs gs \<union> deleted_pairs gs'"
  by (auto simp: deleted_pairs_def)

lemma deleted_pairs_add: "deleted_pairs (add_to_group gs x) = insert x (deleted_pairs gs)"
  by (induction gs x rule: add_to_group.induct) (auto simp: deleted_pairs_def)

lemma deleted_pairs_group [simp]: "deleted_pairs (peerIDsPerAccount xs) = set xs"
proof -
  have "deleted_pairs (foldl add_to_group gs xs) = deleted_pairs gs \<union> set xs" for gs
    by (induction xs arbitrary: gs) (auto simp: deleted_pairs_add)
  then show ?thesis by (simp add: peerIDsPerAccount_def deleted_pairs_def)
qed

lemma cleanup_list:
  assumes "linked e" and "sorted (map (\<lambda>x. snd (snd x)) (peer_list e))"
  obtains e' where "cleanup now now' e = Some e'" and "linked e'"
    and "peer_list e' = filter (\<lambda>x. now < snd (snd x)) (peer_list e)"
    and "deleted_pairs (deleted e') =
      deleted_pairs (deleted e) \<union> {(acc, i). \<exists>dl \<le> now. (i, acc, dl) \<in> set (peer_list e)}"
    and "timer e' = None \<longleftrightarrow> peer_list e' = []"
    and "lifeTime e' = lifeTime e" "haEnabled e' = haEnabled e"
proof -
  obtain as where as: "repr e as" "peer_list e = map (entry_at (heap e)) as"
    using assms(1) by (rule linkedE)
  let ?P = "\<lambda>a. \<not> now < snd (snd (entry_at (heap e) a))"
  let ?dl = "\<lambda>a. snd (snd (entry_at (heap e) a))"
  have srt: "sorted (map ?dl as)" using assms(2) as(2) by (simp add: comp_def)
  have drop: "dropWhile ?P as = filter (\<lambda>a. now < ?dl a) as"
    using dropWhile_sorted_filter [OF srt, of now] by (simp add: not_less)
  have take: "takeWhile ?P as = filter ?P as"
    using takeWhile_sorted_filter [OF srt, of now] by (simp add: not_less)
  let ?hd = "case dropWhile ?P as of [] \<Rightarrow> None | b # bs \<Rightarrow> Some b"
  let ?tl = "if as \<noteq> [] \<and> dropWhile ?P as = [] then None else tailPeer e"
  let ?dels = "map (\<lambda>a. (fst (snd (entry_at (heap e) a)), fst (entry_at (heap e) a))) (takeWhile ?P as)"
  have ex: "expire_loop (heap e) now (headPeer e) (tailPeer e) [] = Some (?dels, ?hd, ?tl)"
    using expire_loop_chain [of "heap e" "headPeer e" as now "tailPeer e" "[]"] as(1)
    by (simp add: repr_def)
  have ch: "chain (heap e) ?hd (dropWhile ?P as)"
    using as(1) chain_dropWhile [of "heap e" "headPeer e" as ?P] by (simp add: repr_def)
  have "last (dropWhile ?P as) = last as" if "dropWhile ?P as \<noteq> []"
    using that by (metis last_appendR takeWhile_dropWhile_id)
  then have rep: "repr (e\<lparr>headPeer := ?hd, tailPeer := ?tl, deleted := d, timer := t\<rparr>) (dropWhile ?P as)" for d t
    using ch as(1) by (auto simp: repr_def)
  obtain t where t: "cleanup now now' e =
      Some (e\<lparr>headPeer := ?hd, tailPeer := ?tl, deleted := deleted e @ peerIDsPerAccount ?dels, timer := t\<rparr>)"
    "t = None \<longleftrightarrow> dropWhile ?P as = []"
  proof (cases "dropWhile ?P as")
    case Nil
    with ex that show ?thesis by (simp add: cleanup_def)
  next
    case (Cons b bs)
    then obtain nd where "heap e b = Some nd" using ch by auto
    with Cons ex that show ?thesis by (simp add: cleanup_def)
  qed
  let ?e = "e\<lparr>headPeer := ?hd, tailPeer := ?tl, deleted := deleted e @ peerIDsPerAccount ?dels, timer := t\<rparr>"
  have l: "peer_list ?e = filter (\<lambda>x. now < snd (snd x)) (peer_list e)"
    using peer_list_repr [OF rep, of t "deleted e @ peerIDsPerAccount ?dels"] as(2) drop
    by (simp add: filter_map comp_def)
  show thesis
  proof (rule that [OF t(1)])
    have "distinct (map fst (peer_list ?e))"
      using l assms(1) by (simp add: linked_def distinct_map_filter)
    then show "linked ?e" using rep unfolding linked_def by blast
    show "deleted_pairs (deleted ?e) =
        deleted_pairs (deleted e) \<union> {(acc, i). \<exists>dl \<le> now. (i, acc, dl) \<in> set (peer_list e)}"
    proof -
      have "(acc, i) \<in> set ?dels \<longleftrightarrow> (\<exists>dl \<le> now. (i, acc, dl) \<in> set (peer_list e))" for acc i
        unfolding take as(2) by (auto simp: not_less image_iff) (metis prod.collapse fst_conv snd_conv)+
      then have eq: "set ?dels = {(acc, i). \<exists>dl \<le> now. (i, acc, dl) \<in> set (peer_list e)}" by auto
      have d: "deleted ?e = deleted e @ peerIDsPerAccount ?dels" by simp
      show ?thesis unfolding d deleted_pairs_append deleted_pairs_group eq ..
    qed
    show "timer ?e = None \<longleftrightarrow> peer_list ?e = []"
      using t(2) l drop as(2) by (simp add: filter_map comp_def)
  qed (use l in \<open>simp_all add: haEnabled_def\<close>)
qed

section \<open>The manager without Redis as a machine\<close>

datatype em_op = Connected nbPeer | Disconnected nat time time nbPeer | Cleanup time time

fun em_step ::
    "('r, 'z) redis_api_scheme \<Rightarrow> (EphemeralManager \<times> 'r) option \<Rightarrow> em_op \<Rightarrow> (EphemeralManager \<times> 'r) option" where
  "em_step api None op = None"
| "em_step api (Some s) (Connected p) = OnPeerConnected api s p"
| "em_step api (Some s) (Disconnected a now now' p) = OnPeerDisconnected api a now now' s p"
| "em_step api (Some s) (Cleanup now now') =
     (case cleanup now now' (fst s) of None \<Rightarrow> None | Some e \<Rightarrow> Some (e, snd s))"

text \<open>
  The allocator returns a fresh address, and the clock does not go back: a new deadline is
  not before one on the list.
\<close>

fun em_legal :: "(EphemeralManager \<times> 'r) option \<Rightarrow> em_op \<Rightarrow> bool" where
  "em_legal (Some (e, r)) (Disconnected a now now' p) \<longleftrightarrow>
     heap e a = None \<and> (\<forall>x \<in> set (peer_list e). snd (snd x) \<le> now + lifeTime e)"
| "em_legal s op \<longleftrightarrow> True"

definition em_inv :: "(EphemeralManager \<times> 'r) option \<Rightarrow> bool" where
  "em_inv s \<longleftrightarrow>
     (case s of
        None \<Rightarrow> False
      | Some (e, r) \<Rightarrow>
          linked e \<and> sorted (map (\<lambda>x. snd (snd x)) (peer_list e)) \<and> \<not> haEnabled e \<and>
          (timer e = None \<longleftrightarrow> peer_list e = []))"

text \<open>The specification: a list of peers with deadlines and the set of deleted peers.\<close>

record em_spec =
  waiting :: "entry list"
  gone :: "(string \<times> string) set"
  life :: duration

fun spec_step :: "em_spec \<Rightarrow> em_op \<Rightarrow> em_spec" where
  "spec_step s (Connected p) =
     (if Ephemeral_flag p then s\<lparr>waiting := filter (\<lambda>x. fst x \<noteq> ID p) (waiting s)\<rparr> else s)"
| "spec_step s (Disconnected a now now' p) =
     (if Ephemeral_flag p \<and> ID p \<notin> fst ` set (waiting s)
      then s\<lparr>waiting := waiting s @ [(ID p, AccountID p, now + life s)]\<rparr> else s)"
| "spec_step s (Cleanup now now') =
     s\<lparr>waiting := filter (\<lambda>x. now < snd (snd x)) (waiting s),
       gone := gone s \<union> {(acc, i). \<exists>dl \<le> now. (i, acc, dl) \<in> set (waiting s)}\<rparr>"

definition em_abs :: "(EphemeralManager \<times> 'r) option \<Rightarrow> em_spec" where
  "em_abs s =
     (case s of
        None \<Rightarrow> \<lparr>waiting = [], gone = {}, life = 0\<rparr>
      | Some (e, r) \<Rightarrow> \<lparr>waiting = peer_list e, gone = deleted_pairs (deleted e), life = lifeTime e\<rparr>)"

lemma em_connected:
  assumes "em_inv (Some (e, r))"
  shows "em_inv (OnPeerConnected api (e, r) p)"
    and "em_abs (OnPeerConnected api (e, r) p) = spec_step (em_abs (Some (e, r))) (Connected p)"
proof -
  have inv: "linked e" "sorted (map (\<lambda>x. snd (snd x)) (peer_list e))" "\<not> haEnabled e"
      "timer e = None \<longleftrightarrow> peer_list e = []"
    using assms by (simp_all add: em_inv_def)
  obtain e' where e': "removePeer e (ID p) = Some e'" "linked e'"
      "peer_list e' = filter (\<lambda>x. fst x \<noteq> ID p) (peer_list e)"
      "e' = e\<lparr>heap := heap e', headPeer := headPeer e', tailPeer := tailPeer e'\<rparr>"
    using removePeer_list [OF inv(1)] by metis
  have same: "haEnabled e' = haEnabled e" "timer e' = timer e" "deleted e' = deleted e" "lifeTime e' = lifeTime e"
    by (subst e'(4), simp add: haEnabled_def)+
  let ?e = "if headPeer e' = None \<and> timer e' \<noteq> None then e'\<lparr>timer := None\<rparr> else e'"
  have list: "peer_list ?e = peer_list e'" "linked ?e = linked e'" "haEnabled ?e = haEnabled e'"
    "deleted ?e = deleted e'" "lifeTime ?e = lifeTime e'"
    by (simp_all add: peer_list_def linked_def repr_def haEnabled_def)
  have tm: "timer ?e = None \<longleftrightarrow> peer_list e' = []"
    using linked_empty [OF e'(2)] inv(4) same(2) e'(3) by auto
  have srt: "sorted (map (\<lambda>x. snd (snd x)) (peer_list e'))"
    using inv(2) e'(3) by (simp add: sorted_filter)
  show "em_inv (OnPeerConnected api (e, r) p)"
    using assms e'(1,2) inv(3) same list tm srt
    by (simp add: OnPeerConnected_def em_inv_def Let_def)
  show "em_abs (OnPeerConnected api (e, r) p) = spec_step (em_abs (Some (e, r))) (Connected p)"
    using e'(1,3) same list by (simp add: OnPeerConnected_def em_abs_def Let_def)
qed

lemma em_disconnected:
  assumes "em_inv (Some (e, r))" and "em_legal (Some (e, r)) (Disconnected a now now' p)"
  shows "em_inv (OnPeerDisconnected api a now now' (e, r) p)"
    and "em_abs (OnPeerDisconnected api a now now' (e, r) p) =
      spec_step (em_abs (Some (e, r))) (Disconnected a now now' p)"
proof -
  have inv: "linked e" "sorted (map (\<lambda>x. snd (snd x)) (peer_list e))" "\<not> haEnabled e"
      "timer e = None \<longleftrightarrow> peer_list e = []"
    using assms(1) by (simp_all add: em_inv_def)
  note on = isPeerOnList_list [OF inv(1), of "ID p"]
  have "em_inv (OnPeerDisconnected api a now now' (e, r) p) \<and>
      em_abs (OnPeerDisconnected api a now now' (e, r) p) =
      spec_step (em_abs (Some (e, r))) (Disconnected a now now' p)"
  proof (cases "Ephemeral_flag p \<and> ID p \<notin> fst ` set (peer_list e)")
    case False
    then show ?thesis using on assms(1) by (auto simp: OnPeerDisconnected_def em_abs_def Let_def)
  next
    case True
    obtain e' where e': "addPeer a e (AccountID p) (ID p) (now + lifeTime e) = Some e'" "linked e'"
        "peer_list e' = peer_list e @ [(ID p, AccountID p, now + lifeTime e)]"
        "e' = e\<lparr>heap := heap e', headPeer := headPeer e', tailPeer := Some a\<rparr>"
      using addPeer_list [OF inv(1), of a "ID p"] assms(2) True by auto
    have same: "haEnabled e' = haEnabled e" "timer e' = timer e" "deleted e' = deleted e" "lifeTime e' = lifeTime e"
      by (subst e'(4), simp add: haEnabled_def)+
    obtain as where as: "repr e' as" "peer_list e' = map (entry_at (heap e')) as"
      using e'(2) by (rule linkedE)
    with e'(3) obtain q nd where q: "headPeer e' = Some q" "heap e' q = Some nd"
      by (cases as) (auto simp: repr_def)
    have srt: "sorted (map (\<lambda>x. snd (snd x)) (peer_list e'))"
      using inv(2) e'(3) assms(2) by (auto simp: sorted_append)
    have keep: "peer_list (e'\<lparr>timer := t\<rparr>) = peer_list e'" "linked (e'\<lparr>timer := t\<rparr>) = linked e'"
      "haEnabled (e'\<lparr>timer := t\<rparr>) = haEnabled e'" for t
      by (simp_all add: peer_list_def linked_def repr_def haEnabled_def)
    have "\<exists>t. t \<noteq> None \<and> OnPeerDisconnected api a now now' (e, r) p = Some (e'\<lparr>timer := t\<rparr>, r)"
    proof (cases "timer e'")
      case None
      with True on e'(1) q inv(3) same show ?thesis
        by (auto simp: OnPeerDisconnected_def newDeadLine_def Let_def)
    next
      case (Some t)
      then have "e'\<lparr>timer := Some t\<rparr> = e'" by simp
      with Some True on e'(1) inv(3) same show ?thesis
        by (intro exI [of _ "Some t"]) (simp add: OnPeerDisconnected_def newDeadLine_def Let_def)
    qed
    then show ?thesis
      using True e'(2,3) srt keep same inv(3) by (auto simp: em_inv_def em_abs_def)
  qed
  then show "em_inv (OnPeerDisconnected api a now now' (e, r) p)"
    and "em_abs (OnPeerDisconnected api a now now' (e, r) p) =
      spec_step (em_abs (Some (e, r))) (Disconnected a now now' p)"
    by blast+
qed

interpretation em: refining_machine "em_step api" em_legal em_inv em_abs spec_step for api
proof
  fix s :: "(EphemeralManager \<times> 'a) option" and op
  assume inv: "em_inv s" and legal: "em_legal s op"
  then obtain e r where s: "s = Some (e, r)" by (auto simp: em_inv_def split: option.splits)
  have "em_inv (em_step api s op) \<and> em_abs (em_step api s op) = spec_step (em_abs s) op"
  proof (cases op)
    case (Cleanup now now')
    have "linked e" "sorted (map (\<lambda>x. snd (snd x)) (peer_list e))"
      using inv s by (simp_all add: em_inv_def)
    then obtain e' where "cleanup now now' e = Some e'" "linked e'"
        "peer_list e' = filter (\<lambda>x. now < snd (snd x)) (peer_list e)"
        "deleted_pairs (deleted e') =
          deleted_pairs (deleted e) \<union> {(acc, i). \<exists>dl \<le> now. (i, acc, dl) \<in> set (peer_list e)}"
        "timer e' = None \<longleftrightarrow> peer_list e' = []" "lifeTime e' = lifeTime e" "haEnabled e' = haEnabled e"
      by (rule cleanup_list)
    with inv s Cleanup show ?thesis by (simp add: em_inv_def em_abs_def sorted_filter)
  next
    case (Connected p)
    then show ?thesis using em_connected [of e r api p] inv s by simp
  next
    case (Disconnected a now now' p)
    then show ?thesis using em_disconnected [of e r a now now' p api] inv legal s by simp
  qed
  then show "em_inv (em_step api s op)" and "em_abs (em_step api s op) = spec_step (em_abs s) op"
    by blast+
qed

section \<open>Loading into Redis\<close>

lemma addPeer_fresh: "addPeer a e acc i dl = Some e' \<Longrightarrow> b \<noteq> a \<Longrightarrow> heap e b = None \<Longrightarrow> heap e' b = None"
  by (auto simp: addPeer_def Let_def split: option.splits if_splits)

lemma load_peers_list:
  assumes "linked e" and "distinct (map fst ps)" and "\<And>a. a \<in> fst ` set ps \<Longrightarrow> heap e a = None"
    and "distinct (map (\<lambda>x. ID (snd x)) ps)"
    and "\<And>x. x \<in> set ps \<Longrightarrow> ID (snd x) \<notin> fst ` set (peer_list e)"
  shows "\<exists>e'. load_peers t ps e = Some e' \<and> linked e' \<and> haEnabled e' = haEnabled e \<and>
    ephemeralKey e' = ephemeralKey e \<and>
    peer_list e' = peer_list e @ map (\<lambda>x. (ID (snd x), AccountID (snd x), t)) ps"
  using assms
proof (induction ps arbitrary: e)
  case (Cons x ps)
  obtain a p where x: "x = (a, p)" by (cases x)
  have "heap e a = None" "ID p \<notin> fst ` set (peer_list e)"
    using Cons.prems(3) [of a] Cons.prems(5) [of x] x by simp_all
  from addPeer_list [OF Cons.prems(1) this] obtain e1 where
    e1: "addPeer a e (AccountID p) (ID p) t = Some e1" "linked e1"
      "peer_list e1 = peer_list e @ [(ID p, AccountID p, t)]"
      "e1 = e\<lparr>heap := heap e1, headPeer := headPeer e1, tailPeer := Some a\<rparr>" by metis
  have same: "haEnabled e1 = haEnabled e" "ephemeralKey e1 = ephemeralKey e"
    by (subst e1(4), simp add: haEnabled_def)+
  have fresh: "heap e1 b = None" if "b \<in> fst ` set ps" for b
  proof (rule addPeer_fresh [OF e1(1)])
    show "b \<noteq> a" using that Cons.prems(2) x by auto
    show "heap e b = None" using that Cons.prems(3) [of b] by simp
  qed
  have "ID (snd y) \<notin> fst ` set (peer_list e1)" if "y \<in> set ps" for y
  proof -
    have "ID (snd y) \<in> (\<lambda>x. ID (snd x)) ` set ps" using that by simp
    moreover have "ID p \<notin> (\<lambda>x. ID (snd x)) ` set ps" using Cons.prems(4) x by simp
    ultimately have "ID (snd y) \<noteq> ID p" by metis
    then show ?thesis using Cons.prems(5) [of y] that e1(3) by simp
  qed
  moreover have "distinct (map fst ps)" "distinct (map (\<lambda>x. ID (snd x)) ps)"
    using Cons.prems(2,4) by simp_all
  ultimately show ?case
    using e1(1,3) same x Cons.IH [OF e1(2) _ fresh] by auto
qed simp

definition zadd_all :: "('r, 'z) redis_api_scheme \<Rightarrow> EphemeralManager \<Rightarrow> entry list \<Rightarrow> 'r \<Rightarrow> 'r" where
  "zadd_all api e xs r = foldl (\<lambda>r x. redisZAdd api e r (fst x) (fst (snd x)) (snd (snd x))) r xs"

lemma sync_loop_chain: "chain (heap e) p as \<Longrightarrow> sync_loop api e p r = Some (zadd_all api e (map (entry_at (heap e)) as) r)"
proof (induction as arbitrary: p r)
  case Nil
  then show ?case by (subst sync_loop.simps) (simp add: zadd_all_def)
next
  case (Cons a as)
  then obtain nd where nd: "p = Some a" "heap e a = Some nd" "chain (heap e) (nextp nd) as" by auto
  have "entry_at (heap e) a = (id nd, accountID nd, deadline nd)" using nd(2) by (simp add: entry_at_def)
  with nd Cons.IH show ?case by (subst sync_loop.simps) (simp add: zadd_all_def)
qed

lemma zadd_all_score:
  assumes "zset_laws api zv" and "redis_up api" and "\<And>x. x \<in> set xs \<Longrightarrow> snd (snd x) = t"
    and "m \<in> (\<lambda>x. ephemeral_member (fst x) (fst (snd x))) ` set xs \<or> zv r (ephemeralKey e) m = Some (UnixMilli t)"
  shows "zv (zadd_all api e xs r) (ephemeralKey e) m = Some (UnixMilli t)"
  using assms(3,4)
proof (induction xs arbitrary: r)
  case (Cons x xs)
  have "zv (redisZAdd api e r (fst x) (fst (snd x)) t) =
      (zv r)(ephemeralKey e := (zv r (ephemeralKey e))(ephemeral_member (fst x) (fst (snd x)) := Some (UnixMilli t)))"
    using assms(1) redis_upD(8) [OF assms(2)] by (simp add: redisZAdd_def zset_laws_def)
  moreover have "snd (snd x) = t" using Cons.prems(1) by simp
  ultimately show ?case
    using Cons.IH [of "redisZAdd api e r (fst x) (fst (snd x)) t"] Cons.prems by (auto simp: zadd_all_def)
qed (simp add: zadd_all_def)

lemma remove_all_ok: "linked e \<Longrightarrow> \<exists>e'. remove_all e ms = Some e'"
proof (induction ms arbitrary: e)
  case (Cons m ms)
  obtain e1 where "removePeer e (snd (member_pair m)) = Some e1" "linked e1"
    using removePeer_list [OF Cons.prems] by metis
  with Cons.IH show ?case by auto
qed simp

lemma member_pair_member:
  "CHR ''|'' \<notin> set i \<Longrightarrow> member_pair (ephemeral_member i acc) = (acc, i)"
  "length (SplitN2 (ephemeral_member i acc) CHR ''|'') = 2"
  by (simp_all add: member_pair_def ephemeral_member_def SplitN2_join SplitN2_length Let_def)

lemma ZRem_all:
  assumes "zset_laws api zv" and "redis_up api"
  shows "zv (foldl (\<lambda>r m. fst (ZRem api r k m)) r ms) k m = (if m \<in> set ms then None else zv r k m)"
proof (induction ms arbitrary: r)
  case (Cons x ms)
  have "zv (fst (ZRem api r k x)) = (zv r)(k := (zv r k)(x := None))"
    using assms(1) redis_upD(9) [OF assms(2)] by (simp add: zset_laws_def)
  then show ?case using Cons.IH [of "fst (ZRem api r k x)"] by simp
qed simp

text \<open>A clean-up requests the deletion of the members whose time has come and removes them from the set.\<close>

lemma redisCleanup_requests:
  assumes "zset_laws api zv" and "redis_up api" and "linked e"
    and due: "\<And>i acc. (acc, i) \<in> K \<Longrightarrow>
      (\<exists>sc. zv r (ephemeralKey e) (ephemeral_member i acc) = Some sc \<and> 0 \<le> sc \<and> sc \<le> UnixMilli now) \<and> CHR ''|'' \<notin> set i"
    and "K \<noteq> {}"
  shows "\<exists>e' r'. redisCleanup api ((False, now) # as) (e, r) = Some (e', r') \<and> K \<subseteq> deleted_pairs (deleted e') \<and>
    (\<forall>(acc, i) \<in> K. zv r' (ephemeralKey e) (ephemeral_member i acc) = None)"
proof -
  obtain ms where ms: "ZRangeByScore api r (ephemeralKey e) 0 (UnixMilli now) = Inr ms"
    using redis_upD(10) [OF assms(2)] by blast
  have v: "ephemeral_member i acc \<in> set (valid_members ms)" if k: "(acc, i) \<in> K" for acc i
  proof -
    have "ephemeral_member i acc \<in> set ms" using due [OF k] ms assms(1) by (auto simp: zset_laws_def)
    then show ?thesis by (simp add: valid_members_def member_pair_member(2))
  qed
  then have ne: "valid_members ms \<noteq> []" using assms(5) by fastforce
  obtain e' where e': "remove_all e (valid_members ms) = Some e'" using remove_all_ok assms(3) by blast
  have req: "K \<subseteq> set (map member_pair (valid_members ms))"
  proof
    fix k assume k: "k \<in> K"
    obtain acc i where ki: "k = (acc, i)" by (cases k)
    then have "member_pair (ephemeral_member i acc) = k" using due [of acc i] member_pair_member(1) k by simp
    then show "k \<in> set (map member_pair (valid_members ms))" using v k ki by (metis image_eqI image_set)
  qed
  have run: "redisCleanup api ((False, now) # as) (e, r) =
      Some (e'\<lparr>deleted := deleted e' @ peerIDsPerAccount (map member_pair (valid_members ms))\<rparr>,
            foldl (\<lambda>r m. fst (ZRem api r (ephemeralKey e) m)) r (valid_members ms))"
    using ms ne e' by (simp add: redis_attempt_def Let_def)
  show ?thesis
    unfolding run using req v ZRem_all [OF assms(1,2)] by fastforce
qed

section \<open>What the requests delete\<close>

definition spared :: "time \<Rightarrow> PeerStatus \<Rightarrow> bool" where
  "spared now s \<longleftrightarrow> Connected_status s \<or> now - (9 * minute + 50 * second) < LastSeen s"

definition after_request :: "time \<Rightarrow> PeerStatus option \<Rightarrow> PeerStatus option" where
  "after_request now v = (case v of None \<Rightarrow> None | Some s \<Rightarrow> if spared now s then Some s else None)"

lemma after_request_twice [simp]: "after_request now (after_request now v) = after_request now v"
  by (simp add: after_request_def split: option.split)

lemma delete_peer_at:
  "delete_peer now tx_ok True acc st i k = (if k = (acc, i) \<and> tx_ok i then after_request now (st k) else st k)"
  by (auto simp: delete_peer_def after_request_def spared_def algebra_simps split: option.split)

lemma delete_peers_at:
  "foldl (delete_peer now tx_ok True acc) st is k =
     (if fst k = acc \<and> snd k \<in> set is \<and> tx_ok (snd k) then after_request now (st k) else st k)"
proof (induction "is" arbitrary: st)
  case (Cons i "is")
  show ?case
    using Cons.IH [of "delete_peer now tx_ok True acc st i"] delete_peer_at [of now tx_ok acc st i k] by (cases k) auto
qed simp

lemma run_requests_at:
  "run_requests now settings_ok tx_ok st gs k =
     (if k \<in> deleted_pairs gs \<and> settings_ok (fst k) \<and> tx_ok (snd k) then after_request now (st k) else st k)"
  unfolding run_requests_def
proof (induction gs arbitrary: st)
  case Nil
  then show ?case by (simp add: deleted_pairs_def)
next
  case (Cons g gs)
  obtain acc "is" where g: "g = (acc, is)" by (cases g)
  have "k \<in> deleted_pairs (g # gs) \<longleftrightarrow> fst k = acc \<and> snd k \<in> set is \<or> k \<in> deleted_pairs gs"
    by (cases k) (auto simp: g deleted_pairs_def)
  then show ?case
    using Cons.IH [of "DeletePeers now settings_ok tx_ok st acc is True"] delete_peers_at [of now tx_ok acc st "is" k]
    by (auto simp: g DeletePeers_def)
qed

section \<open>Properties\<close>

text \<open>
  C10. The linked list of the manager without Redis implements its specification. After any
  sequence of connections, disconnections and clean-ups, with fresh nodes and a clock that
  does not go back, no pointer was dereferenced at nil and no loop ran forever; the list and
  the requested deletions are those of the specification (a connection removes the peer, a
  disconnection appends it once with its deadline, a clean-up requests the deletion of exactly the peers whose
  deadline has passed and keeps the others); and a clean-up is scheduled if and only if a
  peer is waiting.
\<close>

theorem ephemeral_refines:
  assumes "legal_run em_legal (em_step api) (Some (NewEphemeralManager, r)) ops"
  shows "\<exists>e r'. foldl (em_step api) (Some (NewEphemeralManager, r)) ops = Some (e, r') \<and>
           \<lparr>waiting = peer_list e, gone = deleted_pairs (deleted e), life = lifeTime e\<rparr> =
             foldl spec_step \<lparr>waiting = [], gone = {}, life = 10 * minute\<rparr> ops \<and>
           (timer e = None \<longleftrightarrow> peer_list e = [])"
proof -
  have new: "repr NewEphemeralManager []" by (simp add: repr_def NewEphemeralManager_def)
  then have l: "peer_list NewEphemeralManager = []" using peer_list_repr by fastforce
  then have inv: "em_inv (Some (NewEphemeralManager, r))"
    using new by (auto simp: em_inv_def linked_def haEnabled_def NewEphemeralManager_def)
  have ab: "em_abs (Some (NewEphemeralManager, r)) = \<lparr>waiting = [], gone = {}, life = 10 * minute\<rparr>"
    using l by (simp add: em_abs_def deleted_pairs_def) (simp add: NewEphemeralManager_def)
  let ?s = "foldl (em_step api) (Some (NewEphemeralManager, r)) ops"
  have "em_inv ?s" by (rule em.run_inv [OF inv assms])
  moreover have "em_abs ?s = foldl spec_step (em_abs (Some (NewEphemeralManager, r))) ops"
    by (rule em.run_refines [OF inv assms])
  ultimately show ?thesis
    unfolding ab by (cases ?s) (auto simp: em_inv_def em_abs_def)
qed

theorem ephemeral_refines_witness:
  "\<exists>e r'. foldl (em_step mem_redis) (Some (NewEphemeralManager, empty_server))
            [Disconnected 0 5 5 \<lparr>ID = ''p'', AccountID = ''a'', Ephemeral_flag = True\<rparr>, Cleanup (hour) (hour)] =
          Some (e, r') \<and> deleted_pairs (deleted e) = {(''a'', ''p'')}"
proof -
  let ?ops = "[Disconnected 0 5 5 \<lparr>ID = ''p'', AccountID = ''a'', Ephemeral_flag = True\<rparr>, Cleanup (hour) (hour)]"
  have "peer_list NewEphemeralManager = []"
    by (simp add: peer_list_repr [of _ "[]"] repr_def NewEphemeralManager_def)
  then have "legal_run em_legal (em_step mem_redis) (Some (NewEphemeralManager, empty_server)) ?ops"
    by (cases "em_step mem_redis (Some (NewEphemeralManager, empty_server)) (?ops ! 0)")
      (auto simp: NewEphemeralManager_def)
  from ephemeral_refines [OF this] obtain e r' where
    "foldl (em_step mem_redis) (Some (NewEphemeralManager, empty_server)) ?ops = Some (e, r')"
    "\<lparr>waiting = peer_list e, gone = deleted_pairs (deleted e), life = lifeTime e\<rparr> =
       foldl spec_step \<lparr>waiting = [], gone = {}, life = 10 * minute\<rparr> ?ops" by blast
  moreover have "{(acc, i). acc = ''a'' \<and> i = ''p''} = {(''a'', ''p'')}" by auto
  ultimately show ?thesis by (auto simp: conj_commute)
qed

lemma LoadInitialPeers_redis:
  assumes "zset_laws api zv" and "redis_up api" and "key \<noteq> ''''"
    and "distinct (map fst stored)" and "distinct (map (\<lambda>x. ID (snd x)) stored)"
  shows "\<exists>e r'. LoadInitialPeers api now (Some stored) (WithRedis NewEphemeralManager key, r) = Some (e, r') \<and>
    linked e \<and> ephemeralKey e = key \<and>
    (\<forall>(a, p) \<in> set stored. zv r' key (ephemeral_member (ID p) (AccountID p)) = Some (UnixMilli (now + 10 * minute)))"
proof -
  let ?e = "WithRedis NewEphemeralManager key" and ?t = "now + 10 * minute"
  have new: "repr ?e []" by (simp add: repr_def WithRedis_def NewEphemeralManager_def)
  then have l: "peer_list ?e = []" using peer_list_repr by fastforce
  have ha: "haEnabled ?e" using assms(3) by (simp add: WithRedis_def haEnabled_def)
  obtain e where e: "load_peers ?t stored ?e = Some e" "linked e" "haEnabled e" "ephemeralKey e = key"
      "peer_list e = map (\<lambda>x. (ID (snd x), AccountID (snd x), ?t)) stored"
  proof -
    have "linked ?e" using new l by (auto simp: linked_def)
    moreover have "heap ?e b = None" "ephemeralKey ?e = key" for b
      by (simp_all add: WithRedis_def NewEphemeralManager_def)
    ultimately show ?thesis
      using load_peers_list [of ?e stored ?t] l ha assms(4,5) that by auto
  qed
  obtain as' where as': "repr e as'" "peer_list e = map (entry_at (heap e)) as'"
    using e(2) by (rule linkedE)
  let ?r = "zadd_all api e (peer_list e) r"
  have load: "LoadInitialPeers api now (Some stored) (?e, r) = Some (e\<lparr>polling := True\<rparr>, ?r)"
    using e(1,3) as' sync_loop_chain [of e "headPeer e" as' api r]
    by (simp add: LoadInitialPeers_def newDeadLine_def WithRedis_def NewEphemeralManager_def repr_def)
  have "zv ?r key (ephemeral_member (ID p) (AccountID p)) = Some (UnixMilli ?t)" if "(a, p) \<in> set stored" for a p
  proof -
    have "ephemeral_member (ID p) (AccountID p) \<in> (\<lambda>x. ephemeral_member (fst x) (fst (snd x))) ` set (peer_list e)"
      using that e(5) by force
    then show ?thesis unfolding e(4) [symmetric] by (intro zadd_all_score [OF assms(1,2)]) (use e(5) in auto)
  qed
  moreover have "linked (e\<lparr>polling := True\<rparr>)"
    using e(2) by (simp add: linked_def repr_def peer_list_def)
  ultimately show ?thesis using load e(4) by auto
qed

text \<open>
  C40. A restart with Redis deletes the idle ephemeral peers and no other. A management instance that starts
  with Redis loads every ephemeral peer of the database, connected to some instance or not, and adds it to the sorted set. The first
  poll after the life time requests the deletion of all of them and takes them off the set. These requests delete every one of the loaded peers that at that
  time is not connected and has not been seen for 9 minutes and 50 seconds (where the settings can be read and the transaction commits), and
  leave every other peer of the store that is connected or has been seen since.
\<close>

theorem restart_deletes_idle:
  assumes "zset_laws api zv" and "redis_up api" and "key \<noteq> ''''"
    and "stored \<noteq> []" and "distinct (map fst stored)" and "distinct (map (\<lambda>x. ID (snd x)) stored)"
    and "\<forall>(a, p) \<in> set stored. CHR ''|'' \<notin> set (ID p)"
    and "0 \<le> now" and "now + 10 * minute \<le> now'"
  shows "\<exists>e r' e' r''.
    LoadInitialPeers api now (Some stored) (WithRedis NewEphemeralManager key, r) = Some (e, r') \<and>
    redisCleanup api ((False, now') # as) (e, r') = Some (e', r'') \<and>
    (\<forall>(a, p) \<in> set stored. zv r'' key (ephemeral_member (ID p) (AccountID p)) = None \<and>
       (settings_ok (AccountID p) \<and> tx_ok (ID p) \<longrightarrow>
        run_requests now'' settings_ok tx_ok db (deleted e') (AccountID p, ID p) =
          (case db (AccountID p, ID p) of
             None \<Rightarrow> None
           | Some s \<Rightarrow> if Connected_status s \<or> now'' - (9 * minute + 50 * second) < LastSeen s then Some s else None))) \<and>
    (\<forall>k s. db k = Some s \<and> (Connected_status s \<or> now'' - (9 * minute + 50 * second) < LastSeen s) \<longrightarrow>
       run_requests now'' settings_ok tx_ok db (deleted e') k = Some s)"
proof -
  let ?K = "(\<lambda>(a, p). (AccountID p, ID p)) ` set stored"
  obtain e r' where e: "LoadInitialPeers api now (Some stored) (WithRedis NewEphemeralManager key, r) = Some (e, r')"
      "linked e" "ephemeralKey e = key"
      "\<forall>(a, p) \<in> set stored. zv r' key (ephemeral_member (ID p) (AccountID p)) = Some (UnixMilli (now + 10 * minute))"
    using LoadInitialPeers_redis [OF assms(1-3,5,6)] by blast
  have t: "0 \<le> UnixMilli (now + 10 * minute)" "UnixMilli (now + 10 * minute) \<le> UnixMilli now'"
    using assms(8,9) by (simp_all add: UnixMilli_def zdiv_mono1)
  have due: "(\<exists>sc. zv r' (ephemeralKey e) (ephemeral_member i acc) = Some sc \<and> 0 \<le> sc \<and> sc \<le> UnixMilli now') \<and> CHR ''|'' \<notin> set i"
    if "(acc, i) \<in> ?K" for i acc
    using that e(3,4) t assms(7) by auto
  have ne: "?K \<noteq> {}" using assms(4) by simp
  obtain e' r'' where c: "redisCleanup api ((False, now') # as) (e, r') = Some (e', r'')" "?K \<subseteq> deleted_pairs (deleted e')"
      "\<forall>(acc, i) \<in> ?K. zv r'' key (ephemeral_member i acc) = None"
    using redisCleanup_requests [OF assms(1,2) e(2) due ne, of as] unfolding e(3) by auto
  have "(AccountID p, ID p) \<in> deleted_pairs (deleted e')" "zv r'' key (ephemeral_member (ID p) (AccountID p)) = None"
    if "(a, p) \<in> set stored" for a p
    using c(2,3) that by force+
  then have "\<forall>(a, p) \<in> set stored. zv r'' key (ephemeral_member (ID p) (AccountID p)) = None \<and>
       (settings_ok (AccountID p) \<and> tx_ok (ID p) \<longrightarrow>
        run_requests now'' settings_ok tx_ok db (deleted e') (AccountID p, ID p) =
          (case db (AccountID p, ID p) of None \<Rightarrow> None | Some s \<Rightarrow> if spared now'' s then Some s else None))"
    by (auto simp: run_requests_at after_request_def split: option.split)
  moreover have "\<forall>k s. db k = Some s \<and> spared now'' s \<longrightarrow> run_requests now'' settings_ok tx_ok db (deleted e') k = Some s"
    by (simp add: run_requests_at after_request_def)
  ultimately show ?thesis using e(1) c(1) unfolding spared_def by blast
qed

theorem restart_deletes_idle_witness:
  "\<exists>e r' e' r''.
     LoadInitialPeers mem_redis 0 (Some [(0, \<lparr>ID = ''p'', AccountID = ''a'', Ephemeral_flag = True\<rparr>),
         (1, \<lparr>ID = ''q'', AccountID = ''a'', Ephemeral_flag = True\<rparr>)])
       (WithRedis NewEphemeralManager ''k'', empty_server) = Some (e, r') \<and>
     redisCleanup mem_redis [(False, hour)] (e, r') = Some (e', r'') \<and>
     run_requests hour (\<lambda>a. True) (\<lambda>i. True)
       [(''a'', ''p'') \<mapsto> \<lparr>LastSeen = 0, Connected_status = False\<rparr>, (''a'', ''q'') \<mapsto> \<lparr>LastSeen = 0, Connected_status = True\<rparr>]
       (deleted e') (''a'', ''p'') = None \<and>
     run_requests hour (\<lambda>a. True) (\<lambda>i. True)
       [(''a'', ''p'') \<mapsto> \<lparr>LastSeen = 0, Connected_status = False\<rparr>, (''a'', ''q'') \<mapsto> \<lparr>LastSeen = 0, Connected_status = True\<rparr>]
       (deleted e') (''a'', ''q'') = Some \<lparr>LastSeen = 0, Connected_status = True\<rparr>"
  using restart_deletes_idle [OF mem_zset_laws mem_redis_up, of "''k''"
      "[(0, \<lparr>ID = ''p'', AccountID = ''a'', Ephemeral_flag = True\<rparr>), (1, \<lparr>ID = ''q'', AccountID = ''a'', Ephemeral_flag = True\<rparr>)]"
      0 hour empty_server "[]" "\<lambda>a. True" "\<lambda>i. True" hour
      "[(''a'', ''p'') \<mapsto> \<lparr>LastSeen = 0, Connected_status = False\<rparr>, (''a'', ''q'') \<mapsto> \<lparr>LastSeen = 0, Connected_status = True\<rparr>]"]
  by auto

end
