(* ===== verification/RelayMessages.thy ===== *)
theory RelayMessages
  imports GoLib Sha256
begin

text \<open>
  \<open>shared/relay/messages\<close> and \<open>shared/relay/auth/hmac/v2\<close>: the wire format of the relay
  protocol and its authentication tokens. Messages are byte slices; \<open>make\<close> and \<open>copy\<close> of Go
  are \<open>make_slice\<close> and \<open>copy_at\<close>, so that the encoders fill a buffer as the code does. A
  \<open>PeerID\<close> is a byte slice of length 36 (\<open>peer_id\<close>).
\<close>

section \<open>Slices\<close>

definition make_slice :: "nat \<Rightarrow> bytes" where
  "make_slice n = replicate n 0"

text \<open>\<open>copy(buf[off:], src)\<close> for an offset within the buffer.\<close>

definition copy_at :: "bytes \<Rightarrow> nat \<Rightarrow> bytes \<Rightarrow> bytes" where
  "copy_at buf off src = take off buf @ take (length buf - off) src @ drop (off + length src) buf"

definition slice :: "bytes \<Rightarrow> nat \<Rightarrow> nat \<Rightarrow> bytes" where
  "slice buf a b = take (b - a) (drop a buf)"

section \<open>Identifiers\<close>

abbreviation (input) "prefixLength \<equiv> (4 :: nat)"
abbreviation (input) "peerIDSize \<equiv> (36 :: nat)"

definition peer_id :: "bytes \<Rightarrow> bool" where
  "peer_id i \<longleftrightarrow> length i = peerIDSize"

definition HashID :: "string \<Rightarrow> bytes" where
  "HashID peerID =
     (let h = make_slice peerIDSize;
          h = copy_at h 0 (bytes_of ''sha-'')
      in copy_at h prefixLength (sha256 (bytes_of peerID)))"

section \<open>Message types\<close>

abbreviation (input) "MaxHandshakeSize \<equiv> (212 :: nat)"
abbreviation (input) "MaxHandshakeRespSize \<equiv> (8192 :: nat)"
abbreviation (input) "MaxMessageSize \<equiv> (8820 :: nat)"
abbreviation (input) "sizeOfProtoHeader \<equiv> (2 :: nat)"
abbreviation (input) "sizeOfMagicByte \<equiv> (4 :: nat)"
abbreviation (input) "headerSizeHello \<equiv> (40 :: nat)"
abbreviation (input) "headerTotalSizeAuth \<equiv> (42 :: nat)"
abbreviation (input) "offsetAuthPeerID \<equiv> (6 :: nat)"
abbreviation (input) "headerTotalSizeTransport \<equiv> (38 :: nat)"

abbreviation (input) "CurrentProtocolVersion \<equiv> (1 :: byte)"
abbreviation (input) "MsgTypeUnknown \<equiv> (0 :: byte)"
abbreviation (input) "MsgTypeHello \<equiv> (1 :: byte)"
abbreviation (input) "MsgTypeHelloResponse \<equiv> (2 :: byte)"
abbreviation (input) "MsgTypeTransport \<equiv> (3 :: byte)"
abbreviation (input) "MsgTypeClose \<equiv> (4 :: byte)"
abbreviation (input) "MsgTypeHealthCheck \<equiv> (5 :: byte)"
abbreviation (input) "MsgTypeAuth \<equiv> (6 :: byte)"
abbreviation (input) "MsgTypeAuthResponse \<equiv> (7 :: byte)"
abbreviation (input) "MsgTypeSubscribePeerState \<equiv> (8 :: byte)"
abbreviation (input) "MsgTypeUnsubscribePeerState \<equiv> (9 :: byte)"
abbreviation (input) "MsgTypePeersOnline \<equiv> (10 :: byte)"
abbreviation (input) "MsgTypePeersWentOffline \<equiv> (11 :: byte)"

definition magicHeader :: bytes where
  "magicHeader = [0x21, 0x12, 0xA4, 0x42]"

datatype msg_error =
    ErrInvalidMessageLength | ErrUnsupportedVersion nat | InvalidMsgType byte | InvalidMagicHeader
  | TooLargeAuthPayload | InvalidResponseLength nat | NoPeerIDs | InvalidMessageFormat
  | InvalidPeerListSize nat

definition MsgType_String :: "byte \<Rightarrow> string" where
  "MsgType_String m =
     (if m = MsgTypeHello then ''hello''
      else if m = MsgTypeHelloResponse then ''hello response''
      else if m = MsgTypeAuth then ''auth''
      else if m = MsgTypeAuthResponse then ''auth response''
      else if m = MsgTypeTransport then ''transport''
      else if m = MsgTypeClose then ''close''
      else if m = MsgTypeHealthCheck then ''health check''
      else if m = MsgTypeSubscribePeerState then ''subscribe peer state''
      else if m = MsgTypeUnsubscribePeerState then ''unsubscribe peer state''
      else if m = MsgTypePeersOnline then ''peers online''
      else if m = MsgTypePeersWentOffline then ''peers went offline''
      else ''unknown'')"

definition ValidateVersion :: "bytes \<Rightarrow> msg_error + nat" where
  "ValidateVersion msg =
     (if length msg < sizeOfProtoHeader then Inl ErrInvalidMessageLength
      else
        let version = msg ! 0 in
        if version \<noteq> CurrentProtocolVersion then Inl (ErrUnsupportedVersion (unat version))
        else Inr (unat version))"

definition DetermineClientMessageType :: "bytes \<Rightarrow> msg_error + byte" where
  "DetermineClientMessageType msg =
     (if length msg < sizeOfProtoHeader then Inl ErrInvalidMessageLength
      else
        let msgType = msg ! 1 in
        if msgType \<in> {MsgTypeHello, MsgTypeAuth, MsgTypeTransport, MsgTypeClose, MsgTypeHealthCheck,
                      MsgTypeSubscribePeerState, MsgTypeUnsubscribePeerState}
        then Inr msgType else Inl (InvalidMsgType msgType))"

definition DetermineServerMessageType :: "bytes \<Rightarrow> msg_error + byte" where
  "DetermineServerMessageType msg =
     (if length msg < sizeOfProtoHeader then Inl ErrInvalidMessageLength
      else
        let msgType = msg ! 1 in
        if msgType \<in> {MsgTypeHelloResponse, MsgTypeAuthResponse, MsgTypeTransport, MsgTypeClose,
                      MsgTypeHealthCheck, MsgTypePeersOnline, MsgTypePeersWentOffline}
        then Inr msgType else Inl (InvalidMsgType msgType))"

section \<open>Hello\<close>

definition MarshalHelloMsg :: "bytes \<Rightarrow> bytes \<Rightarrow> bytes" where
  "MarshalHelloMsg peerID additions =
     (let msg = make_slice (sizeOfProtoHeader + sizeOfMagicByte);
          msg = msg[0 := CurrentProtocolVersion];
          msg = msg[1 := MsgTypeHello];
          msg = copy_at msg sizeOfProtoHeader magicHeader;
          msg = msg @ peerID
      in msg @ additions)"

definition UnmarshalHelloMsg :: "bytes \<Rightarrow> msg_error + (bytes \<times> bytes)" where
  "UnmarshalHelloMsg msg =
     (if length msg < sizeOfProtoHeader + headerSizeHello then Inl ErrInvalidMessageLength
      else if slice msg sizeOfProtoHeader (sizeOfProtoHeader + sizeOfMagicByte) \<noteq> magicHeader
      then Inl InvalidMagicHeader
      else Inr (slice msg (sizeOfProtoHeader + sizeOfMagicByte) (sizeOfProtoHeader + headerSizeHello),
                drop headerSizeHello msg))"

definition MarshalHelloResponse :: "bytes \<Rightarrow> bytes" where
  "MarshalHelloResponse additionalData =
     (let msg = make_slice sizeOfProtoHeader;
          msg = msg[0 := CurrentProtocolVersion];
          msg = msg[1 := MsgTypeHelloResponse]
      in msg @ additionalData)"

definition UnmarshalHelloResponse :: "bytes \<Rightarrow> msg_error + bytes" where
  "UnmarshalHelloResponse msg =
     (if length msg < sizeOfProtoHeader then Inl ErrInvalidMessageLength else Inr msg)"

section \<open>Auth\<close>

definition MarshalAuthMsg :: "bytes \<Rightarrow> bytes \<Rightarrow> msg_error + bytes" where
  "MarshalAuthMsg peerID authPayload =
     (if headerTotalSizeAuth + length authPayload > MaxHandshakeSize then Inl TooLargeAuthPayload
      else
        let msg = make_slice (headerTotalSizeAuth + length authPayload);
            msg = msg[0 := CurrentProtocolVersion];
            msg = msg[1 := MsgTypeAuth];
            msg = copy_at msg sizeOfProtoHeader magicHeader;
            msg = copy_at msg offsetAuthPeerID peerID;
            msg = copy_at msg headerTotalSizeAuth authPayload
        in Inr msg)"

definition UnmarshalAuthMsg :: "bytes \<Rightarrow> msg_error + (bytes \<times> bytes)" where
  "UnmarshalAuthMsg msg =
     (if length msg < headerTotalSizeAuth then Inl ErrInvalidMessageLength
      else if slice msg sizeOfProtoHeader (sizeOfProtoHeader + sizeOfMagicByte) \<noteq> magicHeader
      then Inl InvalidMagicHeader
      else Inr (slice msg offsetAuthPeerID headerTotalSizeAuth, drop headerTotalSizeAuth msg))"

definition MarshalAuthResponse :: "string \<Rightarrow> msg_error + bytes" where
  "MarshalAuthResponse address =
     (let msg = make_slice sizeOfProtoHeader;
          msg = msg[0 := CurrentProtocolVersion];
          msg = msg[1 := MsgTypeAuthResponse];
          msg = msg @ bytes_of address
      in if length msg > MaxHandshakeRespSize then Inl (InvalidResponseLength (length msg)) else Inr msg)"

definition UnmarshalAuthResponse :: "bytes \<Rightarrow> msg_error + string" where
  "UnmarshalAuthResponse msg =
     (if length msg < sizeOfProtoHeader + 1 then Inl ErrInvalidMessageLength
      else Inr (string_of (drop sizeOfProtoHeader msg)))"

definition MarshalCloseMsg :: bytes where
  "MarshalCloseMsg = [CurrentProtocolVersion, MsgTypeClose]"

definition MarshalHealthcheck :: bytes where
  "MarshalHealthcheck = [CurrentProtocolVersion, MsgTypeHealthCheck]"

section \<open>Transport\<close>

definition MarshalTransportMsg :: "bytes \<Rightarrow> bytes \<Rightarrow> bytes" where
  "MarshalTransportMsg peerID payload =
     (let msg = make_slice (headerTotalSizeTransport + length payload);
          msg = msg[0 := CurrentProtocolVersion];
          msg = msg[1 := MsgTypeTransport];
          msg = copy_at msg sizeOfProtoHeader peerID
      in copy_at msg (sizeOfProtoHeader + peerIDSize) payload)"

definition UnmarshalTransportMsg :: "bytes \<Rightarrow> msg_error + (bytes \<times> bytes)" where
  "UnmarshalTransportMsg buf =
     (if length buf < headerTotalSizeTransport then Inl ErrInvalidMessageLength
      else Inr (copy_at (make_slice peerIDSize) 0 (slice buf 2 (2 + peerIDSize)),
                drop headerTotalSizeTransport buf))"

definition UnmarshalTransportID :: "bytes \<Rightarrow> msg_error + bytes" where
  "UnmarshalTransportID buf =
     (if length buf < headerTotalSizeTransport then Inl ErrInvalidMessageLength
      else Inr (copy_at (make_slice peerIDSize) 0 (slice buf 2 (2 + peerIDSize))))"

definition UpdateTransportMsg :: "bytes \<Rightarrow> bytes \<Rightarrow> msg_error + bytes" where
  "UpdateTransportMsg msg peerID =
     (if length msg < 2 + peerIDSize then Inl ErrInvalidMessageLength
      else Inr (copy_at msg 2 peerID))"

section \<open>Lists of peers\<close>

definition maxPeersPerMessage :: nat where
  "maxPeersPerMessage = (MaxMessageSize - sizeOfProtoHeader) div peerIDSize"

lemma maxPeersPerMessage_eq: "maxPeersPerMessage = 244"
  by (simp add: maxPeersPerMessage_def)

text \<open>The inner loop: copy every ID of a chunk behind the previous one.\<close>

fun copy_ids :: "bytes \<Rightarrow> nat \<Rightarrow> bytes list \<Rightarrow> bytes" where
  "copy_ids buf offset [] = buf"
| "copy_ids buf offset (i # is) = copy_ids (copy_at buf offset i) (offset + peerIDSize) is"

definition marshal_chunk :: "byte \<Rightarrow> bytes list \<Rightarrow> bytes" where
  "marshal_chunk msgType chunk =
     (let buf = make_slice (sizeOfProtoHeader + length chunk * peerIDSize);
          buf = buf[0 := CurrentProtocolVersion];
          buf = buf[1 := msgType]
      in copy_ids buf sizeOfProtoHeader chunk)"

function marshal_loop :: "byte \<Rightarrow> bytes list \<Rightarrow> nat \<Rightarrow> bytes list" where
  "marshal_loop msgType ids i =
     (if i < length ids then
        let e = i + maxPeersPerMessage;
            e = (if e > length ids then length ids else e)
        in marshal_chunk msgType (take (e - i) (drop i ids)) #
           marshal_loop msgType ids (i + maxPeersPerMessage)
      else [])"
  by auto
termination
  by (relation "measure (\<lambda>(t, ids, i). length ids - i)") (auto simp: maxPeersPerMessage_def)

declare marshal_loop.simps [simp del]

definition marshalPeerIDs :: "bytes list \<Rightarrow> byte \<Rightarrow> msg_error + bytes list" where
  "marshalPeerIDs ids msgType = (if ids = [] then Inl NoPeerIDs else Inr (marshal_loop msgType ids 0))"

primrec read_ids :: "bytes \<Rightarrow> nat \<Rightarrow> nat \<Rightarrow> bytes list" where
  "read_ids buf offset 0 = []"
| "read_ids buf offset (Suc n) =
     copy_at (make_slice peerIDSize) 0 (slice buf offset (offset + peerIDSize)) #
     read_ids buf (offset + peerIDSize) n"

definition unmarshalPeerIDs :: "bytes \<Rightarrow> msg_error + bytes list" where
  "unmarshalPeerIDs buf =
     (if length buf < sizeOfProtoHeader then Inl InvalidMessageFormat
      else if (length buf - sizeOfProtoHeader) mod peerIDSize \<noteq> 0
      then Inl (InvalidPeerListSize (length buf - sizeOfProtoHeader))
      else Inr (read_ids buf sizeOfProtoHeader ((length buf - sizeOfProtoHeader) div peerIDSize)))"

definition MarshalSubPeerStateMsg :: "bytes list \<Rightarrow> msg_error + bytes list" where
  "MarshalSubPeerStateMsg ids = marshalPeerIDs ids MsgTypeSubscribePeerState"

definition MarshalUnsubPeerStateMsg :: "bytes list \<Rightarrow> msg_error + bytes list" where
  "MarshalUnsubPeerStateMsg ids = marshalPeerIDs ids MsgTypeUnsubscribePeerState"

definition MarshalPeersOnline :: "bytes list \<Rightarrow> msg_error + bytes list" where
  "MarshalPeersOnline ids = marshalPeerIDs ids MsgTypePeersOnline"

definition MarshalPeersWentOffline :: "bytes list \<Rightarrow> msg_error + bytes list" where
  "MarshalPeersWentOffline ids = marshalPeerIDs ids MsgTypePeersWentOffline"

section \<open>Tokens\<close>

record Token =
  AuthAlgo :: byte
  tok_Signature :: bytes
  tok_Payload :: bytes

abbreviation (input) "AuthAlgoHMACSHA256 \<equiv> (1 :: byte)"

datatype token_error =
    InvalidTokenData | InsufficientTokenLength | InsufficientPayload | UnsupportedAlgo byte
  | InvalidSignature | InvalidPayload | ExpiredToken

text \<open>\<open>AuthAlgo.New\<close>: the keyed code of the algorithm, or nil.\<close>

definition AuthAlgo_New :: "byte \<Rightarrow> (bytes \<Rightarrow> bytes \<Rightarrow> bytes) option" where
  "AuthAlgo_New a = (if a = AuthAlgoHMACSHA256 then Some hmac_sha256 else None)"

definition AuthAlgo_Size :: "byte \<Rightarrow> nat" where
  "AuthAlgo_Size a = (if a = AuthAlgoHMACSHA256 then 32 else 0)"

definition Token_Marshal :: "Token \<Rightarrow> bytes" where
  "Token_Marshal t =
     (let buf = make_slice (1 + length (tok_Signature t) + length (tok_Payload t));
          buf = buf[0 := AuthAlgo t];
          buf = copy_at buf 1 (tok_Signature t)
      in copy_at buf (1 + length (tok_Signature t)) (tok_Payload t))"

definition UnmarshalToken :: "bytes \<Rightarrow> token_error + Token" where
  "UnmarshalToken data =
     (if data = [] then Inl InvalidTokenData
      else
        let algo = data ! 0; sigSize = AuthAlgo_Size algo in
        if length data < 1 + sigSize then Inl InsufficientTokenLength
        else Inr \<lparr>AuthAlgo = algo, tok_Signature = slice data 1 (1 + sigSize),
                  tok_Payload = drop (1 + sigSize) data\<rparr>)"

definition Unix :: "time \<Rightarrow> int" where
  "Unix t = t div second"

record Generator =
  gen_algo :: byte
  gen_secret :: bytes
  gen_timeToLive :: duration

definition NewGenerator :: "byte \<Rightarrow> bytes \<Rightarrow> duration \<Rightarrow> token_error + Generator" where
  "NewGenerator algo secret ttl =
     (case AuthAlgo_New algo of
        None \<Rightarrow> Inl (UnsupportedAlgo algo)
      | Some f \<Rightarrow> Inr \<lparr>gen_algo = algo, gen_secret = secret, gen_timeToLive = ttl\<rparr>)"

definition GenerateToken :: "time \<Rightarrow> Generator \<Rightarrow> Token" where
  "GenerateToken now g =
     (let expirationTime = Unix (now + gen_timeToLive g);
          payload = bytes_of (FormatInt expirationTime);
          mac = the (AuthAlgo_New (gen_algo g))
      in \<lparr>AuthAlgo = gen_algo g, tok_Signature = mac (gen_secret g) payload, tok_Payload = payload\<rparr>)"

definition Validate :: "time \<Rightarrow> bytes \<Rightarrow> bytes \<Rightarrow> token_error option" where
  "Validate now secret d =
     (case UnmarshalToken d of
        Inl e \<Rightarrow> Some e
      | Inr token \<Rightarrow>
          if length (tok_Payload token) < 10 then Some InsufficientPayload
          else
            (case AuthAlgo_New (AuthAlgo token) of
               None \<Rightarrow> Some (UnsupportedAlgo (AuthAlgo token))
             | Some mac \<Rightarrow>
                 if tok_Signature token \<noteq> mac secret (tok_Payload token) then Some InvalidSignature
                 else
                   (case ParseInt (string_of (tok_Payload token)) of
                      None \<Rightarrow> Some InvalidPayload
                    | Some timestamp \<Rightarrow> if Unix now > timestamp then Some ExpiredToken else None)))"

section \<open>Buffers\<close>

lemma length_make_slice [simp]: "length (make_slice n) = n"
  by (simp add: make_slice_def)

lemma length_copy_at [simp]: "off \<le> length buf \<Longrightarrow> length (copy_at buf off src) = length buf"
  by (simp add: copy_at_def)

text \<open>A copy that starts where the filled part \<open>xs\<close> of a buffer ends.\<close>

lemma copy_at_fill:
  assumes "off = length xs" and "length src \<le> length ys"
  shows "copy_at (xs @ ys) off src = xs @ src @ drop (length src) ys"
  using assms by (simp add: copy_at_def)

lemma copy_make [simp]: "length src = n \<Longrightarrow> copy_at (make_slice n) 0 src = src"
  by (simp add: copy_at_def)

lemma make_header [simp]:
  "2 \<le> n \<Longrightarrow> (make_slice n)[0 := a, Suc 0 := b] = a # b # make_slice (n - 2)"
  by (auto simp: make_slice_def dest!: le_Suc_ex)

lemma drop_make_slice [simp]: "drop k (make_slice n) = make_slice (n - k)"
  by (simp add: make_slice_def)

lemma make_slice_0 [simp]: "make_slice 0 = []"
  by (simp add: make_slice_def)

lemma slice_fill: "a = length xs \<Longrightarrow> b = a + length ys \<Longrightarrow> slice (xs @ ys @ zs) a b = ys"
  by (simp add: slice_def)

lemma length_slice [simp]: "b \<le> length buf \<Longrightarrow> length (slice buf a b) = b - a"
  by (simp add: slice_def)

lemma length_magicHeader [simp]: "length magicHeader = 4"
  by (simp add: magicHeader_def)

section \<open>The encoders produce the concatenation of their fields\<close>

lemma HashID_eq: "HashID k = bytes_of ''sha-'' @ sha256 (bytes_of k)"
  using copy_at_fill [of 0 "[]" "bytes_of ''sha-''" "make_slice 36"]
    copy_at_fill [of 4 "bytes_of ''sha-''" "sha256 (bytes_of k)" "make_slice 32"]
  by (simp add: HashID_def)

lemma peer_id_HashID: "peer_id (HashID k)"
  by (simp add: peer_id_def HashID_eq)

lemma MarshalAuthMsg_eq:
  assumes "peer_id i"
  shows "MarshalAuthMsg i p =
    (if length p > 170 then Inl TooLargeAuthPayload
     else Inr ([CurrentProtocolVersion, MsgTypeAuth] @ magicHeader @ i @ p))"
  using assms copy_at_fill [of 2 "[1, 6]" magicHeader "make_slice (40 + length p)"]
    copy_at_fill [of 6 "[1, 6] @ magicHeader" i "make_slice (36 + length p)"]
    copy_at_fill [of 42 "[1, 6] @ magicHeader @ i" p "make_slice (length p)"]
  by (auto simp: MarshalAuthMsg_def Let_def peer_id_def)

lemma MarshalHelloMsg_eq:
  "MarshalHelloMsg i a = [CurrentProtocolVersion, MsgTypeHello] @ magicHeader @ i @ a"
  using copy_at_fill [of 2 "[1, 1]" magicHeader "make_slice 4"]
  by (simp add: MarshalHelloMsg_def Let_def)

lemma MarshalTransportMsg_eq:
  assumes "peer_id i"
  shows "MarshalTransportMsg i p = [CurrentProtocolVersion, MsgTypeTransport] @ i @ p"
  using assms copy_at_fill [of 2 "[1, 3]" i "make_slice (36 + length p)"]
    copy_at_fill [of 38 "[1, 3] @ i" p "make_slice (length p)"]
  by (simp add: MarshalTransportMsg_def Let_def peer_id_def)

lemma Token_Marshal_eq: "Token_Marshal t = AuthAlgo t # tok_Signature t @ tok_Payload t"
  using copy_at_fill [of 1 "[AuthAlgo t]" "tok_Signature t" "make_slice (length (tok_Signature t) + length (tok_Payload t))"]
    copy_at_fill [of "Suc (length (tok_Signature t))" "AuthAlgo t # tok_Signature t" "tok_Payload t" "make_slice (length (tok_Payload t))"]
  by (simp add: Token_Marshal_def Let_def make_slice_def)

lemma copy_ids_eq:
  assumes "\<And>i. i \<in> set ids \<Longrightarrow> peer_id i" and "n = 36 * length ids"
  shows "copy_ids (xs @ make_slice n) (length xs) ids = xs @ concat ids"
  using assms
proof (induction ids arbitrary: xs n)
  case (Cons i ids)
  then have i: "length i = 36" and n: "n = 36 + 36 * length ids" by (simp_all add: peer_id_def)
  have "copy_at (xs @ make_slice n) (length xs) i = (xs @ i) @ make_slice (36 * length ids)"
    using copy_at_fill [of "length xs" xs i "make_slice n"] i n by simp
  with Cons.IH [of "36 * length ids" "xs @ i"] Cons.prems(1) i show ?case by simp
qed simp

lemma marshal_chunk_eq:
  assumes "\<And>i. i \<in> set ids \<Longrightarrow> peer_id i"
  shows "marshal_chunk t ids = [CurrentProtocolVersion, t] @ concat ids"
  using copy_ids_eq [OF assms, of ids "36 * length ids" "[1, t]"]
  by (simp add: marshal_chunk_def Let_def mult.commute numeral_2_eq_2)

section \<open>Round trips\<close>

definition auth_enc :: "bytes \<times> bytes \<Rightarrow> bytes" where
  "auth_enc x = projr (MarshalAuthMsg (fst x) (snd x))"

interpretation auth: codec auth_enc UnmarshalAuthMsg "\<lambda>x. peer_id (fst x) \<and> length (snd x) \<le> 170"
proof
  fix x :: "bytes \<times> bytes" assume "peer_id (fst x) \<and> length (snd x) \<le> 170"
  then show "UnmarshalAuthMsg (auth_enc x) = Inr x"
    by (cases x) (simp add: auth_enc_def MarshalAuthMsg_eq UnmarshalAuthMsg_def peer_id_def slice_def)
qed

interpretation transport: codec "\<lambda>x. MarshalTransportMsg (fst x) (snd x)" UnmarshalTransportMsg "\<lambda>x. peer_id (fst x)"
proof
  fix x :: "bytes \<times> bytes" assume "peer_id (fst x)"
  then show "UnmarshalTransportMsg (MarshalTransportMsg (fst x) (snd x)) = Inr x"
    by (cases x) (simp add: MarshalTransportMsg_eq UnmarshalTransportMsg_def peer_id_def slice_def)
qed

interpretation token: codec Token_Marshal UnmarshalToken "\<lambda>t. length (tok_Signature t) = AuthAlgo_Size (AuthAlgo t)"
proof
  fix t :: Token assume "length (tok_Signature t) = AuthAlgo_Size (AuthAlgo t)"
  then show "UnmarshalToken (Token_Marshal t) = Inr t"
    by (cases t) (simp add: Token_Marshal_eq UnmarshalToken_def slice_def Let_def)
qed

lemma read_ids_concat:
  assumes "\<And>i. i \<in> set ids \<Longrightarrow> peer_id i"
  shows "read_ids (xs @ concat ids) (length xs) (length ids) = ids"
  using assms
proof (induction ids arbitrary: xs)
  case (Cons i ids)
  then have "length i = 36" by (simp add: peer_id_def)
  with Cons.IH [of "xs @ i"] Cons.prems show ?case by (simp add: slice_def)
qed simp

lemma length_concat_ids: "(\<And>i. i \<in> set ids \<Longrightarrow> peer_id i) \<Longrightarrow> length (concat ids) = 36 * length ids"
  by (induction ids) (auto simp: peer_id_def)

interpretation peer_ids: codec "marshal_chunk t" unmarshalPeerIDs "\<lambda>ids. \<forall>i \<in> set ids. peer_id i" for t
proof
  fix ids :: "bytes list" assume "\<forall>i \<in> set ids. peer_id i"
  then show "unmarshalPeerIDs (marshal_chunk t ids) = Inr ids"
    using read_ids_concat [of ids "[1, t]"] length_concat_ids [of ids]
    by (simp add: marshal_chunk_eq unmarshalPeerIDs_def numeral_2_eq_2)
qed

lemma marshal_loop_chunks: "marshal_loop t ids i = map (marshal_chunk t) (chunks maxPeersPerMessage (drop i ids))"
proof (induction t ids i rule: marshal_loop.induct)
  case (1 t ids i)
  show ?case
  proof (cases "i < length ids")
    case True
    let ?n = maxPeersPerMessage
    have pos: "?n \<noteq> 0" by (simp add: maxPeersPerMessage_eq)
    have tk: "take ((if i + ?n > length ids then length ids else i + ?n) - i) (drop i ids) = take ?n (drop i ids)"
      by simp
    have rec: "marshal_loop t ids (i + ?n) = map (marshal_chunk t) (chunks ?n (drop ?n (drop i ids)))"
      using 1 [OF True refl refl] by (simp add: add.commute)
    have "marshal_loop t ids i = marshal_chunk t (take ?n (drop i ids)) # marshal_loop t ids (i + ?n)"
      using True tk by (subst marshal_loop.simps) (simp add: Let_def)
    with rec show ?thesis
      using True pos chunks.simps [of ?n "drop i ids"] by simp
  next
    case False
    then show ?thesis by (subst marshal_loop.simps) (simp add: chunks.simps)
  qed
qed

section \<open>Properties\<close>

lemma auth_response_roundtrip:
  assumes "MarshalAuthResponse u = Inr m" and "u \<noteq> []"
  shows "length m \<le> MaxHandshakeRespSize \<and> UnmarshalAuthResponse m = Inr u"
proof -
  have "m = [CurrentProtocolVersion, MsgTypeAuthResponse] @ bytes_of u" "length m \<le> 8192"
    using assms(1) by (auto simp: MarshalAuthResponse_def make_slice_def numeral_2_eq_2 Let_def split: if_splits)
  then show ?thesis using assms(2) by (cases u) (simp_all add: UnmarshalAuthResponse_def)
qed

text \<open>
  C23. The messages a relay client and server exchange survive their encoding: an
  authentication message, its response with the address of the server, a transport message and an
  authentication token are decoded to exactly the fields they were made of, and an encoded
  authentication message or response never exceeds its limit. The server reads the receiver off a transport message, and
  replacing it by the sender changes nothing else: the result is the message that the payload would make with that ID.
\<close>

theorem relay_messages_roundtrip:
  assumes "peer_id i" and "peer_id j"
  shows "(\<forall>m. MarshalAuthMsg i p = Inr m \<longrightarrow> length m \<le> MaxHandshakeSize \<and> UnmarshalAuthMsg m = Inr (i, p)) \<and>
         (\<forall>m. MarshalAuthResponse u = Inr m \<and> u \<noteq> [] \<longrightarrow> length m \<le> MaxHandshakeRespSize \<and> UnmarshalAuthResponse m = Inr u) \<and>
         UnmarshalTransportMsg (MarshalTransportMsg i p) = Inr (i, p) \<and>
         UnmarshalTransportID (MarshalTransportMsg i p) = Inr i \<and>
         UpdateTransportMsg (MarshalTransportMsg i p) j = Inr (MarshalTransportMsg j p) \<and>
         (length s = AuthAlgo_Size a \<longrightarrow>
            UnmarshalToken (Token_Marshal \<lparr>AuthAlgo = a, tok_Signature = s, tok_Payload = p\<rparr>) =
            Inr \<lparr>AuthAlgo = a, tok_Signature = s, tok_Payload = p\<rparr>)"
proof -
  have "length m \<le> MaxHandshakeSize \<and> UnmarshalAuthMsg m = Inr (i, p)" if "MarshalAuthMsg i p = Inr m" for m
    using that auth.dec_enc [of "(i, p)"] assms(1)
    by (simp add: MarshalAuthMsg_eq auth_enc_def peer_id_def split: if_splits)
      (auto simp: peer_id_def)
  moreover have "UnmarshalTransportID (MarshalTransportMsg i p) = Inr i"
    using assms(1) by (simp add: MarshalTransportMsg_eq UnmarshalTransportID_def peer_id_def slice_def)
  moreover have "UpdateTransportMsg (MarshalTransportMsg i p) j = Inr (MarshalTransportMsg j p)"
    using assms copy_at_fill [of 2 "[1, 3]" j "i @ p"] by (simp add: UpdateTransportMsg_def MarshalTransportMsg_eq peer_id_def)
  ultimately show ?thesis
    using transport.dec_enc [of "(i, p)"] token.dec_enc [of "\<lparr>AuthAlgo = a, tok_Signature = s, tok_Payload = p\<rparr>"] assms(1)
      auth_response_roundtrip [of u]
    by simp
qed

theorem relay_messages_roundtrip_witness:
  "UnmarshalTransportMsg (MarshalTransportMsg (HashID ''k'') [1, 2]) = Inr (HashID ''k'', [1, 2]) \<and>
   UpdateTransportMsg (MarshalTransportMsg (HashID ''k'') [1, 2]) (HashID ''l'') = Inr (MarshalTransportMsg (HashID ''l'') [1, 2])"
  using relay_messages_roundtrip [OF peer_id_HashID [of "''k''"] peer_id_HashID [of "''l''"], of "[1, 2]"] by simp

text \<open>
  C27. A list of peer IDs of any length is sent in messages of the given type, none larger
  than the maximal message size, and decoding them in order gives back the list.
\<close>

theorem peer_ids_roundtrip:
  assumes "\<forall>i \<in> set ids. peer_id i" and "marshalPeerIDs ids t = Inr msgs"
  shows "(\<forall>m \<in> set msgs. length m \<le> MaxMessageSize \<and> take 2 m = [CurrentProtocolVersion, t]) \<and>
         (\<exists>parts. map unmarshalPeerIDs msgs = map Inr parts \<and> concat parts = ids)"
proof -
  let ?cs = "chunks 244 ids"
  have msgs: "msgs = map (marshal_chunk t) ?cs"
    using assms(2) marshal_loop_chunks [of t ids 0]
    by (simp add: marshalPeerIDs_def maxPeersPerMessage_eq split: if_splits)
  have sub: "\<forall>i \<in> set c. peer_id i" if "c \<in> set ?cs" for c
  proof -
    have "concat ?cs = ids" by (rule concat_chunks) simp
    moreover have "set c \<subseteq> set (concat ?cs)" using that by auto
    ultimately show ?thesis using assms(1) by auto
  qed
  have "length m \<le> MaxMessageSize \<and> take 2 m = [CurrentProtocolVersion, t]" if "m \<in> set msgs" for m
  proof -
    from that obtain c where c: "c \<in> set ?cs" "m = marshal_chunk t c" using msgs by auto
    have "length c \<le> 244" using length_chunk [OF _ c(1)] by simp
    with sub [OF c(1)] c(2) show ?thesis
      by (simp add: marshal_chunk_eq length_concat_ids numeral_2_eq_2)
  qed
  moreover have "map unmarshalPeerIDs msgs = map Inr ?cs"
    using peer_ids.dec_all [of ?cs t] sub msgs by (simp add: comp_def)
  ultimately show ?thesis using concat_chunks [of 244 ids] by auto
qed

theorem peer_ids_roundtrip_witness:
  "\<exists>m. marshalPeerIDs [HashID ''k''] MsgTypePeersOnline = Inr [m] \<and> length m \<le> MaxMessageSize"
proof -
  have "marshalPeerIDs [HashID ''k''] MsgTypePeersOnline = Inr (map (marshal_chunk MsgTypePeersOnline) (chunks 244 [HashID ''k'']))"
    using marshal_loop_chunks [of MsgTypePeersOnline "[HashID ''k'']" 0]
    by (simp add: marshalPeerIDs_def maxPeersPerMessage_eq)
  moreover have "chunks 244 [HashID ''k''] = [[HashID ''k'']]" by (simp add: chunks.simps)
  ultimately have m: "marshalPeerIDs [HashID ''k''] MsgTypePeersOnline = Inr [marshal_chunk MsgTypePeersOnline [HashID ''k'']]"
    by simp
  from peer_ids_roundtrip [OF _ m] m show ?thesis by (simp add: peer_id_HashID)
qed

text \<open>
  The deprecated hello message is decoded with the wrong offset: the additional data
  comes back preceded by the last two bytes of the peer ID, whatever the data is.
\<close>

lemma hello_additions_shifted:
  assumes "peer_id i"
  shows "UnmarshalHelloMsg (MarshalHelloMsg i a) = Inr (i, drop 34 i @ a)"
  using assms by (simp add: MarshalHelloMsg_eq UnmarshalHelloMsg_def peer_id_def slice_def)

text \<open>
  A generated token is valid exactly until it expires: for an expiry time of ten digits,
  validation under the generator's secret accepts the encoded token at every second up to the
  expiry and rejects it as expired afterwards.
\<close>

lemma Validate_generated:
  assumes "NewGenerator AuthAlgoHMACSHA256 secret ttl = Inr g"
    and "10 ^ 9 \<le> Unix (now + ttl)" and "Unix (now + ttl) < 2 ^ 63"
  shows "Validate now' secret (Token_Marshal (GenerateToken now g)) =
         (if Unix now' \<le> Unix (now + ttl) then None else Some ExpiredToken)"
proof -
  let ?e = "Unix (now + ttl)"
  have g: "g = \<lparr>gen_algo = 1, gen_secret = secret, gen_timeToLive = ttl\<rparr>"
    using assms(1) by (simp add: NewGenerator_def AuthAlgo_New_def)
  let ?p = "bytes_of (FormatInt ?e)"
  have t: "GenerateToken now g = \<lparr>AuthAlgo = 1, tok_Signature = hmac_sha256 secret ?p, tok_Payload = ?p\<rparr>"
    by (simp add: GenerateToken_def g AuthAlgo_New_def Let_def)
  have "10 ^ 9 \<le> nat ?e" using assms(2) by (simp add: nat_le_iff)
  then have "9 < length (FormatInt ?e)"
    using length_itoa [of 9 "nat ?e"] assms(2) by (simp add: FormatInt_def)
  moreover have "ParseInt (FormatInt ?e) = Some ?e"
    using ParseInt_FormatInt [of ?e] assms(2,3) by simp
  ultimately show ?thesis
    using token.dec_enc [of "GenerateToken now g"] t
    by (simp add: Validate_def AuthAlgo_New_def AuthAlgo_Size_def)
qed

end
