(* ===== verification/RelayServer.thy ===== *)
theory RelayServer
  imports RelayMessages
begin

text \<open>
  \<open>relay/server\<close>: the relay server. The store of connected peers, the listeners that tell a
  peer which of the peers it asked about come and go, the handshake, and the handling of the
  messages of a connected peer. A \<open>*Peer\<close> is the record \<open>rpeer\<close> with its address.

  What the server writes to connections is the log \<open>outbox\<close> (address of the peer, message);
  \<open>wr\<close> says which writes succeed. The bounded channel of a listener holds at most 244 events;
  an operation that would block on a full channel is \<^const>\<open>None\<close>. Parameters: the validator of
  the deprecated hello message, whose payload is in the gob format of Go.
\<close>

section \<open>store/store.go\<close>

record rpeer =
  p_addr :: nat
  p_id :: bytes

record Store =
  st_peers :: "bytes \<Rightarrow> rpeer option"

definition NewStore :: Store where
  "NewStore = \<lparr>st_peers = (\<lambda>i. None)\<rparr>"

text \<open>The second component is the peer that was closed, if one was replaced.\<close>

definition AddPeer :: "Store \<Rightarrow> rpeer \<Rightarrow> Store \<times> rpeer option" where
  "AddPeer s peer =
     (s\<lparr>st_peers := (st_peers s)(p_id peer := Some peer)\<rparr>, st_peers s (p_id peer))"

definition DeletePeer :: "Store \<Rightarrow> rpeer \<Rightarrow> Store \<times> bool" where
  "DeletePeer s peer =
     (case st_peers s (p_id peer) of
        None \<Rightarrow> (s, False)
      | Some dp \<Rightarrow>
          if p_addr dp \<noteq> p_addr peer then (s, False)
          else (s\<lparr>st_peers := (st_peers s)(p_id peer := None)\<rparr>, True))"

section \<open>store/listener.go\<close>

record event =
  ev_peerID :: bytes
  ev_online :: bool

record Listener =
  eventChan :: "event list"
  interestedPeersForOffline :: "bytes set"
  interestedPeersForOnline :: "bytes set"
  l_done :: bool

definition newListener :: Listener where
  "newListener = \<lparr>eventChan = [], interestedPeersForOffline = {}, interestedPeersForOnline = {}, l_done = False\<rparr>"

definition AddInterestedPeers :: "Listener \<Rightarrow> bytes list \<Rightarrow> Listener" where
  "AddInterestedPeers l ids =
     l\<lparr>interestedPeersForOnline := interestedPeersForOnline l \<union> set ids,
       interestedPeersForOffline := interestedPeersForOffline l \<union> set ids\<rparr>"

definition RemoveInterestedPeer :: "Listener \<Rightarrow> bytes list \<Rightarrow> Listener" where
  "RemoveInterestedPeer l ids =
     l\<lparr>interestedPeersForOffline := interestedPeersForOffline l - set ids,
       interestedPeersForOnline := interestedPeersForOnline l - set ids\<rparr>"

definition send_event :: "Listener \<Rightarrow> event \<Rightarrow> Listener option" where
  "send_event l e =
     (if length (eventChan l) < 244 then Some (l\<lparr>eventChan := eventChan l @ [e]\<rparr>)
      else if l_done l then Some l
      else None)"

definition peerWentOffline :: "Listener \<Rightarrow> bytes \<Rightarrow> Listener option" where
  "peerWentOffline l i =
     (if i \<in> interestedPeersForOffline l then send_event l \<lparr>ev_peerID = i, ev_online = False\<rparr> else Some l)"

definition peerComeOnline :: "Listener \<Rightarrow> bytes \<Rightarrow> Listener option" where
  "peerComeOnline l i =
     (if i \<in> interestedPeersForOnline l
      then (case send_event l \<lparr>ev_peerID = i, ev_online = True\<rparr> of
              None \<Rightarrow> None
            | Some l' \<Rightarrow> Some (l'\<lparr>interestedPeersForOnline := interestedPeersForOnline l' - {i}\<rparr>))
      else Some l)"

text \<open>One turn of \<open>listenForEvents\<close> drains the channel and calls the two handlers.\<close>

datatype notice = PeersOnline "bytes list" | PeersWentOffline "bytes list"

definition drain_notes :: "event list \<Rightarrow> notice list" where
  "drain_notes es =
     (let peersOnline = map ev_peerID (filter ev_online es);
          peersOffline = map ev_peerID (filter (\<lambda>e. \<not> ev_online e) es)
      in (if peersOnline \<noteq> [] then [PeersOnline peersOnline] else []) @
         (if peersOffline \<noteq> [] then [PeersWentOffline peersOffline] else []))"

definition listenForEvents :: "Listener \<Rightarrow> Listener \<times> notice list" where
  "listenForEvents l = (l\<lparr>eventChan := []\<rparr>, drain_notes (eventChan l))"

section \<open>store/notifier.go\<close>

text \<open>The listeners, each with the address of the peer that owns it.\<close>

type_synonym notifier = "(nat \<times> Listener) list"

fun notify_all :: "(Listener \<Rightarrow> Listener option) \<Rightarrow> notifier \<Rightarrow> notifier option" where
  "notify_all f [] = Some []"
| "notify_all f ((a, l) # ls) =
     (case f l of
        None \<Rightarrow> None
      | Some l' \<Rightarrow> (case notify_all f ls of None \<Rightarrow> None | Some ls' \<Rightarrow> Some ((a, l') # ls')))"

definition PeerWentOffline :: "notifier \<Rightarrow> bytes \<Rightarrow> notifier option" where
  "PeerWentOffline ls i = notify_all (\<lambda>l. peerWentOffline l i) ls"

definition PeerCameOnline :: "notifier \<Rightarrow> bytes \<Rightarrow> notifier option" where
  "PeerCameOnline ls i = notify_all (\<lambda>l. peerComeOnline l i) ls"

definition NewListener :: "notifier \<Rightarrow> nat \<Rightarrow> notifier" where
  "NewListener ls a = ls @ [(a, newListener)]"

definition RemoveListener :: "notifier \<Rightarrow> nat \<Rightarrow> notifier" where
  "RemoveListener ls a = filter (\<lambda>x. fst x \<noteq> a) ls"

definition update_listener :: "notifier \<Rightarrow> nat \<Rightarrow> (Listener \<Rightarrow> Listener) \<Rightarrow> notifier" where
  "update_listener ls a f = map (\<lambda>x. if fst x = a then (fst x, f (snd x)) else x) ls"

section \<open>The server\<close>

record Relay =
  r_store :: Store
  r_notifier :: notifier
  r_instanceURL :: string
  r_closed :: bool
  outbox :: "(nat \<times> bytes) list"
  closed_conns :: "nat list"

type_synonym writer = "nat \<Rightarrow> bytes \<Rightarrow> bool"

definition GetOnlinePeersAndRegisterInterest :: "Relay \<Rightarrow> bytes list \<Rightarrow> nat \<Rightarrow> Relay \<times> bytes list" where
  "GetOnlinePeersAndRegisterInterest r ids a =
     (r\<lparr>r_notifier := update_listener (r_notifier r) a (\<lambda>l. AddInterestedPeers l ids)\<rparr>,
      filter (\<lambda>i. st_peers (r_store r) i \<noteq> None) ids)"

definition Write :: "writer \<Rightarrow> Relay \<Rightarrow> nat \<Rightarrow> bytes \<Rightarrow> Relay" where
  "Write wr r a msg = (if wr a msg then r\<lparr>outbox := outbox r @ [(a, msg)]\<rparr> else r)"

definition Close :: "Relay \<Rightarrow> nat \<Rightarrow> Relay" where
  "Close r a = r\<lparr>closed_conns := closed_conns r @ [a]\<rparr>"

definition write_all :: "writer \<Rightarrow> Relay \<Rightarrow> nat \<Rightarrow> bytes list \<Rightarrow> Relay" where
  "write_all wr r a msgs = foldl (\<lambda>r m. Write wr r a m) r msgs"

definition sendPeersOnline :: "writer \<Rightarrow> Relay \<Rightarrow> rpeer \<Rightarrow> bytes list \<Rightarrow> Relay" where
  "sendPeersOnline wr r p ids =
     (case MarshalPeersOnline ids of Inl e \<Rightarrow> r | Inr msgs \<Rightarrow> write_all wr r (p_addr p) msgs)"

definition sendPeersWentOffline :: "writer \<Rightarrow> Relay \<Rightarrow> rpeer \<Rightarrow> bytes list \<Rightarrow> Relay" where
  "sendPeersWentOffline wr r p ids =
     (case MarshalPeersWentOffline ids of Inl e \<Rightarrow> r | Inr msgs \<Rightarrow> write_all wr r (p_addr p) msgs)"

definition handleTransportMsg :: "writer \<Rightarrow> Relay \<Rightarrow> rpeer \<Rightarrow> bytes \<Rightarrow> Relay" where
  "handleTransportMsg wr r p msg =
     (case UnmarshalTransportID msg of
        Inl e \<Rightarrow> r
      | Inr peerID \<Rightarrow>
          (case st_peers (r_store r) peerID of
             None \<Rightarrow> r
           | Some dp \<Rightarrow>
               (case UpdateTransportMsg msg (p_id p) of
                  Inl e \<Rightarrow> r
                | Inr msg' \<Rightarrow> Write wr r (p_addr dp) msg')))"

definition handleSubscribePeerState :: "writer \<Rightarrow> Relay \<Rightarrow> rpeer \<Rightarrow> bytes \<Rightarrow> Relay" where
  "handleSubscribePeerState wr r p msg =
     (case unmarshalPeerIDs msg of
        Inl e \<Rightarrow> r
      | Inr peerIDs \<Rightarrow>
          (case GetOnlinePeersAndRegisterInterest r peerIDs (p_addr p) of
             (r', onlinePeers) \<Rightarrow> if onlinePeers = [] then r' else sendPeersOnline wr r' p onlinePeers))"

definition handleUnsubscribePeerState :: "Relay \<Rightarrow> rpeer \<Rightarrow> bytes \<Rightarrow> Relay" where
  "handleUnsubscribePeerState r p msg =
     (case unmarshalPeerIDs msg of
        Inl e \<Rightarrow> r
      | Inr peerIDs \<Rightarrow>
          r\<lparr>r_notifier := update_listener (r_notifier r) (p_addr p) (\<lambda>l. RemoveInterestedPeer l peerIDs)\<rparr>)"

definition handleMsgType :: "writer \<Rightarrow> Relay \<Rightarrow> rpeer \<Rightarrow> byte \<Rightarrow> bytes \<Rightarrow> Relay" where
  "handleMsgType wr r p msgType msg =
     (if msgType = MsgTypeHealthCheck then r
      else if msgType = MsgTypeTransport then handleTransportMsg wr r p msg
      else if msgType = MsgTypeClose then Close r (p_addr p)
      else if msgType = MsgTypeSubscribePeerState then handleSubscribePeerState wr r p msg
      else if msgType = MsgTypeUnsubscribePeerState then handleUnsubscribePeerState r p msg
      else r)"

text \<open>
  One turn of the loop of \<open>Work\<close> on the message that arrives; \<open>Read\<close> copies it to a buffer of
  \<open>bufferSize\<close> bytes and drops the rest. \<^const>\<open>None\<close> in the second component means
  that the loop returns.
\<close>

abbreviation (input) "bufferSize \<equiv> MaxMessageSize"

definition work_turn :: "writer \<Rightarrow> Relay \<Rightarrow> rpeer \<Rightarrow> bytes option \<Rightarrow> Relay \<times> unit option" where
  "work_turn wr r p input =
     (case input of
        None \<Rightarrow> (r, None)
      | Some raw \<Rightarrow>
          let msg = take bufferSize raw in
          if msg = [] then (r, None)
          else case ValidateVersion msg of
            Inl e \<Rightarrow> (r, None)
          | Inr v \<Rightarrow>
              (case DetermineClientMessageType msg of
                 Inl e \<Rightarrow> (r, None)
               | Inr t \<Rightarrow> (handleMsgType wr r p t msg, Some ())))"

text \<open>A turn of the listener goroutine of a peer.\<close>

definition deliver_note :: "writer \<Rightarrow> rpeer \<Rightarrow> Relay \<Rightarrow> notice \<Rightarrow> Relay" where
  "deliver_note wr p r n =
     (case n of PeersOnline ids \<Rightarrow> sendPeersOnline wr r p ids
              | PeersWentOffline ids \<Rightarrow> sendPeersWentOffline wr r p ids)"

definition deliver_events :: "writer \<Rightarrow> Relay \<Rightarrow> rpeer \<Rightarrow> Relay" where
  "deliver_events wr r p =
     (case map_of (r_notifier r) (p_addr p) of
        None \<Rightarrow> r
      | Some l \<Rightarrow>
          (case listenForEvents l of
             (l', notes) \<Rightarrow>
               foldl (deliver_note wr p)
                 (r\<lparr>r_notifier := update_listener (r_notifier r) (p_addr p) (\<lambda>x. l')\<rparr>) notes))"

section \<open>Handshake\<close>

datatype handshake_error =
    HsRead | HsMsg msg_error | HsType byte | HsHello | HsToken token_error

record validators =
  v_auth :: "bytes \<Rightarrow> token_error option"
  v_hello :: "bytes \<Rightarrow> bool"

definition handleHelloMsg :: "validators \<Rightarrow> bytes \<Rightarrow> handshake_error + bytes" where
  "handleHelloMsg v buf =
     (case UnmarshalHelloMsg buf of
        Inl e \<Rightarrow> Inl (HsMsg e)
      | Inr (peerID, authData) \<Rightarrow> if v_hello v authData then Inr peerID else Inl HsHello)"

definition handleAuthMsg :: "validators \<Rightarrow> bytes \<Rightarrow> handshake_error + bytes" where
  "handleAuthMsg v buf =
     (case UnmarshalAuthMsg buf of
        Inl e \<Rightarrow> Inl (HsMsg e)
      | Inr (rawPeerID, authPayload) \<Rightarrow>
          (case v_auth v authPayload of Some e \<Rightarrow> Inl (HsToken e) | None \<Rightarrow> Inr rawPeerID))"

text \<open>The result is the peer ID and whether the new kind of message was used.\<close>

definition handshakeReceive :: "validators \<Rightarrow> bytes option \<Rightarrow> handshake_error + (bytes \<times> bool)" where
  "handshakeReceive v input =
     (case input of
        None \<Rightarrow> Inl HsRead
      | Some raw \<Rightarrow>
          let buf = take MaxHandshakeSize raw in
          (case ValidateVersion buf of
             Inl e \<Rightarrow> Inl (HsMsg e)
           | Inr n \<Rightarrow>
               (case DetermineClientMessageType buf of
                  Inl e \<Rightarrow> Inl (HsMsg e)
                | Inr msgType \<Rightarrow>
                    if msgType = MsgTypeHello then
                      (case handleHelloMsg v buf of Inl e \<Rightarrow> Inl e | Inr i \<Rightarrow> Inr (i, False))
                    else if msgType = MsgTypeAuth then
                      (case handleAuthMsg v buf of Inl e \<Rightarrow> Inl e | Inr i \<Rightarrow> Inr (i, True))
                    else Inl (HsType msgType))))"

text \<open>\<open>hello_response\<close> is the prepared message \<open>responseHelloMsg\<close>, whose body is gob.\<close>

definition handshakeResponse :: "writer \<Rightarrow> bytes \<Rightarrow> Relay \<Rightarrow> nat \<Rightarrow> bool \<Rightarrow> Relay \<times> bool" where
  "handshakeResponse wr hello_response r a auth =
     (let msg = (if auth then projr (MarshalAuthResponse (r_instanceURL r)) else hello_response)
      in (Write wr r a msg, wr a msg))"

text \<open>
  \<open>Accept\<close> up to the start of the goroutine that runs \<open>Work\<close>, whose listener it creates, and
  the response. \<open>a\<close> is the address of the new peer and of its connection.
\<close>

definition Accept ::
    "writer \<Rightarrow> validators \<Rightarrow> bytes \<Rightarrow> Relay \<Rightarrow> nat \<Rightarrow> bytes option \<Rightarrow> (Relay \<times> rpeer option) option" where
  "Accept wr v hello_response r a input =
     (if r_closed r then Some (r, None)
      else case handshakeReceive v input of
        Inl e \<Rightarrow> Some (Close r a, None)
      | Inr (peerID, auth) \<Rightarrow>
          let p = \<lparr>p_addr = a, p_id = peerID\<rparr>;
              (s', old) = AddPeer (r_store r) p;
              r1 = (case old of Some q \<Rightarrow> Close r (p_addr q) | None \<Rightarrow> r)\<lparr>r_store := s'\<rparr>
          in case PeerCameOnline (r_notifier r1) peerID of
               None \<Rightarrow> None
             | Some ls \<Rightarrow>
                 let r2 = r1\<lparr>r_notifier := NewListener ls a\<rparr> in
                 (case handshakeResponse wr hello_response r2 a auth of
                    (r3, ok) \<Rightarrow> Some (if ok then r3 else Close r3 a, Some p)))"

text \<open>The end of the goroutine: the deferred function of \<open>Work\<close>, then the store.\<close>

definition work_end :: "Relay \<Rightarrow> rpeer \<Rightarrow> Relay option" where
  "work_end r p =
     (let r1 = Close (r\<lparr>r_notifier := RemoveListener (r_notifier r) (p_addr p)\<rparr>) (p_addr p);
          (s', deleted) = DeletePeer (r_store r1) p;
          r2 = r1\<lparr>r_store := s'\<rparr>
      in if deleted
         then (case PeerWentOffline (r_notifier r2) (p_id p) of
                 None \<Rightarrow> None
               | Some ls \<Rightarrow> Some (r2\<lparr>r_notifier := ls\<rparr>))
         else Some r2)"

definition CloseGracefully :: "writer \<Rightarrow> Relay \<Rightarrow> rpeer \<Rightarrow> Relay" where
  "CloseGracefully wr r p = Close (Write wr r (p_addr p) MarshalCloseMsg) (p_addr p)"

definition Shutdown :: "writer \<Rightarrow> Relay \<Rightarrow> rpeer list \<Rightarrow> Relay" where
  "Shutdown wr r ps = (foldl (CloseGracefully wr) r ps)\<lparr>r_closed := True\<rparr>"

section \<open>The store as a table of owners\<close>

lemma st_peers_AddPeer [lookup_laws]:
  "st_peers (fst (AddPeer s p)) i = (if i = p_id p then Some p else st_peers s i)"
  by (simp add: AddPeer_def)

lemma st_peers_DeletePeer [lookup_laws]:
  "st_peers (fst (DeletePeer s p)) i =
     (if i = p_id p \<and> map_option p_addr (st_peers s i) = Some (p_addr p) then None else st_peers s i)"
  by (auto simp: DeletePeer_def split: option.split)

interpretation store: owner_map
  "\<lambda>s i. map_option p_addr (st_peers s i)" p_id p_addr "\<lambda>s p. True"
  "\<lambda>s p. fst (AddPeer s p)" "\<lambda>s p. fst (DeletePeer s p)"
  by unfold_locales (auto simp: lookup_laws)

lemma DeletePeer_other:
  assumes "st_peers s (p_id p) = Some q" and "p_addr q \<noteq> p_addr p"
  shows "DeletePeer s p = (s, False)"
  using assms by (simp add: DeletePeer_def)

section \<open>Accept\<close>

lemma handshakeReceive_auth:
  assumes "handshakeReceive v input = Inr (i, auth)"
  shows "\<exists>buf payload. input = Some buf \<and>
    (if auth then UnmarshalAuthMsg (take MaxHandshakeSize buf) = Inr (i, payload) \<and> v_auth v payload = None
     else UnmarshalHelloMsg (take MaxHandshakeSize buf) = Inr (i, payload) \<and> v_hello v payload)"
  using assms
  by (fastforce simp: handshakeReceive_def handleAuthMsg_def handleHelloMsg_def Let_def
      split: option.splits sum.splits prod.splits if_splits)

lemma r_store_Write [simp]: "r_store (Write wr r a m) = r_store r" "r_notifier (Write wr r a m) = r_notifier r"
  by (simp_all add: Write_def)

lemma r_store_Close [simp]: "r_store (Close r a) = r_store r" "r_notifier (Close r a) = r_notifier r"
  by (simp_all add: Close_def)

lemma Accept_peer:
  assumes "Accept wr v hr r a input = Some (r', Some p)"
  shows "\<exists>auth. handshakeReceive v input = Inr (p_id p, auth)" and "p_addr p = a"
    and "st_peers (r_store r') = (st_peers (r_store r))(p_id p := Some p)"
  using assms
  by (auto simp: Accept_def AddPeer_def handshakeResponse_def Let_def
      split: if_splits sum.splits prod.splits option.splits)

text \<open>\<open>Accept\<close> blocks only on the full channel of a running listener that waits for the peer.\<close>

definition can_hear :: "bytes \<Rightarrow> Listener \<Rightarrow> bool" where
  "can_hear i l \<longleftrightarrow> (i \<in> interestedPeersForOnline l \<longrightarrow> length (eventChan l) < 244 \<or> l_done l)"

lemma PeerCameOnline_returns:
  assumes "\<And>b l. (b, l) \<in> set ls \<Longrightarrow> can_hear i l"
  shows "\<exists>ls'. PeerCameOnline ls i = Some ls'"
  using assms
proof (induction ls)
  case (Cons x ls)
  obtain b l where x: "x = (b, l)" by (cases x)
  have "peerComeOnline l i \<noteq> None"
    using Cons.prems [of b l] x by (auto simp: can_hear_def peerComeOnline_def send_event_def)
  moreover have "\<exists>ls'. PeerCameOnline ls i = Some ls'" using Cons.IH Cons.prems by (metis list.set_intros(2))
  ultimately show ?case by (auto simp: x PeerCameOnline_def)
qed (simp add: PeerCameOnline_def)

lemma Accept_returns:
  assumes "\<not> r_closed r" and "\<forall>x \<in> set (r_notifier r). can_hear i (snd x)"
    and "handshakeReceive v input = Inr (i, auth)"
  shows "\<exists>r' ls. Accept wr v hr r a input = Some (r', Some \<lparr>p_addr = a, p_id = i\<rparr>) \<and>
    PeerCameOnline (r_notifier r) i = Some ls \<and> r_notifier r' = NewListener ls a"
proof -
  obtain ls where "PeerCameOnline (r_notifier r) i = Some ls" using PeerCameOnline_returns assms(2) by fastforce
  then show ?thesis using assms(1,3)
    by (simp add: Accept_def AddPeer_def handshakeResponse_def Let_def split: prod.splits option.splits)
qed

section \<open>Properties\<close>

text \<open>
  C13. Relayed data arrives attributed to its sender, and unchanged if it fits. When a connected peer
  sends a transport message for a peer that is online, the server writes exactly one message,
  to the connection of that peer, which decodes to the ID of the sender and the payload of the
  original, cut to the 8782 bytes that the read buffer has after the header; nothing else changes and the connection stays open.
\<close>

theorem transport_delivery:
  assumes "peer_id (p_id p)" and "peer_id dst" and "st_peers (r_store r) dst = Some dp"
    and "\<And>m. wr (p_addr dp) m"
  shows "\<exists>m. work_turn wr r p (Some (MarshalTransportMsg dst payload)) =
               (r\<lparr>outbox := outbox r @ [(p_addr dp, m)]\<rparr>, Some ()) \<and>
             UnmarshalTransportMsg m = Inr (p_id p, take (bufferSize - headerTotalSizeTransport) payload)"
proof -
  let ?pl = "take 8782 payload"
  let ?raw = "[CurrentProtocolVersion, MsgTypeTransport] @ dst @ payload"
  let ?m = "[CurrentProtocolVersion, MsgTypeTransport] @ dst @ ?pl"
  let ?m' = "[CurrentProtocolVersion, MsgTypeTransport] @ p_id p @ ?pl"
  have len: "length dst = 36" "length (p_id p) = 36" using assms(1,2) by (simp_all add: peer_id_def)
  have cut: "take bufferSize ?raw = ?m" using len by simp
  have upd: "UpdateTransportMsg ?m (p_id p) = Inr ?m'"
    using len copy_at_fill [of 2 "[1, 3]" "p_id p" "dst @ ?pl"] by (simp add: UpdateTransportMsg_def)
  have "UnmarshalTransportID ?m = Inr dst"
    using len by (simp add: UnmarshalTransportID_def slice_def)
  then have "handleTransportMsg wr r p ?m = r\<lparr>outbox := outbox r @ [(p_addr dp, ?m')]\<rparr>"
    using upd assms(3,4) by (simp add: handleTransportMsg_def Write_def)
  then have "work_turn wr r p (Some ?raw) = (r\<lparr>outbox := outbox r @ [(p_addr dp, ?m')]\<rparr>, Some ())"
    unfolding work_turn_def option.case Let_def cut
    by (simp add: ValidateVersion_def DetermineClientMessageType_def handleMsgType_def Let_def)
  moreover have "UnmarshalTransportMsg ?m' = Inr (p_id p, ?pl)"
    using transport.dec_enc [of "(p_id p, ?pl)"] assms(1) by (simp add: MarshalTransportMsg_eq)
  ultimately show ?thesis by (intro exI [of _ ?m']) (simp add: MarshalTransportMsg_eq assms(2))
qed

definition demo_relay :: Relay where
  "demo_relay =
     \<lparr>r_store = \<lparr>st_peers = [HashID ''b'' \<mapsto> \<lparr>p_addr = 2, p_id = HashID ''b''\<rparr>]\<rparr>, r_notifier = [],
      r_instanceURL = ''rel://r'', r_closed = False, outbox = [], closed_conns = []\<rparr>"

theorem transport_delivery_witness:
  "\<exists>m. outbox (fst (work_turn (\<lambda>a m. True) demo_relay \<lparr>p_addr = 1, p_id = HashID ''a''\<rparr>
           (Some (MarshalTransportMsg (HashID ''b'') [9])))) = [(2, m)] \<and>
       UnmarshalTransportMsg m = Inr (HashID ''a'', [9])"
  using transport_delivery [of "\<lparr>p_addr = 1, p_id = HashID ''a''\<rparr>" "HashID ''b''" demo_relay
      "\<lparr>p_addr = 2, p_id = HashID ''b''\<rparr>" "\<lambda>a m. True" "[9]"] peer_id_HashID
  by (auto simp: demo_relay_def)

text \<open>
  C26. A peer enters the store only through an authenticated handshake: whenever \<open>Accept\<close>
  registers a peer, the bytes it read decode to an authentication message with that peer's ID
  and a token the validator accepted, or to a hello message whose data the hello validator
  accepted; and the store changes at that ID only.
\<close>

theorem accept_authenticated:
  assumes "Accept wr v hr r a input = Some (r', Some p)"
  shows "st_peers (r_store r') = (st_peers (r_store r))(p_id p := Some p) \<and>
    (\<exists>buf payload. input = Some buf \<and>
       (UnmarshalAuthMsg (take MaxHandshakeSize buf) = Inr (p_id p, payload) \<and> v_auth v payload = None \<or>
        UnmarshalHelloMsg (take MaxHandshakeSize buf) = Inr (p_id p, payload) \<and> v_hello v payload))"
  using Accept_peer [OF assms] handshakeReceive_auth by (metis (full_types))

theorem accept_authenticated_witness:
  "\<exists>m r' p. MarshalAuthMsg (HashID ''a'') [5] = Inr m \<and>
     Accept (\<lambda>a m. True) \<lparr>v_auth = (\<lambda>d. None), v_hello = (\<lambda>d. False)\<rparr> [] demo_relay 1 (Some m) = Some (r', Some p) \<and>
     st_peers (r_store r') (p_id p) = Some p"
proof -
  let ?v = "\<lparr>v_auth = (\<lambda>d. None), v_hello = (\<lambda>d. False)\<rparr> :: validators"
  obtain m where m: "MarshalAuthMsg (HashID ''a'') [5] = Inr m" "length m = 43" "take 2 m = [1, 6]"
    using peer_id_HashID [of "''a''"] by (simp add: MarshalAuthMsg_eq peer_id_def)
  then have "UnmarshalAuthMsg m = Inr (HashID ''a'', [5])"
    using auth.dec_enc [of "(HashID ''a'', [5])"] peer_id_HashID by (simp add: auth_enc_def)
  moreover have "m ! 0 = 1" "m ! Suc 0 = 6"
    using m(2,3) by (cases m; cases "tl m"; simp)+
  ultimately have "handshakeReceive ?v (Some m) = Inr (HashID ''a'', True)"
    using m(2) by (simp add: handshakeReceive_def ValidateVersion_def DetermineClientMessageType_def handleAuthMsg_def Let_def)
  then obtain r' p where a: "Accept (\<lambda>a m. True) ?v [] demo_relay 1 (Some m) = Some (r', Some p)"
    using Accept_returns [of demo_relay "HashID ''a''" ?v "Some m" True "\<lambda>a m. True" "[]" 1] by (auto simp: demo_relay_def)
  from accept_authenticated [OF a] m(1) a show ?thesis by auto
qed

text \<open>
  A peer that reconnects stays online. When a new connection of a peer has replaced an
  old one, the end of the old connection leaves the new one in the store and tells no listener
  that the peer went offline.
\<close>

lemma reconnect_stays_online:
  assumes "Accept wr v hr r a input = Some (r1, Some p)" and "p_id old = p_id p" and "p_addr old \<noteq> a"
  shows "\<exists>r2. work_end r1 old = Some r2 \<and> st_peers (r_store r2) (p_id p) = Some p \<and>
           r_notifier r2 = RemoveListener (r_notifier r1) (p_addr old)"
proof -
  have "st_peers (r_store r1) (p_id old) = Some p" "p_addr p \<noteq> p_addr old"
    using Accept_peer [OF assms(1)] assms(2,3) by auto
  with DeletePeer_other assms(2) show ?thesis by (auto simp: work_end_def Let_def)
qed

text \<open>
  A listener reorders events. If a peer that a listener watches goes offline and comes
  back before the listener runs, the listener reports that it is online first and that it
  went offline last, although the two events were queued in the order they happened.
\<close>

lemma events_reordered:
  assumes "i \<in> interestedPeersForOffline l" and "i \<in> interestedPeersForOnline l" and "eventChan l = []"
  shows "\<exists>l1 l2. peerWentOffline l i = Some l1 \<and> peerComeOnline l1 i = Some l2 \<and>
           snd (listenForEvents l2) = [PeersOnline [i], PeersWentOffline [i]]"
  using assms
  by (simp add: peerWentOffline_def peerComeOnline_def send_event_def listenForEvents_def drain_notes_def Let_def)

end
