(* ===== verification/Refcounter.thy ===== *)
theory Refcounter
  imports Prelude
begin

text \<open>
  The reference counter of the route manager, \<open>client/internal/routemanager/refcounter/refcounter.go\<close>.

  The functions \<open>add\<close> and \<open>remove\<close> that a counter calls (they install and remove routes, allowed
  addresses or firewall set elements) are parameters, collected in a record with the zero
  value of the output type; they act on the state of the system, which every operation passes
  on. A nil map is \<^const>\<open>None\<close>; a write to it panics, and then the operation has the result
  \<^const>\<open>None\<close>. The order in which \<open>Flush\<close> iterates over the map is an argument.
\<close>

section \<open>Counters\<close>

record 'o Ref =
  Count :: int
  Out :: 'o

datatype 'o add_result = Added 'o | Ignored | AddFailed

record ('e, 'k, 'i, 'o) driver =
  add :: "'e \<Rightarrow> 'k \<Rightarrow> 'i \<Rightarrow> 'e \<times> 'o add_result"
  remove :: "'e \<Rightarrow> 'k \<Rightarrow> 'o \<Rightarrow> 'e \<times> bool"
  zero_out :: 'o

record ('k, 'o) Counter =
  refCountMap :: "('k \<rightharpoonup> 'o Ref) option"
  idMap :: "(string \<rightharpoonup> 'k list) option"

datatype 'k rc_error = FailedToAdd 'k | FailedToRemove 'k

definition New :: "('k, 'o) Counter" where
  "New = \<lparr>refCountMap = Some Map.empty, idMap = Some Map.empty\<rparr>"

definition LoadData :: "('k, 'o) Counter \<Rightarrow> ('k, 'o) Counter \<Rightarrow> ('k, 'o) Counter" where
  "LoadData rm existingCounter =
     rm\<lparr>refCountMap := refCountMap existingCounter, idMap := idMap existingCounter\<rparr>"

text \<open>Reading a Go map, nil or not.\<close>

definition read :: "('k \<rightharpoonup> 'v) option \<Rightarrow> 'k \<Rightarrow> 'v option" where
  "read m k = (case m of Some m' \<Rightarrow> m' k | None \<Rightarrow> None)"

definition zero_ref :: "('e, 'k, 'i, 'o) driver \<Rightarrow> 'o Ref" where
  "zero_ref d = \<lparr>Count = 0, Out = zero_out d\<rparr>"

definition Get :: "('e, 'k, 'i, 'o) driver \<Rightarrow> ('k, 'o) Counter \<Rightarrow> 'k \<Rightarrow> 'o Ref \<times> bool" where
  "Get d rm key = (case read (refCountMap rm) key of Some r \<Rightarrow> (r, True) | None \<Rightarrow> (zero_ref d, False))"

definition set_ref :: "('k, 'o) Counter \<Rightarrow> 'k \<Rightarrow> 'o Ref \<Rightarrow> ('k, 'o) Counter option" where
  "set_ref rm key ref =
     (case refCountMap rm of
        None \<Rightarrow> None
      | Some m \<Rightarrow> Some (rm\<lparr>refCountMap := Some (m(key \<mapsto> ref))\<rparr>))"

definition increment ::
    "('e, 'k, 'i, 'o) driver \<Rightarrow> 'e \<Rightarrow> ('k, 'o) Counter \<Rightarrow> 'k \<Rightarrow> 'i
      \<Rightarrow> ('e \<times> ('k, 'o) Counter \<times> 'o Ref \<times> 'k rc_error option) option" where
  "increment d e rm key inp =
     (let ref = fst (Get d rm key);
          count = (\<lambda>e ref. let ref' = ref\<lparr>Count := Count ref + 1\<rparr>
                           in map_option (\<lambda>rm'. (e, rm', ref', None)) (set_ref rm key ref'))
      in if Count ref = 0
         then (case add d e key inp of
                 (e', Ignored) \<Rightarrow> Some (e', rm, ref, None)
               | (e', AddFailed) \<Rightarrow> Some (e', rm, ref, Some (FailedToAdd key))
               | (e', Added out) \<Rightarrow> count e' (ref\<lparr>Out := out\<rparr>))
         else count e ref)"

definition IncrementWithID ::
    "('e, 'k, 'i, 'o) driver \<Rightarrow> 'e \<Rightarrow> ('k, 'o) Counter \<Rightarrow> string \<Rightarrow> 'k \<Rightarrow> 'i
      \<Rightarrow> ('e \<times> ('k, 'o) Counter \<times> 'o Ref \<times> 'k rc_error option) option" where
  "IncrementWithID d e rm ident key inp =
     (case increment d e rm key inp of
        None \<Rightarrow> None
      | Some (e', rm', ref, Some err) \<Rightarrow> Some (e', rm', ref, Some err)
      | Some (e', rm', ref, None) \<Rightarrow>
          (case idMap rm' of
             None \<Rightarrow> None
           | Some m \<Rightarrow>
               Some (e', rm'\<lparr>idMap := Some (m(ident \<mapsto> (case m ident of Some ks \<Rightarrow> ks | None \<Rightarrow> []) @ [key]))\<rparr>, ref, None)))"

definition decrement ::
    "('e, 'k, 'i, 'o) driver \<Rightarrow> 'e \<Rightarrow> ('k, 'o) Counter \<Rightarrow> 'k
      \<Rightarrow> 'e \<times> ('k, 'o) Counter \<times> 'o Ref \<times> 'k rc_error option" where
  "decrement d e rm key =
     (case read (refCountMap rm) key of
        None \<Rightarrow> (e, rm, zero_ref d, None)
      | Some ref \<Rightarrow>
          if Count ref = 1
          then (case remove d e key (Out ref) of
                  (e', False) \<Rightarrow> (e', rm, ref, Some (FailedToRemove key))
                | (e', True) \<Rightarrow>
                    (e', rm\<lparr>refCountMap := map_option (\<lambda>m. m(key := None)) (refCountMap rm)\<rparr>, ref, None))
          else
            let ref' = ref\<lparr>Count := Count ref - 1\<rparr>
            in (e, rm\<lparr>refCountMap := map_option (\<lambda>m. m(key \<mapsto> ref')) (refCountMap rm)\<rparr>, ref', None))"

text \<open>The loop of \<open>DecrementWithID\<close> over the keys of an ID, collecting the errors.\<close>

fun decrement_all ::
    "('e, 'k, 'i, 'o) driver \<Rightarrow> 'e \<Rightarrow> ('k, 'o) Counter \<Rightarrow> 'k list \<Rightarrow> 'e \<times> ('k, 'o) Counter \<times> 'k rc_error list" where
  "decrement_all d e rm [] = (e, rm, [])"
| "decrement_all d e rm (key # keys) =
     (case decrement d e rm key of
        (e', rm', _, err) \<Rightarrow>
          (case decrement_all d e' rm' keys of
             (e'', rm'', errs) \<Rightarrow> (e'', rm'', (case err of Some x \<Rightarrow> x # errs | None \<Rightarrow> errs))))"

definition DecrementWithID ::
    "('e, 'k, 'i, 'o) driver \<Rightarrow> 'e \<Rightarrow> ('k, 'o) Counter \<Rightarrow> string \<Rightarrow> 'e \<times> ('k, 'o) Counter \<times> 'k rc_error list" where
  "DecrementWithID d e rm ident =
     (case decrement_all d e rm (case read (idMap rm) ident of Some ks \<Rightarrow> ks | None \<Rightarrow> []) of
        (e', rm', errs) \<Rightarrow> (e', rm'\<lparr>idMap := map_option (\<lambda>m. m(ident := None)) (idMap rm')\<rparr>, errs))"

fun flush_loop ::
    "('e, 'k, 'i, 'o) driver \<Rightarrow> 'e \<Rightarrow> ('k, 'o) Counter \<Rightarrow> 'k list \<Rightarrow> 'e \<times> 'k rc_error list" where
  "flush_loop d e rm [] = (e, [])"
| "flush_loop d e rm (key # keys) =
     (case remove d e key (Out (fst (Get d rm key))) of
        (e', ok) \<Rightarrow>
          (case flush_loop d e' rm keys of
             (e'', errs) \<Rightarrow> (e'', if ok then errs else FailedToRemove key # errs)))"

definition Clear :: "('k, 'o) Counter \<Rightarrow> ('k, 'o) Counter" where
  "Clear rm = rm\<lparr>refCountMap := map_option (\<lambda>m. Map.empty) (refCountMap rm),
                 idMap := map_option (\<lambda>m. Map.empty) (idMap rm)\<rparr>"

definition Flush ::
    "('e, 'k, 'i, 'o) driver \<Rightarrow> 'e \<Rightarrow> ('k, 'o) Counter \<Rightarrow> 'k list \<Rightarrow> 'e \<times> ('k, 'o) Counter \<times> 'k rc_error list" where
  "Flush d e rm keys = (case flush_loop d e rm keys of (e', errs) \<Rightarrow> (e', Clear rm, errs))"

text \<open>
  \<open>UnmarshalJSON\<close>, after \<open>encoding/json\<close> has filled the temporary struct with the maps of the
  text; a map that is missing or null there is nil.
\<close>

definition UnmarshalJSON ::
    "('k, 'o) Counter \<Rightarrow> ('k \<rightharpoonup> 'o Ref) option \<Rightarrow> (string \<rightharpoonup> 'k list) option \<Rightarrow> ('k, 'o) Counter" where
  "UnmarshalJSON rm temp_RefCountMap temp_IDMap = rm\<lparr>refCountMap := temp_RefCountMap, idMap := temp_IDMap\<rparr>"

section \<open>Counts\<close>

definition refs :: "('k, 'o) Counter \<Rightarrow> 'k \<Rightarrow> int" where
  "refs rm key = (case read (refCountMap rm) key of Some r \<Rightarrow> Count r | None \<Rightarrow> 0)"

definition counter_ok :: "('k, 'o) Counter \<Rightarrow> bool" where
  "counter_ok rm \<longleftrightarrow> refCountMap rm \<noteq> None \<and> idMap rm \<noteq> None \<and>
     (\<forall>key r. read (refCountMap rm) key = Some r \<longrightarrow> 0 < Count r)"

lemma read_Some [simp]: "read (Some m) k = m k"
  by (simp add: read_def)

lemma counter_okE:
  assumes "counter_ok rm"
  obtains m i where "refCountMap rm = Some m" "idMap rm = Some i" "\<And>k r. m k = Some r \<Longrightarrow> 0 < Count r"
  using assms by (auto simp: counter_ok_def)

lemma refs_pos: "counter_ok rm \<Longrightarrow> 0 \<le> refs rm key \<and> (0 < refs rm key \<longleftrightarrow> read (refCountMap rm) key \<noteq> None)"
  by (auto simp: counter_ok_def refs_def split: option.split dest: less_imp_le)

text \<open>
  What a counter relies on: \<open>installed\<close> reads off the keys present in the system. \<open>add\<close> installs its
  key unless it fails or ignores it, \<open>remove\<close> removes its key unless it fails, and a call
  that fails changes nothing.
\<close>

definition driver_ok :: "('e, 'k, 'i, 'o) driver \<Rightarrow> ('e \<Rightarrow> 'k set) \<Rightarrow> bool" where
  "driver_ok d installed \<longleftrightarrow>
     (\<forall>e k i e' r. add d e k i = (e', r) \<longrightarrow>
        installed e' = (case r of Added out \<Rightarrow> insert k (installed e) | _ \<Rightarrow> installed e)) \<and>
     (\<forall>e k out e' ok. remove d e k out = (e', ok) \<longrightarrow>
        installed e' = (if ok then installed e - {k} else installed e))"

text \<open>
  Every key with a reference is installed; a key without one is installed only if it is in the set \<open>L\<close> of keys that may
  have been left behind.
\<close>

definition in_step :: "('e \<Rightarrow> 'k set) \<Rightarrow> 'k set \<Rightarrow> 'e \<times> ('k, 'o) Counter \<Rightarrow> bool" where
  "in_step installed L s \<longleftrightarrow> counter_ok (snd s) \<and>
     {k. 0 < refs (snd s) k} \<subseteq> installed (fst s) \<and> installed (fst s) \<subseteq> {k. 0 < refs (snd s) k} \<union> L"

lemma driver_okD:
  assumes "driver_ok d installed"
  shows "add d e k i = (e', Added out) \<Longrightarrow> installed e' = insert k (installed e)"
    "add d e k i = (e', Ignored) \<Longrightarrow> installed e' = installed e"
    "add d e k i = (e', AddFailed) \<Longrightarrow> installed e' = installed e"
    "remove d e k v = (e', True) \<Longrightarrow> installed e' = installed e - {k}"
    "remove d e k v = (e', False) \<Longrightarrow> installed e' = installed e"
proof -
  note a = assms [unfolded driver_ok_def, THEN conjunct1, rule_format, of e k i e']
    and r = assms [unfolded driver_ok_def, THEN conjunct2, rule_format, of e k v e']
  show "add d e k i = (e', Added out) \<Longrightarrow> installed e' = insert k (installed e)"
    "add d e k i = (e', Ignored) \<Longrightarrow> installed e' = installed e"
    "add d e k i = (e', AddFailed) \<Longrightarrow> installed e' = installed e"
    using a [of "Added out"] a [of Ignored] a [of AddFailed] by simp_all
  show "remove d e k v = (e', True) \<Longrightarrow> installed e' = installed e - {k}"
    "remove d e k v = (e', False) \<Longrightarrow> installed e' = installed e"
    using r [of True] r [of False] by simp_all
qed

text \<open>What \<open>increment\<close> and \<open>decrement\<close> do to the counts.\<close>

lemma increment_cases:
  assumes "counter_ok rm" and "increment d e rm key inp = Some (e', rm', ref, err)"
  obtains (counted) "err = None" "counter_ok rm'" "refs rm' = (refs rm)(key := refs rm key + 1)" "idMap rm' = idMap rm"
      "refs rm key = 0 \<Longrightarrow> \<exists>out. add d e key inp = (e', Added out)" "refs rm key \<noteq> 0 \<Longrightarrow> e' = e"
  | (ignored) "err = None" "rm' = rm" "refs rm key = 0" "add d e key inp = (e', Ignored)"
  | (failed) "err = Some (FailedToAdd key)" "rm' = rm" "refs rm key = 0" "add d e key inp = (e', AddFailed)"
proof -
  obtain m i where m: "refCountMap rm = Some m" "idMap rm = Some i" "\<And>k r. m k = Some r \<Longrightarrow> 0 < Count r"
    using counter_okE [OF assms(1)] by blast
  have get: "Count (fst (Get d rm key)) = refs rm key"
    by (simp add: Get_def refs_def zero_ref_def split: option.split)
  have nn: "0 \<le> refs rm key" using refs_pos [OF assms(1)] by simp
  let ?put = "\<lambda>r. rm\<lparr>refCountMap := Some (m(key \<mapsto> r))\<rparr>"
  have put: "counter_ok (?put r)" "refs (?put r) = (refs rm)(key := refs rm key + 1)" if "Count r = refs rm key + 1" for r
    using that nn m by (auto simp: counter_ok_def refs_def fun_eq_iff split: option.split)
  show thesis
  proof (cases "refs rm key = 0")
    case True
    obtain e1 r where a: "add d e key inp = (e1, r)" by fastforce
    show thesis
    proof (cases r)
      case (Added out)
      with assms(2) True get a m have "e' = e1" "err = None"
        "rm' = ?put ((fst (Get d rm key))\<lparr>Out := out, Count := 1\<rparr>)"
        by (auto simp: increment_def set_ref_def Let_def)
      then show thesis using put [of "(fst (Get d rm key))\<lparr>Out := out, Count := 1\<rparr>"] True Added a by (intro counted) simp_all
    qed (use assms(2) True get a in \<open>auto simp: increment_def Let_def intro: ignored failed\<close>)
  next
    case False
    with assms(2) get m have "e' = e" "err = None"
      "rm' = ?put ((fst (Get d rm key))\<lparr>Count := refs rm key + 1\<rparr>)"
      by (auto simp: increment_def set_ref_def Let_def)
    then show thesis using put [of "(fst (Get d rm key))\<lparr>Count := refs rm key + 1\<rparr>"] False by (intro counted) simp_all
  qed
qed

lemma increment_total: "counter_ok rm \<Longrightarrow> increment d e rm key inp \<noteq> None"
  by (auto simp: increment_def set_ref_def Let_def elim!: counter_okE split: prod.split add_result.split)

lemma decrement_cases:
  assumes "counter_ok rm" and "decrement d e rm key = (e', rm', ref, err)"
  obtains (counted) "err = None" "counter_ok rm'" "refs rm' = (refs rm)(key := max 0 (refs rm key - 1))" "idMap rm' = idMap rm"
      "refs rm key = 1 \<Longrightarrow> \<exists>v. remove d e key v = (e', True)" "refs rm key \<noteq> 1 \<Longrightarrow> e' = e"
  | (failed) "err = Some (FailedToRemove key)" "rm' = rm" "refs rm key = 1" "\<exists>v. remove d e key v = (e', False)"
proof -
  obtain m i where m: "refCountMap rm = Some m" "idMap rm = Some i" "\<And>k r. m k = Some r \<Longrightarrow> 0 < Count r"
    using counter_okE [OF assms(1)] by blast
  show thesis
  proof (cases "m key")
    case None
    with assms m have "refs rm key = 0" "err = None" "rm' = rm" "e' = e" by (auto simp: decrement_def refs_def)
    with assms(1) show thesis by (intro counted) (auto simp: fun_eq_iff)
  next
    case (Some r)
    then have r: "refs rm key = Count r" "0 < Count r" using m by (simp_all add: refs_def)
    obtain e1 ok where d: "remove d e key (Out r) = (e1, ok)" by fastforce
    show thesis
    proof (cases "Count r = 1")
      case one: True
      show thesis
      proof (cases ok)
        case True
        with assms(2) m Some one d have "err = None" "e' = e1" "rm' = rm\<lparr>refCountMap := Some (m(key := None))\<rparr>"
          by (auto simp: decrement_def)
        with True one r d m show thesis
          by (intro counted) (auto simp: counter_ok_def refs_def fun_eq_iff split: if_splits)
      next
        case False
        with assms(2) m Some one d r show thesis by (intro failed) (auto simp: decrement_def)
      qed
    next
      case False
      with assms(2) m Some have "err = None" "e' = e"
        "rm' = rm\<lparr>refCountMap := Some (m(key \<mapsto> r\<lparr>Count := Count r - 1\<rparr>))\<rparr>"
        by (auto simp: decrement_def Let_def)
      with False r m show thesis
        by (intro counted) (auto simp: counter_ok_def refs_def fun_eq_iff split: if_splits)
    qed
  qed
qed

section \<open>Runs\<close>

datatype ('k, 'i) rc_op =
    Inc 'k 'i | IncID string 'k 'i | Dec 'k | DecID string | FlushAll "'k list" | ClearAll

definition rc_step ::
    "('e, 'k, 'i, 'o) driver \<Rightarrow> 'e \<times> ('k, 'o) Counter \<Rightarrow> ('k, 'i) rc_op \<Rightarrow> 'e \<times> ('k, 'o) Counter" where
  "rc_step d s a =
     (case s of (e, rm) \<Rightarrow>
        (case a of
           Inc k i \<Rightarrow> (case increment d e rm k i of Some (e', rm', _) \<Rightarrow> (e', rm') | None \<Rightarrow> s)
         | IncID ident k i \<Rightarrow> (case IncrementWithID d e rm ident k i of Some (e', rm', _) \<Rightarrow> (e', rm') | None \<Rightarrow> s)
         | Dec k \<Rightarrow> (case decrement d e rm k of (e', rm', _) \<Rightarrow> (e', rm'))
         | DecID ident \<Rightarrow> (case DecrementWithID d e rm ident of (e', rm', _) \<Rightarrow> (e', rm'))
         | FlushAll ks \<Rightarrow> (case Flush d e rm ks of (e', rm', _) \<Rightarrow> (e', rm'))
         | ClearAll \<Rightarrow> (e, Clear rm)))"

text \<open>\<open>Flush\<close> visits every key of the map. Every operation may fail.\<close>

definition rc_legal :: "'e \<times> ('k, 'o) Counter \<Rightarrow> ('k, 'i) rc_op \<Rightarrow> bool" where
  "rc_legal s a = (case a of FlushAll ks \<Rightarrow> set ks = {k. read (refCountMap (snd s)) k \<noteq> None} | _ \<Rightarrow> True)"

text \<open>
  What an operation leaves installed without a reference: the keys whose removal fails in \<open>Flush\<close>, which forgets them all the same,
  and all keys in \<open>Clear\<close>.
\<close>

definition left_by :: "('e, 'k, 'i, 'o) driver \<Rightarrow> 'e \<times> ('k, 'o) Counter \<Rightarrow> ('k, 'i) rc_op \<Rightarrow> 'k set" where
  "left_by d s a =
     (case a of
        FlushAll ks \<Rightarrow> {k. FailedToRemove k \<in> set (snd (flush_loop d (fst s) (snd s) ks))}
      | ClearAll \<Rightarrow> {k. 0 < refs (snd s) k}
      | _ \<Rightarrow> {})"

primrec left_behind :: "('e, 'k, 'i, 'o) driver \<Rightarrow> 'e \<times> ('k, 'o) Counter \<Rightarrow> ('k, 'i) rc_op list \<Rightarrow> 'k set" where
  "left_behind d s [] = {}"
| "left_behind d s (a # as) = left_by d s a \<union> left_behind d (rc_step d s a) as"

lemma refs_idMap [simp]: "refs (rm\<lparr>idMap := i\<rparr>) = refs rm"
  by (simp add: refs_def fun_eq_iff)

lemma counter_ok_idMap: "counter_ok rm \<Longrightarrow> counter_ok (rm\<lparr>idMap := Some i\<rparr>)"
  by (simp add: counter_ok_def)

lemma increment_in_step:
  assumes "driver_ok d installed" and "in_step installed L (e, rm)" and "increment d e rm key inp = Some (e', rm', r)"
  shows "in_step installed L (e', rm')" and "idMap rm' = idMap rm"
proof -
  obtain ref err where r: "r = (ref, err)" by fastforce
  have ok: "counter_ok rm" "{k. 0 < refs rm k} \<subseteq> installed e" "installed e \<subseteq> {k. 0 < refs rm k} \<union> L"
    using assms(2) by (simp_all add: in_step_def)
  have nn: "0 \<le> refs rm key" using refs_pos [OF ok(1)] by simp
  from ok(1) assms(3) [unfolded r] have "in_step installed L (e', rm') \<and> idMap rm' = idMap rm"
  proof (cases rule: increment_cases)
    case counted
    have "installed e' = insert key (installed e)"
      using counted(5,6) ok(2) nn driver_okD(1) [OF assms(1)] by (cases "refs rm key = 0") auto
    with counted nn ok show ?thesis by (fastforce simp: in_step_def)
  qed (use ok driver_okD(2,3) [OF assms(1)] in \<open>auto simp: in_step_def\<close>)
  then show "in_step installed L (e', rm')" "idMap rm' = idMap rm" by simp_all
qed

lemma decrement_in_step:
  assumes "driver_ok d installed" and "in_step installed L (e, rm)" and "decrement d e rm key = (e', rm', r)"
  shows "in_step installed L (e', rm') \<and> idMap rm' = idMap rm"
proof -
  obtain ref err where r: "r = (ref, err)" by fastforce
  have ok: "counter_ok rm" "{k. 0 < refs rm k} \<subseteq> installed e" "installed e \<subseteq> {k. 0 < refs rm k} \<union> L"
    using assms(2) by (simp_all add: in_step_def)
  from ok(1) assms(3) [unfolded r] show ?thesis
  proof (cases rule: decrement_cases)
    case counted
    have "installed e' = (if refs rm key = 1 then installed e - {key} else installed e)"
      using counted(5,6) driver_okD(4) [OF assms(1)] by auto
    moreover have "{k. 0 < refs rm' k} = (if refs rm key = 1 then {k. 0 < refs rm k} - {key} else {k. 0 < refs rm k})"
      using counted(3) refs_pos [OF ok(1), of key] by (auto simp: max_def split: if_splits)
    ultimately show ?thesis using counted ok by (auto simp: in_step_def)
  qed (use ok driver_okD(5) [OF assms(1)] in \<open>auto simp: in_step_def\<close>)
qed

lemma decrement_all_in_step:
  assumes "driver_ok d installed"
  shows "in_step installed L (e, rm) \<Longrightarrow> decrement_all d e rm ks = (e', rm', errs) \<Longrightarrow>
    in_step installed L (e', rm') \<and> idMap rm' = idMap rm"
proof (induction ks arbitrary: e rm errs)
  case (Cons k ks)
  then obtain e1 rm1 r err where d: "decrement d e rm k = (e1, rm1, r, err)" by (metis prod_cases4)
  obtain errs' where "decrement_all d e1 rm1 ks = (e', rm', errs')" using Cons.prems(2) d by (auto split: prod.splits)
  with Cons.IH decrement_in_step [OF assms Cons.prems(1) d] show ?case by auto
qed simp

lemma flush_loop_installed:
  assumes "driver_ok d installed"
  shows "installed (fst (flush_loop d e rm ks)) \<subseteq> installed e - set ks \<union> {k. FailedToRemove k \<in> set (snd (flush_loop d e rm ks))}"
proof (induction ks arbitrary: e)
  case (Cons k ks)
  obtain e1 ok where r: "remove d e k (Out (fst (Get d rm k))) = (e1, ok)" by fastforce
  have "installed e1 = (if ok then installed e - {k} else installed e)"
    using r driver_okD(4,5) [OF assms, of e k _ e1] by (cases ok) auto
  with Cons.IH [of e1] r show ?case by (auto split: prod.splits if_splits)
qed simp

interpretation rc: op_machine "rc_step d" "\<lambda>s a. rc_legal s a \<and> left_by d s a \<subseteq> L" "\<lambda>s. driver_ok d installed \<longrightarrow> in_step installed L s"
  for d :: "('e, 'k, 'i, 'o) driver" and installed L
proof
  fix s :: "'e \<times> ('k, 'o) Counter" and a :: "('k, 'i) rc_op"
  assume inv: "driver_ok d installed \<longrightarrow> in_step installed L s" and legal: "rc_legal s a \<and> left_by d s a \<subseteq> L"
  obtain e rm where s: "s = (e, rm)" by fastforce
  show "driver_ok d installed \<longrightarrow> in_step installed L (rc_step d s a)"
  proof
    assume ok: "driver_ok d installed"
    with inv s have i: "in_step installed L (e, rm)" by simp
    then obtain m im where m: "refCountMap rm = Some m" "idMap rm = Some im" by (auto simp: in_step_def elim!: counter_okE)
    show "in_step installed L (rc_step d s a)"
    proof (cases a)
      case (Inc k inp)
      then show ?thesis using increment_in_step [OF ok i, of k inp] i
        by (auto simp: rc_step_def s split: option.splits)
    next
      case (IncID ident k inp)
      show ?thesis
      proof (cases "increment d e rm k inp")
        case None
        with i IncID show ?thesis by (simp add: rc_step_def s IncrementWithID_def)
      next
        case (Some t)
        obtain e' rm' ref err where t: "t = (e', rm', ref, err)" by (metis prod_cases4)
        note n = increment_in_step [OF ok i Some [unfolded t]]
        from n(1) show ?thesis
          by (auto simp: rc_step_def s IncID IncrementWithID_def Some t n(2) m in_step_def counter_ok_idMap split: option.splits)
      qed
    next
      case (Dec k)
      then show ?thesis using decrement_in_step [OF ok i] by (auto simp: rc_step_def s split: prod.splits)
    next
      case (DecID ident)
      obtain e' rm' errs where d: "decrement_all d e rm (case im ident of Some ks \<Rightarrow> ks | None \<Rightarrow> []) = (e', rm', errs)"
        by (metis prod_cases3)
      from decrement_all_in_step [OF ok i d] m show ?thesis
        by (auto simp: rc_step_def s DecID DecrementWithID_def d in_step_def counter_ok_idMap)
    next
      case (FlushAll ks)
      then have f: "set ks = {k. m k \<noteq> None}" "{k. FailedToRemove k \<in> set (snd (flush_loop d e rm ks))} \<subseteq> L"
        using legal m by (simp_all add: rc_legal_def left_by_def s)
      have "installed e \<subseteq> set ks \<union> L" using i f(1) m by (auto simp: in_step_def refs_pos)
      with flush_loop_installed [OF ok, of e rm ks] f(2) have "installed (fst (flush_loop d e rm ks)) \<subseteq> L" by blast
      then show ?thesis
        by (auto simp: rc_step_def s FlushAll Flush_def Clear_def in_step_def counter_ok_def refs_def m split: prod.splits)
    next
      case ClearAll
      then show ?thesis using i legal
        by (auto simp: rc_step_def s left_by_def Clear_def in_step_def counter_ok_def refs_def m)
    qed
  qed
qed

section \<open>Properties\<close>

lemma left_behind_legal:
  "legal_run rc_legal (rc_step d) s as \<Longrightarrow> left_behind d s as \<subseteq> L \<Longrightarrow>
     legal_run (\<lambda>s a. rc_legal s a \<and> left_by d s a \<subseteq> L) (rc_step d) s as"
  by (induction as arbitrary: s) auto

text \<open>
  C12. The system holds what is referenced and what failed to go. For every driver that keeps its contract, from every well-formed counter,
  new or loaded, whose keys are installed, and for every sequence of increments, decrements (single or
  grouped by ID), flushes and clears, in which every call of the driver may fail: no count is negative, every key with a positive count is
  installed, and a key without one is installed only if its removal failed in a flush, a clear dropped it,
  or it was there without a count at the beginning. Without these three the two sets are equal.
\<close>

theorem installed_exact:
  assumes "driver_ok d installed" and "counter_ok rm0" and "{k. 0 < refs rm0 k} \<subseteq> installed e0"
    and "legal_run rc_legal (rc_step d) (e0, rm0) as" and "(e, rm) = foldl (rc_step d) (e0, rm0) as"
  shows "(\<forall>k. 0 \<le> refs rm k) \<and> {k. 0 < refs rm k} \<subseteq> installed e \<and>
    installed e \<subseteq> {k. 0 < refs rm k} \<union> left_behind d (e0, rm0) as \<union> (installed e0 - {k. 0 < refs rm0 k})"
proof -
  let ?L = "left_behind d (e0, rm0) as \<union> (installed e0 - {k. 0 < refs rm0 k})"
  have "in_step installed ?L (e0, rm0)" using assms(2,3) by (auto simp: in_step_def)
  moreover have "legal_run (\<lambda>s a. rc_legal s a \<and> left_by d s a \<subseteq> ?L) (rc_step d) (e0, rm0) as"
    by (rule left_behind_legal [OF assms(4)]) blast
  ultimately have "in_step installed ?L (e, rm)"
    using rc.run_inv [of d installed ?L "(e0, rm0)" as] assms(1,5) by simp
  then show ?thesis using refs_pos [of rm] by (simp add: in_step_def Un_assoc)
qed

definition set_driver :: "(nat set, nat, unit, unit) driver" where
  "set_driver = \<lparr>add = (\<lambda>e k i. (insert k e, Added ())), remove = (\<lambda>e k v. (e - {k}, True)), zero_out = ()\<rparr>"

lemma set_driver_ok: "driver_ok set_driver (\<lambda>e. e)"
  by (simp add: driver_ok_def set_driver_def)

lemmas rc_eval = rc_step_def IncrementWithID_def increment_def decrement_def DecrementWithID_def set_ref_def Get_def
  zero_ref_def refs_def New_def set_driver_def Let_def

theorem installed_exact_witness:
  "fst (foldl (rc_step set_driver) ({}, New) [Inc 1 (), IncID ''a'' 1 (), IncID ''a'' 2 (), DecID ''a'']) = {1}"
proof -
  let ?as = "[Inc 1 (), IncID ''a'' 1 (), IncID ''a'' 2 (), DecID ''a'']"
  obtain e rm where s: "(e, rm) = foldl (rc_step set_driver) ({}, New) ?as" by (metis prod.exhaust)
  have "legal_run rc_legal (rc_step set_driver) ({}, New) ?as" "left_behind set_driver ({}, New) ?as = {}"
    by (simp_all add: rc_legal_def left_by_def)
  moreover have "counter_ok (New :: (nat, unit) Counter)" "{k. 0 < refs (New :: (nat, unit) Counter) k} = {}"
    by (simp_all add: New_def counter_ok_def refs_def)
  ultimately have "e = {k. 0 < refs rm k}" using installed_exact [OF set_driver_ok, of New "{}" ?as e rm] s by auto
  moreover have "{k. 0 < refs (snd (foldl (rc_step set_driver) ({}, New) ?as)) k} = {1}"
    by (simp add: rc_eval)
  ultimately show ?thesis using s by (metis fst_conv snd_conv)
qed

text \<open>A driver whose calls succeed.\<close>

definition reliable :: "('e, 'k, 'i, 'o) driver \<Rightarrow> bool" where
  "reliable d \<longleftrightarrow> (\<forall>e k i. \<exists>e' out. add d e k i = (e', Added out)) \<and> (\<forall>e k v. snd (remove d e k v))"

lemma IncID_counts:
  assumes "reliable d" and "counter_ok rm" and "idMap rm = Some im"
  shows "\<exists>e' rm'. rc_step d (e, rm) (IncID ident key inp) = (e', rm') \<and> counter_ok rm' \<and>
    refs rm' = (refs rm)(key := refs rm key + 1) \<and>
    idMap rm' = Some (im(ident \<mapsto> (case im ident of Some ks \<Rightarrow> ks | None \<Rightarrow> []) @ [key]))"
proof -
  obtain e' rm' ref err where i: "increment d e rm key inp = Some (e', rm', ref, err)"
    using increment_total [OF assms(2), of d e key inp] by (cases "increment d e rm key inp") auto
  from assms(2) i show ?thesis
  proof (cases rule: increment_cases)
    case counted
    then show ?thesis using i assms(3) by (simp add: rc_step_def IncrementWithID_def counter_ok_idMap)
  next
    case ignored
    then show ?thesis using assms(1) unfolding reliable_def by (metis add_result.distinct(1) prod.inject)
  next
    case failed
    then show ?thesis using assms(1) unfolding reliable_def by (metis add_result.distinct(3) prod.inject)
  qed
qed

lemma IncID_all_counts:
  assumes "reliable d"
  shows "counter_ok rm \<Longrightarrow> idMap rm = Some im \<Longrightarrow> im ident = Some ks0 \<Longrightarrow>
    \<exists>e' rm'. foldl (rc_step d) (e, rm) (map (\<lambda>(k, i). IncID ident k i) kis) = (e', rm') \<and> counter_ok rm' \<and>
      refs rm' = (\<lambda>k. refs rm k + int (count_list (map fst kis) k)) \<and>
      idMap rm' = Some (im(ident \<mapsto> ks0 @ map fst kis))"
proof (induction kis arbitrary: e rm im ks0)
  case (Cons ki kis)
  obtain k i where ki: "ki = (k, i)" by fastforce
  obtain e1 rm1 where s: "rc_step d (e, rm) (IncID ident k i) = (e1, rm1)" "counter_ok rm1"
      "refs rm1 = (refs rm)(k := refs rm k + 1)" "idMap rm1 = Some (im(ident \<mapsto> ks0 @ [k]))"
    using IncID_counts [OF assms Cons.prems(1,2), of e ident k i] Cons.prems(3) by auto
  from Cons.IH [OF s(2,4), of "ks0 @ [k]" e1] show ?case by (auto simp: ki s(1,3) fun_eq_iff)
qed (auto simp: fun_eq_iff)

lemma decrement_all_counts:
  assumes "reliable d"
  shows "counter_ok rm \<Longrightarrow> decrement_all d e rm ks = (e', rm', errs) \<Longrightarrow>
    counter_ok rm' \<and> idMap rm' = idMap rm \<and> refs rm' = (\<lambda>k. max 0 (refs rm k - int (count_list ks k)))"
proof (induction ks arbitrary: e rm errs)
  case Nil
  then show ?case by (auto simp: fun_eq_iff refs_pos)
next
  case (Cons key ks)
  then obtain e1 rm1 r err where d: "decrement d e rm key = (e1, rm1, r, err)" by (metis prod_cases4)
  obtain errs' where da: "decrement_all d e1 rm1 ks = (e', rm', errs')" using Cons.prems(2) d by (auto split: prod.splits)
  from Cons.prems(1) d show ?case
  proof (cases rule: decrement_cases)
    case counted
    with Cons.IH [OF counted(2) da] show ?thesis by (auto simp: fun_eq_iff max_def)
  next
    case failed
    then show ?thesis using assms unfolding reliable_def by (metis snd_conv)
  qed
qed

lemma legal_group: "legal_run (\<lambda>s a. rc_legal s a \<and> left_by d s a \<subseteq> {}) (rc_step d) s (map (\<lambda>(k, i). IncID ident k i) kis @ [DecID ident])"
  by (induction kis arbitrary: s) (auto simp: rc_legal_def left_by_def)

text \<open>
  Releasing a group undoes it. When keys, possibly repeated or already referenced, are
  counted under a new ID with a driver whose calls succeed, \<open>DecrementWithID\<close> of that ID restores
  every count, the set of installed keys and the groups.
\<close>

lemma group_release:
  assumes "driver_ok d installed" and "reliable d" and "in_step installed {} (e, rm)" and "read (idMap rm) ident = None"
    and "kis \<noteq> []"
    and "(e', rm') = foldl (rc_step d) (e, rm) (map (\<lambda>(k, i). IncID ident k i) kis @ [DecID ident])"
  shows "refs rm' = refs rm \<and> installed e' = installed e \<and> idMap rm' = idMap rm"
proof -
  obtain k i kis' where kis: "kis = (k, i) # kis'" using assms(5) by (metis list.exhaust prod.exhaust)
  have ok: "counter_ok rm" using assms(3) by (simp add: in_step_def)
  then obtain im where im: "idMap rm = Some im" "im ident = None" using assms(4) by (auto elim!: counter_okE)
  obtain e1 rm1 where s1: "rc_step d (e, rm) (IncID ident k i) = (e1, rm1)" "counter_ok rm1"
      "refs rm1 = (refs rm)(k := refs rm k + 1)" "idMap rm1 = Some (im(ident \<mapsto> [k]))"
    using IncID_counts [OF assms(2) ok im(1), of e ident k i] im(2) by auto
  obtain e2 rm2 where s2: "foldl (rc_step d) (e1, rm1) (map (\<lambda>(k, i). IncID ident k i) kis') = (e2, rm2)" "counter_ok rm2"
      "refs rm2 = (\<lambda>k. refs rm1 k + int (count_list (map fst kis') k))" "idMap rm2 = Some (im(ident \<mapsto> map fst kis))"
    using IncID_all_counts [OF assms(2) s1(2,4), of ident "[k]" e1 kis'] kis by auto
  obtain e3 rm3 errs where s3: "decrement_all d e2 rm2 (map fst kis) = (e3, rm3, errs)" by (metis prod_cases3)
  note c = decrement_all_counts [OF assms(2) s2(2) s3]
  have st: "e' = e3" "rm' = rm3\<lparr>idMap := map_option (\<lambda>m. m(ident := None)) (idMap rm3)\<rparr>"
    using assms(6) s1(1) s2(1,4) s3 by (simp_all add: kis rc_step_def DecrementWithID_def)
  have refs: "refs rm' = refs rm"
    using c s2(3) s1(3) refs_pos [OF ok] by (auto simp: st kis fun_eq_iff)
  have "in_step installed {} (e', rm')"
    using rc.run_inv [of d installed "{}" "(e, rm)", OF _ legal_group [of d "(e, rm)" ident kis]] assms(1,3,6) by simp
  with assms(3) refs have "installed e' = installed e" by (auto simp: in_step_def)
  moreover have "idMap rm' = idMap rm" using c s2(4) im by (simp add: st fun_upd_idem)
  ultimately show ?thesis using refs by simp
qed

text \<open>
  The group of an ID also lists keys that \<open>add\<close> ignored, so that releasing the group takes away a
  reference somebody else holds.
\<close>

definition picky_driver :: "(nat set, nat, bool, unit) driver" where
  "picky_driver = \<lparr>add = (\<lambda>e k i. if i then (insert k e, Added ()) else (e, Ignored)),
     remove = (\<lambda>e k v. (e - {k}, True)), zero_out = ()\<rparr>"

lemma ignored_key_released:
  "refs (snd (foldl (rc_step picky_driver) ({}, New) [IncID ''a'' 1 False, Inc 1 True, DecID ''a''])) 1 = 0"
  by (simp add: rc_eval picky_driver_def)

text \<open>After \<open>UnmarshalJSON\<close> of a text without the maps, the first increment panics.\<close>

lemma unmarshal_leaves_nil:
  "increment set_driver e (UnmarshalJSON New None None) k () = None"
  by (simp add: UnmarshalJSON_def increment_def set_ref_def Get_def zero_ref_def set_driver_def read_def Let_def)

end
