(* ===== verification/RouteSelection.thy ===== *)
theory RouteSelection
  imports GoLib
begin

text \<open>
  The selection of routes on a client: \<open>client/internal/routeselector/routeselector.go\<close>, with the
  unique ID of a group of highly available routes from \<open>route/hauniqueid.go\<close>.

  A Go map used as a set is a set, \<^const>\<open>None\<close> when the map is nil; a write to a nil map panics
  (result \<^const>\<open>None\<close>). Of a route the model keeps what the selector and the unique ID read; its network
  and its list of domains (\<^const>\<open>None\<close> when nil) are the texts that their printers return.
\<close>

type_synonym NetID = string
type_synonym HAUniqueID = string

record Route =
  Network :: string
  Domains :: "string option"
  route_NetID :: NetID
  DomainNetwork :: bool
  SkipAutoApply :: bool

type_synonym HAMap = "HAUniqueID \<rightharpoonup> Route list"

section \<open>Unique IDs\<close>

definition haSeparator :: char where
  "haSeparator = CHR ''|''"

definition NetString :: "'r Route_scheme \<Rightarrow> string" where
  "NetString r = (case Domains r of Some ds \<Rightarrow> (if DomainNetwork r then ds else Network r) | None \<Rightarrow> Network r)"

definition GetHAUniqueID :: "'r Route_scheme \<Rightarrow> HAUniqueID" where
  "GetHAUniqueID r = route_NetID r @ [haSeparator] @ NetString r"

text \<open>The part of the ID before the last separator, or all of it.\<close>

definition HAUniqueID_NetID :: "HAUniqueID \<Rightarrow> NetID" where
  "HAUniqueID_NetID ident =
     (if haSeparator \<in> set ident then rev (tl (dropWhile (\<lambda>c. c \<noteq> haSeparator) (rev ident))) else ident)"

section \<open>The selector\<close>

record RouteSelector =
  deselectedRoutes :: "NetID set option"
  selectedRoutes :: "NetID set option"
  deselectAll :: bool

definition NewRouteSelector :: RouteSelector where
  "NewRouteSelector = \<lparr>deselectedRoutes = Some {}, selectedRoutes = Some {}, deselectAll = False\<rparr>"

definition has :: "'a set option \<Rightarrow> 'a \<Rightarrow> bool" where
  "has s x = (case s of Some X \<Rightarrow> x \<in> X | None \<Rightarrow> False)"

definition card_gt0 :: "'a set option \<Rightarrow> bool" where
  "card_gt0 s = (case s of Some X \<Rightarrow> X \<noteq> {} | None \<Rightarrow> False)"

text \<open>The loop of \<open>SelectRoutes\<close> over the given routes; the second component are the routes not available.\<close>

fun select_loop :: "RouteSelector \<Rightarrow> NetID list \<Rightarrow> NetID list \<Rightarrow> (RouteSelector \<times> NetID list) option" where
  "select_loop rs allRoutes [] = Some (rs, [])"
| "select_loop rs allRoutes (r # routes) =
     (if r \<notin> set allRoutes
      then map_option (\<lambda>(rs', err). (rs', r # err)) (select_loop rs allRoutes routes)
      else case selectedRoutes rs of
        None \<Rightarrow> None
      | Some S \<Rightarrow>
          select_loop (rs\<lparr>deselectedRoutes := map_option (\<lambda>D. D - {r}) (deselectedRoutes rs),
                          selectedRoutes := Some (insert r S)\<rparr>) allRoutes routes)"

definition SelectRoutes :: "RouteSelector \<Rightarrow> NetID list \<Rightarrow> bool \<Rightarrow> NetID list \<Rightarrow> (RouteSelector \<times> NetID list) option" where
  "SelectRoutes rs routes appendRoute allRoutes =
     (let rs1 = (if \<not> appendRoute \<or> deselectAll rs
                 then rs\<lparr>deselectedRoutes := Some (set allRoutes), selectedRoutes := Some {}\<rparr>
                 else rs)
      in map_option (\<lambda>(rs2, err). (rs2\<lparr>deselectAll := False\<rparr>, err)) (select_loop rs1 allRoutes routes))"

definition SelectAllRoutes :: "RouteSelector \<Rightarrow> RouteSelector" where
  "SelectAllRoutes rs = rs\<lparr>deselectAll := False, deselectedRoutes := Some {}, selectedRoutes := Some {}\<rparr>"

fun deselect_loop :: "RouteSelector \<Rightarrow> NetID list \<Rightarrow> NetID list \<Rightarrow> (RouteSelector \<times> NetID list) option" where
  "deselect_loop rs allRoutes [] = Some (rs, [])"
| "deselect_loop rs allRoutes (r # routes) =
     (if r \<notin> set allRoutes
      then map_option (\<lambda>(rs', err). (rs', r # err)) (deselect_loop rs allRoutes routes)
      else case deselectedRoutes rs of
        None \<Rightarrow> None
      | Some D \<Rightarrow>
          deselect_loop (rs\<lparr>deselectedRoutes := Some (insert r D),
                            selectedRoutes := map_option (\<lambda>S. S - {r}) (selectedRoutes rs)\<rparr>) allRoutes routes)"

definition DeselectRoutes :: "RouteSelector \<Rightarrow> NetID list \<Rightarrow> NetID list \<Rightarrow> (RouteSelector \<times> NetID list) option" where
  "DeselectRoutes rs routes allRoutes =
     (if deselectAll rs then Some (rs, []) else deselect_loop rs allRoutes routes)"

definition DeselectAllRoutes :: "RouteSelector \<Rightarrow> RouteSelector" where
  "DeselectAllRoutes rs = rs\<lparr>deselectAll := True, deselectedRoutes := Some {}, selectedRoutes := Some {}\<rparr>"

definition IsSelected :: "RouteSelector \<Rightarrow> NetID \<Rightarrow> bool" where
  "IsSelected rs routeID = (if deselectAll rs then False else \<not> has (deselectedRoutes rs) routeID)"

definition FilterSelected :: "RouteSelector \<Rightarrow> HAMap \<Rightarrow> HAMap" where
  "FilterSelected rs routes =
     (if deselectAll rs then Map.empty
      else (\<lambda>ident. if has (deselectedRoutes rs) (HAUniqueID_NetID ident) then None else routes ident))"

definition HasUserSelectionForRoute :: "RouteSelector \<Rightarrow> NetID \<Rightarrow> bool" where
  "HasUserSelectionForRoute rs routeID \<longleftrightarrow> has (selectedRoutes rs) routeID \<or> has (deselectedRoutes rs) routeID"

definition isDeselected :: "RouteSelector \<Rightarrow> NetID \<Rightarrow> bool" where
  "isDeselected rs netID \<longleftrightarrow> has (deselectedRoutes rs) netID \<or> deselectAll rs"

definition isExitNode :: "Route list \<Rightarrow> bool" where
  "isExitNode rt \<longleftrightarrow> 0 < length rt \<and> Network (rt ! 0) = ''0.0.0.0/0''"

definition hasUserSelections :: "RouteSelector \<Rightarrow> bool" where
  "hasUserSelections rs \<longleftrightarrow> card_gt0 (selectedRoutes rs) \<or> card_gt0 (deselectedRoutes rs)"

definition collectSelected :: "Route list \<Rightarrow> Route list" where
  "collectSelected rt = filter (\<lambda>r. \<not> SkipAutoApply r) rt"

text \<open>What \<open>applyExitNodeFilter\<close> puts under the ID of the group.\<close>

definition applyExitNodeFilter :: "RouteSelector \<Rightarrow> NetID \<Rightarrow> Route list \<Rightarrow> Route list option" where
  "applyExitNodeFilter rs netID rt =
     (if hasUserSelections rs then (if IsSelected rs netID then Some rt else None)
      else let sel = collectSelected rt in if 0 < length sel then Some sel else None)"

definition FilterSelectedExitNodes :: "RouteSelector \<Rightarrow> HAMap \<Rightarrow> HAMap" where
  "FilterSelectedExitNodes rs routes =
     (if deselectAll rs then Map.empty
      else (\<lambda>ident. case routes ident of
              None \<Rightarrow> None
            | Some rt \<Rightarrow>
                let netID = HAUniqueID_NetID ident in
                if isDeselected rs netID then None
                else if \<not> isExitNode rt then Some rt
                else applyExitNodeFilter rs netID rt))"

text \<open>
  \<open>UnmarshalJSON\<close>, after \<open>encoding/json\<close> has filled the temporary struct; \<^const>\<open>None\<close> as a whole is the
  empty text or \<open>null\<close>.
\<close>

definition UnmarshalSelector :: "(NetID set option \<times> NetID set option \<times> bool) option \<Rightarrow> RouteSelector" where
  "UnmarshalSelector data =
     (case data of
        None \<Rightarrow> \<lparr>deselectedRoutes = Some {}, selectedRoutes = Some {}, deselectAll = False\<rparr>
      | Some (sel, desel, da) \<Rightarrow>
          \<lparr>deselectedRoutes = (if desel = None then Some {} else desel),
           selectedRoutes = (if sel = None then Some {} else sel), deselectAll = da\<rparr>)"

definition MarshalSelector :: "RouteSelector \<Rightarrow> NetID set option \<times> NetID set option \<times> bool" where
  "MarshalSelector rs = (selectedRoutes rs, deselectedRoutes rs, deselectAll rs)"

section \<open>The selection as a set\<close>

text \<open>
  The specification: the set of routes that are switched off. Selecting switches routes on; it
  first switches off everything that is available if the caller replaces the selection or if
  everything was off.
\<close>

datatype sel_op =
    Select "NetID list" bool "NetID list" | SelectAll | Deselect "NetID list" "NetID list" | DeselectAll
  | Reload

definition off_step :: "NetID set \<Rightarrow> sel_op \<Rightarrow> NetID set" where
  "off_step off a =
     (case a of
        Select routes app allRoutes \<Rightarrow>
          (if \<not> app \<or> off = UNIV then set allRoutes else off) - (set routes \<inter> set allRoutes)
      | SelectAll \<Rightarrow> {}
      | Deselect routes allRoutes \<Rightarrow> off \<union> (set routes \<inter> set allRoutes)
      | DeselectAll \<Rightarrow> UNIV
      | Reload \<Rightarrow> off)"

definition sel_step :: "RouteSelector \<Rightarrow> sel_op \<Rightarrow> RouteSelector" where
  "sel_step rs a =
     (case a of
        Select routes app allRoutes \<Rightarrow> (case SelectRoutes rs routes app allRoutes of Some (rs', _) \<Rightarrow> rs' | None \<Rightarrow> rs)
      | SelectAll \<Rightarrow> SelectAllRoutes rs
      | Deselect routes allRoutes \<Rightarrow> (case DeselectRoutes rs routes allRoutes of Some (rs', _) \<Rightarrow> rs' | None \<Rightarrow> rs)
      | DeselectAll \<Rightarrow> DeselectAllRoutes rs
      | Reload \<Rightarrow> UnmarshalSelector (Some (MarshalSelector rs)))"

definition off_routes :: "RouteSelector \<Rightarrow> NetID set" where
  "off_routes rs = {r. \<not> IsSelected rs r}"

definition selector_ok :: "RouteSelector \<Rightarrow> bool" where
  "selector_ok rs \<longleftrightarrow>
     (\<exists>D S. deselectedRoutes rs = Some D \<and> selectedRoutes rs = Some S \<and> finite D \<and> D \<inter> S = {} \<and>
        (deselectAll rs \<longrightarrow> D = {} \<and> S = {}))"

lemma select_loop_eq:
  assumes "deselectedRoutes rs = Some D" and "selectedRoutes rs = Some S"
  shows "select_loop rs allRoutes routes =
    Some (rs\<lparr>deselectedRoutes := Some (D - (set routes \<inter> set allRoutes)), selectedRoutes := Some (S \<union> (set routes \<inter> set allRoutes))\<rparr>,
          filter (\<lambda>r. r \<notin> set allRoutes) routes)"
  using assms
proof (induction routes arbitrary: rs D S)
  case (Cons r routes)
  show ?case
  proof (cases "r \<in> set allRoutes")
    case True
    have "D - {r} - (set routes \<inter> set allRoutes) = D - (set (r # routes) \<inter> set allRoutes)"
      "insert r S \<union> (set routes \<inter> set allRoutes) = S \<union> (set (r # routes) \<inter> set allRoutes)" using True by auto
    with True Cons.prems Cons.IH [of "rs\<lparr>deselectedRoutes := Some (D - {r}), selectedRoutes := Some (insert r S)\<rparr>" "D - {r}" "insert r S"]
    show ?thesis by simp
  qed (use Cons.IH [OF Cons.prems] in \<open>simp add: Int_insert_left\<close>)
qed simp

lemma deselect_loop_eq:
  assumes "deselectedRoutes rs = Some D" and "selectedRoutes rs = Some S"
  shows "deselect_loop rs allRoutes routes =
    Some (rs\<lparr>deselectedRoutes := Some (D \<union> (set routes \<inter> set allRoutes)), selectedRoutes := Some (S - (set routes \<inter> set allRoutes))\<rparr>,
          filter (\<lambda>r. r \<notin> set allRoutes) routes)"
  using assms
proof (induction routes arbitrary: rs D S)
  case (Cons r routes)
  show ?case
  proof (cases "r \<in> set allRoutes")
    case True
    have "S - {r} - (set routes \<inter> set allRoutes) = S - (set (r # routes) \<inter> set allRoutes)"
      "insert r D \<union> (set routes \<inter> set allRoutes) = D \<union> (set (r # routes) \<inter> set allRoutes)" using True by auto
    with True Cons.prems Cons.IH [of "rs\<lparr>deselectedRoutes := Some (insert r D), selectedRoutes := Some (S - {r})\<rparr>" "insert r D" "S - {r}"]
    show ?thesis by simp
  qed (use Cons.IH [OF Cons.prems] in \<open>simp add: Int_insert_left\<close>)
qed simp

lemma off_routes_eq: "deselectedRoutes rs = Some D \<Longrightarrow> off_routes rs = (if deselectAll rs then UNIV else D)"
  by (auto simp: off_routes_def IsSelected_def has_def)

lemma off_UNIV: "selector_ok rs \<Longrightarrow> off_routes rs = UNIV \<longleftrightarrow> deselectAll rs"
  using infinite_UNIV_listI [where 'a = char] by (auto simp: selector_ok_def off_routes_eq)

interpretation selector: refining_machine sel_step "\<lambda>rs a. True" selector_ok off_routes off_step
proof
  fix rs a assume ok: "selector_ok rs"
  then obtain D S where d: "deselectedRoutes rs = Some D" "selectedRoutes rs = Some S" "finite D" "D \<inter> S = {}"
      "deselectAll rs \<longrightarrow> D = {} \<and> S = {}" by (auto simp: selector_ok_def)
  note u = off_UNIV [OF ok] and o' = off_routes_eq [OF d(1)]
  show "selector_ok (sel_step rs a)"
    using d by (cases a)
      (auto simp: sel_step_def selector_ok_def SelectRoutes_def DeselectRoutes_def SelectAllRoutes_def DeselectAllRoutes_def
        UnmarshalSelector_def MarshalSelector_def select_loop_eq deselect_loop_eq Let_def)
  show "off_routes (sel_step rs a) = off_step (off_routes rs) a"
  proof (cases a)
    case (Select routes app allRoutes)
    then show ?thesis using d u o'
      by (auto simp: sel_step_def off_step_def SelectRoutes_def select_loop_eq off_routes_eq Let_def)
  qed (use d o' in \<open>auto simp: sel_step_def off_step_def DeselectRoutes_def SelectAllRoutes_def DeselectAllRoutes_def
      UnmarshalSelector_def MarshalSelector_def deselect_loop_eq off_routes_eq\<close>)
qed

section \<open>Properties\<close>

text \<open>
  C11. The selector implements its specification: after any sequence of selections,
  deselections and reloads from the saved state, the routes that are not selected are exactly those
  the specification switched off, and no route is both explicitly selected and deselected.
\<close>

theorem selector_refines:
  "off_routes (foldl sel_step NewRouteSelector as) = foldl off_step {} as \<and>
   (\<forall>r. \<not> (has (selectedRoutes (foldl sel_step NewRouteSelector as)) r \<and> has (deselectedRoutes (foldl sel_step NewRouteSelector as)) r))"
proof -
  have ok: "selector_ok NewRouteSelector" by (simp add: selector_ok_def NewRouteSelector_def)
  have "off_routes NewRouteSelector = {}" by (simp add: off_routes_def NewRouteSelector_def IsSelected_def has_def)
  with selector.run_refines [OF ok, of as] selector.run_inv [OF ok, of as] show ?thesis
    by (auto simp: selector_ok_def has_def)
qed

lemma NetID_GetHAUniqueID:
  assumes "haSeparator \<notin> set (NetString r)"
  shows "HAUniqueID_NetID (GetHAUniqueID r) = route_NetID r"
proof -
  have "dropWhile (\<lambda>c. c \<noteq> haSeparator) (rev (NetString r) @ haSeparator # rev (route_NetID r)) = haSeparator # rev (route_NetID r)"
    using assms by (subst dropWhile_append2) auto
  then show ?thesis by (simp add: HAUniqueID_NetID_def GetHAUniqueID_def)
qed

text \<open>
  C34. Exit nodes need consent. A route of an exit-node group that the filter lets through is
  marked for automatic use unless the user made a selection; and every group it lets through
  belongs to a selected network, when groups are filed under the unique ID of their first route and
  its network text is free of the separator.
\<close>

theorem exit_node_consent:
  assumes "FilterSelectedExitNodes rs routes ident = Some rt" and "r \<in> set rt"
    and "routes ident = Some grp" and "isExitNode grp"
    and "ident = GetHAUniqueID (hd grp)" and "haSeparator \<notin> set (NetString (hd grp))"
  shows "(hasUserSelections rs \<or> \<not> SkipAutoApply r) \<and> IsSelected rs (route_NetID (hd grp)) \<and> set rt \<subseteq> set grp"
proof -
  have id: "HAUniqueID_NetID ident = route_NetID (hd grp)"
    using NetID_GetHAUniqueID [OF assms(6)] assms(5) by simp
  show ?thesis
    using assms(1-4)
    by (auto simp: FilterSelectedExitNodes_def applyExitNodeFilter_def isDeselected_def IsSelected_def collectSelected_def id Let_def
        split: if_splits)
qed

definition exit_routes :: "Route list" where
  "exit_routes =
     [\<lparr>Network = ''0.0.0.0/0'', Domains = None, route_NetID = ''exit'', DomainNetwork = False, SkipAutoApply = False\<rparr>,
      \<lparr>Network = ''0.0.0.0/0'', Domains = None, route_NetID = ''exit'', DomainNetwork = False, SkipAutoApply = True\<rparr>]"

theorem exit_node_consent_witness:
  "FilterSelectedExitNodes NewRouteSelector [GetHAUniqueID (hd exit_routes) \<mapsto> exit_routes] (GetHAUniqueID (hd exit_routes)) =
     Some [hd exit_routes] \<and> IsSelected NewRouteSelector ''exit''"
proof -
  have f: "FilterSelectedExitNodes NewRouteSelector [GetHAUniqueID (hd exit_routes) \<mapsto> exit_routes] (GetHAUniqueID (hd exit_routes)) =
     Some [hd exit_routes]"
    by (simp add: FilterSelectedExitNodes_def NewRouteSelector_def isDeselected_def has_def isExitNode_def exit_routes_def
        applyExitNodeFilter_def hasUserSelections_def card_gt0_def collectSelected_def Let_def)
  have "isExitNode exit_routes" "haSeparator \<notin> set (NetString (hd exit_routes))"
    by (simp_all add: isExitNode_def exit_routes_def NetString_def haSeparator_def)
  with exit_node_consent [OF f, of "hd exit_routes" exit_routes] f show ?thesis by (simp add: exit_routes_def)
qed

end
