(* ===== verification/UpdateChannels.thy ===== *)
theory UpdateChannels
  imports Redis GoLib "HOL-Library.Sublist"
begin

text \<open>
  Delivery of updates to the peers connected to a management instance:
  \<open>management/internals/controllers/network_map/update_channel/updatechannel.go\<close>, the debouncer of
  \<open>management/internals/shared/grpc/update_debouncer.go\<close>, and the part of \<open>grpc/server.go\<close> and
  \<open>network_map/controller/controller.go\<close> that opens a channel for a stream and closes it.

  A Go channel is an address into a store of buffers with a flag for closed, so that two
  holders of a channel see the same one. A send on a closed channel and a second close panic;
  the operation then has the result \<^const>\<open>None\<close>.
\<close>

section \<open>Channels of peers\<close>

datatype MessageType = MessageTypeNetworkMap | MessageTypeControlConfig

record 'u UpdateMessage =
  Update :: 'u
  MessageType :: MessageType

record 'u channel =
  buffer :: "'u UpdateMessage list"
  closed :: bool

abbreviation (input) "channelBufferSize \<equiv> (100 :: nat)"

record 'u PeersUpdateManager =
  peerChannels :: "string \<rightharpoonup> nat"
  heap :: "nat \<rightharpoonup> 'u channel"
  next_chan :: nat

definition NewPeersUpdateManager :: "'u PeersUpdateManager" where
  "NewPeersUpdateManager = \<lparr>peerChannels = Map.empty, heap = Map.empty, next_chan = 0\<rparr>"

definition close_chan :: "'u PeersUpdateManager \<Rightarrow> nat \<Rightarrow> 'u PeersUpdateManager option" where
  "close_chan p a =
     (case heap p a of
        None \<Rightarrow> None
      | Some c \<Rightarrow> if closed c then None else Some (p\<lparr>heap := (heap p)(a \<mapsto> c\<lparr>closed := True\<rparr>)\<rparr>))"

text \<open>The result of \<open>SendUpdate\<close> is its pair \<open>found\<close>, \<open>dropped\<close>.\<close>

definition SendUpdate ::
    "'u PeersUpdateManager \<Rightarrow> string \<Rightarrow> 'u UpdateMessage \<Rightarrow> ('u PeersUpdateManager \<times> bool \<times> bool) option" where
  "SendUpdate p peerID update =
     (case peerChannels p peerID of
        None \<Rightarrow> Some (p, False, False)
      | Some a \<Rightarrow>
          (case heap p a of
             None \<Rightarrow> None
           | Some c \<Rightarrow>
               if closed c then None
               else if length (buffer c) < channelBufferSize
               then Some (p\<lparr>heap := (heap p)(a \<mapsto> c\<lparr>buffer := buffer c @ [update]\<rparr>)\<rparr>, True, False)
               else Some (p, True, True)))"

definition CreateChannel :: "'u PeersUpdateManager \<Rightarrow> string \<Rightarrow> ('u PeersUpdateManager \<times> nat) option" where
  "CreateChannel p peerID =
     (case (case peerChannels p peerID of
              None \<Rightarrow> Some p
            | Some a \<Rightarrow> close_chan (p\<lparr>peerChannels := (peerChannels p)(peerID := None)\<rparr>) a) of
        None \<Rightarrow> None
      | Some p1 \<Rightarrow>
          let a = next_chan p1 in
          Some (p1\<lparr>heap := (heap p1)(a \<mapsto> \<lparr>buffer = [], closed = False\<rparr>),
                   peerChannels := (peerChannels p1)(peerID \<mapsto> a), next_chan := a + 1\<rparr>, a))"

definition closeChannel :: "'u PeersUpdateManager \<Rightarrow> string \<Rightarrow> 'u PeersUpdateManager option" where
  "closeChannel p peerID =
     (case peerChannels p peerID of
        Some a \<Rightarrow> close_chan (p\<lparr>peerChannels := (peerChannels p)(peerID := None)\<rparr>) a
      | None \<Rightarrow> Some p)"

fun CloseChannels :: "'u PeersUpdateManager \<Rightarrow> string list \<Rightarrow> 'u PeersUpdateManager option" where
  "CloseChannels p [] = Some p"
| "CloseChannels p (peerID # peerIDs) =
     (case closeChannel p peerID of None \<Rightarrow> None | Some p' \<Rightarrow> CloseChannels p' peerIDs)"

definition CloseChannel :: "'u PeersUpdateManager \<Rightarrow> string \<Rightarrow> 'u PeersUpdateManager option" where
  "CloseChannel p peerID = closeChannel p peerID"

definition GetAllConnectedPeers :: "'u PeersUpdateManager \<Rightarrow> string set" where
  "GetAllConnectedPeers p = dom (peerChannels p)"

definition HasChannel :: "'u PeersUpdateManager \<Rightarrow> string \<Rightarrow> bool" where
  "HasChannel p peerID \<longleftrightarrow> peerChannels p peerID \<noteq> None"

definition CountStreams :: "'u PeersUpdateManager \<Rightarrow> nat" where
  "CountStreams p = card (dom (peerChannels p))"

section \<open>Debouncing\<close>

text \<open>A timer is known by its expiry; the timer channel exists exactly while the timer does.\<close>

record 'u UpdateDebouncer =
  debounceInterval :: duration
  timer :: "time option"
  pendingUpdates :: "'u UpdateMessage list"

definition NewUpdateDebouncer :: "duration \<Rightarrow> 'u UpdateDebouncer" where
  "NewUpdateDebouncer interval = \<lparr>debounceInterval = interval, timer = None, pendingUpdates = []\<rparr>"

definition startTimer :: "time \<Rightarrow> 'u UpdateDebouncer \<Rightarrow> 'u UpdateDebouncer" where
  "startTimer now d = d\<lparr>timer := Some (now + debounceInterval d)\<rparr>"

definition resetTimer :: "time \<Rightarrow> 'u UpdateDebouncer \<Rightarrow> 'u UpdateDebouncer" where
  "resetTimer now d = d\<lparr>timer := Some (now + debounceInterval d)\<rparr>"

definition ProcessUpdate :: "time \<Rightarrow> 'u UpdateDebouncer \<Rightarrow> 'u UpdateMessage \<Rightarrow> 'u UpdateDebouncer \<times> bool" where
  "ProcessUpdate now d update =
     (if timer d = None then (startTimer now d, True)
      else
        let q = pendingUpdates d;
            q' = (if 0 < length q \<and> MessageType update = MessageTypeNetworkMap \<and>
                     MessageType (q ! (length q - 1)) = MessageTypeNetworkMap
                  then q[length q - 1 := update]
                  else q @ [update])
        in (resetTimer now (d\<lparr>pendingUpdates := q'\<rparr>), False))"

definition GetPendingUpdates :: "time \<Rightarrow> 'u UpdateDebouncer \<Rightarrow> 'u UpdateDebouncer \<times> 'u UpdateMessage list" where
  "GetPendingUpdates now d =
     (let updates = pendingUpdates d;
          d1 = d\<lparr>pendingUpdates := []\<rparr>
      in if 0 < length updates
         then (if timer d1 \<noteq> None then resetTimer now d1 else d1, updates)
         else (d1\<lparr>timer := None\<rparr>, updates))"

definition Stop_debouncer :: "'u UpdateDebouncer \<Rightarrow> 'u UpdateDebouncer" where
  "Stop_debouncer d = d\<lparr>timer := None, pendingUpdates := []\<rparr>"

section \<open>Streams\<close>

text \<open>
  The controller with the manager of the channels and the calls it made to the manager of
  ephemeral peers (\<^const>\<open>True\<close> for connected). \<open>known\<close> says whether the repository has the peer.
\<close>

record 'u stream_state =
  manager :: "'u PeersUpdateManager"
  ephemeral_calls :: "(bool \<times> string) list"

definition OnPeerConnected ::
    "(string \<Rightarrow> bool) \<Rightarrow> 'u stream_state \<Rightarrow> string \<Rightarrow> ('u stream_state \<times> nat option) option" where
  "OnPeerConnected known s peerID =
     (if \<not> known peerID then Some (s, None)
      else case CreateChannel (manager s) peerID of
        None \<Rightarrow> None
      | Some (p, a) \<Rightarrow>
          Some (s\<lparr>manager := p, ephemeral_calls := ephemeral_calls s @ [(True, peerID)]\<rparr>, Some a))"

definition OnPeerDisconnected :: "(string \<Rightarrow> bool) \<Rightarrow> 'u stream_state \<Rightarrow> string \<Rightarrow> 'u stream_state option" where
  "OnPeerDisconnected known s peerID =
     (case CloseChannel (manager s) peerID of
        None \<Rightarrow> None
      | Some p \<Rightarrow>
          let s1 = s\<lparr>manager := p\<rparr> in
          Some (if known peerID then s1\<lparr>ephemeral_calls := ephemeral_calls s1 @ [(False, peerID)]\<rparr> else s1))"

text \<open>
  The case \<open>update, open := <-updates\<close> of the loop of \<open>handleUpdates\<close> for the stream that
  holds the channel \<open>a\<close>: nothing to read, an update for the debouncer, or the end of the stream.
  At the end \<open>cancelPeerRoutines\<close> also records the status of the peer in the store and stops the
  refresh of its secrets; neither touches a channel.
\<close>

datatype 'u turn = Blocked | Received "'u UpdateMessage" | Ended

definition updates_turn ::
    "(string \<Rightarrow> bool) \<Rightarrow> 'u stream_state \<Rightarrow> string \<Rightarrow> nat \<Rightarrow> ('u stream_state \<times> 'u turn) option" where
  "updates_turn known s peerID a =
     (case heap (manager s) a of
        None \<Rightarrow> Some (s, Blocked)
      | Some c \<Rightarrow>
          (case buffer c of
             u # us \<Rightarrow>
               Some (s\<lparr>manager := (manager s)\<lparr>heap := (heap (manager s))(a \<mapsto> c\<lparr>buffer := us\<rparr>)\<rparr>\<rparr>, Received u)
           | [] \<Rightarrow>
               if closed c then map_option (\<lambda>s'. (s', Ended)) (OnPeerDisconnected known s peerID)
               else Some (s, Blocked)))"

section \<open>Lemmas on channels\<close>

definition um_ok :: "'u PeersUpdateManager \<Rightarrow> bool" where
  "um_ok p \<longleftrightarrow>
     (\<forall>x a. peerChannels p x = Some a \<longrightarrow>
        (\<exists>c. heap p a = Some c \<and> \<not> closed c) \<and> (\<forall>y. peerChannels p y = Some a \<longrightarrow> x = y)) \<and>
     (\<forall>a c. heap p a = Some c \<longrightarrow>
        a < next_chan p \<and> length (buffer c) \<le> channelBufferSize \<and> (\<not> closed c \<longrightarrow> (\<exists>x. peerChannels p x = Some a)))"

lemma um_okD:
  assumes "um_ok p"
  shows "peerChannels p x = Some a \<Longrightarrow> \<exists>c. heap p a = Some c \<and> \<not> closed c"
    "peerChannels p x = Some a \<Longrightarrow> peerChannels p y = Some a \<Longrightarrow> x = y"
    "heap p a = Some c \<Longrightarrow> a < next_chan p" "heap p a = Some c \<Longrightarrow> length (buffer c) \<le> channelBufferSize"
    "heap p a = Some c \<Longrightarrow> \<not> closed c \<Longrightarrow> \<exists>x. peerChannels p x = Some a"
  using assms unfolding um_ok_def by blast+

lemma um_okI:
  assumes "\<And>x a. peerChannels p x = Some a \<Longrightarrow> \<exists>c. heap p a = Some c \<and> \<not> closed c"
    "\<And>x y a. peerChannels p x = Some a \<Longrightarrow> peerChannels p y = Some a \<Longrightarrow> x = y"
    "\<And>a c. heap p a = Some c \<Longrightarrow> a < next_chan p" "\<And>a c. heap p a = Some c \<Longrightarrow> length (buffer c) \<le> channelBufferSize"
    "\<And>a c. heap p a = Some c \<Longrightarrow> \<not> closed c \<Longrightarrow> \<exists>x. peerChannels p x = Some a"
  shows "um_ok p"
  using assms unfolding um_ok_def by blast

lemma closeChannel_ok:
  assumes ok: "um_ok p"
  shows "\<exists>p'. closeChannel p x = Some p' \<and> um_ok p' \<and> peerChannels p' = (peerChannels p)(x := None)"
proof (cases "peerChannels p x")
  case None
  then have "(peerChannels p)(x := None) = peerChannels p" by auto
  with None ok show ?thesis by (simp add: closeChannel_def)
next
  case (Some a)
  obtain c where c: "heap p a = Some c" "\<not> closed c" using um_okD(1) [OF ok Some] by blast
  let ?p = "p\<lparr>peerChannels := (peerChannels p)(x := None), heap := (heap p)(a \<mapsto> c\<lparr>closed := True\<rparr>)\<rparr>"
  have other: "b \<noteq> a" if "peerChannels p y = Some b" "y \<noteq> x" for y b
    using um_okD(2) [OF ok, of y b x] that Some by auto
  have "um_ok ?p"
  proof (rule um_okI)
    fix y b assume "peerChannels ?p y = Some b"
    then show "\<exists>c. heap ?p b = Some c \<and> \<not> closed c"
      using um_okD(1) [OF ok, of y b] other by (auto split: if_splits)
  next
    fix b c' assume b: "heap ?p b = Some c'"
    show "b < next_chan ?p" "length (buffer c') \<le> channelBufferSize"
      using b um_okD(3,4) [OF ok] c by (auto split: if_splits)
    assume "\<not> closed c'"
    with b have "b \<noteq> a" "heap p b = Some c'" by (auto split: if_splits)
    with um_okD(5) [OF ok, of b c'] \<open>\<not> closed c'\<close> obtain y where y: "peerChannels p y = Some b" by auto
    with Some \<open>b \<noteq> a\<close> have "y \<noteq> x" by auto
    with y show "\<exists>x. peerChannels ?p x = Some b" by auto
  qed (auto dest: um_okD(2) [OF ok] split: if_splits)
  then show ?thesis using Some c by (simp add: closeChannel_def close_chan_def)
qed

lemma CreateChannel_ok:
  assumes ok: "um_ok p"
  shows "\<exists>p' a. CreateChannel p x = Some (p', a) \<and> um_ok p' \<and> peerChannels p' = (peerChannels p)(x \<mapsto> a) \<and>
    heap p' a = Some \<lparr>buffer = [], closed = False\<rparr> \<and> heap p a = None"
proof -
  obtain p1 where p1: "closeChannel p x = Some p1" "um_ok p1" "peerChannels p1 = (peerChannels p)(x := None)"
    using closeChannel_ok [OF ok] by blast
  let ?a = "next_chan p1"
  let ?p = "p1\<lparr>heap := (heap p1)(?a \<mapsto> \<lparr>buffer = [], closed = False\<rparr>),
               peerChannels := (peerChannels p1)(x \<mapsto> ?a), next_chan := ?a + 1\<rparr>"
  note d = um_okD [OF p1(2)]
  have fresh: "heap p1 ?a = None" using d(3) by (metis less_irrefl option.exhaust)
  have nreg: "peerChannels p1 y \<noteq> Some ?a" for y using d(1) fresh by fastforce
  have "um_ok ?p"
  proof (rule um_okI)
    fix y b assume "peerChannels ?p y = Some b"
    then show "\<exists>c. heap ?p b = Some c \<and> \<not> closed c" using d(1) [of y b] fresh by (auto split: if_splits)
  next
    fix y z b assume "peerChannels ?p y = Some b" "peerChannels ?p z = Some b"
    then show "y = z" using d(2) nreg by (auto split: if_splits)
  next
    fix b c assume b: "heap ?p b = Some c"
    show "b < next_chan ?p" "length (buffer c) \<le> channelBufferSize"
      using b d(3,4) [of b c] by (auto split: if_splits)
    assume n: "\<not> closed c"
    show "\<exists>y. peerChannels ?p y = Some b"
    proof (cases "b = ?a")
      case False
      with b n d(5) obtain y where y: "peerChannels p1 y = Some b" by auto
      with p1(3) have "y \<noteq> x" by auto
      with y show ?thesis by auto
    qed auto
  qed
  moreover have "CreateChannel p x = Some (?p, ?a)"
    using p1(1) by (simp add: CreateChannel_def closeChannel_def Let_def split: option.splits)
  moreover have "heap p ?a = None"
    using p1(1) fresh by (auto simp: closeChannel_def close_chan_def split: option.splits if_splits)
  ultimately show ?thesis using p1(3) by auto
qed

lemma heap_update_ok:
  assumes ok: "um_ok p" and "heap p a = Some c" "closed c' = closed c" "length (buffer c') \<le> channelBufferSize"
  shows "um_ok (p\<lparr>heap := (heap p)(a \<mapsto> c')\<rparr>)"
proof (rule um_okI)
  note d = um_okD [OF ok]
  fix x b assume "peerChannels (p\<lparr>heap := (heap p)(a \<mapsto> c')\<rparr>) x = Some b"
  then show "\<exists>c. heap (p\<lparr>heap := (heap p)(a \<mapsto> c')\<rparr>) b = Some c \<and> \<not> closed c"
    using d(1) [of x b] assms(2,3) by auto
  fix y assume "peerChannels (p\<lparr>heap := (heap p)(a \<mapsto> c')\<rparr>) x = Some b" "peerChannels (p\<lparr>heap := (heap p)(a \<mapsto> c')\<rparr>) y = Some b"
  then show "x = y" using d(2) by simp
next
  note d = um_okD [OF ok]
  fix b e assume b: "heap (p\<lparr>heap := (heap p)(a \<mapsto> c')\<rparr>) b = Some e"
  show "b < next_chan (p\<lparr>heap := (heap p)(a \<mapsto> c')\<rparr>)" "length (buffer e) \<le> channelBufferSize"
    using b d(3,4) [of b] assms(2,4) by (auto split: if_splits)
  assume "\<not> closed e"
  with b show "\<exists>x. peerChannels (p\<lparr>heap := (heap p)(a \<mapsto> c')\<rparr>) x = Some b"
    using d(5) [of b] assms(2,3) by (auto split: if_splits)
qed

lemma SendUpdate_ok:
  assumes ok: "um_ok p"
  shows "\<exists>p' f dr. SendUpdate p x u = Some (p', f, dr) \<and> um_ok p' \<and> peerChannels p' = peerChannels p"
proof (cases "peerChannels p x")
  case (Some a)
  then obtain c where c: "heap p a = Some c" "\<not> closed c" using um_okD(1) [OF ok] by blast
  with Some ok heap_update_ok [OF ok c(1), of "c\<lparr>buffer := buffer c @ [u]\<rparr>"] show ?thesis by (auto simp: SendUpdate_def)
qed (use ok in \<open>auto simp: SendUpdate_def\<close>)

lemma CloseChannels_ok: "um_ok p \<Longrightarrow> \<exists>p'. CloseChannels p xs = Some p' \<and> um_ok p'"
proof (induction xs arbitrary: p)
  case (Cons x xs)
  then obtain p1 where "closeChannel p x = Some p1" "um_ok p1" using closeChannel_ok by blast
  with Cons.IH show ?case by auto
qed simp

datatype 'u um_op = Send string "'u UpdateMessage" | Create string | CloseAll "string list" | Receive nat

text \<open>\<open>Receive\<close> takes the next update from a channel, as the loop of a stream does.\<close>

definition um_apply :: "'u PeersUpdateManager \<Rightarrow> 'u um_op \<Rightarrow> 'u PeersUpdateManager option" where
  "um_apply p op =
     (case op of
        Send x u \<Rightarrow> map_option fst (SendUpdate p x u)
      | Create x \<Rightarrow> map_option fst (CreateChannel p x)
      | CloseAll xs \<Rightarrow> CloseChannels p xs
      | Receive a \<Rightarrow> Some (case heap p a of None \<Rightarrow> p | Some c \<Rightarrow> p\<lparr>heap := (heap p)(a \<mapsto> c\<lparr>buffer := tl (buffer c)\<rparr>)\<rparr>))"

definition um_step :: "'u PeersUpdateManager \<Rightarrow> 'u um_op \<Rightarrow> 'u PeersUpdateManager" where
  "um_step p op = (case um_apply p op of Some p' \<Rightarrow> p' | None \<Rightarrow> p)"

lemma um_apply_ok:
  assumes ok: "um_ok p"
  shows "\<exists>p'. um_apply p op = Some p' \<and> um_ok p'"
proof (cases op)
  case (Send x u)
  then show ?thesis using SendUpdate_ok [OF ok, of x u] by (auto simp: um_apply_def)
next
  case (Create x)
  then show ?thesis using CreateChannel_ok [OF ok, of x] by (auto simp: um_apply_def)
next
  case (CloseAll xs)
  then show ?thesis using CloseChannels_ok [OF ok] by (simp add: um_apply_def)
next
  case (Receive a)
  then show ?thesis using ok um_okD(4) [OF ok, of a]
    by (fastforce simp: um_apply_def intro!: heap_update_ok [OF ok] split: option.split)
qed

interpretation um: op_machine um_step "\<lambda>p op. True" um_ok
proof
  fix p :: "'u PeersUpdateManager" and op
  assume "um_ok p"
  then show "um_ok (um_step p op)" using um_apply_ok [of p op] by (auto simp: um_step_def)
qed

section \<open>Properties of channels\<close>

lemma um_ok_New: "um_ok (NewPeersUpdateManager :: 'u PeersUpdateManager)"
  by (simp add: um_ok_def NewPeersUpdateManager_def)

text \<open>
  C19. Update channels are used safely: after any sequence of operations no further operation
  sends on a closed channel or closes one twice, the open channels are exactly those of the
  connected peers, no two peers share one, and no buffer exceeds its capacity.
\<close>

theorem channels_never_panic:
  "let p = foldl um_step NewPeersUpdateManager as in
    um_apply p op \<noteq> None \<and>
    {a. \<exists>c. heap p a = Some c \<and> \<not> closed c} = ran (peerChannels p) \<and> inj_on (peerChannels p) (dom (peerChannels p)) \<and>
    {a. \<exists>c. heap p a = Some c \<and> channelBufferSize < length (buffer c)} = {}"
proof -
  define p where "p = foldl um_step NewPeersUpdateManager as"
  have ok: "um_ok p" unfolding p_def by (rule um.run_inv [OF um_ok_New]) simp
  note d = um_okD [OF ok]
  have "um_apply p op \<noteq> None" using um_apply_ok [OF ok] by auto
  moreover have "{a. \<exists>c. heap p a = Some c \<and> \<not> closed c} = ran (peerChannels p)"
    using d(1,5) by (fastforce simp: ran_def)
  moreover have "inj_on (peerChannels p) (dom (peerChannels p))"
    using d(2) by (auto simp: inj_on_def)
  moreover have "{a. \<exists>c. heap p a = Some c \<and> channelBufferSize < length (buffer c)} = {}" using d(4) by fastforce
  ultimately show ?thesis by (simp add: p_def [symmetric] Let_def)
qed

text \<open>
  C38. A reconnecting peer loses its new stream. When a peer opens a second stream, the
  channel of the first is closed; as soon as the first stream has read what was left in it, it closes
  the channel of the second, and the peer has no channel any more.
\<close>

theorem reconnect_closes_new_channel:
  assumes "um_ok (manager s)" and "known x"
    and "OnPeerConnected known s x = Some (s1, Some a1)" and "OnPeerConnected known s1 x = Some (s2, Some a2)"
  shows "\<exists>s3 c. updates_turn known s2 x a1 = Some (s3, Ended) \<and> \<not> HasChannel (manager s3) x \<and>
    heap (manager s3) a2 = Some c \<and> closed c"
proof -
  obtain p1 b1 where p1: "CreateChannel (manager s) x = Some (p1, b1)" "um_ok p1" "peerChannels p1 x = Some b1"
      "heap p1 b1 = Some \<lparr>buffer = [], closed = False\<rparr>"
    using CreateChannel_ok [OF assms(1), of x] by auto
  obtain p2 b2 where p2: "CreateChannel p1 x = Some (p2, b2)" "um_ok p2" "peerChannels p2 x = Some b2"
      "heap p2 b2 = Some \<lparr>buffer = [], closed = False\<rparr>" "heap p1 b2 = None"
    using CreateChannel_ok [OF p1(2), of x] by auto
  have eqs: "a1 = b1" "a2 = b2" "manager s1 = p1" "manager s2 = p2"
    using assms(2-4) p1(1) p2(1) by (auto simp: OnPeerConnected_def)
  have "b1 \<noteq> b2" using p1(4) p2(5) by auto
  then have "heap p2 b1 = Some \<lparr>buffer = [], closed = True\<rparr>"
    using p2(1) p1(3,4) by (auto simp: CreateChannel_def close_chan_def Let_def)
  then show ?thesis
    using p2(3,4) assms(2)
    by (simp add: updates_turn_def eqs OnPeerDisconnected_def CloseChannel_def closeChannel_def close_chan_def HasChannel_def Let_def)
qed

theorem reconnect_closes_new_channel_witness:
  "\<exists>s1 a1 s2 a2 s3. OnPeerConnected (\<lambda>x. True) \<lparr>manager = NewPeersUpdateManager :: nat PeersUpdateManager, ephemeral_calls = []\<rparr> ''p'' = Some (s1, Some a1) \<and>
     OnPeerConnected (\<lambda>x. True) s1 ''p'' = Some (s2, Some a2) \<and>
     updates_turn (\<lambda>x. True) s2 ''p'' a1 = Some (s3, Ended) \<and> \<not> HasChannel (manager s3) ''p''"
proof -
  let ?s = "\<lparr>manager = NewPeersUpdateManager :: nat PeersUpdateManager, ephemeral_calls = []\<rparr>"
  have ok: "um_ok (manager ?s)" using um_ok_New by simp
  then obtain s1 a1 where s1: "OnPeerConnected (\<lambda>x. True) ?s ''p'' = Some (s1, Some a1)" "um_ok (manager s1)"
    using CreateChannel_ok [OF ok, of "''p''"] by (auto simp: OnPeerConnected_def)
  then obtain s2 a2 where s2: "OnPeerConnected (\<lambda>x. True) s1 ''p'' = Some (s2, Some a2)"
    using CreateChannel_ok [OF s1(2), of "''p''"] by (auto simp: OnPeerConnected_def)
  from reconnect_closes_new_channel [OF ok _ s1(1) s2] s1(1) s2 show ?thesis by auto
qed

section \<open>Debounced delivery\<close>

text \<open>
  The loop of \<open>handleUpdates\<close> around the debouncer: an update from the channel is sent at once or
  left to the debouncer; when the timer expires the pending updates are sent. \<open>sent\<close> is what the
  peer was sent, \<open>received\<close> what came from the channel.
\<close>

datatype 'u deb_op = NewUpdate time "'u UpdateMessage" | TimerExpired time

record 'u deb_state =
  deb :: "'u UpdateDebouncer"
  sent :: "'u UpdateMessage list"
  received :: "'u UpdateMessage list"

definition deb_step :: "'u deb_state \<Rightarrow> 'u deb_op \<Rightarrow> 'u deb_state" where
  "deb_step s op =
     (case op of
        NewUpdate now u \<Rightarrow>
          (case ProcessUpdate now (deb s) u of
             (d, immediate) \<Rightarrow>
               s\<lparr>deb := d, sent := sent s @ (if immediate then [u] else []), received := received s @ [u]\<rparr>)
      | TimerExpired now \<Rightarrow>
          if timer (deb s) = None then s
          else (case GetPendingUpdates now (deb s) of (d, us) \<Rightarrow> s\<lparr>deb := d, sent := sent s @ us\<rparr>))"

abbreviation is_map :: "'u UpdateMessage \<Rightarrow> bool" where
  "is_map u \<equiv> MessageType u = MessageTypeNetworkMap"

definition final_map :: "'u UpdateMessage list \<Rightarrow> 'u UpdateMessage option" where
  "final_map us = (if filter is_map us = [] then None else Some (last (filter is_map us)))"

definition deb_ok :: "'u deb_state \<Rightarrow> bool" where
  "deb_ok s \<longleftrightarrow>
     (let out = sent s @ pendingUpdates (deb s) in
      subseq out (received s) \<and> filter (\<lambda>u. \<not> is_map u) out = filter (\<lambda>u. \<not> is_map u) (received s) \<and>
      final_map out = final_map (received s) \<and> (timer (deb s) = None \<longrightarrow> pendingUpdates (deb s) = []))"

lemma final_map_snoc: "final_map (us @ [u]) = (if is_map u then Some u else final_map us)"
  by (simp add: final_map_def)

lemma ProcessUpdate_pending:
  assumes "timer d \<noteq> None"
  shows "\<exists>d'. ProcessUpdate now d u = (d', False) \<and> timer d' \<noteq> None \<and>
    (pendingUpdates d' = pendingUpdates d @ [u] \<or>
     (\<exists>q v. pendingUpdates d = q @ [v] \<and> is_map v \<and> is_map u \<and> pendingUpdates d' = q @ [u]))"
proof (cases "pendingUpdates d" rule: rev_cases)
  case (snoc q v)
  then show ?thesis using assms by (auto simp: ProcessUpdate_def resetTimer_def Let_def)
qed (use assms in \<open>auto simp: ProcessUpdate_def resetTimer_def Let_def\<close>)

interpretation debounce: op_machine deb_step "\<lambda>s op. True" deb_ok
proof
  fix s :: "'u deb_state" and op assume ok: "deb_ok s"
  show "deb_ok (deb_step s op)"
  proof (cases op)
    case (NewUpdate now u)
    show ?thesis
    proof (cases "timer (deb s) = None")
      case True
      then show ?thesis using ok
        by (auto simp: deb_ok_def deb_step_def NewUpdate ProcessUpdate_def startTimer_def final_map_snoc Let_def)
    next
      case False
      then obtain d' where d': "ProcessUpdate now (deb s) u = (d', False)" "timer d' \<noteq> None"
          "pendingUpdates d' = pendingUpdates (deb s) @ [u] \<or>
           (\<exists>q v. pendingUpdates (deb s) = q @ [v] \<and> is_map v \<and> is_map u \<and> pendingUpdates d' = q @ [u])"
        using ProcessUpdate_pending by blast
      from d'(3) show ?thesis
      proof
        assume "pendingUpdates d' = pendingUpdates (deb s) @ [u]"
        then show ?thesis using ok d'(1,2)
          by (simp add: deb_ok_def deb_step_def NewUpdate final_map_snoc Let_def append_assoc [symmetric] del: append_assoc)
      next
        assume "\<exists>q v. pendingUpdates (deb s) = q @ [v] \<and> is_map v \<and> is_map u \<and> pendingUpdates d' = q @ [u]"
        then obtain q v where q: "pendingUpdates (deb s) = q @ [v]" "is_map v" "is_map u" "pendingUpdates d' = q @ [u]" by blast
        have "subseq ((sent s @ q) @ [v]) (received s)" using ok q(1) by (simp add: deb_ok_def Let_def)
        moreover have "subseq (sent s @ q) ((sent s @ q) @ [v])" by (rule subseq_rev_drop_many) simp
        ultimately have "subseq (sent s @ q) (received s)" by (rule subseq_order.trans [rotated])
        then have "subseq ((sent s @ q) @ [u]) (received s @ [u])" by (rule list_emb_append_mono) simp
        then show ?thesis using ok d'(1,2) q
          by (simp add: deb_ok_def deb_step_def NewUpdate final_map_snoc append_assoc [symmetric] del: append_assoc)
      qed
    qed
  next
    case (TimerExpired now)
    then show ?thesis using ok by (auto simp: deb_ok_def deb_step_def GetPendingUpdates_def resetTimer_def Let_def)
  qed
qed

text \<open>
  C20. Debouncing loses nothing that matters. Over any sequence of updates and timer
  expiries, what was sent and is pending is a subsequence of what was received, in its order,
  that contains every control update and the latest network map; and while updates are pending
  the timer runs.
\<close>

theorem debouncer_delivers:
  "let s = foldl deb_step \<lparr>deb = NewUpdateDebouncer interval, sent = [], received = []\<rparr> ops;
       out = sent s @ pendingUpdates (deb s)
   in subseq out (received s) \<and> filter (\<lambda>u. \<not> is_map u) out = filter (\<lambda>u. \<not> is_map u) (received s) \<and>
      final_map out = final_map (received s) \<and> (pendingUpdates (deb s) = [] \<or> (\<exists>t. timer (deb s) = Some t))"
proof -
  have "deb_ok \<lparr>deb = NewUpdateDebouncer interval, sent = [], received = []\<rparr>"
    by (simp add: deb_ok_def NewUpdateDebouncer_def Let_def)
  from debounce.run_inv [OF this, of ops] show ?thesis by (auto simp: deb_ok_def Let_def)
qed

end
