(* ===== verification/AccountUpdates.thy ===== *)
theory AccountUpdates
  imports UpdateChannels
begin

text \<open>
  Propagation of account changes on the management side:
  \<open>management/internals/controllers/network_map/controller/controller.go\<close> (updates of the peers of an
  account, publication to the other instances, buffering of requests) and
  \<open>SubscribeToAccountUpdates\<close> of \<open>updatechannel.go\<close>.

  The store, the validator of peers and the computation of a network map are parameters,
  collected in a record: each either fails or yields what the controller goes on with.
  \<open>holder_account\<close> is \<^const>\<open>None\<close> where \<open>getAccountFromHolderOrInit\<close> returns nil; the access to its peers then panics,
  and the operation has the result \<^const>\<open>None\<close>.
  The updates of the peers of an account are computed in parallel and go to different channels;
  the model sends them one after the other.
\<close>

section \<open>Updating the peers of an account\<close>

record 'u account_env =
  recalculate :: "string \<Rightarrow> bool"
  experimentalNetworkMap :: "string \<Rightarrow> bool"
  holder_account :: "string \<Rightarrow> string list option"
  get_account :: "string \<Rightarrow> string list option"
  validated_peers :: "string \<Rightarrow> bool"
  proxy_network_maps :: "string \<Rightarrow> bool"
  extra_settings :: "string \<Rightarrow> bool"
  account_zones :: "string \<Rightarrow> bool"
  peer_update :: "string \<Rightarrow> string \<Rightarrow> 'u option"

datatype update_error =
    RecalculateFailed | GetAccountFailed | ValidatedPeersFailed | ProxyMapsFailed | ExtraSettingsFailed | AccountZonesFailed

record 'u Controller =
  ctl_manager :: "'u PeersUpdateManager"
  haRedisClient :: bool
  accountChannelPrefix :: string

definition SetRedisPublisher :: "'u Controller \<Rightarrow> bool \<Rightarrow> string \<Rightarrow> 'u Controller" where
  "SetRedisPublisher c client pfx = c\<lparr>haRedisClient := client, accountChannelPrefix := pfx\<rparr>"

text \<open>The loop over the peers; \<open>peer_update\<close> fails when the posture checks of the peer do.\<close>

fun send_loop ::
    "'u account_env \<Rightarrow> string \<Rightarrow> 'u PeersUpdateManager \<Rightarrow> string list \<Rightarrow> 'u PeersUpdateManager option" where
  "send_loop env accountID m [] = Some m"
| "send_loop env accountID m (peer # peers) =
     (if \<not> HasChannel m peer then send_loop env accountID m peers
      else case peer_update env accountID peer of
        None \<Rightarrow> send_loop env accountID m peers
      | Some u \<Rightarrow>
          (case SendUpdate m peer \<lparr>Update = u, MessageType = MessageTypeNetworkMap\<rparr> of
             None \<Rightarrow> None
           | Some (m', _) \<Rightarrow> send_loop env accountID m' peers))"

definition account_peers :: "'u account_env \<Rightarrow> string \<Rightarrow> (update_error + string list) option" where
  "account_peers env accountID =
     (if experimentalNetworkMap env accountID then map_option Inr (holder_account env accountID)
      else case get_account env accountID of None \<Rightarrow> Some (Inl GetAccountFailed) | Some peers \<Rightarrow> Some (Inr peers))"

definition sendUpdateToLocalAccountPeers ::
    "'u account_env \<Rightarrow> 'u Controller \<Rightarrow> string \<Rightarrow> ('u Controller \<times> update_error option) option" where
  "sendUpdateToLocalAccountPeers env c accountID =
     (case account_peers env accountID of
        None \<Rightarrow> None
      | Some (Inl err) \<Rightarrow> Some (c, Some err)
      | Some (Inr peers) \<Rightarrow>
          if \<not> list_ex (HasChannel (ctl_manager c)) peers then Some (c, None)
          else if \<not> validated_peers env accountID then Some (c, Some ValidatedPeersFailed)
          else if \<not> proxy_network_maps env accountID then Some (c, Some ProxyMapsFailed)
          else if \<not> extra_settings env accountID then Some (c, Some ExtraSettingsFailed)
          else if \<not> account_zones env accountID then Some (c, Some AccountZonesFailed)
          else map_option (\<lambda>m. (c\<lparr>ctl_manager := m\<rparr>, None)) (send_loop env accountID (ctl_manager c) peers))"

definition publishAccountUpdate ::
    "('r, 'z) redis_api_scheme \<Rightarrow> 'r \<Rightarrow> 'u Controller \<Rightarrow> string \<Rightarrow> 'r" where
  "publishAccountUpdate api r c accountID =
     (if \<not> haRedisClient c \<or> accountChannelPrefix c = '''' then r
      else fst (Publish api r (accountChannelPrefix c @ accountID) ''account_updated''))"

definition sendUpdateAccountPeers ::
    "'u account_env \<Rightarrow> ('r, 'z) redis_api_scheme \<Rightarrow> 'r \<Rightarrow> 'u Controller \<Rightarrow> string
      \<Rightarrow> ('u Controller \<times> 'r \<times> update_error option) option" where
  "sendUpdateAccountPeers env api r c accountID =
     (case sendUpdateToLocalAccountPeers env c accountID of
        None \<Rightarrow> None
      | Some (c', err) \<Rightarrow> Some (c', publishAccountUpdate api r c' accountID, err))"

definition UpdateAccountPeers ::
    "'u account_env \<Rightarrow> ('r, 'z) redis_api_scheme \<Rightarrow> 'r \<Rightarrow> 'u Controller \<Rightarrow> string
      \<Rightarrow> ('u Controller \<times> 'r \<times> update_error option) option" where
  "UpdateAccountPeers env api r c accountID =
     (if \<not> recalculate env accountID then Some (c, r, Some RecalculateFailed)
      else sendUpdateAccountPeers env api r c accountID)"

definition HandleRemoteAccountUpdate ::
    "'u account_env \<Rightarrow> 'u Controller \<Rightarrow> string \<Rightarrow> ('u Controller \<times> update_error option) option" where
  "HandleRemoteAccountUpdate env c accountID =
     (if \<not> recalculate env accountID then Some (c, Some RecalculateFailed)
      else sendUpdateToLocalAccountPeers env c accountID)"

text \<open>
  The body of the loop of \<open>SubscribeToAccountUpdates\<close>: the account for which a message on a
  channel calls the handler. The subscription pattern is the prefix followed by a star.
\<close>

definition account_message :: "string \<Rightarrow> string \<Rightarrow> string option" where
  "account_message pfx chan =
     (let accountID = TrimPrefix chan pfx in if accountID = '''' then None else Some accountID)"

section \<open>Buffered requests\<close>

text \<open>
  \<open>BufferUpdateAccountPeers\<close> and \<open>bufferSendUpdateAccountPeers\<close>, which differ only in the update
  they run. The state of an account is the mutex (held exactly while the goroutine runs), the
  flag \<open>update\<close> and the timer \<open>next\<close>; \<open>pc\<close> is the place of the goroutine. Every step is one atomic
  action of the code, so requests can come between any two of them.

  Two fields are for the statement only: \<open>unserved\<close> says that a request came after the account
  was last read for an update, \<open>in_window\<close> that the latest request came after the goroutine had
  loaded the flag for the last time, without a timer pending.
\<close>

datatype routine_pc = NoRoutine | Running | Loading | Clearing | Scheduling | Unlocking

record bufferUpdate =
  pc :: routine_pc
  update_flag :: bool
  timer_pending :: bool
  unserved :: bool
  in_window :: bool


inductive buf_step :: "bufferUpdate \<Rightarrow> bufferUpdate \<Rightarrow> bool" where
  request_busy: "pc b \<noteq> NoRoutine \<Longrightarrow>
    buf_step b (b\<lparr>update_flag := True, unserved := True, in_window := (pc b = Unlocking \<and> \<not> timer_pending b)\<rparr>)"
| request_free: "pc b = NoRoutine \<Longrightarrow>
    buf_step b (b\<lparr>pc := Running, timer_pending := False, unserved := True, in_window := False\<rparr>)"
| run: "pc b = Running \<Longrightarrow> buf_step b (b\<lparr>pc := Loading, unserved := False, in_window := False\<rparr>)"
| load_false: "pc b = Loading \<Longrightarrow> \<not> update_flag b \<Longrightarrow> buf_step b (b\<lparr>pc := Unlocking\<rparr>)"
| load_true: "pc b = Loading \<Longrightarrow> update_flag b \<Longrightarrow> buf_step b (b\<lparr>pc := Clearing\<rparr>)"
| clear: "pc b = Clearing \<Longrightarrow> buf_step b (b\<lparr>pc := Scheduling, update_flag := False\<rparr>)"
| schedule: "pc b = Scheduling \<Longrightarrow> buf_step b (b\<lparr>pc := Unlocking, timer_pending := True\<rparr>)"
| unlock: "pc b = Unlocking \<Longrightarrow> buf_step b (b\<lparr>pc := NoRoutine\<rparr>)"
| fire: "timer_pending b \<Longrightarrow> buf_step b (b\<lparr>timer_pending := False, unserved := False, in_window := False\<rparr>)"



inductive_cases buf_stepE: "buf_step b b'"



section \<open>Properties\<close>


text \<open>What the update of an account does to the channel of one of its peers.\<close>

definition told :: "'u account_env \<Rightarrow> string \<Rightarrow> string \<Rightarrow> 'u channel \<Rightarrow> 'u channel" where
  "told env acc x ch =
     (case peer_update env acc x of
        Some u \<Rightarrow>
          if length (buffer ch) < channelBufferSize
          then ch\<lparr>buffer := buffer ch @ [\<lparr>Update = u, MessageType = MessageTypeNetworkMap\<rparr>]\<rparr> else ch
      | None \<Rightarrow> ch)"

lemma SendUpdate_told:
  assumes ok: "um_ok m" and b: "peerChannels m y = Some b" and u: "peer_update env acc y = Some u"
  shows "\<exists>m' f. SendUpdate m y \<lparr>Update = u, MessageType = MessageTypeNetworkMap\<rparr> = Some (m', f) \<and> um_ok m' \<and>
    peerChannels m' = peerChannels m \<and> heap m' = (heap m)(b := map_option (told env acc y) (heap m b))"
proof -
  obtain c where c: "heap m b = Some c" "\<not> closed c" using um_okD(1) [OF ok b] by blast
  have "um_ok (m\<lparr>heap := (heap m)(b \<mapsto> c\<lparr>buffer := buffer c @ [x]\<rparr>)\<rparr>)" if "length (buffer c) < 100" for x
    using heap_update_ok [OF ok c(1)] that by simp
  then show ?thesis using b c u ok by (auto simp: SendUpdate_def told_def fun_upd_idem)
qed

lemma send_loop_told:
  assumes "um_ok m" and "distinct ps"
  shows "\<exists>m'. send_loop env acc m ps = Some m' \<and> peerChannels m' = peerChannels m \<and>
    (\<forall>x a. peerChannels m x = Some a \<longrightarrow> heap m' a = map_option (if x \<in> set ps then told env acc x else id) (heap m a)) \<and>
    (\<forall>a. a \<notin> ran (peerChannels m) \<longrightarrow> heap m' a = heap m a)"
  using assms
proof (induction ps arbitrary: m)
  case Nil
  then show ?case by (simp add: option.map_id option.map_ident)
next
  case (Cons y ps)
  have skip: ?case if "send_loop env acc m (y # ps) = send_loop env acc m ps"
    and same: "\<And>a. peerChannels m y = Some a \<Longrightarrow> told env acc y = id"
  proof -
    have "(if x \<in> set (y # ps) then told env acc x else id) = (if x \<in> set ps then told env acc x else id)"
      if "peerChannels m x = Some a" for x a
      using same that Cons.prems(2) by (cases "x = y") auto
    then show ?thesis using Cons.IH [OF Cons.prems(1)] Cons.prems(2) that(1) by auto
  qed
  show ?case
  proof (cases "peerChannels m y")
    case None
    with skip show ?thesis by (simp add: HasChannel_def)
  next
    case b: (Some b)
    show ?thesis
    proof (cases "peer_update env acc y")
      case None
      then have "told env acc y = id" by (simp add: told_def fun_eq_iff)
      with skip None b show ?thesis by (simp add: HasChannel_def)
    next
      case (Some u)
      obtain m1 f where s: "SendUpdate m y \<lparr>Update = u, MessageType = MessageTypeNetworkMap\<rparr> = Some (m1, f)" "um_ok m1"
          and pc: "peerChannels m1 = peerChannels m" and h: "heap m1 = (heap m)(b := map_option (told env acc y) (heap m b))"
        using SendUpdate_told [OF Cons.prems(1) b Some] by blast
      obtain m' where m': "send_loop env acc m1 ps = Some m'" "peerChannels m' = peerChannels m"
          and own: "\<And>x a. peerChannels m x = Some a \<Longrightarrow> heap m' a = map_option (if x \<in> set ps then told env acc x else id) (heap m1 a)"
          and rest: "\<And>a. a \<notin> ran (peerChannels m) \<Longrightarrow> heap m' a = heap m1 a"
        using Cons.IH [OF s(2)] Cons.prems(2) unfolding pc by auto
      have "heap m' a = map_option (if x \<in> set (y # ps) then told env acc x else id) (heap m a)" if x: "peerChannels m x = Some a" for x a
      proof (cases "x = y")
        case True
        then show ?thesis using own [OF x] Cons.prems(2) b x h by (simp add: option.map_id option.map_ident)
      next
        case False
        then have "a \<noteq> b" using um_okD(2) [OF Cons.prems(1) x] b by blast
        then show ?thesis using own [OF x] False h by simp
      qed
      moreover have "heap m' a = heap m a" if "a \<notin> ran (peerChannels m)" for a
        using rest [OF that] that b h by (auto simp: ran_def)
      moreover have "send_loop env acc m (y # ps) = Some m'" using m'(1) s(1) b Some by (simp add: HasChannel_def)
      ultimately show ?thesis using m'(2) by blast
    qed
  qed
qed

text \<open>The parameters of an instance on which nothing fails for the account.\<close>

definition env_ok :: "'u account_env \<Rightarrow> string \<Rightarrow> bool" where
  "env_ok env acc \<longleftrightarrow> recalculate env acc \<and> validated_peers env acc \<and> proxy_network_maps env acc \<and>
     extra_settings env acc \<and> account_zones env acc"

lemma local_update:
  assumes "um_ok (ctl_manager c)" and "env_ok env acc" and "account_peers env acc = Some (Inr peers)" and "distinct peers"
  shows "\<exists>m'. sendUpdateToLocalAccountPeers env c acc = Some (c\<lparr>ctl_manager := m'\<rparr>, None) \<and>
    peerChannels m' = peerChannels (ctl_manager c) \<and>
    (\<forall>x a. peerChannels m' x = Some a \<longrightarrow>
       heap m' a = map_option (if x \<in> set peers then told env acc x else id) (heap (ctl_manager c) a)) \<and>
    (\<forall>a. a \<notin> ran (peerChannels m') \<longrightarrow> heap m' a = heap (ctl_manager c) a)"
proof (cases "list_ex (HasChannel (ctl_manager c)) peers")
  case True
  then have "sendUpdateToLocalAccountPeers env c acc =
      map_option (\<lambda>m. (c\<lparr>ctl_manager := m\<rparr>, None)) (send_loop env acc (ctl_manager c) peers)"
    using assms(2,3) by (simp add: sendUpdateToLocalAccountPeers_def env_ok_def)
  with send_loop_told [OF assms(1,4), of env acc] show ?thesis by auto
next
  case False
  then have "x \<notin> set peers" if "peerChannels (ctl_manager c) x = Some a" for x a
    using that by (auto simp: list_ex_iff HasChannel_def)
  moreover have "sendUpdateToLocalAccountPeers env c acc = Some (c\<lparr>ctl_manager := ctl_manager c\<rparr>, None)"
    using False assms(3) by (simp add: sendUpdateToLocalAccountPeers_def)
  ultimately show ?thesis by (intro exI [of _ "ctl_manager c"]) (auto simp: option.map_id option.map_ident)
qed

text \<open>
  C18. What an update of an account does. When nothing the update needs fails, for any state of the channels: \<open>UpdateAccountPeers\<close> succeeds,
  appends exactly one network map, the one computed for the peer, to the channel of every connected peer of the account that has
  room (and whose map could be computed), and changes no other channel. Handling the update of another instance does the same. Without
  a publisher Redis is not touched; with one and a Redis that is up, exactly one message is published, from which a
  subscriber with the same prefix reads the account.
\<close>

theorem account_update_delivers:
  assumes "um_ok (ctl_manager c)" and "env_ok env acc" and "account_peers env acc = Some (Inr peers)" and "distinct peers"
  shows "\<exists>m' r'. UpdateAccountPeers env api r c acc = Some (c\<lparr>ctl_manager := m'\<rparr>, r', None) \<and>
    HandleRemoteAccountUpdate env c acc = Some (c\<lparr>ctl_manager := m'\<rparr>, None) \<and>
    peerChannels m' = peerChannels (ctl_manager c) \<and>
    (\<forall>x a. peerChannels m' x = Some a \<longrightarrow>
       heap m' a = map_option (if x \<in> set peers then told env acc x else id) (heap (ctl_manager c) a)) \<and>
    (\<forall>a. a \<notin> ran (peerChannels m') \<longrightarrow> heap m' a = heap (ctl_manager c) a) \<and>
    (if haRedisClient c \<and> accountChannelPrefix c \<noteq> ''''
     then pubsub_laws api pv \<and> redis_up api \<and> acc \<noteq> '''' \<longrightarrow>
       (\<exists>chan payload. pv r' = pv r @ [(chan, payload)] \<and> account_message (accountChannelPrefix c) chan = Some acc)
     else r' = r)"
proof -
  obtain m' where m': "sendUpdateToLocalAccountPeers env c acc = Some (c\<lparr>ctl_manager := m'\<rparr>, None)"
      "peerChannels m' = peerChannels (ctl_manager c)"
      "\<forall>x a. peerChannels m' x = Some a \<longrightarrow>
         heap m' a = map_option (if x \<in> set peers then told env acc x else id) (heap (ctl_manager c) a)"
      "\<forall>a. a \<notin> ran (peerChannels m') \<longrightarrow> heap m' a = heap (ctl_manager c) a"
    using local_update [OF assms] by blast
  have run: "UpdateAccountPeers env api r c acc = Some (c\<lparr>ctl_manager := m'\<rparr>, publishAccountUpdate api r c acc, None)"
      "HandleRemoteAccountUpdate env c acc = Some (c\<lparr>ctl_manager := m'\<rparr>, None)"
    using m'(1) assms(2)
    by (simp_all add: UpdateAccountPeers_def sendUpdateAccountPeers_def HandleRemoteAccountUpdate_def env_ok_def publishAccountUpdate_def)
  have pub: "\<exists>chan payload. pv (publishAccountUpdate api r c acc) = pv r @ [(chan, payload)] \<and>
      account_message (accountChannelPrefix c) chan = Some acc"
    if on: "haRedisClient c" "accountChannelPrefix c \<noteq> ''''" "pubsub_laws api pv" "redis_up api" "acc \<noteq> ''''"
  proof -
    obtain r1 where "Publish api r (accountChannelPrefix c @ acc) ''account_updated'' = (r1, None)"
        "pv r1 = pv r @ [(accountChannelPrefix c @ acc, ''account_updated'')]"
      by (rule Publish_up [OF on(3,4)])
    with on show ?thesis by (simp add: publishAccountUpdate_def account_message_def)
  qed
  show ?thesis
    using m'(2-4) run pub
    by (intro exI [of _ m'] exI [of _ "publishAccountUpdate api r c acc"]) (auto simp: publishAccountUpdate_def)
qed

definition demo_env :: "nat account_env" where
  "demo_env = \<lparr>recalculate = (\<lambda>a. True), experimentalNetworkMap = (\<lambda>a. False), holder_account = (\<lambda>a. None),
     get_account = (\<lambda>a. Some [''p'', ''q'']), validated_peers = (\<lambda>a. True),
     proxy_network_maps = (\<lambda>a. True), extra_settings = (\<lambda>a. True), account_zones = (\<lambda>a. True),
     peer_update = (\<lambda>a x. Some 7)\<rparr>"

theorem account_update_delivers_witness:
  "\<exists>p ch m' r' chan payload. CreateChannel NewPeersUpdateManager ''q'' = Some (p, ch) \<and>
     UpdateAccountPeers demo_env mem_redis empty_server
       \<lparr>ctl_manager = p, haRedisClient = True, accountChannelPrefix = ''nb:mgmt:account:''\<rparr> ''acc'' =
         Some (\<lparr>ctl_manager = m', haRedisClient = True, accountChannelPrefix = ''nb:mgmt:account:''\<rparr>, r', None) \<and>
     mem_pub r' = [(chan, payload)] \<and> account_message ''nb:mgmt:account:'' chan = Some ''acc'' \<and>
     heap m' ch = Some \<lparr>buffer = [\<lparr>Update = 7, MessageType = MessageTypeNetworkMap\<rparr>], closed = False\<rparr>"
proof -
  obtain p ch where p: "CreateChannel (NewPeersUpdateManager :: nat PeersUpdateManager) ''q'' = Some (p, ch)" "um_ok p"
      "peerChannels p ''q'' = Some ch" "heap p ch = Some \<lparr>buffer = [], closed = False\<rparr>"
    using CreateChannel_ok [OF um_ok_New [where 'u = nat], of "''q''"] by auto
  let ?c = "\<lparr>ctl_manager = p, haRedisClient = True, accountChannelPrefix = ''nb:mgmt:account:''\<rparr>"
  have "um_ok (ctl_manager ?c)" "env_ok demo_env ''acc''" "account_peers demo_env ''acc'' = Some (Inr [''p'', ''q''])" "distinct [''p'', ''q'']"
    using p(2) by (simp_all add: env_ok_def demo_env_def account_peers_def)
  from account_update_delivers [OF this, of mem_redis empty_server mem_pub] mem_pubsub_laws mem_redis_up
  obtain m' r' chan payload where
    "UpdateAccountPeers demo_env mem_redis empty_server ?c ''acc'' = Some (?c\<lparr>ctl_manager := m'\<rparr>, r', None)"
    "peerChannels m' = peerChannels p"
    "\<And>x a. peerChannels m' x = Some a \<Longrightarrow> heap m' a = map_option (if x \<in> set [''p'', ''q''] then told demo_env ''acc'' x else id) (heap p a)"
    "mem_pub r' = mem_pub empty_server @ [(chan, payload)]" "account_message ''nb:mgmt:account:'' chan = Some ''acc''"
    by auto
  with p show ?thesis
    by (intro exI [of _ p] exI [of _ ch] exI [of _ m'] exI [of _ r'] exI [of _ chan] exI [of _ payload])
       (simp add: told_def demo_env_def empty_server_def)
qed

end
