(* ===== verification/GoNet.thy ===== *)
theory GoNet
  imports GoLib
begin

text \<open>
  The part of Go's packages \<open>net\<close> and \<open>net/netip\<close> the modelled code calls: addresses, prefixes, their
  text forms and the parsers of these. A \<open>net.IP\<close> is nil, four bytes or sixteen bytes, here the number
  with these bytes in network order; a \<open>netip.Addr\<close> is the type \<^typ>\<open>Addr\<close>.
\<close>

unbundle bit_operations_syntax

section \<open>Addresses\<close>

datatype IP = NilIP | IP4 "32 word" | IP16 "128 word"

definition mapped :: "32 word \<Rightarrow> 128 word" where
  "mapped w = push_bit 32 0xffff OR ucast w"

definition To4 :: "IP \<Rightarrow> 32 word option" where
  "To4 ip = (case ip of NilIP \<Rightarrow> None | IP4 w \<Rightarrow> Some w | IP16 v \<Rightarrow> if v = mapped (ucast v) then Some (ucast v) else None)"

definition BitLen :: "Addr \<Rightarrow> nat" where
  "BitLen a = (case a of NoAddr \<Rightarrow> 0 | Addr4 w \<Rightarrow> 32 | Addr6 v z \<Rightarrow> 128)"

definition Is4 :: "Addr \<Rightarrow> bool" where
  "Is4 a = (case a of Addr4 w \<Rightarrow> True | _ \<Rightarrow> False)"

definition is_Addr6 :: "Addr \<Rightarrow> bool" where
  "is_Addr6 a = (case a of Addr6 v z \<Rightarrow> True | _ \<Rightarrow> False)"

definition addr_Unmap :: "Addr \<Rightarrow> Addr" where
  "addr_Unmap a = (case a of Addr6 v z \<Rightarrow> if v = mapped (ucast v) then Addr4 (ucast v) else a | _ \<Rightarrow> a)"

definition AsSlice :: "Addr \<Rightarrow> IP" where
  "AsSlice a = (case a of NoAddr \<Rightarrow> NilIP | Addr4 w \<Rightarrow> IP4 w | Addr6 v z \<Rightarrow> IP16 v)"

definition AddrFromSlice :: "IP \<Rightarrow> Addr" where
  "AddrFromSlice ip = (case ip of NilIP \<Rightarrow> NoAddr | IP4 w \<Rightarrow> Addr4 w | IP16 v \<Rightarrow> Addr6 v [])"

text \<open>The bytes of a number in network order, and back.\<close>

definition be_bytes :: "nat \<Rightarrow> 'a :: len word \<Rightarrow> bytes" where
  "be_bytes n w = map (\<lambda>i. ucast (drop_bit (8 * i) w)) (rev [0..<n])"

definition be_word :: "bytes \<Rightarrow> 'a :: len word" where
  "be_word bs = foldl (\<lambda>acc b. push_bit 8 acc OR ucast b) 0 bs"

text \<open>\<open>Compare\<close> orders by the length of the address, then by the address, then by the zone.\<close>

definition addr_rank :: "Addr \<Rightarrow> nat \<times> nat \<times> string" where
  "addr_rank a = (case a of NoAddr \<Rightarrow> (0, 0, []) | Addr4 w \<Rightarrow> (32, unat w, []) | Addr6 v z \<Rightarrow> (128, unat v, z))"

fun string_less :: "string \<Rightarrow> string \<Rightarrow> bool" where
  "string_less xs [] = False"
| "string_less [] (y # ys) = True"
| "string_less (x # xs) (y # ys) =
     ((of_char x :: nat) < of_char y \<or> x = y \<and> string_less xs ys)"

definition Addr_Less :: "Addr \<Rightarrow> Addr \<Rightarrow> bool" where
  "Addr_Less a b =
     (case (addr_rank a, addr_rank b) of
        ((l1, n1, z1), (l2, n2, z2)) \<Rightarrow> l1 < l2 \<or> l1 = l2 \<and> (n1 < n2 \<or> n1 = n2 \<and> string_less z1 z2))"

section \<open>Prefixes\<close>

record Prefix =
  pfx_Addr :: Addr
  pfx_Bits :: nat

definition Prefix_IsValid :: "Prefix \<Rightarrow> bool" where
  "Prefix_IsValid p \<longleftrightarrow> pfx_Addr p \<noteq> NoAddr \<and> pfx_Bits p \<le> BitLen (pfx_Addr p)"

definition Masked :: "Prefix \<Rightarrow> Addr" where
  "Masked p =
     (case pfx_Addr p of
        NoAddr \<Rightarrow> NoAddr
      | Addr4 w \<Rightarrow> Addr4 (w AND NOT (mask (32 - pfx_Bits p)))
      | Addr6 v z \<Rightarrow> Addr6 (v AND NOT (mask (128 - pfx_Bits p))) [])"

definition Contains :: "Prefix \<Rightarrow> Addr \<Rightarrow> bool" where
  "Contains p a =
     (Prefix_IsValid p \<and>
      (case (pfx_Addr p, a) of
         (Addr4 w, Addr4 x) \<Rightarrow> drop_bit (32 - pfx_Bits p) (x XOR w) = 0
       | (Addr6 v z, Addr6 x y) \<Rightarrow> y = [] \<and> drop_bit (128 - pfx_Bits p) (x XOR v) = 0
       | _ \<Rightarrow> False))"

section \<open>Text\<close>

definition IP_String :: "32 word \<Rightarrow> string" where
  "IP_String w = itoa (unat (drop_bit 24 w)) @ ''.'' @ itoa (unat (take_bit 8 (drop_bit 16 w))) @ ''.'' @
     itoa (unat (take_bit 8 (drop_bit 8 w))) @ ''.'' @ itoa (unat (take_bit 8 w))"

fun hex_text :: "nat \<Rightarrow> string" where
  "hex_text n = (if n < 16 then [digit_char n] else hex_text (n div 16) @ [digit_char (n mod 16)])"

declare hex_text.simps [simp del]

definition v6_groups :: "128 word \<Rightarrow> nat list" where
  "v6_groups v = map (\<lambda>i. unat (take_bit 16 (drop_bit (16 * i) v))) (rev [0..<8])"

text \<open>The first of the longest runs of at least two zero groups, as start and end.\<close>

definition zero_run :: "nat list \<Rightarrow> (nat \<times> nat) option" where
  "zero_run gs =
     foldl (\<lambda>best i.
         let l = length (takeWhile (\<lambda>g. g = 0) (drop i gs)) in
         if 2 \<le> l \<and> (case best of None \<Rightarrow> True | Some (a, b) \<Rightarrow> b - a < l) then Some (i, i + l) else best)
       None [0..<8]"

fun join_colon :: "string list \<Rightarrow> string" where
  "join_colon [] = []"
| "join_colon [x] = x"
| "join_colon (x # y # ys) = x @ '':'' @ join_colon (y # ys)"

definition v6_string :: "128 word \<Rightarrow> string" where
  "v6_string v =
     (let gs = v6_groups v in
      case zero_run gs of
        None \<Rightarrow> join_colon (map hex_text gs)
      | Some (a, b) \<Rightarrow> join_colon (map hex_text (take a gs)) @ ''::'' @ join_colon (map hex_text (drop b gs)))"

definition Addr_String :: "Addr \<Rightarrow> string" where
  "Addr_String a =
     (case a of
        NoAddr \<Rightarrow> ''invalid IP''
      | Addr4 w \<Rightarrow> IP_String w
      | Addr6 v z \<Rightarrow>
          (if v = mapped (ucast v) then ''::ffff:'' @ IP_String (ucast v) else v6_string v) @
          (if z = [] then [] else CHR ''%'' # z))"

definition net_IP_String :: "IP \<Rightarrow> string" where
  "net_IP_String ip =
     (case To4 ip of
        Some w \<Rightarrow> IP_String w
      | None \<Rightarrow> (case ip of IP16 v \<Rightarrow> v6_string v | _ \<Rightarrow> ''<nil>''))"

definition Prefix_String :: "Prefix \<Rightarrow> string" where
  "Prefix_String p =
     (if Prefix_IsValid p then Addr_String (pfx_Addr p) @ ''/'' @ itoa (pfx_Bits p) else ''invalid Prefix'')"

section \<open>Parsers\<close>

definition parse_octet :: "string \<Rightarrow> nat option" where
  "parse_octet s =
     (if s = [] \<or> 1 < length s \<and> hd s = CHR ''0'' then None
      else case parse_digits s 0 of Some n \<Rightarrow> if n \<le> 255 then Some n else None | None \<Rightarrow> None)"

definition parseIPv4 :: "string \<Rightarrow> 32 word option" where
  "parseIPv4 s =
     (case map parse_octet (Split s CHR ''.'') of
        [Some a, Some b, Some c, Some d] \<Rightarrow> Some (word_of_nat (((a * 256 + b) * 256 + c) * 256 + d))
      | _ \<Rightarrow> None)"

definition hex_value :: "char \<Rightarrow> nat option" where
  "hex_value c =
     (let n = (of_char c :: nat) in
      if 48 \<le> n \<and> n \<le> 57 then Some (n - 48)
      else if 97 \<le> n \<and> n \<le> 102 then Some (n - 87)
      else if 65 \<le> n \<and> n \<le> 70 then Some (n - 55)
      else None)"

definition hex_number :: "string \<Rightarrow> nat" where
  "hex_number s = foldl (\<lambda>acc c. 16 * acc + (case hex_value c of Some d \<Rightarrow> d | None \<Rightarrow> 0)) 0 s"

text \<open>
  The loop over the groups of an IPv6 address: at most \<open>n\<close> more groups follow, \<open>acc\<close> holds the bytes so
  far and \<open>ell\<close> the place of the ellipsis.
\<close>

fun v6_loop :: "nat \<Rightarrow> string \<Rightarrow> bytes \<Rightarrow> nat option \<Rightarrow> (bytes \<times> nat option) option" where
  "v6_loop 0 s acc ell = (if s = [] then Some (acc, ell) else None)"
| "v6_loop (Suc n) s acc ell =
     (let ds = takeWhile (\<lambda>c. hex_value c \<noteq> None) s;
          rest = dropWhile (\<lambda>c. hex_value c \<noteq> None) s;
          acc' = acc @ be_bytes 2 (word_of_nat (hex_number ds) :: 16 word)
      in if ds = [] \<or> 4 < length ds then None
         else case rest of
           [] \<Rightarrow> Some (acc', ell)
         | c # cs \<Rightarrow>
             if c = CHR ''.'' then
               (if ell = None \<and> length acc \<noteq> 12 \<or> 12 < length acc then None
                else case parseIPv4 s of None \<Rightarrow> None | Some w \<Rightarrow> Some (acc @ be_bytes 4 w, ell))
             else if c \<noteq> CHR '':'' \<or> cs = [] then None
             else if hd cs = CHR '':'' then
               (if ell \<noteq> None then None
                else if tl cs = [] then Some (acc', Some (length acc'))
                else v6_loop n (tl cs) acc' (Some (length acc')))
             else v6_loop n cs acc' ell)"

definition v6_expand :: "bytes \<times> nat option \<Rightarrow> bytes option" where
  "v6_expand r =
     (case r of
        (acc, None) \<Rightarrow> if length acc < 16 then None else Some acc
      | (acc, Some e) \<Rightarrow>
          if length acc < 16 then Some (take e acc @ replicate (16 - length acc) 0 @ drop e acc) else None)"

definition parseIPv6 :: "string \<Rightarrow> Addr option" where
  "parseIPv6 t =
     (let s = takeWhile (\<lambda>c. c \<noteq> CHR ''%'') t; zone = tl (dropWhile (\<lambda>c. c \<noteq> CHR ''%'') t) in
      if CHR ''%'' \<in> set t \<and> zone = [] then None
      else if s = ''::'' then Some (Addr6 0 zone)
      else
        let (start, ell) = (if HasPrefix s ''::'' then (drop 2 s, Some 0) else (s, None))
        in map_option (\<lambda>bs. Addr6 (be_word bs) zone) (Option.bind (v6_loop 8 start [] ell) v6_expand))"

definition ParseAddr :: "string \<Rightarrow> Addr option" where
  "ParseAddr s =
     (case dropWhile (\<lambda>c. c \<notin> {CHR ''.'', CHR '':'', CHR ''%''}) s of
        [] \<Rightarrow> None
      | c # _ \<Rightarrow>
          if c = CHR ''.'' then map_option Addr4 (parseIPv4 s)
          else if c = CHR '':'' then parseIPv6 s
          else None)"

text \<open>\<open>net.ParseIP\<close> returns sixteen bytes, and nil for a text with a zone.\<close>

definition ParseIP :: "string \<Rightarrow> IP" where
  "ParseIP s =
     (case ParseAddr s of
        Some (Addr4 w) \<Rightarrow> IP16 (mapped w)
      | Some (Addr6 v []) \<Rightarrow> IP16 v
      | _ \<Rightarrow> NilIP)"

definition ParsePrefix :: "string \<Rightarrow> Prefix option" where
  "ParsePrefix s =
     (if CHR ''/'' \<notin> set s then None
      else
        let bitsStr = rev (takeWhile (\<lambda>c. c \<noteq> CHR ''/'') (rev s));
            ipStr = rev (tl (dropWhile (\<lambda>c. c \<noteq> CHR ''/'') (rev s)))
        in case ParseAddr ipStr of
             None \<Rightarrow> None
           | Some a \<Rightarrow>
               if (case a of Addr6 v z \<Rightarrow> z \<noteq> [] | _ \<Rightarrow> False) then None
               else if 1 < length bitsStr \<and> hd bitsStr \<notin> set ''123456789'' then None
               else case ParseInt bitsStr of
                 None \<Rightarrow> None
               | Some bits \<Rightarrow>
                   if bits < 0 \<or> int (BitLen a) < bits then None else Some \<lparr>pfx_Addr = a, pfx_Bits = nat bits\<rparr>)"

section \<open>Lemmas\<close>

lemma Split_append: "c \<notin> set xs \<Longrightarrow> Split (xs @ c # ys) c = xs # Split ys c"
  by (induction xs) auto

lemma Split_single: "c \<notin> set xs \<Longrightarrow> Split xs c = [xs]"
  by (induction xs) auto

lemma itoa_no_sep: "c \<in> {CHR ''.'', CHR '':'', CHR ''%'', CHR ''/''} \<Longrightarrow> c \<notin> set (itoa n)"
  using itoa_digits [of c n] by auto

lemma hd_itoa: "0 < n \<Longrightarrow> hd (itoa n) \<noteq> CHR ''0''"
proof (induction n rule: itoa.induct)
  case (1 n)
  show ?case
  proof (cases "n < 10")
    case True
    have "(of_char (digit_char n) :: nat) \<noteq> of_char CHR ''0''" using True 1(2) of_digit_char [of n] by simp
    then have "digit_char n \<noteq> CHR ''0''" by auto
    then show ?thesis using True by (simp add: itoa.simps [of n])
  next
    case False
    then show ?thesis using 1(1) by (simp add: itoa.simps [of n])
  qed
qed

lemma parse_octet_itoa: "n \<le> 255 \<Longrightarrow> parse_octet (itoa n) = Some n"
  using hd_itoa [of n] by (cases "n = 0") (simp_all add: parse_octet_def parse_digits_itoa, simp add: itoa.simps [of 0])

lemma unat_octet:
  "unat (take_bit 8 (drop_bit k (w :: 32 word))) = unat w div 2 ^ k mod 256"
  unfolding unsigned_take_bit_eq unat_drop_bit_eq by (simp add: take_bit_eq_mod drop_bit_eq_div)

lemma octets_sum: "((n div 256 div 256 div 256 * 256 + n div 256 div 256 mod 256) * 256 + n div 256 mod 256) * 256 + n mod 256 = (n :: nat)"
  by (simp only: div_mult_mod_eq)

lemma parseIPv4_IP_String: "parseIPv4 (IP_String w) = Some w"
proof -
  have lt: "unat w < 2 ^ 32" using unsigned_less [of w] by simp
  have hi: "unat (drop_bit 24 w) = unat w div 2 ^ 24"
    unfolding unat_drop_bit_eq by (simp add: drop_bit_eq_div)
  have sum: "((unat w div 2 ^ 24 * 256 + unat w div 2 ^ 16 mod 256) * 256 + unat w div 2 ^ 8 mod 256) * 256 + unat w mod 256 = unat w"
    using octets_sum [of "unat w"] by (simp add: div_mult2_eq [symmetric])
  have "unat w div 2 ^ 24 \<le> 255" using lt by simp
  moreover have "unat (take_bit 8 w) = unat w mod 256" using unat_octet [of 0 w] by simp
  moreover have "m mod 256 \<le> 255" for m :: nat using mod_less_divisor [of 256 m] by (simp add: less_Suc_eq_le [symmetric])
  ultimately have "map parse_octet (Split (IP_String w) CHR ''.'') =
      [Some (unat w div 2 ^ 24), Some (unat w div 2 ^ 16 mod 256), Some (unat w div 2 ^ 8 mod 256), Some (unat w mod 256)]"
    by (simp add: IP_String_def Split_append Split_single itoa_no_sep parse_octet_itoa hi unat_octet)
  then have "parseIPv4 (IP_String w) = Some (word_of_nat (unat w))"
    unfolding parseIPv4_def by (simp only: list.case option.case sum)
  then show ?thesis by simp
qed

lemma ParseAddr_IP_String: "ParseAddr (IP_String w) = Some (Addr4 w)"
proof -
  have "dropWhile (\<lambda>c. c \<notin> {CHR ''.'', CHR '':'', CHR ''%''}) (itoa n @ CHR ''.'' # s) = CHR ''.'' # s" for n s
    using itoa_no_sep [of _ n] by (subst dropWhile_append2) auto
  then show ?thesis using parseIPv4_IP_String [of w]
    by (simp add: ParseAddr_def) (simp add: IP_String_def)
qed

lemma ParseIP_IP_String: "ParseIP (IP_String w) = IP16 (mapped w)"
  by (simp add: ParseIP_def ParseAddr_IP_String)

lemma IP_String_inject [simp]: "IP_String v = IP_String w \<longleftrightarrow> v = w"
  by (metis ParseAddr_IP_String Addr.inject(1) option.inject)

lemma ucast_low: "ucast (push_bit 32 x OR ucast w :: 128 word) = (w :: 32 word)"
  by (rule bit_word_eqI) (simp add: bit_simps)

lemma ucast_mapped [simp]: "ucast (mapped w) = w"
  unfolding mapped_def by (rule ucast_low)

lemma To4_mapped [simp]: "To4 (IP16 (mapped w)) = Some w"
  by (simp add: To4_def)

end
