(* ===== verification/AccountTypes.thy ===== *)
theory AccountTypes
  imports RouteSelection GoNet "HOL-Library.AList"
begin

text \<open>
  The data of an account in the management server and the small operations on it: peers
  (\<open>management/server/peer/peer.go\<close>), groups, policies and their rules, firewall rules, network routers
  and resources, name server groups and zones (\<open>management/server/types\<close>, \<open>management/server/networks\<close>,
  \<open>dns\<close>).

  A Go map that the code iterates over is an association list; its order stands for the order of the
  iteration, and every statement holds for all orders. A map used only as a set is a set. Of a peer, a
  user or a group the model keeps the fields the network map reads. A posture check, an interface
  value in Go, is the function \<open>Check\<close> computes on a peer. Peer addresses are IPv4 addresses, as
  \<open>AllocatePeerIP\<close> hands them out.
\<close>

section \<open>Peers\<close>

record nbpeer =
  peer_ID :: string
  peer_Key :: string
  peer_IP :: "32 word"
  WtVersion :: string
  ServerSSHAllowed :: bool
  Embedded :: bool
  Cluster :: string
  UserID :: string
  SSHEnabled :: bool
  LoginExpirationEnabled :: bool
  InactivityExpirationEnabled :: bool
  LastLogin :: "time option"
  LastSeen :: time
  Connected :: bool

definition AddedWithSSOLogin :: "nbpeer \<Rightarrow> bool" where
  "AddedWithSSOLogin p = (UserID p \<noteq> '''')"

text \<open>The zero \<open>time.Time\<close> is the time \<open>zero_time\<close>, far before every login.\<close>

definition zero_time :: time where
  "zero_time = - 62135596800 * second"

definition GetLastLogin :: "nbpeer \<Rightarrow> time" where
  "GetLastLogin p = (case LastLogin p of Some t \<Rightarrow> t | None \<Rightarrow> zero_time)"

definition LoginExpired :: "time \<Rightarrow> nbpeer \<Rightarrow> duration \<Rightarrow> bool \<times> duration" where
  "LoginExpired now p expiresIn =
     (if \<not> AddedWithSSOLogin p \<or> \<not> LoginExpirationEnabled p then (False, 0)
      else let timeLeft = GetLastLogin p + expiresIn - now in (timeLeft \<le> 0, timeLeft))"

definition SessionExpired :: "time \<Rightarrow> nbpeer \<Rightarrow> duration \<Rightarrow> bool \<times> duration" where
  "SessionExpired now p expiresIn =
     (if \<not> AddedWithSSOLogin p \<or> \<not> InactivityExpirationEnabled p \<or> Connected p then (False, 0)
      else let timeLeft = LastSeen p + expiresIn - now in (timeLeft \<le> 0, timeLeft))"

section \<open>Groups\<close>

record Resource =
  resource_ID :: string
  resource_Type :: string

definition ResourceTypePeer :: string where
  "ResourceTypePeer = ''peer''"

definition is_peer_resource :: "Resource \<Rightarrow> bool" where
  "is_peer_resource r = (resource_Type r = ResourceTypePeer \<and> resource_ID r \<noteq> '''')"

record Group =
  group_ID :: string
  group_Name :: string
  group_Peers :: "string list"
  group_Resources :: "Resource list"

definition IsGroupAll :: "Group \<Rightarrow> bool" where
  "IsGroupAll g = (group_Name g = ''All'')"

definition HasPeers :: "Group \<Rightarrow> bool" where
  "HasPeers g = (group_Peers g \<noteq> [])"

definition AddPeerToGroup :: "Group \<Rightarrow> string \<Rightarrow> Group \<times> bool" where
  "AddPeerToGroup g peerID =
     (if peerID = '''' then (g, False)
      else if peerID \<in> set (group_Peers g) then (g, False)
      else (g\<lparr>group_Peers := group_Peers g @ [peerID]\<rparr>, True))"

definition RemovePeerFromGroup :: "Group \<Rightarrow> string \<Rightarrow> Group \<times> bool" where
  "RemovePeerFromGroup g peerID =
     (if peerID \<in> set (group_Peers g) then (g\<lparr>group_Peers := remove1 peerID (group_Peers g)\<rparr>, True) else (g, False))"

definition AddResource :: "Group \<Rightarrow> Resource \<Rightarrow> Group \<times> bool" where
  "AddResource g r =
     (if r \<in> set (group_Resources g) then (g, False) else (g\<lparr>group_Resources := group_Resources g @ [r]\<rparr>, True))"

definition RemoveResource :: "Group \<Rightarrow> Resource \<Rightarrow> Group \<times> bool" where
  "RemoveResource g r =
     (if r \<in> set (group_Resources g) then (g\<lparr>group_Resources := remove1 r (group_Resources g)\<rparr>, True) else (g, False))"

section \<open>Policies and firewall rules\<close>

record RulePortRange =
  Start :: "16 word"
  End :: "16 word"

definition PolicyRuleProtocolALL :: string where "PolicyRuleProtocolALL = ''all''"
definition PolicyRuleProtocolTCP :: string where "PolicyRuleProtocolTCP = ''tcp''"
definition PolicyRuleProtocolUDP :: string where "PolicyRuleProtocolUDP = ''udp''"
definition PolicyRuleProtocolICMP :: string where "PolicyRuleProtocolICMP = ''icmp''"
definition PolicyRuleProtocolNetbirdSSH :: string where "PolicyRuleProtocolNetbirdSSH = ''netbird-ssh''"
definition PolicyTrafficActionAccept :: string where "PolicyTrafficActionAccept = ''accept''"

record PolicyRule =
  rule_ID :: string
  rule_PolicyID :: string
  rule_Enabled :: bool
  Action :: string
  Destinations :: "string list"
  DestinationResource :: Resource
  Sources :: "string list"
  SourceResource :: Resource
  Bidirectional :: bool
  Protocol :: string
  Ports :: "string list"
  PortRanges :: "RulePortRange list"
  AuthorizedGroups :: "(string \<times> string list) list"
  AuthorizedUser :: string

record Policy =
  policy_ID :: string
  policy_Enabled :: bool
  Rules :: "PolicyRule list"
  SourcePostureChecks :: "string list"

definition upgrade_rule :: "PolicyRule \<Rightarrow> PolicyRule" where
  "upgrade_rule r =
     (let r = (if Protocol r = '''' then r\<lparr>Protocol := PolicyRuleProtocolALL\<rparr> else r)
      in if Protocol r = PolicyRuleProtocolALL \<and> \<not> Bidirectional r then r\<lparr>Bidirectional := True\<rparr> else r)"

definition UpgradeAndFix :: "Policy \<Rightarrow> Policy" where
  "UpgradeAndFix p = p\<lparr>Rules := map upgrade_rule (Rules p)\<rparr>"

definition RuleGroups :: "Policy \<Rightarrow> string list" where
  "RuleGroups p = concat (map (\<lambda>r. Sources r @ Destinations r) (Rules p))"

definition SourceGroups :: "(string list \<Rightarrow> string list) \<Rightarrow> Policy \<Rightarrow> string list" where
  "SourceGroups iter p =
     (case Rules p of
        [r] \<Rightarrow> Sources r
      | rs \<Rightarrow> iter (remdups (concat (map Sources rs))))"

record FirewallRule =
  PolicyID :: string
  PeerIP :: string
  Direction :: nat
  fw_Action :: string
  fw_Protocol :: string
  Port :: string
  PortRange :: RulePortRange

definition FirewallRuleDirectionIN :: nat where "FirewallRuleDirectionIN = 0"
definition FirewallRuleDirectionOUT :: nat where "FirewallRuleDirectionOUT = 1"

section \<open>Posture checks, users, routers, resources\<close>

record Checks =
  checks_ID :: string
  GetChecks :: "(nbpeer \<Rightarrow> bool) list"

record User =
  user_Id :: string
  Blocked :: bool
  IsServiceUser :: bool
  AutoGroups :: "string list"

record NetworkRouter =
  router_ID :: string
  router_NetworkID :: string
  router_Peer :: string
  router_PeerGroups :: "string list"
  router_Masquerade :: bool
  router_Metric :: int
  router_Enabled :: bool

datatype NetworkResourceType = Host | Subnet | DomainResource

record NetworkResource =
  nr_ID :: string
  nr_NetworkID :: string
  nr_Name :: string
  nr_Type :: NetworkResourceType
  nr_Domain :: string
  nr_Prefix :: string
  nr_Enabled :: bool

record NameServerGroup =
  nsg_ID :: string
  NameServers :: "Addr list"
  nsg_Groups :: "string list"
  nsg_Enabled :: bool

record SimpleRecord =
  record_Name :: string
  record_Type :: nat
  TTL :: int
  RData :: string

record CustomZone =
  zone_Domain :: string
  zone_Records :: "SimpleRecord list"
  SearchDomainDisabled :: bool
  NonAuthoritative :: bool

section \<open>Routes\<close>

text \<open>
  A route of the account extends the route of the client. \<open>Network\<close> and \<open>Domains\<close> are texts: the text of an
  IPv6 prefix is the one with a colon.
\<close>

record account_route = Route +
  route_ID :: string
  route_Peer :: string
  route_PeerID :: string
  route_PeerGroups :: "string list"
  route_Groups :: "string list"
  AccessControlGroups :: "string list"
  Masquerade :: bool
  Metric :: int
  KeepRoute :: bool
  route_Enabled :: bool

definition Is6 :: "string \<Rightarrow> bool" where
  "Is6 network = (CHR '':'' \<in> set network)"

definition IsDynamic :: "'r Route_scheme \<Rightarrow> bool" where
  "IsDynamic r = DomainNetwork r"

definition GetResourceID :: "account_route \<Rightarrow> string" where
  "GetResourceID r = hd (Split (route_ID r) CHR '':'')"

record RouteFirewallRule =
  rfr_PolicyID :: string
  rfr_RouteID :: string
  SourceRanges :: "string list"
  rfr_Action :: string
  rfr_Destination :: string
  rfr_Protocol :: string
  rfr_Port :: "16 word"
  rfr_PortRange :: RulePortRange
  rfr_Domains :: "string option"
  rfr_IsDynamic :: bool

section \<open>Accounts\<close>

record Account =
  Serial :: "64 word"
  Peers :: "(string \<times> nbpeer) list"
  Users :: "(string \<times> User) list"
  Groups :: "(string \<times> Group) list"
  Policies :: "Policy list"
  Routes :: "(string \<times> account_route) list"
  NameServerGroups :: "(string \<times> NameServerGroup) list"
  DisabledManagementGroups :: "string list"
  PostureChecks :: "Checks list"
  PeerLoginExpirationEnabled :: bool
  PeerLoginExpiration :: duration
  PeerInactivityExpirationEnabled :: bool
  PeerInactivityExpiration :: duration
  NetworkRouters :: "NetworkRouter list"
  NetworkResources :: "NetworkResource list"

definition GetPeer :: "Account \<Rightarrow> string \<Rightarrow> nbpeer option" where
  "GetPeer a peerID = map_of (Peers a) peerID"

definition GetGroup :: "Account \<Rightarrow> string \<Rightarrow> Group option" where
  "GetGroup a groupID = map_of (Groups a) groupID"

definition GetPostureChecks :: "Account \<Rightarrow> string \<Rightarrow> Checks option" where
  "GetPostureChecks a postureChecksID = find (\<lambda>c. checks_ID c = postureChecksID) (PostureChecks a)"

definition GetPeerGroups :: "Account \<Rightarrow> string \<Rightarrow> string set" where
  "GetPeerGroups a peerID = set (map fst (filter (\<lambda>(groupID, g). peerID \<in> set (group_Peers g)) (Groups a)))"

definition getAllowedUserIDs :: "Account \<Rightarrow> string set" where
  "getAllowedUserIDs a =
     set (map user_Id (filter (\<lambda>u. \<not> Blocked u \<and> \<not> IsServiceUser u) (map snd (Users a))))"

text \<open>
  An account as the store loads it: every map is keyed by the IDs of its values, and IDs are unique.
\<close>

definition keyed :: "Account \<Rightarrow> bool" where
  "keyed a \<longleftrightarrow>
     distinct (map fst (Peers a)) \<and> list_all (\<lambda>(k, p). peer_ID p = k) (Peers a) \<and>
     distinct (map fst (Groups a)) \<and> list_all (\<lambda>(k, g). group_ID g = k) (Groups a)"

section \<open>Lemmas\<close>

lemma set_map_filter [simp]: "set (List.map_filter f xs) = {y. \<exists>x \<in> set xs. f x = Some y}"
  by (force simp: List.map_filter_def)

lemma GetPeer_ID: "keyed a \<Longrightarrow> GetPeer a i = Some p \<Longrightarrow> peer_ID p = i"
  by (auto simp: keyed_def GetPeer_def list_all_iff dest!: map_of_SomeD)

lemma GetGroup_ID: "keyed a \<Longrightarrow> GetGroup a i = Some g \<Longrightarrow> group_ID g = i"
  by (auto simp: keyed_def GetGroup_def list_all_iff dest!: map_of_SomeD)

lemma GetPeerGroups_iff:
  "keyed a \<Longrightarrow> i \<in> GetPeerGroups a p \<longleftrightarrow> (\<exists>g. GetGroup a i = Some g \<and> p \<in> set (group_Peers g))"
  by (force simp: keyed_def GetPeerGroups_def GetGroup_def dest: map_of_SomeD intro: map_of_is_SomeI)

lemma set_SourceGroups:
  "iteration iter \<Longrightarrow> set (SourceGroups iter p) = (\<Union>r \<in> set (Rules p). set (Sources r))"
  by (auto simp: SourceGroups_def split: list.splits)

end
