(* ===== verification/AccessControl.thy ===== *)
theory AccessControl
  imports AccountTypes
begin

text \<open>
  The access control of the network map: which peers a peer may talk to and with which firewall
  rules. This is \<open>GetPeerConnectionResources\<close> of \<open>management/server/types/account.go\<close> with everything it
  calls.

  The loop over policies and rules is shared with \<open>networkmap_components.go\<close>, which has the same text over
  another source of groups and peers: \<open>conn_resources\<close> takes the two ends of a rule as an argument. The
  comparison of versions is the one of \<open>github.com/hashicorp/go-version\<close>: \<open>meets\<close> tells whether the second
  version satisfies the constraint ">= first", \<^const>\<open>None\<close> when either does not parse.
\<close>

section \<open>Port expansion\<close>

type_synonym version_lib = "string \<Rightarrow> string \<Rightarrow> bool option"

definition sanitizeVersion :: "string \<Rightarrow> string" where
  "sanitizeVersion v = hd (Split v CHR ''-'')"

definition MeetsMinVersion :: "version_lib \<Rightarrow> string \<Rightarrow> string \<Rightarrow> bool option" where
  "MeetsMinVersion meets minVer peerVer = meets (sanitizeVersion minVer) (sanitizeVersion peerVer)"

definition nativeSSHPortString :: string where "nativeSSHPortString = ''22022''"
definition nativeSSHPortNumber :: "16 word" where "nativeSSHPortNumber = 22022"
definition defaultSSHPortString :: string where "defaultSSHPortString = ''22''"
definition defaultSSHPortNumber :: "16 word" where "defaultSSHPortNumber = 22"
definition firewallRuleMinPortRangesVer :: string where "firewallRuleMinPortRangesVer = ''0.48.0''"
definition firewallRuleMinNativeSSHVer :: string where "firewallRuleMinNativeSSHVer = ''0.60.0''"

record supportedFeatures =
  nativeSSH :: bool
  portRanges :: bool

fun Contains :: "string \<Rightarrow> string \<Rightarrow> bool" where
  "Contains [] t = (t = [])"
| "Contains (c # s) t = (HasPrefix (c # s) t \<or> Contains s t)"

definition peerSupportedFirewallFeatures :: "version_lib \<Rightarrow> string \<Rightarrow> supportedFeatures" where
  "peerSupportedFirewallFeatures meets peerVer =
     (if Contains peerVer ''dev'' then \<lparr>nativeSSH = True, portRanges = True\<rparr>
      else let native = (MeetsMinVersion meets firewallRuleMinNativeSSHVer peerVer = Some True)
           in \<lparr>nativeSSH = native,
               portRanges = (if native then True
                             else MeetsMinVersion meets firewallRuleMinPortRangesVer peerVer = Some True)\<rparr>)"

definition isPortInRule :: "string \<Rightarrow> 16 word \<Rightarrow> FirewallRule \<Rightarrow> bool" where
  "isPortInRule portString portInt fr =
     (Port fr = portString \<or> Start (PortRange fr) \<le> portInt \<and> portInt \<le> End (PortRange fr))"

text \<open>The loop returns early when the native port is there already.\<close>

definition addNativeSSHRule :: "FirewallRule \<Rightarrow> FirewallRule list \<Rightarrow> FirewallRule list" where
  "addNativeSSHRule base expanded =
     (if list_ex (isPortInRule nativeSSHPortString nativeSSHPortNumber) expanded then expanded
      else if \<not> list_ex (isPortInRule defaultSSHPortString defaultSSHPortNumber) expanded then expanded
      else expanded @ [base\<lparr>Port := nativeSSHPortString\<rparr>])"

definition shouldCheckRulesForNativeSSH :: "bool \<Rightarrow> PolicyRule \<Rightarrow> nbpeer \<Rightarrow> bool" where
  "shouldCheckRulesForNativeSSH supportsNative r peer =
     (supportsNative \<and> SSHEnabled peer \<and> ServerSSHAllowed peer \<and> Protocol r = PolicyRuleProtocolTCP)"

definition expand_range :: "supportedFeatures \<Rightarrow> FirewallRule \<Rightarrow> RulePortRange \<Rightarrow> FirewallRule list" where
  "expand_range features base pr =
     (if portRanges features then [base\<lparr>PortRange := pr\<rparr>]
      else if Start pr \<noteq> End pr then []
      else [base\<lparr>Port := itoa (unat (Start pr))\<rparr>])"

definition expandPortsAndRanges :: "version_lib \<Rightarrow> FirewallRule \<Rightarrow> PolicyRule \<Rightarrow> nbpeer \<Rightarrow> FirewallRule list" where
  "expandPortsAndRanges meets base r peer =
     (let features = peerSupportedFirewallFeatures meets (WtVersion peer);
          expanded = map (\<lambda>p. base\<lparr>Port := p\<rparr>) (Ports r) @
            (if Ports r \<noteq> [] then [] else concat (map (expand_range features base) (PortRanges r)))
      in if shouldCheckRulesForNativeSSH (nativeSSH features) r peer \<or> Protocol r = PolicyRuleProtocolNetbirdSSH
         then addNativeSSHRule base expanded else expanded)"

definition portRangeIncludesSSH :: "RulePortRange list \<Rightarrow> bool" where
  "portRangeIncludesSSH prs =
     list_ex (\<lambda>pr. Start pr \<le> defaultSSHPortNumber \<and> defaultSSHPortNumber \<le> End pr \<or>
                   Start pr \<le> nativeSSHPortNumber \<and> nativeSSHPortNumber \<le> End pr) prs"

definition portsIncludesSSH :: "string list \<Rightarrow> bool" where
  "portsIncludesSSH ports = list_ex (\<lambda>p. p = defaultSSHPortString \<or> p = nativeSSHPortString) ports"

definition policyRuleImpliesLegacySSH :: "PolicyRule \<Rightarrow> bool" where
  "policyRuleImpliesLegacySSH r =
     (Protocol r = PolicyRuleProtocolALL \<or>
      Protocol r = PolicyRuleProtocolTCP \<and> (portsIncludesSSH (Ports r) \<or> portRangeIncludesSSH (PortRanges r)))"

section \<open>Peers of groups\<close>

text \<open>
  The loop of \<open>getUniquePeerIDsFromGroupsIDs\<close>. \<^const>\<open>Inl\<close> is the early return with the list of one group,
  \<^const>\<open>Inr\<close> the keys of the map \<open>peerIDs\<close>.
\<close>

fun unique_loop :: "(string \<Rightarrow> Group option) \<Rightarrow> nat \<Rightarrow> string list \<Rightarrow> string list \<Rightarrow> string list + string list" where
  "unique_loop get n peerIDs [] = Inr peerIDs"
| "unique_loop get n peerIDs (groupID # groups) =
     (case get groupID of
        None \<Rightarrow> unique_loop get n peerIDs groups
      | Some g \<Rightarrow>
          if IsGroupAll g \<or> n = 1 then Inl (group_Peers g)
          else unique_loop get n (remdups (peerIDs @ group_Peers g)) groups)"

definition unique_peer_ids :: "(string list \<Rightarrow> string list) \<Rightarrow> (string \<Rightarrow> Group option) \<Rightarrow> string list \<Rightarrow> string list" where
  "unique_peer_ids iter get groups =
     (case unique_loop get (length groups) [] groups of Inl ids \<Rightarrow> ids | Inr ids \<Rightarrow> iter ids)"

definition getUniquePeerIDsFromGroupsIDs :: "(string list \<Rightarrow> string list) \<Rightarrow> Account \<Rightarrow> string list \<Rightarrow> string list" where
  "getUniquePeerIDsFromGroupsIDs iter a groups = unique_peer_ids iter (GetGroup a) groups"

definition check_fails :: "Account \<Rightarrow> nbpeer \<Rightarrow> string \<Rightarrow> bool" where
  "check_fails a peer postureChecksID =
     (case GetPostureChecks a postureChecksID of
        None \<Rightarrow> False
      | Some cs \<Rightarrow> list_ex (\<lambda>check. \<not> check peer) (GetChecks cs))"

definition validatePostureChecksOnPeer :: "Account \<Rightarrow> string list \<Rightarrow> string \<Rightarrow> bool" where
  "validatePostureChecksOnPeer a sourcePostureChecksID peerID =
     (case GetPeer a peerID of
        None \<Rightarrow> False
      | Some peer \<Rightarrow> list_all (\<lambda>i. \<not> check_fails a peer i) sourcePostureChecksID)"

definition usable_peer :: "Account \<Rightarrow> string list \<Rightarrow> string set \<Rightarrow> string \<Rightarrow> nbpeer option" where
  "usable_peer a sourcePostureChecksIDs validatedPeersMap p =
     (case GetPeer a p of
        None \<Rightarrow> None
      | Some peer \<Rightarrow>
          if Embedded peer then None
          else if \<not> validatePostureChecksOnPeer a sourcePostureChecksIDs (peer_ID peer) then None
          else if peer_ID peer \<notin> validatedPeersMap then None
          else Some peer)"

definition getAllPeersFromGroups ::
  "(string list \<Rightarrow> string list) \<Rightarrow> Account \<Rightarrow> string list \<Rightarrow> string \<Rightarrow> string list \<Rightarrow> string set \<Rightarrow> nbpeer list \<times> bool" where
  "getAllPeersFromGroups iter a groups peerID sourcePostureChecksIDs validatedPeersMap =
     (let ps = List.map_filter (usable_peer a sourcePostureChecksIDs validatedPeersMap)
                 (getUniquePeerIDsFromGroupsIDs iter a groups)
      in (filter (\<lambda>peer. peer_ID peer \<noteq> peerID) ps, list_ex (\<lambda>peer. peer_ID peer = peerID) ps))"

definition getPeerFromResource :: "Account \<Rightarrow> Resource \<Rightarrow> string \<Rightarrow> nbpeer list \<times> bool" where
  "getPeerFromResource a resource peerID =
     (case GetPeer a (resource_ID resource) of
        None \<Rightarrow> ([], False)
      | Some peer \<Rightarrow> if peer_ID peer = peerID then ([], True) else ([peer], False))"

section \<open>The generator of peers and rules\<close>

record resources_acc =
  rulesExists :: "string set"
  peersExists :: "string set"
  acc_rules :: "FirewallRule list"
  acc_peers :: "nbpeer list"

definition no_resources :: resources_acc where
  "no_resources = \<lparr>rulesExists = {}, peersExists = {}, acc_rules = [], acc_peers = []\<rparr>"

fun Join :: "string list \<Rightarrow> string \<Rightarrow> string" where
  "Join [] sep = []"
| "Join [s] sep = s"
| "Join (s # t # ss) sep = s @ sep @ Join (t # ss) sep"

definition rule_protocol :: "PolicyRule \<Rightarrow> string" where
  "rule_protocol r = (if Protocol r = PolicyRuleProtocolNetbirdSSH then PolicyRuleProtocolTCP else Protocol r)"

definition base_rule :: "PolicyRule \<Rightarrow> nbpeer \<Rightarrow> nat \<Rightarrow> FirewallRule" where
  "base_rule r peer dir =
     \<lparr>PolicyID = rule_ID r, PeerIP = IP_String (peer_IP peer), Direction = dir, fw_Action = Action r,
      fw_Protocol = rule_protocol r, Port = '''', PortRange = \<lparr>Start = 0, End = 0\<rparr>\<rparr>"

definition rule_key :: "PolicyRule \<Rightarrow> nbpeer \<Rightarrow> nat \<Rightarrow> string" where
  "rule_key r peer dir =
     rule_ID r @ IP_String (peer_IP peer) @ itoa dir @ rule_protocol r @ Action r @ Join (Ports r) '',''"

definition peer_rules :: "version_lib \<Rightarrow> nbpeer \<Rightarrow> PolicyRule \<Rightarrow> nbpeer \<Rightarrow> nat \<Rightarrow> FirewallRule list" where
  "peer_rules meets targetPeer r peer dir =
     (if Ports r = [] \<and> PortRanges r = [] then [base_rule r peer dir]
      else expandPortsAndRanges meets (base_rule r peer dir) r targetPeer)"

definition generate_peer :: "version_lib \<Rightarrow> nbpeer \<Rightarrow> PolicyRule \<Rightarrow> nat \<Rightarrow> resources_acc \<Rightarrow> nbpeer \<Rightarrow> resources_acc" where
  "generate_peer meets targetPeer r dir st peer =
     (let st = (if peer_ID peer \<in> peersExists st then st
                else st\<lparr>acc_peers := acc_peers st @ [peer], peersExists := insert (peer_ID peer) (peersExists st)\<rparr>);
          ruleID = rule_key r peer dir
      in if ruleID \<in> rulesExists st then st
         else st\<lparr>rulesExists := insert ruleID (rulesExists st),
                 acc_rules := acc_rules st @ peer_rules meets targetPeer r peer dir\<rparr>)"

definition generateResources :: "version_lib \<Rightarrow> nbpeer \<Rightarrow> resources_acc \<Rightarrow> PolicyRule \<Rightarrow> nbpeer list \<Rightarrow> nat \<Rightarrow> resources_acc" where
  "generateResources meets targetPeer st r groupPeers dir = foldl (generate_peer meets targetPeer r dir) st groupPeers"

section \<open>Authorized users\<close>

definition Wildcard :: string where
  "Wildcard = ''*''"

type_synonym authorized = "string \<Rightarrow> string set option"

definition authorize :: "authorized \<Rightarrow> string \<Rightarrow> string set \<Rightarrow> authorized" where
  "authorize au localUser userIDs =
     au(localUser := Some ((case au localUser of None \<Rightarrow> {} | Some us \<Rightarrow> us) \<union> userIDs))"

definition authorize_group :: "(string \<Rightarrow> string list option) \<Rightarrow> authorized \<Rightarrow> string \<times> string list \<Rightarrow> authorized" where
  "authorize_group groupIDToUserIDs au gl =
     (case groupIDToUserIDs (fst gl) of
        None \<Rightarrow> au
      | Some userIDs \<Rightarrow>
          foldl (\<lambda>au localUser. authorize au localUser (set userIDs)) au
            (if snd gl = [] then [Wildcard] else snd gl))"

definition ssh_step ::
  "(string \<Rightarrow> string list option) \<Rightarrow> string set \<Rightarrow> nbpeer \<Rightarrow> authorized \<times> bool \<Rightarrow> PolicyRule \<Rightarrow> bool \<Rightarrow> authorized \<times> bool" where
  "ssh_step groupIDToUserIDs allowed peer aus r peerInDestinations =
     (if peerInDestinations \<and> Protocol r = PolicyRuleProtocolNetbirdSSH
      then (if AuthorizedGroups r \<noteq> [] then foldl (authorize_group groupIDToUserIDs) (fst aus) (AuthorizedGroups r)
            else if AuthorizedUser r \<noteq> '''' then authorize (fst aus) Wildcard {AuthorizedUser r}
            else (fst aus)(Wildcard := Some allowed), True)
      else if peerInDestinations \<and> policyRuleImpliesLegacySSH r \<and> SSHEnabled peer
      then ((fst aus)(Wildcard := Some allowed), True)
      else aus)"

section \<open>Connection resources\<close>

type_synonym rule_ends = "(nbpeer list \<times> bool) \<times> (nbpeer list \<times> bool)"

definition generate_rule :: "version_lib \<Rightarrow> nbpeer \<Rightarrow> resources_acc \<Rightarrow> PolicyRule \<Rightarrow> rule_ends \<Rightarrow> resources_acc" where
  "generate_rule meets peer st r ends =
     (let (sourcePeers, peerInSources) = fst ends; (destinationPeers, peerInDestinations) = snd ends;
          st = (if Bidirectional r \<and> peerInSources
                then generateResources meets peer st r destinationPeers FirewallRuleDirectionIN else st);
          st = (if Bidirectional r \<and> peerInDestinations
                then generateResources meets peer st r sourcePeers FirewallRuleDirectionOUT else st);
          st = (if peerInSources then generateResources meets peer st r destinationPeers FirewallRuleDirectionOUT else st)
      in if peerInDestinations then generateResources meets peer st r sourcePeers FirewallRuleDirectionIN else st)"

definition enabled_rules :: "Policy list \<Rightarrow> (Policy \<times> PolicyRule) list" where
  "enabled_rules policies =
     concat (map (\<lambda>p. map (Pair p) (filter rule_Enabled (Rules p))) (filter policy_Enabled policies))"

definition conn_resources ::
  "version_lib \<Rightarrow> nbpeer \<Rightarrow> (string \<Rightarrow> string list option) \<Rightarrow> string set \<Rightarrow> (Policy \<Rightarrow> PolicyRule \<Rightarrow> rule_ends) \<Rightarrow> Policy list \<Rightarrow>
   nbpeer list \<times> FirewallRule list \<times> authorized \<times> bool" where
  "conn_resources meets peer groupIDToUserIDs allowed ends policies =
     (let (st, aus) =
        foldl (\<lambda>(st, aus) (policy, r). let e = ends policy r in
                 (generate_rule meets peer st r e, ssh_step groupIDToUserIDs allowed peer aus r (snd (snd e))))
          (no_resources, (Map.empty, False)) (enabled_rules policies)
      in (acc_peers st, acc_rules st, aus))"

definition rule_peers ::
  "(string list \<Rightarrow> string list) \<Rightarrow> Account \<Rightarrow> nbpeer \<Rightarrow> string set \<Rightarrow> Policy \<Rightarrow> PolicyRule \<Rightarrow> rule_ends" where
  "rule_peers iter a peer validatedPeersMap policy r =
     ((if is_peer_resource (SourceResource r) then getPeerFromResource a (SourceResource r) (peer_ID peer)
       else getAllPeersFromGroups iter a (Sources r) (peer_ID peer) (SourcePostureChecks policy) validatedPeersMap),
      (if is_peer_resource (DestinationResource r) then getPeerFromResource a (DestinationResource r) (peer_ID peer)
       else getAllPeersFromGroups iter a (Destinations r) (peer_ID peer) [] validatedPeersMap))"

definition GetPeerConnectionResources ::
  "(string list \<Rightarrow> string list) \<Rightarrow> version_lib \<Rightarrow> Account \<Rightarrow> nbpeer \<Rightarrow> string set \<Rightarrow> (string \<Rightarrow> string list option) \<Rightarrow>
   nbpeer list \<times> FirewallRule list \<times> authorized \<times> bool" where
  "GetPeerConnectionResources iter meets a peer validatedPeersMap groupIDToUserIDs =
     conn_resources meets peer groupIDToUserIDs (getAllowedUserIDs a)
       (rule_peers iter a peer validatedPeersMap) (Policies a)"

section \<open>What the generator accumulates\<close>

type_synonym job = "PolicyRule \<times> nbpeer \<times> nat"

definition rule_jobs :: "PolicyRule \<Rightarrow> rule_ends \<Rightarrow> job list" where
  "rule_jobs r ends =
     (let (sourcePeers, peerInSources) = fst ends; (destinationPeers, peerInDestinations) = snd ends in
      (if Bidirectional r \<and> peerInSources then map (\<lambda>p. (r, p, FirewallRuleDirectionIN)) destinationPeers else []) @
      (if Bidirectional r \<and> peerInDestinations then map (\<lambda>p. (r, p, FirewallRuleDirectionOUT)) sourcePeers else []) @
      (if peerInSources then map (\<lambda>p. (r, p, FirewallRuleDirectionOUT)) destinationPeers else []) @
      (if peerInDestinations then map (\<lambda>p. (r, p, FirewallRuleDirectionIN)) sourcePeers else []))"

definition run_job :: "version_lib \<Rightarrow> nbpeer \<Rightarrow> resources_acc \<Rightarrow> job \<Rightarrow> resources_acc" where
  "run_job meets target st j = generate_peer meets target (fst j) (snd (snd j)) st (fst (snd j))"

definition all_jobs :: "(Policy \<Rightarrow> PolicyRule \<Rightarrow> rule_ends) \<Rightarrow> Policy list \<Rightarrow> job list" where
  "all_jobs ends policies = concat (map (\<lambda>(p, r). rule_jobs r (ends p r)) (enabled_rules policies))"

lemma generateResources_jobs:
  "generateResources meets target st r ps d = foldl (run_job meets target) st (map (\<lambda>p. (r, p, d)) ps)"
  by (simp add: generateResources_def foldl_map run_job_def)

lemma generate_rule_jobs: "generate_rule meets target st r e = foldl (run_job meets target) st (rule_jobs r e)"
  by (simp add: generate_rule_def rule_jobs_def generateResources_jobs Let_def case_prod_unfold)

lemma acc_peers_jobs:
  "acc_peers (foldl (run_job meets target) st js) =
     acc_peers st @ dedup (\<lambda>(r, p, d). peer_ID p) (\<lambda>(r, p, d). [p]) (peersExists st) js"
proof (induction js arbitrary: st)
  case (Cons j js)
  obtain r p d where j: "j = (r, p, d)" by (cases j)
  show ?case unfolding foldl_Cons Cons.IH
    by (simp add: j run_job_def generate_peer_def Let_def)
qed simp

lemma acc_rules_jobs:
  "acc_rules (foldl (run_job meets target) st js) =
     acc_rules st @ dedup (\<lambda>(r, p, d). rule_key r p d) (\<lambda>(r, p, d). peer_rules meets target r p d) (rulesExists st) js"
proof (induction js arbitrary: st)
  case (Cons j js)
  obtain r p d where j: "j = (r, p, d)" by (cases j)
  show ?case unfolding foldl_Cons Cons.IH
    by (simp add: j run_job_def generate_peer_def Let_def)
qed simp

text \<open>The connection resources are the duplicate-free peers and rules of the jobs and the folded SSH grants.\<close>

lemma conn_resources_eq:
  "conn_resources meets target gu allowed ends policies =
     (dedup (\<lambda>(r, p, d). peer_ID p) (\<lambda>(r, p, d). [p]) {} (all_jobs ends policies),
      dedup (\<lambda>(r, p, d). rule_key r p d) (\<lambda>(r, p, d). peer_rules meets target r p d) {} (all_jobs ends policies),
      foldl (\<lambda>aus (p, r). ssh_step gu allowed target aus r (snd (snd (ends p r)))) (Map.empty, False) (enabled_rules policies))"
proof -
  have "foldl (\<lambda>(st, aus) (p, r). let e = ends p r in
          (generate_rule meets target st r e, ssh_step gu allowed target aus r (snd (snd e)))) (st0, aus0) prs =
      (foldl (run_job meets target) st0 (concat (map (\<lambda>(p, r). rule_jobs r (ends p r)) prs)),
       foldl (\<lambda>aus (p, r). ssh_step gu allowed target aus r (snd (snd (ends p r)))) aus0 prs)" for st0 aus0 prs
    by (induction prs arbitrary: st0 aus0) (simp_all add: Let_def generate_rule_jobs case_prod_unfold)
  then show ?thesis
    by (simp add: conn_resources_def all_jobs_def acc_peers_jobs acc_rules_jobs no_resources_def)
qed

lemma enabled_rules_filter: "enabled_rules (filter keep ps) = filter (\<lambda>x. keep (fst x)) (enabled_rules ps)"
  by (induction ps) (auto simp: enabled_rules_def filter_map comp_def)

text \<open>
  Rule IDs that identify the rules, and of which none is another one followed by a digit. The IDs of \<open>github.com/rs/xid\<close> have one length; those of
  the policies injected for proxies end in a path. The key under which the generator remembers a rule then determines
  the rule, the address and the direction.
\<close>

definition starts_with_digit :: "string \<Rightarrow> bool" where
  "starts_with_digit x \<longleftrightarrow> x \<noteq> [] \<and> 48 \<le> (of_char (hd x) :: nat) \<and> (of_char (hd x) :: nat) \<le> 57"

lemma starts_with_digit_Nil [simp]: "\<not> starts_with_digit []"
  by (simp add: starts_with_digit_def)

definition rule_ids_ok :: "Policy list \<Rightarrow> bool" where
  "rule_ids_ok policies \<longleftrightarrow>
     (\<forall>(p, r) \<in> set (enabled_rules policies). \<forall>(q, s) \<in> set (enabled_rules policies).
        (\<forall>x. rule_ID s = rule_ID r @ x \<longrightarrow> \<not> starts_with_digit x) \<and> (rule_ID r = rule_ID s \<longrightarrow> r = s))"

lemma rule_ids_okD:
  assumes "rule_ids_ok policies" and "(p, r) \<in> set (enabled_rules policies)" and "(q, s) \<in> set (enabled_rules policies)"
  shows "rule_ID s = rule_ID r @ x \<Longrightarrow> \<not> starts_with_digit x" and "rule_ID r = rule_ID s \<Longrightarrow> r = s"
  using bspec [OF bspec [OF assms(1) [unfolded rule_ids_ok_def] assms(2), unfolded prod.case] assms(3), unfolded prod.case] by simp_all

lemma itoa_direction: "d < 10 \<Longrightarrow> length (itoa d) = 1"
  by (subst itoa.simps) simp

lemma IP_String_digit: "starts_with_digit (IP_String w @ x)"
  using itoa_digits [OF hd_in_set [OF itoa_nonempty]] by (simp add: starts_with_digit_def IP_String_def hd_append)

lemma prefix_IDs:
  assumes "i @ IP_String v @ x = j @ IP_String w @ y"
    and "\<And>u. j = i @ u \<Longrightarrow> \<not> starts_with_digit u" and "\<And>u. i = j @ u \<Longrightarrow> \<not> starts_with_digit u"
  shows "i = j"
proof -
  from append_eq_append_conv2 [THEN iffD1, OF assms(1)] obtain u where
    "i = j @ u \<and> u @ IP_String v @ x = IP_String w @ y \<or> i @ u = j \<and> IP_String v @ x = u @ IP_String w @ y" by blast
  then show ?thesis
  proof
    assume u: "i = j @ u \<and> u @ IP_String v @ x = IP_String w @ y"
    then have "starts_with_digit (u @ IP_String v @ x)" using IP_String_digit [of w y] by simp
    then have "u = []" using assms(3) [of u] u by (cases u) (auto simp: starts_with_digit_def)
    then show ?thesis using u by simp
  next
    assume u: "i @ u = j \<and> IP_String v @ x = u @ IP_String w @ y"
    then have "starts_with_digit (u @ IP_String w @ y)" using IP_String_digit [of v x] by simp
    then have "u = []" using assms(2) [of u] u by (cases u) (auto simp: starts_with_digit_def)
    then show ?thesis using u by simp
  qed
qed

lemma rule_key_eq:
  assumes "rule_key r p d = rule_key s q e"
    and "\<And>x. rule_ID s = rule_ID r @ x \<Longrightarrow> \<not> starts_with_digit x" and "\<And>x. rule_ID r = rule_ID s @ x \<Longrightarrow> \<not> starts_with_digit x"
    and "rule_ID r = rule_ID s \<Longrightarrow> r = s" and "d < 2" and "e < 2"
  shows "r = s \<and> IP_String (peer_IP p) = IP_String (peer_IP q) \<and> d = e"
proof -
  have "rule_ID r = rule_ID s" using prefix_IDs [OF assms(1) [unfolded rule_key_def] assms(2,3)] by blast
  then have rs: "r = s" by (rule assms(4))
  have "(IP_String (peer_IP p) @ itoa d) @ rule_protocol s @ Action s @ Join (Ports s) '','' =
      (IP_String (peer_IP q) @ itoa e) @ rule_protocol s @ Action s @ Join (Ports s) '',''"
    using assms(1) rs by (simp add: rule_key_def)
  then have "IP_String (peer_IP p) @ itoa d = IP_String (peer_IP q) @ itoa e" by (simp only: append_same_eq)
  moreover have "length (itoa d) = length (itoa e)" using assms(5,6) by (simp add: itoa_direction)
  ultimately have "IP_String (peer_IP p) = IP_String (peer_IP q)" "itoa d = itoa e" by simp_all
  moreover have "d = e" using \<open>itoa d = itoa e\<close> by (metis option.inject parse_digits_itoa)
  ultimately show ?thesis using rs by simp
qed

lemma peer_rules_cong:
  "IP_String (peer_IP p) = IP_String (peer_IP q) \<Longrightarrow> peer_rules meets t r p d = peer_rules meets t r q d"
  by (simp add: peer_rules_def base_rule_def)

lemma job_in_rules:
  "(r, p, d) \<in> set (all_jobs ends policies) \<Longrightarrow> (\<exists>pol. (pol, r) \<in> set (enabled_rules policies)) \<and> d < 2"
  by (auto simp: all_jobs_def rule_jobs_def FirewallRuleDirectionIN_def FirewallRuleDirectionOUT_def Let_def
      split: prod.splits if_splits)

lemma set_conn_rules:
  assumes "rule_ids_ok policies"
  shows "set (fst (snd (conn_resources meets t gu al ends policies))) =
    {f. \<exists>r p d. (r, p, d) \<in> set (all_jobs ends policies) \<and> f \<in> set (peer_rules meets t r p d)}"
proof -
  have "set (peer_rules meets t r p d) = set (peer_rules meets t s q e)"
    if job: "(r, p, d) \<in> set (all_jobs ends policies)" "(s, q, e) \<in> set (all_jobs ends policies)"
      "rule_key r p d = rule_key s q e" for r p d s q e
  proof -
    obtain pol pol' where j: "(pol, r) \<in> set (enabled_rules policies)" "(pol', s) \<in> set (enabled_rules policies)" "d < 2" "e < 2"
      using job_in_rules [OF job(1)] job_in_rules [OF job(2)] by blast
    from rule_key_eq [OF job(3) _ _ _ j(3,4)] have "r = s \<and> IP_String (peer_IP p) = IP_String (peer_IP q) \<and> d = e"
      using rule_ids_okD [OF assms j(1,2)] rule_ids_okD(1) [OF assms j(2,1)] by blast
    then show ?thesis using peer_rules_cong by metis
  qed
  then have "set (dedup (\<lambda>(r, p, d). rule_key r p d) (\<lambda>(r, p, d). peer_rules meets t r p d) {} (all_jobs ends policies)) =
    (\<Union>j \<in> {j \<in> set (all_jobs ends policies). (\<lambda>(r, p, d). rule_key r p d) j \<notin> {}}. set ((\<lambda>(r, p, d). peer_rules meets t r p d) j))"
    by (intro set_dedup) (metis (mono_tags, lifting) case_prod_conv prod_cases3)
  then show ?thesis by (force simp: conn_resources_eq)
qed

lemma set_conn_peers:
  assumes "\<And>r p d s q e. (r, p, d) \<in> set (all_jobs ends policies) \<Longrightarrow> (s, q, e) \<in> set (all_jobs ends policies) \<Longrightarrow>
      peer_ID p = peer_ID q \<Longrightarrow> p = q"
  shows "set (fst (conn_resources meets t gu al ends policies)) = {p. \<exists>r d. (r, p, d) \<in> set (all_jobs ends policies)}"
proof -
  have "set (dedup (\<lambda>(r, p, d). peer_ID p) (\<lambda>(r, p, d). [p]) {} (all_jobs ends policies)) =
    (\<Union>j \<in> {j \<in> set (all_jobs ends policies). (\<lambda>(r, p, d). peer_ID p) j \<notin> {}}. set ((\<lambda>(r, p, d). [p]) j))"
    by (intro set_dedup) (metis (mono_tags, lifting) assms case_prod_conv prod_cases3)
  then show ?thesis by (force simp: conn_resources_eq)
qed

lemma distinct_conn_peers: "distinct (map peer_ID (fst (conn_resources meets t gu al ends policies)))"
  unfolding conn_resources_eq by (simp, rule conjunct1 [OF dedup_keys]) auto

section \<open>The specification of access\<close>

text \<open>
  The group that is called All holds every peer that is in a group. Then the peers of a list of
  groups are those of all groups in the list, although the loop returns early at the group All.
\<close>

definition all_superset :: "(string \<Rightarrow> Group option) \<Rightarrow> bool" where
  "all_superset get \<longleftrightarrow>
     (\<forall>i j g h. get i = Some g \<longrightarrow> IsGroupAll g \<longrightarrow> get j = Some h \<longrightarrow> set (group_Peers h) \<subseteq> set (group_Peers g))"

definition members :: "(string \<Rightarrow> Group option) \<Rightarrow> string list \<Rightarrow> string set" where
  "members get groups = {x. \<exists>i \<in> set groups. \<exists>g. get i = Some g \<and> x \<in> set (group_Peers g)}"

lemma members_simps [simp]:
  "members get [] = {}"
  "members get (i # is) = (case get i of None \<Rightarrow> {} | Some g \<Rightarrow> set (group_Peers g)) \<union> members get is"
  by (auto simp: members_def split: option.splits)

lemma unique_loop_result:
  "case unique_loop get n acc groups of
     Inl ids \<Rightarrow> \<exists>i \<in> set groups. \<exists>g. get i = Some g \<and> ids = group_Peers g \<and> (IsGroupAll g \<or> n = 1)
   | Inr ids \<Rightarrow> set ids = set acc \<union> members get groups"
proof (induction get n acc groups rule: unique_loop.induct)
  case (2 get n acc i groups)
  show ?case
  proof (cases "get i")
    case None
    with 2(1) show ?thesis by (auto split: sum.splits)
  next
    case (Some g)
    show ?thesis
    proof (cases "IsGroupAll g \<or> n = 1")
      case False
      with 2(2) [OF Some False] Some show ?thesis by (auto split: sum.splits)
    qed (use Some in auto)
  qed
qed simp

lemma early_members:
  assumes "all_superset get" and "i \<in> set groups" and "get i = Some g" and "IsGroupAll g \<or> length groups = 1"
  shows "members get groups = set (group_Peers g)"
proof (cases "IsGroupAll g")
  case True
  with assms show ?thesis unfolding all_superset_def members_def by blast
next
  case False
  with assms have "groups = [i]" by (cases groups) auto
  with assms show ?thesis by simp
qed

lemma set_unique_peer_ids:
  assumes "iteration iter" and "all_superset get"
  shows "set (unique_peer_ids iter get groups) = members get groups"
  using unique_loop_result [where get = get and n = "length groups" and acc = "[]" and groups = groups]
    early_members [OF assms(2)] assms(1)
  by (auto simp: unique_peer_ids_def split: sum.splits)

definition end_ids :: "Account \<Rightarrow> string set \<Rightarrow> string list \<Rightarrow> Resource \<Rightarrow> string list \<Rightarrow> string set" where
  "end_ids a V checks resource groups =
     (if is_peer_resource resource then {x. x = resource_ID resource \<and> GetPeer a x \<noteq> None}
      else {x \<in> members (GetGroup a) groups. usable_peer a checks V x \<noteq> None})"

definition source_ids :: "Account \<Rightarrow> string set \<Rightarrow> Policy \<Rightarrow> PolicyRule \<Rightarrow> string set" where
  "source_ids a V policy r = end_ids a V (SourcePostureChecks policy) (SourceResource r) (Sources r)"

definition dest_ids :: "Account \<Rightarrow> string set \<Rightarrow> PolicyRule \<Rightarrow> string set" where
  "dest_ids a V r = end_ids a V [] (DestinationResource r) (Destinations r)"

definition peers_of :: "Account \<Rightarrow> string set \<Rightarrow> nbpeer set" where
  "peers_of a X = {q. GetPeer a (peer_ID q) = Some q \<and> peer_ID q \<in> X}"

text \<open>
  The rules that let \<open>t\<close> and \<open>q\<close> talk, as seen from \<open>t\<close>: a rule is used outwards when \<open>t\<close> is a source and \<open>q\<close>
  a destination, inwards the other way round, and a bidirectional rule in both directions.
\<close>

definition access :: "Account \<Rightarrow> string set \<Rightarrow> string \<Rightarrow> string \<Rightarrow> nat \<Rightarrow> PolicyRule set" where
  "access a V t q d =
     {r. \<exists>policy. (policy, r) \<in> set (enabled_rules (Policies a)) \<and> t \<noteq> q \<and>
        (let outw = (t \<in> source_ids a V policy r \<and> q \<in> dest_ids a V r);
             inw = (q \<in> source_ids a V policy r \<and> t \<in> dest_ids a V r)
         in d = FirewallRuleDirectionOUT \<and> (outw \<or> Bidirectional r \<and> inw) \<or>
            d = FirewallRuleDirectionIN \<and> (inw \<or> Bidirectional r \<and> outw))}"

definition acl_peers :: "Account \<Rightarrow> string set \<Rightarrow> string \<Rightarrow> nbpeer set" where
  "acl_peers a V t = {q. GetPeer a (peer_ID q) = Some q \<and> (\<exists>d. access a V t (peer_ID q) d \<noteq> {})}"

definition acl_rules :: "version_lib \<Rightarrow> Account \<Rightarrow> string set \<Rightarrow> nbpeer \<Rightarrow> FirewallRule set" where
  "acl_rules meets a V target =
     {f. \<exists>q d. GetPeer a (peer_ID q) = Some q \<and>
        (\<exists>r \<in> access a V (peer_ID target) (peer_ID q) d. f \<in> set (peer_rules meets target r q d))}"

definition acl_ssh :: "(string \<Rightarrow> string list option) \<Rightarrow> Account \<Rightarrow> string set \<Rightarrow> nbpeer \<Rightarrow> authorized \<times> bool" where
  "acl_ssh gu a V target =
     foldl (\<lambda>aus (policy, r). ssh_step gu (getAllowedUserIDs a) target aus r (peer_ID target \<in> dest_ids a V r))
       (Map.empty, False) (enabled_rules (Policies a))"

text \<open>The two ends of a rule as a provider has to return them for the target \<open>t\<close>.\<close>

definition ends_ok :: "Account \<Rightarrow> string set \<Rightarrow> string set \<Rightarrow> string \<Rightarrow> rule_ends \<Rightarrow> bool" where
  "ends_ok a S D t e \<longleftrightarrow>
     snd (fst e) = (t \<in> S) \<and> snd (snd e) = (t \<in> D) \<and>
     (t \<in> S \<longrightarrow> set (fst (snd e)) = peers_of a (D - {t})) \<and>
     (t \<in> D \<longrightarrow> set (fst (fst e)) = peers_of a (S - {t}))"

lemma ssh_step_False [simp]: "ssh_step gu al t aus r False = aus"
  by (simp add: ssh_step_def)

lemma rule_jobs_rule: "(s, q, d) \<in> set (rule_jobs r e) \<Longrightarrow> s = r"
  by (auto simp: rule_jobs_def Let_def case_prod_unfold split: if_splits)

lemma rule_jobs_iff:
  assumes "ends_ok a S D t e"
  shows "(s, q, d) \<in> set (rule_jobs r e) \<longleftrightarrow>
    s = r \<and> GetPeer a (peer_ID q) = Some q \<and> t \<noteq> peer_ID q \<and>
    (let outw = (t \<in> S \<and> peer_ID q \<in> D); inw = (peer_ID q \<in> S \<and> t \<in> D)
     in d = FirewallRuleDirectionOUT \<and> (outw \<or> Bidirectional r \<and> inw) \<or>
        d = FirewallRuleDirectionIN \<and> (inw \<or> Bidirectional r \<and> outw))"
  using assms unfolding ends_ok_def rule_jobs_def peers_of_def Let_def case_prod_unfold
  by (cases "t \<in> S"; cases "t \<in> D") auto

section \<open>Providers of rule ends\<close>

text \<open>
  The interface between the access control loop and the code that supplies it: the ends of the rules
  of the policies it lists, policies left out only if they do not concern the target, and the users an
  SSH rule needs. Whoever keeps this contract computes the specified peers, rules and grants.
\<close>

locale ends_provider =
  fixes wf :: "'c \<Rightarrow> bool"
    and acct :: "'c \<Rightarrow> Account"
    and valid :: "'c \<Rightarrow> string set"
    and targ :: "'c \<Rightarrow> nbpeer"
    and gusers :: "'c \<Rightarrow> string \<Rightarrow> string list option"
    and users :: "'c \<Rightarrow> string \<Rightarrow> string list option"
    and allowed :: "'c \<Rightarrow> string set"
    and policies :: "'c \<Rightarrow> Policy list"
    and ends :: "'c \<Rightarrow> Policy \<Rightarrow> PolicyRule \<Rightarrow> rule_ends"
  assumes ends_law: "wf c \<Longrightarrow> (pol, r) \<in> set (enabled_rules (policies c)) \<Longrightarrow>
      ends_ok (acct c) (source_ids (acct c) (valid c) pol r) (dest_ids (acct c) (valid c) r) (peer_ID (targ c)) (ends c pol r)"
    and policies_law: "wf c \<Longrightarrow> \<exists>keep. policies c = filter keep (Policies (acct c)) \<and>
      (\<forall>(pol, r) \<in> set (enabled_rules (Policies (acct c))). \<not> keep pol \<longrightarrow>
         peer_ID (targ c) \<notin> source_ids (acct c) (valid c) pol r \<and> peer_ID (targ c) \<notin> dest_ids (acct c) (valid c) r)"
    and ssh_law: "wf c \<Longrightarrow> (pol, r) \<in> set (enabled_rules (policies c)) \<Longrightarrow>
      peer_ID (targ c) \<in> dest_ids (acct c) (valid c) r \<Longrightarrow>
      ssh_step (users c) (allowed c) (targ c) aus r True =
        ssh_step (gusers c) (getAllowedUserIDs (acct c)) (targ c) aus r True"
    and ids_law: "wf c \<Longrightarrow> rule_ids_ok (Policies (acct c))"
begin

lemma jobs_iff:
  assumes "wf c"
  shows "(r, q, d) \<in> set (all_jobs (ends c) (policies c)) \<longleftrightarrow>
    GetPeer (acct c) (peer_ID q) = Some q \<and> r \<in> access (acct c) (valid c) (peer_ID (targ c)) (peer_ID q) d"
proof -
  obtain keep where k: "policies c = filter keep (Policies (acct c))"
    "\<And>pol r. (pol, r) \<in> set (enabled_rules (Policies (acct c))) \<Longrightarrow> \<not> keep pol \<Longrightarrow>
       peer_ID (targ c) \<notin> source_ids (acct c) (valid c) pol r \<and> peer_ID (targ c) \<notin> dest_ids (acct c) (valid c) r"
    using policies_law [OF assms] by blast
  have er: "(pol, r) \<in> set (enabled_rules (policies c)) \<longleftrightarrow> (pol, r) \<in> set (enabled_rules (Policies (acct c))) \<and> keep pol" for pol r
    by (auto simp: k(1) enabled_rules_def)
  show ?thesis
  proof
    assume "(r, q, d) \<in> set (all_jobs (ends c) (policies c))"
    then obtain pol where p: "(pol, r) \<in> set (enabled_rules (policies c))" "(r, q, d) \<in> set (rule_jobs r (ends c pol r))"
      unfolding all_jobs_def by (auto dest: rule_jobs_rule)
    from rule_jobs_iff [OF ends_law [OF assms p(1)], THEN iffD1, OF p(2)] p(1) er [of pol r]
    show "GetPeer (acct c) (peer_ID q) = Some q \<and> r \<in> access (acct c) (valid c) (peer_ID (targ c)) (peer_ID q) d"
      by (auto simp: access_def)
  next
    assume "GetPeer (acct c) (peer_ID q) = Some q \<and> r \<in> access (acct c) (valid c) (peer_ID (targ c)) (peer_ID q) d"
    then obtain pol where p: "(pol, r) \<in> set (enabled_rules (Policies (acct c)))"
      and R: "GetPeer (acct c) (peer_ID q) = Some q \<and> peer_ID (targ c) \<noteq> peer_ID q \<and>
        (let outw = (peer_ID (targ c) \<in> source_ids (acct c) (valid c) pol r \<and> peer_ID q \<in> dest_ids (acct c) (valid c) r);
             inw = (peer_ID q \<in> source_ids (acct c) (valid c) pol r \<and> peer_ID (targ c) \<in> dest_ids (acct c) (valid c) r)
         in d = FirewallRuleDirectionOUT \<and> (outw \<or> Bidirectional r \<and> inw) \<or>
            d = FirewallRuleDirectionIN \<and> (inw \<or> Bidirectional r \<and> outw))"
      unfolding access_def by blast
    have "keep pol" using k(2) [OF p] R by (auto simp: Let_def)
    with p er have p: "(pol, r) \<in> set (enabled_rules (policies c))" by blast
    from rule_jobs_iff [OF ends_law [OF assms p]] R have "(r, q, d) \<in> set (rule_jobs r (ends c pol r))" by simp
    with p show "(r, q, d) \<in> set (all_jobs (ends c) (policies c))" unfolding all_jobs_def by force
  qed
qed

lemma peers_spec:
  assumes "wf c"
  shows "set (fst (conn_resources meets (targ c) gu al (ends c) (policies c))) =
    acl_peers (acct c) (valid c) (peer_ID (targ c))"
proof -
  have "set (fst (conn_resources meets (targ c) gu al (ends c) (policies c))) =
      {p. \<exists>r d. (r, p, d) \<in> set (all_jobs (ends c) (policies c))}"
  proof (rule set_conn_peers)
    fix r p d s q e
    assume "(r, p, d) \<in> set (all_jobs (ends c) (policies c))" "(s, q, e) \<in> set (all_jobs (ends c) (policies c))"
      "peer_ID p = peer_ID q"
    then show "p = q" using jobs_iff [OF assms, of r p d] jobs_iff [OF assms, of s q e] by simp
  qed
  then show ?thesis by (auto simp: jobs_iff [OF assms] acl_peers_def)
qed

lemma rules_spec:
  assumes "wf c"
  shows "set (fst (snd (conn_resources meets (targ c) gu al (ends c) (policies c)))) =
    acl_rules meets (acct c) (valid c) (targ c)"
proof -
  obtain keep where k: "policies c = filter keep (Policies (acct c))" using policies_law [OF assms] by blast
  have "set (enabled_rules (policies c)) \<subseteq> set (enabled_rules (Policies (acct c)))"
    by (auto simp: k enabled_rules_def)
  then have "rule_ids_ok (policies c)" using ids_law [OF assms] unfolding rule_ids_ok_def by blast
  from set_conn_rules [OF this, of meets "targ c" gu al "ends c"] show ?thesis
    unfolding acl_rules_def jobs_iff [OF assms] by blast
qed

lemma ssh_spec:
  assumes "wf c"
  shows "snd (snd (conn_resources meets (targ c) (users c) (allowed c) (ends c) (policies c))) =
    acl_ssh (gusers c) (acct c) (valid c) (targ c)"
proof -
  obtain keep where k: "policies c = filter keep (Policies (acct c))"
    "\<And>pol r. (pol, r) \<in> set (enabled_rules (Policies (acct c))) \<Longrightarrow> \<not> keep pol \<Longrightarrow>
       peer_ID (targ c) \<notin> source_ids (acct c) (valid c) pol r \<and> peer_ID (targ c) \<notin> dest_ids (acct c) (valid c) r"
    using policies_law [OF assms] by blast
  let ?step = "\<lambda>aus (pol, r). ssh_step (gusers c) (getAllowedUserIDs (acct c)) (targ c) aus r
      (peer_ID (targ c) \<in> dest_ids (acct c) (valid c) r)"
  have "ssh_step (users c) (allowed c) (targ c) aus r (snd (snd (ends c pol r))) = ?step aus (pol, r)"
    if "(pol, r) \<in> set (enabled_rules (policies c))" for aus pol r
    using ends_law [OF assms that] ssh_law [OF assms that]
    by (cases "peer_ID (targ c) \<in> dest_ids (acct c) (valid c) r") (simp_all add: ends_ok_def)
  then have "foldl (\<lambda>aus (pol, r). ssh_step (users c) (allowed c) (targ c) aus r (snd (snd (ends c pol r)))) (Map.empty, False)
      (enabled_rules (policies c)) = foldl ?step (Map.empty, False) (enabled_rules (policies c))"
    by (intro foldl_cong) auto
  also have "\<dots> = foldl ?step (Map.empty, False) (filter (\<lambda>x. keep (fst x)) (enabled_rules (Policies (acct c))))"
    by (simp add: k(1) enabled_rules_filter)
  also have "\<dots> = foldl ?step (Map.empty, False) (enabled_rules (Policies (acct c)))"
    by (rule foldl_filter_noop) (use k(2) in auto)
  finally show ?thesis by (simp add: conn_resources_eq acl_ssh_def)
qed

end

section \<open>The account as a provider\<close>

type_synonym acl_ctx = "(string list \<Rightarrow> string list) \<times> Account \<times> string set \<times> nbpeer \<times> (string \<Rightarrow> string list option)"

definition wf_account :: "Account \<Rightarrow> bool" where
  "wf_account a \<longleftrightarrow> keyed a \<and> all_superset (GetGroup a) \<and> rule_ids_ok (Policies a)"

lemma usable_peer_Some:
  "keyed a \<Longrightarrow> usable_peer a cs V x = Some q \<Longrightarrow> GetPeer a x = Some q \<and> peer_ID q = x"
  by (auto simp: usable_peer_def dest: GetPeer_ID split: option.splits if_splits)

lemma getAllPeersFromGroups_spec:
  assumes "iteration iter" "keyed a" "all_superset (GetGroup a)"
    and "\<not> is_peer_resource res" and "X = end_ids a V cs res groups"
    and "getAllPeersFromGroups iter a groups t cs V = (ps, b)"
  shows "set ps = peers_of a (X - {t}) \<and> b = (t \<in> X)"
proof -
  let ?ids = "getUniquePeerIDsFromGroupsIDs iter a groups"
  have ids: "set ?ids = members (GetGroup a) groups"
    by (simp add: getUniquePeerIDsFromGroupsIDs_def set_unique_peer_ids assms)
  have X: "x \<in> X \<longleftrightarrow> x \<in> members (GetGroup a) groups \<and> (\<exists>q. usable_peer a cs V x = Some q)" for x
    using assms(4,5) by (auto simp: end_ids_def)
  have ps: "q \<in> set (List.map_filter (usable_peer a cs V) ?ids) \<longleftrightarrow> GetPeer a (peer_ID q) = Some q \<and> peer_ID q \<in> X" for q
  proof -
    have "q \<in> set (List.map_filter (usable_peer a cs V) ?ids) \<longleftrightarrow>
        (\<exists>x \<in> members (GetGroup a) groups. usable_peer a cs V x = Some q)" using ids by simp
    also have "\<dots> \<longleftrightarrow> GetPeer a (peer_ID q) = Some q \<and> peer_ID q \<in> X"
      unfolding X using usable_peer_Some [OF assms(2)] by (metis option.inject)
    finally show ?thesis .
  qed
  have "t \<in> X \<longleftrightarrow> (\<exists>q. peer_ID q = t \<and> GetPeer a t = Some q \<and> t \<in> X)"
    unfolding X using usable_peer_Some [OF assms(2)] by metis
  moreover have "ps = filter (\<lambda>p. peer_ID p \<noteq> t) (List.map_filter (usable_peer a cs V) ?ids)"
    "b = (\<exists>q. q \<in> set (List.map_filter (usable_peer a cs V) ?ids) \<and> peer_ID q = t)"
    using assms(6) by (auto simp: getAllPeersFromGroups_def Let_def list_ex_iff)
  ultimately show ?thesis unfolding peers_of_def by (auto simp only: ps set_filter)
qed

lemma getPeerFromResource_spec:
  assumes "keyed a" and "is_peer_resource res" and "X = end_ids a V cs res groups"
    and "getPeerFromResource a res t = (ps, b)"
  shows "set ps = peers_of a (X - {t}) \<and> b = (t \<in> X)"
  using assms GetPeer_ID [OF assms(1)]
  by (auto simp: getPeerFromResource_def end_ids_def peers_of_def split: option.splits if_splits)

lemma rule_peers_ends_ok:
  assumes "iteration iter" "keyed a" "all_superset (GetGroup a)"
  shows "ends_ok a (source_ids a V pol r) (dest_ids a V r) (peer_ID t) (rule_peers iter a t V pol r)"
proof -
  obtain ps b qs c where e: "rule_peers iter a t V pol r = ((ps, b), (qs, c))" by (metis surj_pair)
  have "set ps = peers_of a (source_ids a V pol r - {peer_ID t}) \<and> b = (peer_ID t \<in> source_ids a V pol r)"
    using e getAllPeersFromGroups_spec [OF assms] getPeerFromResource_spec [OF assms(2)]
    by (auto simp: rule_peers_def source_ids_def split: if_splits)
  moreover have "set qs = peers_of a (dest_ids a V r - {peer_ID t}) \<and> c = (peer_ID t \<in> dest_ids a V r)"
    using e getAllPeersFromGroups_spec [OF assms] getPeerFromResource_spec [OF assms(2)]
    by (auto simp: rule_peers_def dest_ids_def split: if_splits)
  ultimately show ?thesis by (simp add: e ends_ok_def)
qed

interpretation account: ends_provider
  "\<lambda>(iter, a, V, t, gu). iteration iter \<and> wf_account a" "\<lambda>(iter, a, V, t, gu). a" "\<lambda>(iter, a, V, t, gu). V"
  "\<lambda>(iter, a, V, t, gu). t" "\<lambda>(iter, a, V, t, gu). gu" "\<lambda>(iter, a, V, t, gu). gu"
  "\<lambda>(iter, a, V, t, gu). getAllowedUserIDs a" "\<lambda>(iter, a, V, t, gu). Policies a"
  "\<lambda>(iter, a, V, t, gu). rule_peers iter a t V"
proof (unfold_locales, goal_cases)
  case (2 c)
  show ?case by (cases c, intro exI [of _ "\<lambda>_. True"]) auto
qed (auto simp: wf_account_def rule_peers_ends_ok)

lemmas account_peers = account.peers_spec [of "(iter, a, V, t, gu)" for iter a V t gu, simplified]
lemmas account_rules = account.rules_spec [of "(iter, a, V, t, gu)" for iter a V t gu, simplified]
lemmas account_ssh = account.ssh_spec [of "(iter, a, V, t, gu)" for iter a V t gu, simplified]

section \<open>Both ends of a connection\<close>

definition mirror :: "nbpeer \<Rightarrow> nat \<Rightarrow> FirewallRule \<Rightarrow> FirewallRule" where
  "mirror p d f = f\<lparr>PeerIP := IP_String (peer_IP p), Direction := d\<rparr>"

definition same_software :: "nbpeer \<Rightarrow> nbpeer \<Rightarrow> bool" where
  "same_software p q \<longleftrightarrow> WtVersion p = WtVersion q \<and> SSHEnabled p = SSHEnabled q \<and> ServerSSHAllowed p = ServerSSHAllowed q"

definition opposite :: "nat \<Rightarrow> nat" where
  "opposite d = (if d = FirewallRuleDirectionIN then FirewallRuleDirectionOUT else FirewallRuleDirectionIN)"

lemma isPortInRule_mirror [simp]: "isPortInRule s n (mirror p d f) = isPortInRule s n f"
  by (simp add: isPortInRule_def mirror_def)

lemma mirror_updates [simp]:
  "mirror p d (f\<lparr>Port := x\<rparr>) = (mirror p d f)\<lparr>Port := x\<rparr>"
  "mirror p d (f\<lparr>PortRange := pr\<rparr>) = (mirror p d f)\<lparr>PortRange := pr\<rparr>"
  by (simp_all add: mirror_def)

lemma expand_range_mirror: "expand_range ft (mirror p d b) = (\<lambda>pr. map (mirror p d) (expand_range ft b pr))"
  by (rule ext) (simp add: expand_range_def)

lemma addNativeSSHRule_mirror:
  "addNativeSSHRule (mirror p d b) (map (mirror p d) fs) = map (mirror p d) (addNativeSSHRule b fs)"
  by (simp add: addNativeSSHRule_def list_ex_iff)

lemma expand_mirror:
  "expandPortsAndRanges meets (mirror p d b) r t = map (mirror p d) (expandPortsAndRanges meets b r t)"
proof -
  let ?ex = "\<lambda>b. map (\<lambda>x. b\<lparr>Port := x\<rparr>) (Ports r) @ (if Ports r \<noteq> [] then []
    else concat (map (expand_range (peerSupportedFirewallFeatures meets (WtVersion t)) b) (PortRanges r)))"
  have "?ex (mirror p d b) = map (mirror p d) (?ex b)"
    by (simp add: expand_range_mirror map_concat comp_def)
  then show ?thesis
    unfolding expandPortsAndRanges_def Let_def by (simp only: addNativeSSHRule_mirror if_distrib [of "map (mirror p d)"])
qed

lemma peer_rules_mirror:
  assumes "same_software p q"
  shows "peer_rules meets q r p e = map (mirror p e) (peer_rules meets p r q d)"
proof -
  have b: "base_rule r p e = mirror p e (base_rule r q d)" by (simp add: base_rule_def mirror_def)
  have "expandPortsAndRanges meets f r q = expandPortsAndRanges meets f r p" for f
    using assms by (simp add: expandPortsAndRanges_def shouldCheckRulesForNativeSSH_def same_software_def)
  then show ?thesis by (simp add: peer_rules_def b expand_mirror)
qed

lemma access_opposite: "r \<in> access a V t q d \<Longrightarrow> r \<in> access a V q t (opposite d)"
  unfolding access_def opposite_def Let_def FirewallRuleDirectionIN_def FirewallRuleDirectionOUT_def by auto

lemma peer_rules_fields:
  "f \<in> set (peer_rules meets t r q d) \<Longrightarrow>
     PeerIP f = IP_String (peer_IP q) \<and> Direction f = d \<and> fw_Action f = Action r"
  by (auto simp: peer_rules_def expandPortsAndRanges_def addNativeSSHRule_def base_rule_def expand_range_def Let_def
      split: if_splits)

text \<open>
  C7. Both ends of a connection agree. For any two peers of an account, either both or neither get the
  other one as a peer to connect to; the peers of a list are distinct. Every firewall rule of a peer
  names the address of one of these peers, and when both run the same software with the same SSH
  settings the other peer has the same rule in the opposite direction.
\<close>

theorem access_mirrored:
  assumes "iteration iter" and "wf_account a" and "GetPeer a (peer_ID p) = Some p"
  shows "let (peers, fwRules, _) = GetPeerConnectionResources iter meets a p V gu in
    distinct (map peer_ID peers) \<and>
    (\<forall>q. GetPeer a (peer_ID q) = Some q \<longrightarrow>
       (q \<in> set peers \<longleftrightarrow> p \<in> set (fst (GetPeerConnectionResources iter meets a q V gu)))) \<and>
    (\<forall>f \<in> set fwRules. \<exists>q \<in> set peers. PeerIP f = IP_String (peer_IP q) \<and>
       (same_software p q \<longrightarrow>
          mirror p (opposite (Direction f)) f \<in> set (fst (snd (GetPeerConnectionResources iter meets a q V gu)))))"
proof -
  have P: "set (fst (GetPeerConnectionResources iter meets a t V gu)) = acl_peers a V (peer_ID t)"
    "set (fst (snd (GetPeerConnectionResources iter meets a t V gu))) = acl_rules meets a V t" for t
    unfolding GetPeerConnectionResources_def using account_peers account_rules assms(1,2) by simp_all
  obtain peers fwRules rest where g: "GetPeerConnectionResources iter meets a p V gu = (peers, fwRules, rest)"
    by (metis surj_pair)
  have d: "distinct (map peer_ID peers)"
    using distinct_conn_peers g unfolding GetPeerConnectionResources_def by (metis fst_conv)
  have s: "q \<in> acl_peers a V (peer_ID p) \<longleftrightarrow> p \<in> acl_peers a V (peer_ID q)" if "GetPeer a (peer_ID q) = Some q" for q
    using that assms(3) access_opposite unfolding acl_peers_def by fastforce
  have "\<exists>q \<in> acl_peers a V (peer_ID p). PeerIP f = IP_String (peer_IP q) \<and>
      (same_software p q \<longrightarrow> mirror p (opposite (Direction f)) f \<in> acl_rules meets a V q)" if "f \<in> acl_rules meets a V p" for f
  proof -
    from that obtain q d r where q: "GetPeer a (peer_ID q) = Some q" "r \<in> access a V (peer_ID p) (peer_ID q) d"
      "f \<in> set (peer_rules meets p r q d)" unfolding acl_rules_def by blast
    have "mirror p (opposite d) f \<in> acl_rules meets a V q" if "same_software p q"
    proof -
      have "mirror p (opposite d) f \<in> set (peer_rules meets q r p (opposite d))"
        using q(3) peer_rules_mirror [OF that, of meets r "opposite d" d] by simp
      with access_opposite [OF q(2)] assms(3) show ?thesis unfolding acl_rules_def by blast
    qed
    with peer_rules_fields [OF q(3)] q show ?thesis unfolding acl_peers_def by auto
  qed
  with d s P [of p] P(1) P(2) show ?thesis by (simp add: g)
qed

text \<open>An account with three peers: developers may use SSH on the server, and the third peer fails the posture check.\<close>

definition demo_peer :: "string \<Rightarrow> 32 word \<Rightarrow> nbpeer" where
  "demo_peer i ip =
     \<lparr>peer_ID = i, peer_Key = i @ ''key'', peer_IP = ip, WtVersion = ''0.61.0'', ServerSSHAllowed = False, Embedded = False,
      Cluster = '''', UserID = '''', SSHEnabled = False, LoginExpirationEnabled = False, InactivityExpirationEnabled = False,
      LastLogin = None, LastSeen = 0, Connected = True\<rparr>"

definition no_resource :: Resource where
  "no_resource = \<lparr>resource_ID = '''', resource_Type = ''''\<rparr>"

definition demo_rule :: PolicyRule where
  "demo_rule = \<lparr>rule_ID = ''r1'', rule_PolicyID = ''p1'', rule_Enabled = True, Action = ''accept'', Destinations = [''srv''],
     DestinationResource = no_resource, Sources = [''dev'', ''all''], SourceResource = no_resource, Bidirectional = False,
     Protocol = ''tcp'', Ports = [''22''], PortRanges = [], AuthorizedGroups = [], AuthorizedUser = ''''\<rparr>"

definition demo_account :: Account where
  "demo_account = \<lparr>Serial = 7,
     Peers = [(''a'', demo_peer ''a'' 0x64400001), (''b'', demo_peer ''b'' 0x64400002), (''c'', demo_peer ''c'' 0x64400003)],
     Users = [], Groups = [(''all'', \<lparr>group_ID = ''all'', group_Name = ''All'', group_Peers = [''a'', ''b'', ''c''], group_Resources = []\<rparr>),
        (''dev'', \<lparr>group_ID = ''dev'', group_Name = ''dev'', group_Peers = [''a''], group_Resources = []\<rparr>),
        (''srv'', \<lparr>group_ID = ''srv'', group_Name = ''srv'', group_Peers = [''b''], group_Resources = []\<rparr>)],
     Policies = [\<lparr>policy_ID = ''p1'', policy_Enabled = True, Rules = [demo_rule], SourcePostureChecks = [''pc'']\<rparr>],
     Routes = [], NameServerGroups = [], DisabledManagementGroups = [],
     PostureChecks = [\<lparr>checks_ID = ''pc'', GetChecks = [\<lambda>p. peer_ID p \<noteq> ''c'']\<rparr>],
     PeerLoginExpirationEnabled = False, PeerLoginExpiration = 0, PeerInactivityExpirationEnabled = False,
     PeerInactivityExpiration = 0, NetworkRouters = [], NetworkResources = []\<rparr>"

lemma all_superset_map_of:
  "list_all (\<lambda>(i, g). IsGroupAll g \<longrightarrow> list_all (\<lambda>(j, h). set (group_Peers h) \<subseteq> set (group_Peers g)) gs) gs \<Longrightarrow>
     all_superset (map_of gs)"
  unfolding all_superset_def list_all_iff by (fastforce dest!: map_of_SomeD)

lemma wf_demo_account: "wf_account demo_account"
proof -
  have "all_superset (GetGroup demo_account)"
    unfolding GetGroup_def by (rule all_superset_map_of) (simp add: demo_account_def IsGroupAll_def)
  then show ?thesis
    by (simp add: wf_account_def keyed_def demo_account_def demo_peer_def rule_ids_ok_def enabled_rules_def demo_rule_def)
qed

theorem access_mirrored_witness:
  "demo_peer ''b'' 0x64400002 \<in> set (fst (GetPeerConnectionResources (\<lambda>xs. xs) (\<lambda>m v. Some True) demo_account
       (demo_peer ''a'' 0x64400001) {''a'', ''b'', ''c''} Map.empty)) \<and>
   demo_peer ''a'' 0x64400001 \<in> set (fst (GetPeerConnectionResources (\<lambda>xs. xs) (\<lambda>m v. Some True) demo_account
       (demo_peer ''b'' 0x64400002) {''a'', ''b'', ''c''} Map.empty))"
proof -
  have b: "GetPeer demo_account (peer_ID (demo_peer ''b'' 0x64400002)) = Some (demo_peer ''b'' 0x64400002)"
    and a: "GetPeer demo_account (peer_ID (demo_peer ''a'' 0x64400001)) = Some (demo_peer ''a'' 0x64400001)"
    by (simp_all add: GetPeer_def demo_account_def demo_peer_def)
  have "fst (GetPeerConnectionResources (\<lambda>xs. xs) (\<lambda>m v. Some True) demo_account
       (demo_peer ''a'' 0x64400001) {''a'', ''b'', ''c''} Map.empty) = [demo_peer ''b'' 0x64400002]"
    by code_simp
  then have "demo_peer ''b'' 0x64400002 \<in> set (fst (GetPeerConnectionResources (\<lambda>xs. xs) (\<lambda>m v. Some True) demo_account
       (demo_peer ''a'' 0x64400001) {''a'', ''b'', ''c''} Map.empty))" by simp
  with access_mirrored [OF iteration_id wf_demo_account a, of "\<lambda>m v. Some True" "{''a'', ''b'', ''c''}" Map.empty] b
  show ?thesis unfolding Let_def case_prod_unfold by blast
qed

end
