(* ===== verification/NetworkMap.thy ===== *)
theory NetworkMap
  imports AccessControl
begin

text \<open>
  The network map of a peer as \<open>GetPeerNetworkMap\<close> of \<open>management/server/types/account.go\<close> computes it from
  the whole account: connection resources, routes and their firewall rules, network resources and their
  routing peers, DNS.

  The functions of other packages are fields of \<open>nm_lib\<close>: the order of map iterations, the comparison of
  versions, \<open>dns.Fqdn\<close> of \<open>github.com/miekg/dns\<close>, and the list of domains made of one name by
  \<open>domain.FromStringList\<close> (its text, \<^const>\<open>None\<close> for an error; it rests on \<open>golang.org/x/net/idna\<close>). The readings of the
  clock during one computation are one reading \<open>now\<close>. A nil pointer that the code dereferences and an index
  out of range are the result \<^const>\<open>None\<close>.
\<close>

record nm_lib =
  lib_iter :: "string list \<Rightarrow> string list"
  lib_meets :: version_lib
  lib_fqdn :: "string \<Rightarrow> string"
  lib_domains :: "string \<Rightarrow> string option"

section \<open>Routes\<close>

definition peer_copies :: "(string \<Rightarrow> Group option) \<Rightarrow> string \<Rightarrow> account_route \<Rightarrow> account_route list" where
  "peer_copies get peerID r =
     concat (map (\<lambda>groupID. case get groupID of
         None \<Rightarrow> []
       | Some g \<Rightarrow>
           if peerID \<in> set (group_Peers g)
           then [r\<lparr>route_Peer := peerID, route_PeerGroups := [], route_ID := route_ID r @ '':'' @ peerID\<rparr>]
           else []) (route_PeerGroups r)) @
     (if route_Peer r = peerID then [r] else [])"

definition take_route ::
  "string \<Rightarrow> string set \<times> account_route list \<times> account_route list \<Rightarrow> account_route \<Rightarrow>
   string set \<times> account_route list \<times> account_route list" where
  "take_route key st r =
     (let (seenRoute, enabledRoutes, disabledRoutes) = st in
      if route_ID r \<in> seenRoute then st
      else if route_Enabled r then (insert (route_ID r) seenRoute, enabledRoutes @ [r\<lparr>route_Peer := key\<rparr>], disabledRoutes)
      else (insert (route_ID r) seenRoute, enabledRoutes, disabledRoutes @ [r]))"

definition getRoutingPeerRoutes :: "Account \<Rightarrow> string \<Rightarrow> account_route list \<times> account_route list" where
  "getRoutingPeerRoutes a peerID =
     (case GetPeer a peerID of
        None \<Rightarrow> ([], [])
      | Some peer \<Rightarrow>
          snd (foldl (take_route (peer_Key peer)) ({}, [], [])
            (concat (map (peer_copies (GetGroup a) peerID) (map snd (Routes a))))))"

definition filterRoutesByGroups :: "account_route list \<Rightarrow> string set \<Rightarrow> account_route list" where
  "filterRoutesByGroups routes groupListMap = filter (\<lambda>r. list_ex (\<lambda>g. g \<in> groupListMap) (route_Groups r)) routes"

definition filterRoutesFromPeersOfSameHAGroup :: "account_route list \<Rightarrow> string set \<Rightarrow> account_route list" where
  "filterRoutesFromPeersOfSameHAGroup routes peerMemberships = filter (\<lambda>r. GetHAUniqueID r \<notin> peerMemberships) routes"

text \<open>\<open>GetRoutesToSync\<close> over a function that gives the routes of a routing peer.\<close>

definition routes_to_sync ::
  "(string \<Rightarrow> account_route list \<times> account_route list) \<Rightarrow> string \<Rightarrow> nbpeer list \<Rightarrow> string set \<Rightarrow> account_route list" where
  "routes_to_sync routing peerID aclPeers peerGroups =
     (let (routes, peerDisabledRoutes) = routing peerID;
          peerRoutesMembership = set (map GetHAUniqueID (routes @ peerDisabledRoutes))
      in routes @ concat (map (\<lambda>peer.
           filterRoutesFromPeersOfSameHAGroup
             (filterRoutesByGroups (fst (routing (peer_ID peer))) peerGroups) peerRoutesMembership) aclPeers))"

definition GetRoutesToSync :: "Account \<Rightarrow> string \<Rightarrow> nbpeer list \<Rightarrow> string set \<Rightarrow> account_route list" where
  "GetRoutesToSync a peerID aclPeers peerGroups = routes_to_sync (getRoutingPeerRoutes a) peerID aclPeers peerGroups"

section \<open>Firewall rules of routes\<close>

definition no_range :: RulePortRange where
  "no_range = \<lparr>Start = 0, End = 0\<rparr>"

definition getDefaultPermit :: "account_route \<Rightarrow> RouteFirewallRule list" where
  "getDefaultPermit r =
     (let permit = \<lparr>rfr_PolicyID = '''', rfr_RouteID = route_ID r,
          SourceRanges = [if Is6 (Network r) then ''::/0'' else ''0.0.0.0/0''], rfr_Action = PolicyTrafficActionAccept,
          rfr_Destination = Network r, rfr_Protocol = PolicyRuleProtocolALL, rfr_Port = 0, rfr_PortRange = no_range,
          rfr_Domains = Domains r, rfr_IsDynamic = IsDynamic r\<rparr>
      in permit # (if IsDynamic r then [permit\<lparr>SourceRanges := [''::/0'']\<rparr>] else []))"

definition generateRuleIDBase :: "PolicyRule \<Rightarrow> RouteFirewallRule \<Rightarrow> string" where
  "generateRuleIDBase r baseRule =
     rule_ID r @ Join (SourceRanges baseRule) '','' @ itoa FirewallRuleDirectionIN @ rfr_Protocol baseRule @ rfr_Action baseRule"

definition parse_port :: "string \<Rightarrow> 16 word option" where
  "parse_port s =
     (if s = [] then None
      else case parse_digits s 0 of
        None \<Rightarrow> None
      | Some n \<Rightarrow> if n < 2 ^ 16 then Some (word_of_nat n) else None)"

definition generateRulesWithPortRanges :: "RouteFirewallRule \<Rightarrow> PolicyRule \<Rightarrow> RouteFirewallRule list" where
  "generateRulesWithPortRanges baseRule r =
     (if Ports r \<noteq> [] then []
      else if PortRanges r = [] then [baseRule]
      else dedup (\<lambda>pr. generateRuleIDBase r baseRule @ itoa (unat (Start pr)) @ ''-'' @ itoa (unat (End pr)))
             (\<lambda>pr. [baseRule\<lparr>rfr_PortRange := pr\<rparr>]) {} (PortRanges r))"

definition generateRulesWithPorts :: "RouteFirewallRule \<Rightarrow> PolicyRule \<Rightarrow> RouteFirewallRule list" where
  "generateRulesWithPorts baseRule r =
     dedup (\<lambda>port. generateRuleIDBase r baseRule @ port)
       (\<lambda>port. case parse_port port of None \<Rightarrow> [] | Some p \<Rightarrow> [baseRule\<lparr>rfr_Port := p\<rparr>]) {} (Ports r)"

definition generateRouteFirewallRules :: "account_route \<Rightarrow> PolicyRule \<Rightarrow> nbpeer list \<Rightarrow> RouteFirewallRule list" where
  "generateRouteFirewallRules rt r groupPeers =
     (let baseRule = \<lparr>rfr_PolicyID = rule_PolicyID r, rfr_RouteID = route_ID rt,
          SourceRanges = map (\<lambda>p. IP_String (peer_IP p) @ ''/32'') groupPeers, rfr_Action = Action r,
          rfr_Destination = Network rt, rfr_Protocol = Protocol r, rfr_Port = 0, rfr_PortRange = no_range,
          rfr_Domains = Domains rt, rfr_IsDynamic = IsDynamic rt\<rparr>
      in if Ports r = [] then generateRulesWithPortRanges baseRule r else generateRulesWithPorts baseRule r)"

definition getRulePeers ::
  "(string list \<Rightarrow> string list) \<Rightarrow> Account \<Rightarrow> PolicyRule \<Rightarrow> string list \<Rightarrow> string \<Rightarrow> string set \<Rightarrow> string set \<Rightarrow> nbpeer list" where
  "getRulePeers iter a r postureChecks peerID distributionPeers validatedPeersMap =
     (let ok = (\<lambda>pID. pID \<in> distributionPeers \<and> pID \<in> validatedPeersMap \<and> validatePostureChecksOnPeer a postureChecks pID);
          fromGroups = concat (map (\<lambda>i. case GetGroup a i of None \<Rightarrow> []
              | Some g \<Rightarrow> filter (\<lambda>pID. pID \<noteq> peerID \<and> ok pID) (group_Peers g)) (Sources r));
          fromResource = (if is_peer_resource (SourceResource r) \<and> ok (resource_ID (SourceResource r))
              then [resource_ID (SourceResource r)] else [])
      in List.map_filter (GetPeer a) (iter (remdups (fromGroups @ fromResource))))"

definition getRouteFirewallRules ::
  "(string list \<Rightarrow> string list) \<Rightarrow> Account \<Rightarrow> string \<Rightarrow> Policy list \<Rightarrow> account_route \<Rightarrow> string set \<Rightarrow> string set \<Rightarrow> RouteFirewallRule list" where
  "getRouteFirewallRules iter a peerID policies rt validatedPeersMap distributionPeers =
     concat (map (\<lambda>(policy, r). generateRouteFirewallRules rt r
         (getRulePeers iter a r (SourcePostureChecks policy) peerID distributionPeers validatedPeersMap))
       (enabled_rules policies))"

definition getDistributionGroupsPeers :: "(string \<Rightarrow> Group option) \<Rightarrow> account_route \<Rightarrow> string set" where
  "getDistributionGroupsPeers get r =
     set (concat (map (\<lambda>i. case get i of None \<Rightarrow> [] | Some g \<Rightarrow> group_Peers g) (route_Groups r)))"

text \<open>A policy is listed once for every rule that has the group as a destination.\<close>

definition GetAllRoutePoliciesFromGroups :: "Account \<Rightarrow> string list \<Rightarrow> Policy list" where
  "GetAllRoutePoliciesFromGroups a accessControlGroups =
     concat (map (\<lambda>groupID. case GetGroup a groupID of
         None \<Rightarrow> []
       | Some g \<Rightarrow> concat (map (\<lambda>policy.
           map (\<lambda>_. policy) (filter (\<lambda>r. group_ID g \<in> set (Destinations r)) (Rules policy))) (Policies a)))
       accessControlGroups)"

definition GetPeerRoutesFirewallRules :: "(string list \<Rightarrow> string list) \<Rightarrow> Account \<Rightarrow> string \<Rightarrow> string set \<Rightarrow> RouteFirewallRule list" where
  "GetPeerRoutesFirewallRules iter a peerID validatedPeersMap =
     concat (map (\<lambda>r.
       if AccessControlGroups r = [] then getDefaultPermit r
       else concat (map (\<lambda>accessGroup.
              getRouteFirewallRules iter a peerID (GetAllRoutePoliciesFromGroups a [accessGroup]) r validatedPeersMap
                (getDistributionGroupsPeers (GetGroup a) r)) (AccessControlGroups r)))
       (fst (getRoutingPeerRoutes a peerID)))"

section \<open>Network resources\<close>

definition getNetworkResourceGroups :: "Account \<Rightarrow> string \<Rightarrow> Group list" where
  "getNetworkResourceGroups a resourceID =
     concat (map (\<lambda>g. map (\<lambda>_. g) (filter (\<lambda>r. resource_ID r = resourceID) (group_Resources g))) (map snd (Groups a)))"

text \<open>
  The loop over the rules of a policy in \<open>GetPoliciesForNetworkResource\<close>: a match of the resource ends it,
  a match of a group only ends the loop over groups, so the policy can be listed several times.
\<close>

fun resource_policy :: "string \<Rightarrow> Group list \<Rightarrow> Policy \<Rightarrow> PolicyRule list \<Rightarrow> Policy list" where
  "resource_policy resourceId groups policy [] = []"
| "resource_policy resourceId groups policy (r # rs) =
     (if \<not> rule_Enabled r then resource_policy resourceId groups policy rs
      else if resource_ID (DestinationResource r) = resourceId then [policy]
      else (if list_ex (\<lambda>g. group_ID g \<in> set (Destinations r)) groups then [policy] else []) @
           resource_policy resourceId groups policy rs)"

definition GetPoliciesForNetworkResource :: "Account \<Rightarrow> string \<Rightarrow> Policy list" where
  "GetPoliciesForNetworkResource a resourceId =
     concat (map (\<lambda>policy. resource_policy resourceId (getNetworkResourceGroups a resourceId) policy (Rules policy))
       (filter policy_Enabled (Policies a)))"

definition GetResourcePoliciesMap :: "Account \<Rightarrow> string \<Rightarrow> Policy list option" where
  "GetResourcePoliciesMap a =
     foldl (\<lambda>m r. m(nr_ID r \<mapsto> GetPoliciesForNetworkResource a (nr_ID r))) Map.empty (filter nr_Enabled (NetworkResources a))"

type_synonym routers_map = "string \<Rightarrow> (string \<times> NetworkRouter) list option"

definition add_router :: "Account \<Rightarrow> routers_map \<Rightarrow> NetworkRouter \<Rightarrow> routers_map" where
  "add_router a m router =
     (let inner = (case m (router_NetworkID router) of None \<Rightarrow> [] | Some al \<Rightarrow> al);
          peers = (if router_Peer router \<noteq> '''' then [router_Peer router]
                   else concat (map (\<lambda>i. case GetGroup a i of None \<Rightarrow> [] | Some g \<Rightarrow> group_Peers g) (router_PeerGroups router)))
      in m(router_NetworkID router \<mapsto> foldl (\<lambda>al p. AList.update p router al) inner peers))"

definition GetResourceRoutersMap :: "Account \<Rightarrow> routers_map" where
  "GetResourceRoutersMap a = foldl (add_router a) Map.empty (filter router_Enabled (NetworkRouters a))"

text \<open>The route to a resource; nil when the name of a domain resource is not a domain.\<close>

definition ToRoute :: "nm_lib \<Rightarrow> NetworkResource \<Rightarrow> nbpeer \<Rightarrow> NetworkRouter \<Rightarrow> account_route option" where
  "ToRoute L n peer router =
     (let r = \<lparr>Network = ''invalid Prefix'', Domains = None, route_NetID = nr_Name n, DomainNetwork = False, SkipAutoApply = False,
          route_ID = nr_ID n @ '':'' @ peer_ID peer, route_Peer = peer_Key peer, route_PeerID = peer_ID peer,
          route_PeerGroups = [], route_Groups = [], AccessControlGroups = [], Masquerade = router_Masquerade router,
          Metric = router_Metric router, KeepRoute = True, route_Enabled = nr_Enabled n\<rparr>
      in case nr_Type n of
           DomainResource \<Rightarrow>
             (case lib_domains L (nr_Domain n) of
                None \<Rightarrow> None
              | Some ds \<Rightarrow> Some (r\<lparr>Domains := Some ds, DomainNetwork := True, Network := ''192.0.2.0/32''\<rparr>))
         | _ \<Rightarrow> Some (r\<lparr>Network := nr_Prefix n\<rparr>))"

definition getNetworkResourcesRoutes ::
  "nm_lib \<Rightarrow> Account \<Rightarrow> NetworkResource \<Rightarrow> string \<Rightarrow> NetworkRouter \<Rightarrow> (string \<Rightarrow> Policy list option) \<Rightarrow> account_route option list" where
  "getNetworkResourcesRoutes L a resource peerId router resourcePolicies =
     (case resourcePolicies (nr_ID resource) of
        None \<Rightarrow> []
      | Some [] \<Rightarrow> []
      | Some (_ # _) \<Rightarrow>
          (case GetPeer a peerId of None \<Rightarrow> [] | Some peer \<Rightarrow> [ToRoute L resource peer router]))"

text \<open>The source peers of a policy, by its first rule; \<^const>\<open>None\<close> when it has no rule.\<close>

definition policy_sources :: "(string list \<Rightarrow> string list) \<Rightarrow> (string list \<Rightarrow> string list) \<Rightarrow> Policy \<Rightarrow> string list option" where
  "policy_sources iter unique policy =
     (case Rules policy of
        [] \<Rightarrow> None
      | r # _ \<Rightarrow> Some (if is_peer_resource (SourceResource r) then [resource_ID (SourceResource r)]
                       else unique (SourceGroups iter policy)))"

definition getPostureValidPeers :: "Account \<Rightarrow> string list \<Rightarrow> string list \<Rightarrow> string list" where
  "getPostureValidPeers a inputPeers postureChecksIDs = filter (validatePostureChecksOnPeer a postureChecksIDs) inputPeers"

text \<open>
  The loop over the policies of a resource, over functions for the sources of a policy, the posture
  checks of a peer, and the routes through the routing peers of the network.
\<close>

fun resource_loop ::
  "(Policy \<Rightarrow> string list option) \<Rightarrow> (string list \<Rightarrow> string \<Rightarrow> bool) \<Rightarrow> account_route option list \<Rightarrow> string \<Rightarrow> bool \<Rightarrow>
   account_route option list \<Rightarrow> string list \<Rightarrow> Policy list \<Rightarrow> (account_route option list \<times> string list) option" where
  "resource_loop sources valid routerRoutes peerID addSourcePeers routes allSourcePeers [] = Some (routes, allSourcePeers)"
| "resource_loop sources valid routerRoutes peerID addSourcePeers routes allSourcePeers (policy # ps) =
     (case sources policy of
        None \<Rightarrow> None
      | Some peers \<Rightarrow>
          if addSourcePeers
          then resource_loop sources valid routerRoutes peerID addSourcePeers routes
                 (allSourcePeers @ filter (valid (SourcePostureChecks policy)) peers) ps
          else if peerID \<in> set peers \<and> valid (SourcePostureChecks policy) peerID
          then Some (routes @ routerRoutes, allSourcePeers)
          else resource_loop sources valid routerRoutes peerID addSourcePeers routes allSourcePeers ps)"

type_synonym resource_state = "bool \<times> account_route option list \<times> string list"

definition sync_resource ::
  "(Policy \<Rightarrow> string list option) \<Rightarrow> (string list \<Rightarrow> string \<Rightarrow> bool) \<Rightarrow>
   (NetworkResource \<Rightarrow> string \<Rightarrow> NetworkRouter \<Rightarrow> account_route option list) \<Rightarrow> string \<Rightarrow> (string \<Rightarrow> Policy list option) \<Rightarrow>
   routers_map \<Rightarrow> NetworkResource \<Rightarrow> resource_state \<Rightarrow> resource_state option" where
  "sync_resource sources valid mkRoutes peerID resourcePolicies routers resource st =
     (let (isRoutingPeer, routes, allSourcePeers) = st;
          networkRoutingPeers = (case routers (nr_NetworkID resource) of None \<Rightarrow> [] | Some al \<Rightarrow> al);
          policies = (case resourcePolicies (nr_ID resource) of None \<Rightarrow> [] | Some ps \<Rightarrow> ps);
          routerRoutes = concat (map (\<lambda>(pid, router). mkRoutes resource pid router) networkRoutingPeers)
      in case map_of networkRoutingPeers peerID of
           Some router \<Rightarrow>
             map_option (\<lambda>(rs, sp). (True, rs, sp))
               (resource_loop sources valid routerRoutes peerID True (routes @ mkRoutes resource peerID router) allSourcePeers policies)
         | None \<Rightarrow>
             map_option (\<lambda>(rs, sp). (isRoutingPeer, rs, sp))
               (resource_loop sources valid routerRoutes peerID False routes allSourcePeers policies))"

fun sync_resources :: "(NetworkResource \<Rightarrow> resource_state \<Rightarrow> resource_state option) \<Rightarrow> NetworkResource list \<Rightarrow> resource_state \<Rightarrow> resource_state option" where
  "sync_resources step [] st = Some st"
| "sync_resources step (r # rs) st =
     (if \<not> nr_Enabled r then sync_resources step rs st
      else case step r st of None \<Rightarrow> None | Some st' \<Rightarrow> sync_resources step rs st')"

definition GetNetworkResourcesRoutesToSync ::
  "nm_lib \<Rightarrow> Account \<Rightarrow> string \<Rightarrow> (string \<Rightarrow> Policy list option) \<Rightarrow> routers_map \<Rightarrow> resource_state option" where
  "GetNetworkResourcesRoutesToSync L a peerID resourcePolicies routers =
     sync_resources
       (sync_resource (policy_sources (lib_iter L) (getUniquePeerIDsFromGroupsIDs (lib_iter L) a)) (validatePostureChecksOnPeer a)
          (\<lambda>resource pid router. getNetworkResourcesRoutes L a resource pid router resourcePolicies) peerID resourcePolicies routers)
       (NetworkResources a) (False, [], [])"

definition getPoliciesSourcePeers :: "(string \<Rightarrow> Group option) \<Rightarrow> Policy list \<Rightarrow> string set" where
  "getPoliciesSourcePeers get policies =
     set (concat (map (\<lambda>r.
         concat (map (\<lambda>i. case get i of None \<Rightarrow> [] | Some g \<Rightarrow> group_Peers g) (Sources r)) @
         (if is_peer_resource (SourceResource r) then [resource_ID (SourceResource r)] else []))
       (concat (map Rules policies))))"

definition GetPeerNetworkResourceFirewallRules ::
  "(string list \<Rightarrow> string list) \<Rightarrow> Account \<Rightarrow> nbpeer \<Rightarrow> string set \<Rightarrow> account_route list \<Rightarrow> (string \<Rightarrow> Policy list option) \<Rightarrow> RouteFirewallRule list" where
  "GetPeerNetworkResourceFirewallRules iter a peer validatedPeersMap routes resourcePolicies =
     concat (map (\<lambda>r.
       let policies = (case resourcePolicies (GetResourceID r) of None \<Rightarrow> [] | Some ps \<Rightarrow> ps)
       in filter (\<lambda>f. SourceRanges f \<noteq> [])
            (getRouteFirewallRules iter a (peer_ID peer) policies r validatedPeersMap (getPoliciesSourcePeers (GetGroup a) policies)))
       (filter (\<lambda>r. route_Peer r = peer_Key peer) routes))"

text \<open>The peers missing in the list of peers: the keys of \<open>missingPeers\<close>.\<close>

definition missing_peers :: "account_route list \<Rightarrow> string \<Rightarrow> nbpeer list \<Rightarrow> nbpeer list \<Rightarrow> bool \<Rightarrow> string list \<Rightarrow> string list" where
  "missing_peers networkResourcesRoutes peerID peersToConnect expiredPeers isRouter sourcePeers =
     remdups (filter (\<lambda>p. p \<noteq> peerID \<and> p \<notin> set (map peer_ID peersToConnect) \<and> p \<notin> set (map peer_ID expiredPeers))
       ((if isRouter then sourcePeers else []) @ map route_PeerID networkResourcesRoutes))"

definition addNetworksRoutingPeers ::
  "(string list \<Rightarrow> string list) \<Rightarrow> Account \<Rightarrow> account_route list \<Rightarrow> nbpeer \<Rightarrow> nbpeer list \<Rightarrow> nbpeer list \<Rightarrow> bool \<Rightarrow> string list \<Rightarrow> nbpeer list" where
  "addNetworksRoutingPeers iter a networkResourcesRoutes peer peersToConnect expiredPeers isRouter sourcePeers =
     peersToConnect @ List.map_filter (GetPeer a)
       (iter (missing_peers networkResourcesRoutes (peer_ID peer) peersToConnect expiredPeers isRouter sourcePeers))"

section \<open>DNS\<close>

definition DNSManagementStatus :: "string list \<Rightarrow> string set \<Rightarrow> bool" where
  "DNSManagementStatus disabledManagementGroups peerGroups = (\<not> list_ex (\<lambda>g. g \<in> peerGroups) disabledManagementGroups)"

definition getPeerDNSManagementStatus :: "Account \<Rightarrow> string \<Rightarrow> bool" where
  "getPeerDNSManagementStatus a peerID = DNSManagementStatus (DisabledManagementGroups a) (GetPeerGroups a peerID)"

text \<open>\<open>net.IP.Equal\<close> takes an IPv4 address and its form in IPv6 as equal.\<close>

definition ip_equal :: "32 word \<Rightarrow> Addr \<Rightarrow> bool" where
  "ip_equal ip addr =
     (case addr of
        NoAddr \<Rightarrow> False
      | Addr4 w \<Rightarrow> w = ip
      | Addr6 w zone \<Rightarrow> w = push_bit 32 0xffff + ucast ip)"

definition peerIsNameserver :: "nbpeer \<Rightarrow> NameServerGroup \<Rightarrow> bool" where
  "peerIsNameserver peer nsGroup = list_ex (ip_equal (peer_IP peer)) (NameServers nsGroup)"

definition getPeerNSGroups :: "Account \<Rightarrow> nbpeer \<Rightarrow> string \<Rightarrow> NameServerGroup list" where
  "getPeerNSGroups a peer peerID =
     filter (\<lambda>nsGroup. nsg_Enabled nsGroup \<and>
         list_ex (\<lambda>gID. gID \<in> GetPeerGroups a peerID \<and> \<not> peerIsNameserver peer nsGroup) (nsg_Groups nsGroup))
       (map snd (NameServerGroups a))"

definition filterZoneRecordsForPeers :: "nbpeer \<Rightarrow> SimpleRecord list \<Rightarrow> nbpeer list \<Rightarrow> nbpeer list \<Rightarrow> SimpleRecord list" where
  "filterZoneRecordsForPeers peer records peersToConnect expiredPeers =
     (let peerIPs = set (map (IP_String \<circ> peer_IP) (peer # peersToConnect @ expiredPeers))
      in filter (\<lambda>r. RData r \<in> peerIPs) records)"

record zone_record =
  zr_Name :: string
  zr_Type :: string
  zr_Content :: string
  zr_TTL :: int

record Zone =
  z_Domain :: string
  z_Enabled :: bool
  z_EnableSearchDomain :: bool
  z_DistributionGroups :: "string list"
  z_Records :: "zone_record list"

definition simple_record :: "nm_lib \<Rightarrow> zone_record \<Rightarrow> SimpleRecord option" where
  "simple_record L r =
     (let mk = (\<lambda>n rData. Some \<lparr>record_Name = lib_fqdn L (zr_Name r), record_Type = n, TTL = zr_TTL r, RData = rData\<rparr>) in
      if zr_Type r = ''A'' then mk 1 (zr_Content r)
      else if zr_Type r = ''AAAA'' then mk 28 (zr_Content r)
      else if zr_Type r = ''CNAME'' then mk 5 (lib_fqdn L (zr_Content r))
      else None)"

definition filterPeerAppliedZones :: "nm_lib \<Rightarrow> Zone list \<Rightarrow> string set \<Rightarrow> CustomZone list" where
  "filterPeerAppliedZones L accountZones peerGroups =
     (if peerGroups = {} then []
      else map (\<lambda>z. \<lparr>zone_Domain = lib_fqdn L (z_Domain z), zone_Records = List.map_filter (simple_record L) (z_Records z),
               SearchDomainDisabled = \<not> z_EnableSearchDomain z, NonAuthoritative = True\<rparr>)
             (filter (\<lambda>z. z_Enabled z \<and> z_Records z \<noteq> [] \<and> list_ex (\<lambda>g. g \<in> peerGroups) (z_DistributionGroups z)) accountZones))"

section \<open>The network map\<close>

record dns_config =
  ServiceEnable :: bool
  dns_NameServerGroups :: "NameServerGroup list"
  CustomZones :: "CustomZone list"

record NetworkMap =
  nm_Serial :: "64 word"
  nm_Peers :: "nbpeer list"
  nm_Routes :: "account_route list"
  DNSConfig :: dns_config
  OfflinePeers :: "nbpeer list"
  FirewallRules :: "FirewallRule list"
  RoutesFirewallRules :: "RouteFirewallRule list"
  AuthorizedUsers :: authorized
  EnableSSH :: bool

definition no_dns :: dns_config where
  "no_dns = \<lparr>ServiceEnable = False, dns_NameServerGroups = [], CustomZones = []\<rparr>"

definition empty_map :: "64 word \<Rightarrow> NetworkMap" where
  "empty_map serial = \<lparr>nm_Serial = serial, nm_Peers = [], nm_Routes = [], DNSConfig = no_dns, OfflinePeers = [],
     FirewallRules = [], RoutesFirewallRules = [], AuthorizedUsers = Map.empty, EnableSSH = False\<rparr>"

definition login_expired :: "time \<Rightarrow> bool \<Rightarrow> duration \<Rightarrow> nbpeer \<Rightarrow> bool" where
  "login_expired now enabled expiration p = (enabled \<and> fst (LoginExpired now p expiration))"

definition all_some :: "'a option list \<Rightarrow> 'a list option" where
  "all_some xs = (if None \<in> set xs then None else Some (map the xs))"

definition account_dns ::
  "nm_lib \<Rightarrow> Account \<Rightarrow> nbpeer \<Rightarrow> string \<Rightarrow> CustomZone \<Rightarrow> Zone list \<Rightarrow> nbpeer list \<Rightarrow> nbpeer list \<Rightarrow> dns_config" where
  "account_dns L a peer peerID peersCustomZone accountZones peersToConnect expiredPeers =
     (if \<not> getPeerDNSManagementStatus a peerID then no_dns
      else \<lparr>ServiceEnable = True, dns_NameServerGroups = getPeerNSGroups a peer peerID,
            CustomZones =
              (if zone_Domain peersCustomZone \<noteq> ''''
               then [\<lparr>zone_Domain = zone_Domain peersCustomZone,
                      zone_Records = filterZoneRecordsForPeers peer (zone_Records peersCustomZone) peersToConnect expiredPeers,
                      SearchDomainDisabled = False, NonAuthoritative = False\<rparr>]
               else []) @ filterPeerAppliedZones L accountZones (GetPeerGroups a peerID)\<rparr>)"

definition GetPeerNetworkMap ::
  "nm_lib \<Rightarrow> time \<Rightarrow> Account \<Rightarrow> string \<Rightarrow> CustomZone \<Rightarrow> Zone list \<Rightarrow> string set \<Rightarrow> (string \<Rightarrow> Policy list option) \<Rightarrow>
   routers_map \<Rightarrow> (string \<Rightarrow> string list option) \<Rightarrow> NetworkMap option" where
  "GetPeerNetworkMap L now a peerID peersCustomZone accountZones validatedPeersMap resourcePolicies routers groupIDToUserIDs =
     (case GetPeer a peerID of
        None \<Rightarrow> Some (empty_map (Serial a))
      | Some peer \<Rightarrow>
          if peerID \<notin> validatedPeersMap then Some (empty_map (Serial a))
          else
            let (aclPeers, firewallRules, authorizedUsers, enableSSH) =
                  GetPeerConnectionResources (lib_iter L) (lib_meets L) a peer validatedPeersMap groupIDToUserIDs;
                expired = login_expired now (PeerLoginExpirationEnabled a) (PeerLoginExpiration a);
                expiredPeers = filter expired aclPeers;
                peersToConnect = filter (\<lambda>p. \<not> expired p) aclPeers;
                routesUpdate = GetRoutesToSync a peerID peersToConnect (GetPeerGroups a peerID);
                routesFirewallRules = GetPeerRoutesFirewallRules (lib_iter L) a peerID validatedPeersMap
            in case GetNetworkResourcesRoutesToSync L a peerID resourcePolicies routers of
                 None \<Rightarrow> None
               | Some (isRouter, routes, sourcePeers) \<Rightarrow>
                   (case all_some routes of
                      None \<Rightarrow> None
                    | Some networkResourcesRoutes \<Rightarrow>
                        let networkResourcesFirewallRules =
                              (if isRouter
                               then GetPeerNetworkResourceFirewallRules (lib_iter L) a peer validatedPeersMap
                                      networkResourcesRoutes resourcePolicies
                               else []);
                            peersIncludingRouters =
                              addNetworksRoutingPeers (lib_iter L) a networkResourcesRoutes peer peersToConnect expiredPeers isRouter sourcePeers
                        in Some \<lparr>nm_Serial = Serial a, nm_Peers = peersIncludingRouters,
                             nm_Routes = networkResourcesRoutes @ routesUpdate,
                             DNSConfig = account_dns L a peer peerID peersCustomZone accountZones peersIncludingRouters expiredPeers,
                             OfflinePeers = expiredPeers, FirewallRules = firewallRules,
                             RoutesFirewallRules = networkResourcesFirewallRules @ routesFirewallRules,
                             AuthorizedUsers = authorizedUsers, EnableSSH = enableSSH\<rparr>))"

section \<open>Lemmas on routes and resources\<close>

lemma set_peer_copies: "r \<in> set (peer_copies get i rt) \<Longrightarrow> r = rt \<or> r = rt\<lparr>route_Peer := i, route_PeerGroups := [], route_ID := route_ID rt @ '':'' @ i\<rparr>"
  by (auto simp: peer_copies_def split: option.splits if_splits)

lemma take_route_keys:
  assumes "\<forall>r \<in> set (fst (snd st)). route_Peer r = key"
  shows "\<forall>r \<in> set (fst (snd (foldl (take_route key) st rs))). route_Peer r = key"
  using assms
proof (induction rs arbitrary: st)
  case (Cons r rs)
  have "\<forall>r \<in> set (fst (snd (take_route key st r))). route_Peer r = key"
    using Cons.prems by (auto simp: take_route_def Let_def case_prod_unfold)
  from Cons.IH [OF this] show ?case by simp
qed simp

lemma routing_peer_key:
  "r \<in> set (fst (getRoutingPeerRoutes a i)) \<Longrightarrow> \<exists>p. GetPeer a i = Some p \<and> route_Peer r = peer_Key p"
  using take_route_keys [of "({}, [], [])"] by (auto simp: getRoutingPeerRoutes_def split: option.splits)

lemma routes_to_sync_from:
  "r \<in> set (routes_to_sync routing i ps gs) \<Longrightarrow>
     r \<in> set (fst (routing i)) \<or> (\<exists>p \<in> set ps. r \<in> set (fst (routing (peer_ID p))))"
  by (auto simp: routes_to_sync_def filterRoutesFromPeersOfSameHAGroup_def filterRoutesByGroups_def Let_def case_prod_unfold)

lemma resource_loop_Some:
  assumes "\<And>p. p \<in> set ps \<Longrightarrow> sources p \<noteq> None"
  shows "\<exists>rs sp. resource_loop sources valid rr i b routes al ps = Some (rs, sp) \<and> set rs \<subseteq> set routes \<union> set rr" (is "?R al ps")
  using assms
proof (induction ps arbitrary: al)
  case (Cons p ps)
  obtain peers where p: "sources p = Some peers" using Cons.prems [of p] by auto
  have IH: "?R al' ps" for al' by (rule Cons.IH) (use Cons.prems in simp)
  consider "b" | "\<not> b" "i \<in> set peers \<and> valid (SourcePostureChecks p) i" | "\<not> b" "\<not> (i \<in> set peers \<and> valid (SourcePostureChecks p) i)"
    by blast
  then show ?case
  proof cases
    case 1
    with IH [of "al @ filter (valid (SourcePostureChecks p)) peers"] show ?thesis by (simp add: p)
  next
    case 3
    have "resource_loop sources valid rr i b routes al (p # ps) = resource_loop sources valid rr i b routes al ps"
      using 3 by (auto simp: p)
    with IH [of al] show ?thesis by simp
  qed (simp add: p)
qed simp

lemma sync_resource_Some:
  assumes "\<And>p. p \<in> set (case rp (nr_ID n) of None \<Rightarrow> [] | Some ps \<Rightarrow> ps) \<Longrightarrow> sources p \<noteq> None"
    and "\<And>r. r \<in> set routes \<Longrightarrow> P r" and "\<And>i router r. r \<in> set (mk n i router) \<Longrightarrow> P r"
  shows "\<exists>b' rs sp. sync_resource sources valid mk i rp routers n (b, routes, al) = Some (b', rs, sp) \<and> (\<forall>r \<in> set rs. P r)"
proof -
  let ?nrp = "case routers (nr_NetworkID n) of None \<Rightarrow> [] | Some l \<Rightarrow> l"
  let ?rr = "concat (map (\<lambda>(pid, router). mk n pid router) ?nrp)"
  let ?ps = "case rp (nr_ID n) of None \<Rightarrow> [] | Some ps \<Rightarrow> ps"
  have rr: "\<And>r. r \<in> set ?rr \<Longrightarrow> P r" using assms(3) by auto
  have L: "\<exists>rs sp. resource_loop sources valid ?rr i b' routes' al ?ps = Some (rs, sp) \<and> set rs \<subseteq> set routes' \<union> set ?rr" for b' routes'
    by (rule resource_loop_Some) (rule assms(1))
  show ?thesis
  proof (cases "map_of ?nrp i")
    case None
    from L [of False routes] rr assms(2) None show ?thesis by (fastforce simp: sync_resource_def Let_def)
  next
    case (Some router)
    from L [of True "routes @ mk n i router"] rr assms(2) assms(3) Some show ?thesis by (fastforce simp: sync_resource_def Let_def)
  qed
qed

lemma sync_resources_Some:
  assumes "\<And>n b routes al. n \<in> set ns \<Longrightarrow> nr_Enabled n \<Longrightarrow> \<forall>r \<in> set routes. P r \<Longrightarrow>
      \<exists>b' rs sp. step n (b, routes, al) = Some (b', rs, sp) \<and> (\<forall>r \<in> set rs. P r)"
    and "\<forall>r \<in> set routes. P r"
  shows "\<exists>b' rs sp. sync_resources step ns (b, routes, al) = Some (b', rs, sp) \<and> (\<forall>r \<in> set rs. P r)"
  using assms
proof (induction ns arbitrary: b routes al)
  case (Cons n ns)
  show ?case
  proof (cases "nr_Enabled n")
    case True
    from Cons.prems(1) [of n routes b al] Cons.prems(2) True
    obtain b' rs sp where s: "step n (b, routes, al) = Some (b', rs, sp)" "\<forall>r \<in> set rs. P r" by auto
    have "\<exists>b'' rs' sp'. sync_resources step ns (b', rs, sp) = Some (b'', rs', sp') \<and> (\<forall>r \<in> set rs'. P r)"
      by (rule Cons.IH) (use Cons.prems s in auto)
    with s True show ?thesis by simp
  next
    case False
    have "\<exists>b'' rs' sp'. sync_resources step ns (b, routes, al) = Some (b'', rs', sp') \<and> (\<forall>r \<in> set rs'. P r)"
      by (rule Cons.IH) (use Cons.prems in auto)
    with False show ?thesis by simp
  qed
qed simp

text \<open>A route through a peer of the account.\<close>

definition via_peer :: "Account \<Rightarrow> account_route \<Rightarrow> bool" where
  "via_peer a r \<longleftrightarrow> (\<exists>q. GetPeer a (route_PeerID r) = Some q \<and> route_Peer r = peer_Key q)"

lemma ToRoute_via:
  assumes "keyed a" and "GetPeer a i = Some q" and "nr_Type n = DomainResource \<longrightarrow> lib_domains L (nr_Domain n) \<noteq> None"
  shows "\<exists>r. ToRoute L n q router = Some r \<and> via_peer a r"
  using assms GetPeer_ID [OF assms(1,2)]
  by (auto simp: ToRoute_def via_peer_def Let_def split: NetworkResourceType.splits)

lemma resource_policies_rules:
  assumes "GetResourcePoliciesMap a i = Some ps" and "p \<in> set ps"
  shows "Rules p \<noteq> []"
proof -
  have "Rules p \<noteq> []" if "p \<in> set (GetPoliciesForNetworkResource a j)" for j
  proof -
    from that obtain q where q: "p \<in> set (resource_policy j (getNetworkResourceGroups a j) q (Rules q))"
      by (auto simp: GetPoliciesForNetworkResource_def)
    have "p \<in> set (resource_policy j gs q rs) \<Longrightarrow> p = q \<and> rs \<noteq> []" for gs rs
      by (induction rs) (auto split: if_splits)
    with q show ?thesis by blast
  qed
  moreover have "foldl (\<lambda>m r. m(nr_ID r \<mapsto> GetPoliciesForNetworkResource a (nr_ID r))) m ns i = Some ps \<Longrightarrow>
      m i = Some ps \<or> (\<exists>j. ps = GetPoliciesForNetworkResource a j)" for m ns
  proof (induction ns arbitrary: m)
    case (Cons n ns)
    from Cons.IH [of "m(nr_ID n \<mapsto> GetPoliciesForNetworkResource a (nr_ID n))"] Cons.prems show ?case
      by (auto split: if_splits)
  qed simp
  ultimately show ?thesis using assms unfolding GetResourcePoliciesMap_def by fastforce
qed

lemma resources_sync_Some:
  assumes "keyed a" and "\<And>n. n \<in> set (NetworkResources a) \<Longrightarrow> nr_Type n = DomainResource \<Longrightarrow> lib_domains L (nr_Domain n) \<noteq> None"
  shows "\<exists>isRouter rs sp. GetNetworkResourcesRoutesToSync L a i (GetResourcePoliciesMap a) routers = Some (isRouter, map Some rs, sp) \<and>
    (\<forall>r \<in> set rs. via_peer a r)"
proof -
  let ?P = "\<lambda>x. \<exists>r. x = Some r \<and> via_peer a r"
  let ?rp = "GetResourcePoliciesMap a"
  let ?sources = "policy_sources (lib_iter L) (getUniquePeerIDsFromGroupsIDs (lib_iter L) a)"
  let ?mk = "\<lambda>resource pid router. getNetworkResourcesRoutes L a resource pid router ?rp"
  have "\<exists>b' rs sp. sync_resources (sync_resource ?sources (validatePostureChecksOnPeer a) ?mk i ?rp routers) (NetworkResources a)
      (False, [], []) = Some (b', rs, sp) \<and> (\<forall>r \<in> set rs. ?P r)"
  proof (rule sync_resources_Some)
    fix n b routes al
    assume n: "n \<in> set (NetworkResources a)" and r: "\<forall>r \<in> set routes. ?P r"
    show "\<exists>b' rs sp. sync_resource ?sources (validatePostureChecksOnPeer a) ?mk i ?rp routers n (b, routes, al) = Some (b', rs, sp) \<and>
        (\<forall>r \<in> set rs. ?P r)"
    proof (rule sync_resource_Some)
      fix p
      assume "p \<in> set (case ?rp (nr_ID n) of None \<Rightarrow> [] | Some ps \<Rightarrow> ps)"
      then have "Rules p \<noteq> []" by (cases "?rp (nr_ID n)") (auto dest: resource_policies_rules)
      then show "?sources p \<noteq> None" by (auto simp: policy_sources_def split: list.splits)
    next
      fix j router x
      assume "x \<in> set (?mk n j router)"
      then obtain q where "GetPeer a j = Some q" "x = ToRoute L n q router"
        by (cases "GetPeer a j") (auto simp: getNetworkResourcesRoutes_def split: option.splits list.splits)
      with ToRoute_via [OF assms(1)] assms(2) [OF n] show "?P x" by auto
    qed (use r in blast)
  qed simp
  then obtain b' rs sp where s: "GetNetworkResourcesRoutesToSync L a i ?rp routers = Some (b', rs, sp)" "\<forall>r \<in> set rs. ?P r"
    unfolding GetNetworkResourcesRoutesToSync_def by blast
  have "map (Some \<circ> the) rs = rs" by (rule map_idI) (use s(2) in auto)
  then have "rs = map Some (map the rs)" by simp
  moreover have "\<forall>r \<in> set (map the rs). via_peer a r" using s(2) by auto
  ultimately show ?thesis using s(1) by metis
qed

lemma all_some_map [simp]: "all_some (map Some xs) = Some xs"
  by (auto simp: all_some_def comp_def)

lemma distinct_map_filter_GetPeer:
  assumes "keyed a" and "distinct xs"
  shows "distinct (map peer_ID (List.map_filter (GetPeer a) xs)) \<and> peer_ID ` set (List.map_filter (GetPeer a) xs) \<subseteq> set xs"
  using assms(2) by (induction xs) (auto simp: List.map_filter_simps GetPeer_ID [OF assms(1)] split: option.split)

lemma distinct_insert_between:
  "distinct (as @ cs) \<Longrightarrow> set (as @ cs) \<subseteq> S \<Longrightarrow> distinct bs \<Longrightarrow> set bs \<inter> insert v S = {} \<Longrightarrow> v \<notin> S \<Longrightarrow>
     distinct (v # (as @ bs) @ cs)"
  by auto

lemma distinct_parts:
  assumes "distinct (map f xs)" "distinct (map f ys)" "f ` set ys \<inter> insert (f z) (f ` set xs) = {}" "f z \<notin> f ` set xs"
  shows "distinct (map f (z # (filter (\<lambda>x. \<not> P x) xs @ ys) @ filter P xs))"
  unfolding map_append list.map
proof (rule distinct_insert_between [where S = "f ` set xs"])
  show "distinct (map f (filter (\<lambda>x. \<not> P x) xs) @ map f (filter P xs))" using assms(1) by (induction xs) auto
qed (use assms in auto)

section \<open>Consistency of the network map\<close>

definition consistent_map :: "Account \<Rightarrow> nbpeer \<Rightarrow> (nbpeer \<Rightarrow> bool) \<Rightarrow> NetworkMap \<Rightarrow> bool" where
  "consistent_map a peer expired m \<longleftrightarrow>
     (let known = nm_Peers m @ OfflinePeers m in
      distinct (map peer_ID (peer # known)) \<and>
      (\<forall>q \<in> set known. GetPeer a (peer_ID q) = Some q) \<and>
      (\<forall>q \<in> set (OfflinePeers m). expired q) \<and>
      (\<forall>r \<in> set (nm_Routes m). \<exists>q \<in> set (peer # known). route_Peer r = peer_Key q))"

text \<open>
  C8. The network map of a peer is consistent. For every account whose domain resources have valid
  names the map of a validated peer exists. The peers it lists, online or offline, are peers of the
  account, all distinct and different from the peer itself; the offline ones are those whose login
  expired; and every route leads through the peer itself or through a listed peer.
\<close>

theorem network_map_consistent:
  assumes "iteration (lib_iter L)" and "wf_account a" and "GetPeer a i = Some peer" and "i \<in> V"
    and "\<And>n. n \<in> set (NetworkResources a) \<Longrightarrow> nr_Type n = DomainResource \<Longrightarrow> lib_domains L (nr_Domain n) \<noteq> None"
  shows "\<exists>m. GetPeerNetworkMap L now a i cz az V (GetResourcePoliciesMap a) (GetResourceRoutersMap a) gu = Some m \<and>
    consistent_map a peer (login_expired now (PeerLoginExpirationEnabled a) (PeerLoginExpiration a)) m"
proof -
  have k: "keyed a" using assms(2) by (simp add: wf_account_def)
  have i: "peer_ID peer = i" using GetPeer_ID [OF k assms(3)] .
  obtain acl fw au ssh where c: "GetPeerConnectionResources (lib_iter L) (lib_meets L) a peer V gu = (acl, fw, au, ssh)"
    by (metis surj_pair)
  have "set acl = acl_peers a V i"
    using account_peers [OF conjI [OF assms(1,2)]] c i unfolding GetPeerConnectionResources_def by (metis fst_conv)
  then have acl: "\<And>q. q \<in> set acl \<Longrightarrow> GetPeer a (peer_ID q) = Some q \<and> peer_ID q \<noteq> i"
    by (auto simp: acl_peers_def access_def)
  have dist: "distinct (map peer_ID acl)"
    using distinct_conn_peers c unfolding GetPeerConnectionResources_def by (metis fst_conv)
  let ?ex = "login_expired now (PeerLoginExpirationEnabled a) (PeerLoginExpiration a)"
  let ?off = "filter ?ex acl" and ?on = "filter (\<lambda>p. \<not> ?ex p) acl"
  obtain isR rs sp where s: "GetNetworkResourcesRoutesToSync L a i (GetResourcePoliciesMap a) (GetResourceRoutersMap a) =
      Some (isR, map Some rs, sp)" "\<forall>r \<in> set rs. via_peer a r"
    using resources_sync_Some [OF k, of L i "GetResourceRoutersMap a"] assms(5) by blast
  let ?miss = "missing_peers rs i ?on ?off isR sp"
  let ?extra = "List.map_filter (GetPeer a) (lib_iter L ?miss)"
  have miss: "distinct ?miss" "set ?miss \<inter> (insert i (peer_ID ` set acl)) = {}"
    by (auto simp: missing_peers_def)
  have ex: "distinct (map peer_ID ?extra)" "peer_ID ` set ?extra \<subseteq> set ?miss"
    using distinct_map_filter_GetPeer [OF k, of "lib_iter L ?miss"] miss(1) assms(1) by simp_all
  have d: "distinct (map peer_ID (peer # (?on @ ?extra) @ ?off))"
  proof (rule distinct_parts [OF dist ex(1)])
    show "peer_ID ` set ?extra \<inter> insert (peer_ID peer) (peer_ID ` set acl) = {}" using ex(2) miss(2) i by blast
    show "peer_ID peer \<notin> peer_ID ` set acl" using acl i by (metis imageE)
  qed
  have known: "\<forall>q \<in> set ((?on @ ?extra) @ ?off). GetPeer a (peer_ID q) = Some q"
    using acl GetPeer_ID [OF k] by auto
  have via: "\<exists>q \<in> set (peer # (?on @ ?extra) @ ?off). route_Peer r = peer_Key q" if "r \<in> set rs" for r
  proof -
    from s(2) that obtain q where q: "GetPeer a (route_PeerID r) = Some q" "route_Peer r = peer_Key q"
      unfolding via_peer_def by blast
    have "route_PeerID r \<in> set ?miss \<union> insert i (peer_ID ` set acl)" using that by (auto simp: missing_peers_def)
    then have "q \<in> set ?extra \<or> q = peer \<or> q \<in> set acl" using q(1) assms(1,3) acl by auto
    then show ?thesis using q(2) by auto
  qed
  have sync: "\<exists>q \<in> set (peer # (?on @ ?extra) @ ?off). route_Peer r = peer_Key q"
    if "r \<in> set (GetRoutesToSync a i ?on (GetPeerGroups a i))" for r
  proof -
    from routes_to_sync_from [of r "getRoutingPeerRoutes a" i ?on "GetPeerGroups a i"] that
    consider "r \<in> set (fst (getRoutingPeerRoutes a i))" | p where "p \<in> set ?on" "r \<in> set (fst (getRoutingPeerRoutes a (peer_ID p)))"
      unfolding GetRoutesToSync_def by blast
    then show ?thesis
    proof cases
      case 1
      from routing_peer_key [OF 1] assms(3) show ?thesis by auto
    next
      case 2
      from routing_peer_key [OF 2(2)] acl 2(1) show ?thesis by auto
    qed
  qed
  have "\<exists>m. GetPeerNetworkMap L now a i cz az V (GetResourcePoliciesMap a) (GetResourceRoutersMap a) gu = Some m \<and>
      nm_Peers m = ?on @ ?extra \<and> OfflinePeers m = ?off \<and> nm_Routes m = rs @ GetRoutesToSync a i ?on (GetPeerGroups a i)"
    using s(1) assms(3,4) c by (simp add: GetPeerNetworkMap_def addNetworksRoutingPeers_def i Let_def)
  then obtain m where m: "GetPeerNetworkMap L now a i cz az V (GetResourcePoliciesMap a) (GetResourceRoutersMap a) gu = Some m"
      "nm_Peers m = ?on @ ?extra" "OfflinePeers m = ?off" "nm_Routes m = rs @ GetRoutesToSync a i ?on (GetPeerGroups a i)"
    by blast
  have "\<forall>q \<in> set ?off. ?ex q" by simp
  with d known via sync have "consistent_map a peer ?ex m"
    unfolding consistent_map_def Let_def m(2-4) set_append by blast
  with m(1) show ?thesis by blast
qed

text \<open>The account of the demonstration with a network behind the third peer that developers may use.\<close>

definition demo_lib :: nm_lib where
  "demo_lib = \<lparr>lib_iter = (\<lambda>xs. xs), lib_meets = (\<lambda>m v. Some True), lib_fqdn = (\<lambda>s. s @ ''.''), lib_domains = Some\<rparr>"

definition resource_rule :: PolicyRule where
  "resource_rule = demo_rule\<lparr>rule_ID := ''r2'', Sources := [''dev''], Destinations := [],
     DestinationResource := \<lparr>resource_ID = ''res'', resource_Type = ''domain''\<rparr>\<rparr>"

definition demo_network :: Account where
  "demo_network = demo_account\<lparr>
     Policies := Policies demo_account @ [\<lparr>policy_ID = ''p2'', policy_Enabled = True, Rules = [resource_rule], SourcePostureChecks = []\<rparr>],
     NetworkRouters := [\<lparr>router_ID = ''ro'', router_NetworkID = ''n1'', router_Peer = ''c'', router_PeerGroups = [],
        router_Masquerade = True, router_Metric = 9999, router_Enabled = True\<rparr>],
     NetworkResources := [\<lparr>nr_ID = ''res'', nr_NetworkID = ''n1'', nr_Name = ''db'', nr_Type = DomainResource, nr_Domain = ''db.example'',
        nr_Prefix = '''', nr_Enabled = True\<rparr>]\<rparr>"

lemma wf_demo_network: "wf_account demo_network"
proof -
  have "all_superset (GetGroup demo_network)" "keyed demo_network"
    using wf_demo_account by (simp_all add: wf_account_def demo_network_def GetGroup_def [abs_def] keyed_def)
  then show ?thesis
    by (simp add: wf_account_def rule_ids_ok_def enabled_rules_def demo_network_def demo_account_def resource_rule_def demo_rule_def)
qed

theorem network_map_consistent_witness:
  "\<exists>m. GetPeerNetworkMap demo_lib 0 demo_network ''a'' \<lparr>zone_Domain = '''', zone_Records = [], SearchDomainDisabled = False,
       NonAuthoritative = False\<rparr> [] {''a'', ''b'', ''c''} (GetResourcePoliciesMap demo_network) (GetResourceRoutersMap demo_network) Map.empty =
       Some m \<and>
     consistent_map demo_network (demo_peer ''a'' 0x64400001) (login_expired 0 False 0) m"
proof -
  have i: "iteration (lib_iter demo_lib)" and p: "GetPeer demo_network ''a'' = Some (demo_peer ''a'' 0x64400001)"
    and e: "PeerLoginExpirationEnabled demo_network = False" "PeerLoginExpiration demo_network = 0"
    by (simp_all add: demo_lib_def GetPeer_def demo_network_def demo_account_def)
  show ?thesis
    by (rule network_map_consistent [OF i wf_demo_network p, where now = 0, unfolded e]) (simp_all add: demo_lib_def)
qed

end
