(* ===== verification/NetworkMapComponents.thy ===== *)
theory NetworkMapComponents
  imports NetworkMap
begin

text \<open>
  The compacted computation of the network map, which the controller uses by default:
  \<open>GetPeerNetworkMapComponents\<close> of \<open>management/server/types/account_components.go\<close> selects the part of the
  account that concerns one peer, and \<open>Calculate\<close> of \<open>networkmap_components.go\<close> computes the map from it.

  The maps of peers and groups in the components can hold nil pointers, because the code stores the
  result of \<open>GetPeer\<close> and \<open>GetGroup\<close> unchecked; they are association lists with optional values.
\<close>

section \<open>The components\<close>

record NetworkMapComponents =
  c_PeerID :: string
  c_Serial :: "64 word"
  c_PeerLoginExpirationEnabled :: bool
  c_PeerLoginExpiration :: duration
  c_DisabledManagementGroups :: "string list"
  c_CustomZoneDomain :: string
  c_Peers :: "(string \<times> nbpeer option) list"
  c_Groups :: "(string \<times> Group option) list"
  c_Policies :: "Policy list"
  c_Routes :: "account_route list"
  c_NameServerGroups :: "NameServerGroup list"
  c_AllDNSRecords :: "SimpleRecord list"
  c_AccountZones :: "CustomZone list"
  c_ResourcePoliciesMap :: "string \<Rightarrow> Policy list option"
  c_RoutersMap :: routers_map
  c_NetworkResources :: "NetworkResource list"
  c_GroupIDToUserIDs :: "string \<Rightarrow> string list option"
  c_AllowedUserIDs :: "string set option"
  c_PostureFailedPeers :: "string \<Rightarrow> string set option"
  c_RouterPeers :: "string \<Rightarrow> nbpeer option"

definition GetPeerInfo :: "NetworkMapComponents \<Rightarrow> string \<Rightarrow> nbpeer option" where
  "GetPeerInfo c peerID = (case map_of (c_Peers c) peerID of Some p \<Rightarrow> p | None \<Rightarrow> None)"

definition GetGroupInfo :: "NetworkMapComponents \<Rightarrow> string \<Rightarrow> Group option" where
  "GetGroupInfo c groupID = (case map_of (c_Groups c) groupID of Some g \<Rightarrow> g | None \<Rightarrow> None)"

section \<open>Selecting what concerns a peer\<close>

definition validatePostureChecksOnPeerGetFailed :: "Account \<Rightarrow> string list \<Rightarrow> string \<Rightarrow> bool \<times> string" where
  "validatePostureChecksOnPeerGetFailed a sourcePostureChecksID peerID =
     (case GetPeer a peerID of
        None \<Rightarrow> (False, '''')
      | Some peer \<Rightarrow>
          (case find (check_fails a peer) sourcePostureChecksID of
             None \<Rightarrow> (True, '''')
           | Some i \<Rightarrow> (False, i)))"

type_synonym failed_peers = "string \<Rightarrow> string set option"

definition add_failed :: "failed_peers \<Rightarrow> string \<Rightarrow> string \<Rightarrow> failed_peers" where
  "add_failed failed pname peerID =
     failed(pname \<mapsto> insert peerID (case failed pname of None \<Rightarrow> {} | Some S \<Rightarrow> S))"

type_synonym group_scan = "string list \<times> bool \<times> failed_peers"

definition scan_peer :: "Account \<Rightarrow> string \<Rightarrow> string list \<Rightarrow> string set \<Rightarrow> group_scan \<Rightarrow> string \<Rightarrow> group_scan" where
  "scan_peer a peerID checks validatedPeersMap st pid =
     (let (filteredPeerIDs, peerInGroups, failed) = st in
      case GetPeer a pid of
        None \<Rightarrow> st
      | Some peer \<Rightarrow>
          if peer_ID peer \<notin> validatedPeersMap then st
          else let (isValid, pname) = validatePostureChecksOnPeerGetFailed a checks (peer_ID peer) in
            if \<not> isValid \<and> pname \<noteq> '''' then (filteredPeerIDs, peerInGroups, add_failed failed pname (peer_ID peer))
            else if peer_ID peer = peerID then (filteredPeerIDs, True, failed)
            else (filteredPeerIDs @ [peer_ID peer], peerInGroups, failed))"

definition scan_unseen ::
  "Account \<Rightarrow> string \<Rightarrow> string list \<Rightarrow> string set \<Rightarrow> string set \<times> group_scan \<Rightarrow> string \<Rightarrow> string set \<times> group_scan" where
  "scan_unseen a peerID checks validatedPeersMap st pid =
     (if pid \<in> fst st then st
      else (insert pid (fst st), scan_peer a peerID checks validatedPeersMap (snd st) pid))"

fun scan_groups ::
  "Account \<Rightarrow> nat \<Rightarrow> string \<Rightarrow> string list \<Rightarrow> string set \<Rightarrow> string set \<times> group_scan \<Rightarrow> string list \<Rightarrow> group_scan" where
  "scan_groups a n peerID checks validatedPeersMap st [] = snd st"
| "scan_groups a n peerID checks validatedPeersMap st (gid # groups) =
     (case GetGroup a gid of
        None \<Rightarrow> scan_groups a n peerID checks validatedPeersMap st groups
      | Some g \<Rightarrow>
          if IsGroupAll g \<or> n = 1
          then foldl (scan_peer a peerID checks validatedPeersMap) ([], False, snd (snd (snd st))) (group_Peers g)
          else scan_groups a n peerID checks validatedPeersMap
                 (foldl (scan_unseen a peerID checks validatedPeersMap) st (group_Peers g)) groups)"

definition getPeersFromGroups ::
  "Account \<Rightarrow> string list \<Rightarrow> string \<Rightarrow> string list \<Rightarrow> string set \<Rightarrow> failed_peers \<Rightarrow> group_scan" where
  "getPeersFromGroups a groups peerID checks validatedPeersMap failed =
     scan_groups a (length groups) peerID checks validatedPeersMap ({}, [], False, failed) groups"

record relevant =
  relevantPeerIDs :: "(string \<times> nbpeer option) list"
  relevantGroupIDs :: "(string \<times> Group option) list"
  neededGroupIDs :: "string set"
  needAllowedUserIDs :: bool
  rel_failed :: failed_peers

definition add_peers :: "Account \<Rightarrow> string list \<Rightarrow> relevant \<Rightarrow> relevant" where
  "add_peers a ids rel = rel\<lparr>relevantPeerIDs := foldl (\<lambda>m i. AList.update i (GetPeer a i) m) (relevantPeerIDs rel) ids\<rparr>"

definition add_groups :: "Account \<Rightarrow> string list \<Rightarrow> relevant \<Rightarrow> relevant" where
  "add_groups a ids rel = rel\<lparr>relevantGroupIDs := foldl (\<lambda>m i. AList.update i (GetGroup a i) m) (relevantGroupIDs rel) ids\<rparr>"

definition route_groups :: "account_route \<Rightarrow> string list" where
  "route_groups r = route_Groups r @ route_PeerGroups r @ (if route_Enabled r then AccessControlGroups r else [])"

definition routeAccessControlGroups :: "Account \<Rightarrow> string set" where
  "routeAccessControlGroups a = set (concat (map AccessControlGroups (filter route_Enabled (map snd (Routes a)))))"

definition relevant_start :: "Account \<Rightarrow> string \<Rightarrow> relevant" where
  "relevant_start a peerID =
     add_groups a (concat (map route_groups (map snd (Routes a))))
       \<lparr>relevantPeerIDs = [(peerID, GetPeer a peerID)],
        relevantGroupIDs = map (\<lambda>(i, g). (i, GetGroup a i)) (filter (\<lambda>(i, g). peerID \<in> set (group_Peers g)) (Groups a)),
        neededGroupIDs = {}, needAllowedUserIDs = False, rel_failed = Map.empty\<rparr>"

definition ssh_needs :: "bool \<Rightarrow> PolicyRule \<Rightarrow> relevant \<Rightarrow> relevant" where
  "ssh_needs peerSSHEnabled r rel =
     (if Protocol r = PolicyRuleProtocolNetbirdSSH
      then (if AuthorizedGroups r \<noteq> [] then rel\<lparr>neededGroupIDs := neededGroupIDs rel \<union> set (map fst (AuthorizedGroups r))\<rparr>
            else if AuthorizedUser r \<noteq> '''' then rel
            else rel\<lparr>needAllowedUserIDs := True\<rparr>)
      else if policyRuleImpliesLegacySSH r \<and> peerSSHEnabled then rel\<lparr>needAllowedUserIDs := True\<rparr>
      else rel)"

definition scan_end ::
  "Account \<Rightarrow> Resource \<Rightarrow> string list \<Rightarrow> string \<Rightarrow> string list \<Rightarrow> string set \<Rightarrow> failed_peers \<Rightarrow> group_scan" where
  "scan_end a resource groups peerID checks validatedPeersMap failed =
     (if is_peer_resource resource then ([resource_ID resource], resource_ID resource = peerID, failed)
      else getPeersFromGroups a groups peerID checks validatedPeersMap failed)"

definition relevant_rule ::
  "Account \<Rightarrow> string \<Rightarrow> bool \<Rightarrow> string set \<Rightarrow> Policy \<Rightarrow> relevant \<times> bool \<Rightarrow> PolicyRule \<Rightarrow> relevant \<times> bool" where
  "relevant_rule a peerID peerSSHEnabled validatedPeersMap policy st r =
     (let (rel, policyRelevant) = st;
          forRoute = list_ex (\<lambda>g. g \<in> routeAccessControlGroups a) (Destinations r);
          rel = (if forRoute then add_groups a (Sources r @ Destinations r) rel else rel);
          (sourcePeers, peerInSources, failed) =
            scan_end a (SourceResource r) (Sources r) peerID (SourcePostureChecks policy) validatedPeersMap (rel_failed rel);
          (destinationPeers, peerInDestinations, failed) =
            scan_end a (DestinationResource r) (Destinations r) peerID [] validatedPeersMap failed;
          rel = rel\<lparr>rel_failed := failed\<rparr>;
          rel = (if peerInSources then add_groups a (Destinations r) (add_peers a destinationPeers rel) else rel);
          rel = (if peerInDestinations
                 then ssh_needs peerSSHEnabled r (add_groups a (Sources r) (add_peers a sourcePeers rel)) else rel)
      in (rel, policyRelevant \<or> forRoute \<or> peerInSources \<or> peerInDestinations))"

definition relevant_policy ::
  "Account \<Rightarrow> string \<Rightarrow> bool \<Rightarrow> string set \<Rightarrow> relevant \<times> Policy list \<Rightarrow> Policy \<Rightarrow> relevant \<times> Policy list" where
  "relevant_policy a peerID peerSSHEnabled validatedPeersMap st policy =
     (let (rel, policyRelevant) =
        foldl (relevant_rule a peerID peerSSHEnabled validatedPeersMap policy) (fst st, False) (filter rule_Enabled (Rules policy))
      in (rel, if policyRelevant then snd st @ [policy] else snd st))"

definition getPeersGroupsPoliciesRoutes :: "Account \<Rightarrow> string \<Rightarrow> bool \<Rightarrow> string set \<Rightarrow> relevant \<times> Policy list" where
  "getPeersGroupsPoliciesRoutes a peerID peerSSHEnabled validatedPeersMap =
     foldl (relevant_policy a peerID peerSSHEnabled validatedPeersMap) (relevant_start a peerID, [])
       (filter policy_Enabled (Policies a))"

section \<open>Adding network resources\<close>

definition valid_or_failed ::
  "Account \<Rightarrow> string list \<Rightarrow> string set \<Rightarrow> string list \<times> failed_peers \<Rightarrow> string \<Rightarrow> string list \<times> failed_peers" where
  "valid_or_failed a checks validatedPeersMap st peerID =
     (if peerID \<notin> validatedPeersMap then st
      else let (valid, pname) = validatePostureChecksOnPeerGetFailed a checks peerID in
        if valid then (fst st @ [peerID], snd st) else (fst st, add_failed (snd st) pname peerID))"

definition getPostureValidPeersSaveFailed ::
  "Account \<Rightarrow> string list \<Rightarrow> string list \<Rightarrow> string set \<Rightarrow> failed_peers \<Rightarrow> string list \<times> failed_peers" where
  "getPostureValidPeersSaveFailed a inputPeers checks validatedPeersMap failed =
     foldl (valid_or_failed a checks validatedPeersMap) ([], failed) inputPeers"

definition put_new :: "(string \<times> 'v) list \<Rightarrow> string \<Rightarrow> 'v \<Rightarrow> (string \<times> 'v) list" where
  "put_new m k v = (if map_of m k = None then AList.update k v m else m)"

definition policy_groups :: "Account \<Rightarrow> Policy \<Rightarrow> (string \<times> Group option) list \<Rightarrow> (string \<times> Group option) list" where
  "policy_groups a policy m =
     foldl (\<lambda>m i. case GetGroup a i of None \<Rightarrow> m | Some g \<Rightarrow> put_new m i (Some g)) m (RuleGroups policy)"

definition in_policy_sources :: "(string list \<Rightarrow> string list) \<Rightarrow> Account \<Rightarrow> string \<Rightarrow> Policy \<Rightarrow> PolicyRule \<Rightarrow> bool" where
  "in_policy_sources iter a peerID policy r0 =
     (if is_peer_resource (SourceResource r0) then resource_ID (SourceResource r0) = peerID
      else list_ex (\<lambda>i. case GetGroup a i of None \<Rightarrow> False | Some g \<Rightarrow> peerID \<in> set (group_Peers g)) (SourceGroups iter policy))"

text \<open>
  One policy of a resource. The flag \<open>addSourcePeers\<close> is set for a routing peer before the loop, and in
  the loop once a policy admits the peer; the later policies then take the first branch.
\<close>

definition component_policy ::
  "nm_lib \<Rightarrow> Account \<Rightarrow> string set \<Rightarrow> string \<Rightarrow> Policy list \<Rightarrow> Policy \<Rightarrow> NetworkMapComponents \<times> bool \<Rightarrow>
   (NetworkMapComponents \<times> bool) option" where
  "component_policy L a validatedPeersMap resourceID policies policy st =
     (let (c, addSourcePeers) = st;
          use = (\<lambda>c. c\<lparr>c_Groups := policy_groups a policy (c_Groups c),
                       c_ResourcePoliciesMap := (c_ResourcePoliciesMap c)(resourceID \<mapsto> policies)\<rparr>)
      in case Rules policy of
           [] \<Rightarrow> None
         | r0 # _ \<Rightarrow>
             if addSourcePeers
             then let peers = (if is_peer_resource (SourceResource r0) then [resource_ID (SourceResource r0)]
                               else getUniquePeerIDsFromGroupsIDs (lib_iter L) a (SourceGroups (lib_iter L) policy));
                      (valid, failed) = getPostureValidPeersSaveFailed a peers (SourcePostureChecks policy) validatedPeersMap
                          (c_PostureFailedPeers c)
                  in Some (use (c\<lparr>c_PostureFailedPeers := failed,
                              c_Peers := foldl (\<lambda>m pID. put_new m pID (GetPeer a pID)) (c_Peers c) valid\<rparr>), True)
             else if \<not> in_policy_sources (lib_iter L) a (c_PeerID c) policy r0 then Some (c, False)
             else let (isValid, pname) = validatePostureChecksOnPeerGetFailed a (SourcePostureChecks policy) (c_PeerID c) in
               if \<not> isValid \<and> pname \<noteq> ''''
               then Some (c\<lparr>c_PostureFailedPeers := add_failed (c_PostureFailedPeers c) pname (c_PeerID c)\<rparr>, False)
               else Some (use c, True))"

fun component_policies ::
  "nm_lib \<Rightarrow> Account \<Rightarrow> string set \<Rightarrow> string \<Rightarrow> Policy list \<Rightarrow> Policy list \<Rightarrow> NetworkMapComponents \<times> bool \<Rightarrow>
   (NetworkMapComponents \<times> bool) option" where
  "component_policies L a validatedPeersMap resourceID policies [] st = Some st"
| "component_policies L a validatedPeersMap resourceID policies (p # ps) st =
     (case component_policy L a validatedPeersMap resourceID policies p st of
        None \<Rightarrow> None
      | Some st' \<Rightarrow> component_policies L a validatedPeersMap resourceID policies ps st')"

definition component_router :: "Account \<Rightarrow> string set \<Rightarrow> NetworkMapComponents \<Rightarrow> string \<Rightarrow> NetworkMapComponents" where
  "component_router a validatedPeersMap c peerIDKey =
     (case GetPeer a peerIDKey of
        None \<Rightarrow> c
      | Some p \<Rightarrow>
          let c = (if c_RouterPeers c peerIDKey = None then c\<lparr>c_RouterPeers := (c_RouterPeers c)(peerIDKey \<mapsto> p)\<rparr> else c)
          in if peerIDKey \<in> validatedPeersMap then c\<lparr>c_Peers := put_new (c_Peers c) peerIDKey (Some p)\<rparr> else c)"

definition component_resource ::
  "nm_lib \<Rightarrow> Account \<Rightarrow> string set \<Rightarrow> (string \<Rightarrow> Policy list option) \<Rightarrow> routers_map \<Rightarrow> NetworkMapComponents \<Rightarrow> NetworkResource \<Rightarrow>
   NetworkMapComponents option" where
  "component_resource L a validatedPeersMap resourcePolicies routers c resource =
     (if \<not> nr_Enabled resource then Some c
      else case resourcePolicies (nr_ID resource) of
        None \<Rightarrow> Some c
      | Some policies \<Rightarrow>
          let networkRoutingPeers = (case routers (nr_NetworkID resource) of None \<Rightarrow> [] | Some al \<Rightarrow> al);
              addSourcePeers = (map_of networkRoutingPeers (c_PeerID c) \<noteq> None)
          in case component_policies L a validatedPeersMap (nr_ID resource) policies policies (c, addSourcePeers) of
               None \<Rightarrow> None
             | Some (c, addSourcePeers) \<Rightarrow>
                 let c = c\<lparr>c_RoutersMap := (c_RoutersMap c)(nr_NetworkID resource \<mapsto> networkRoutingPeers)\<rparr>;
                     c = foldl (component_router a validatedPeersMap) c (map fst networkRoutingPeers)
                 in Some (if addSourcePeers then c\<lparr>c_NetworkResources := c_NetworkResources c @ [resource]\<rparr> else c))"

fun component_resources ::
  "nm_lib \<Rightarrow> Account \<Rightarrow> string set \<Rightarrow> (string \<Rightarrow> Policy list option) \<Rightarrow> routers_map \<Rightarrow> NetworkResource list \<Rightarrow> NetworkMapComponents \<Rightarrow>
   NetworkMapComponents option" where
  "component_resources L a validatedPeersMap resourcePolicies routers [] c = Some c"
| "component_resources L a validatedPeersMap resourcePolicies routers (r # rs) c =
     (case component_resource L a validatedPeersMap resourcePolicies routers c r of
        None \<Rightarrow> None
      | Some c' \<Rightarrow> component_resources L a validatedPeersMap resourcePolicies routers rs c')"

section \<open>Trimming\<close>

text \<open>The loop dereferences every group of the map; a nil group ends in a panic, the result \<^const>\<open>None\<close>.\<close>

definition filterGroupPeers ::
  "(string \<times> Group option) list \<Rightarrow> (string \<times> nbpeer option) list \<Rightarrow> (string \<times> Group option) list option" where
  "filterGroupPeers groups peers =
     (if list_ex (\<lambda>(i, g). g = None) groups then None
      else Some (List.map_filter (\<lambda>(i, g).
        let g = the g; filteredPeers = filter (\<lambda>pid. map_of peers pid \<noteq> None) (group_Peers g)
        in if filteredPeers = [] then None else Some (i, Some (g\<lparr>group_Peers := filteredPeers\<rparr>))) groups))"

definition filterPostureFailedPeers ::
  "failed_peers \<Rightarrow> Policy list \<Rightarrow> (string \<Rightarrow> Policy list option) \<Rightarrow> string list \<Rightarrow> (string \<times> nbpeer option) list \<Rightarrow> failed_peers" where
  "filterPostureFailedPeers failed policies resourcePoliciesMap resourceIDs peers =
     (let referenced = (\<lambda>checkID. list_ex (\<lambda>p. checkID \<in> set (SourcePostureChecks p)) policies \<or>
            list_ex (\<lambda>i. case resourcePoliciesMap i of None \<Rightarrow> False
              | Some ps \<Rightarrow> list_ex (\<lambda>p. checkID \<in> set (SourcePostureChecks p)) ps) resourceIDs)
      in (\<lambda>checkID. case failed checkID of
            None \<Rightarrow> None
          | Some S \<Rightarrow>
              if \<not> referenced checkID then None
              else let S' = {x \<in> S. map_of peers x \<noteq> None} in if S' = {} then None else Some S'))"

definition filterDNSRecordsByPeers :: "SimpleRecord list \<Rightarrow> (string \<times> nbpeer option) list \<Rightarrow> SimpleRecord list" where
  "filterDNSRecordsByPeers records peers =
     (let peerIPs = set (map (IP_String \<circ> peer_IP) (List.map_filter snd peers))
      in filter (\<lambda>r. RData r \<in> peerIPs) records)"

definition filterGroupIDToUserIDs :: "(string \<Rightarrow> string list option) \<Rightarrow> string set \<Rightarrow> string \<Rightarrow> string list option" where
  "filterGroupIDToUserIDs fullMap needed groupID = (if groupID \<in> needed then fullMap groupID else None)"

text \<open>\<^const>\<open>None\<close> is a panic, \<open>Some None\<close> the nil result for an unknown or unvalidated peer.\<close>

definition components_start ::
  "nm_lib \<Rightarrow> Account \<Rightarrow> nbpeer \<Rightarrow> string \<Rightarrow> CustomZone \<Rightarrow> Zone list \<Rightarrow> string set \<Rightarrow> (string \<Rightarrow> string list option) \<Rightarrow> NetworkMapComponents" where
  "components_start L a peer peerID peersCustomZone accountZones validatedPeersMap groupIDToUserIDs =
     (let (rel, policies) = getPeersGroupsPoliciesRoutes a peerID (SSHEnabled peer) validatedPeersMap in
      \<lparr>c_PeerID = peerID, c_Serial = Serial a, c_PeerLoginExpirationEnabled = PeerLoginExpirationEnabled a,
       c_PeerLoginExpiration = PeerLoginExpiration a, c_DisabledManagementGroups = DisabledManagementGroups a,
       c_CustomZoneDomain = zone_Domain peersCustomZone, c_Peers = relevantPeerIDs rel, c_Groups = relevantGroupIDs rel,
       c_Policies = policies, c_Routes = map snd (Routes a),
       c_NameServerGroups = filter (\<lambda>n. nsg_Enabled n \<and> list_ex (\<lambda>g. map_of (relevantGroupIDs rel) g \<noteq> None) (nsg_Groups n))
         (map snd (NameServerGroups a)),
       c_AllDNSRecords = filterDNSRecordsByPeers (zone_Records peersCustomZone) (relevantPeerIDs rel),
       c_AccountZones = filterPeerAppliedZones L accountZones (GetPeerGroups a peerID),
       c_ResourcePoliciesMap = Map.empty, c_RoutersMap = Map.empty, c_NetworkResources = [],
       c_GroupIDToUserIDs = filterGroupIDToUserIDs groupIDToUserIDs (neededGroupIDs rel),
       c_AllowedUserIDs = (if needAllowedUserIDs rel then Some (getAllowedUserIDs a) else None),
       c_PostureFailedPeers = rel_failed rel, c_RouterPeers = Map.empty\<rparr>)"

definition GetPeerNetworkMapComponents ::
  "nm_lib \<Rightarrow> Account \<Rightarrow> string \<Rightarrow> CustomZone \<Rightarrow> Zone list \<Rightarrow> string set \<Rightarrow> (string \<Rightarrow> Policy list option) \<Rightarrow>
   routers_map \<Rightarrow> (string \<Rightarrow> string list option) \<Rightarrow> NetworkMapComponents option option" where
  "GetPeerNetworkMapComponents L a peerID peersCustomZone accountZones validatedPeersMap resourcePolicies routers groupIDToUserIDs =
     (case GetPeer a peerID of
        None \<Rightarrow> Some None
      | Some peer \<Rightarrow>
          if peerID \<notin> validatedPeersMap then Some None
          else case component_resources L a validatedPeersMap resourcePolicies routers (NetworkResources a)
              (components_start L a peer peerID peersCustomZone accountZones validatedPeersMap groupIDToUserIDs) of
            None \<Rightarrow> None
          | Some c \<Rightarrow>
              (case filterGroupPeers (c_Groups c) (c_Peers c) of
                 None \<Rightarrow> None
               | Some groups \<Rightarrow>
                   Some (Some (c\<lparr>c_Groups := groups,
                     c_PostureFailedPeers := filterPostureFailedPeers (c_PostureFailedPeers c) (c_Policies c)
                       (c_ResourcePoliciesMap c) (map nr_ID (NetworkResources a)) (c_Peers c)\<rparr>))))"

section \<open>Calculating the map\<close>

definition ValidatePostureChecksOnPeer :: "NetworkMapComponents \<Rightarrow> string list \<Rightarrow> string \<Rightarrow> bool" where
  "ValidatePostureChecksOnPeer c postureCheckIDs peerID =
     (map_of (c_Peers c) peerID \<noteq> None \<and>
      list_all (\<lambda>i. case c_PostureFailedPeers c i of None \<Rightarrow> True | Some S \<Rightarrow> peerID \<notin> S) postureCheckIDs)"

definition c_GetPeerGroups :: "NetworkMapComponents \<Rightarrow> string \<Rightarrow> string set" where
  "c_GetPeerGroups c peerID =
     set (map fst (filter (\<lambda>(i, g). case g of None \<Rightarrow> False | Some g \<Rightarrow> peerID \<in> set (group_Peers g)) (c_Groups c)))"

definition c_getUniquePeerIDsFromGroupsIDs :: "(string list \<Rightarrow> string list) \<Rightarrow> NetworkMapComponents \<Rightarrow> string list \<Rightarrow> string list" where
  "c_getUniquePeerIDsFromGroupsIDs iter c groups = unique_peer_ids iter (GetGroupInfo c) groups"

definition c_getAllPeersFromGroups ::
  "(string list \<Rightarrow> string list) \<Rightarrow> NetworkMapComponents \<Rightarrow> string list \<Rightarrow> string \<Rightarrow> string list \<Rightarrow> nbpeer list \<times> bool" where
  "c_getAllPeersFromGroups iter c groups peerID checks =
     (let ids = filter (\<lambda>p. GetPeerInfo c p \<noteq> None \<and> ValidatePostureChecksOnPeer c checks p)
            (c_getUniquePeerIDsFromGroupsIDs iter c groups)
      in (List.map_filter (GetPeerInfo c) (filter (\<lambda>p. p \<noteq> peerID) ids), peerID \<in> set ids))"

definition c_getPeerFromResource :: "NetworkMapComponents \<Rightarrow> Resource \<Rightarrow> string \<Rightarrow> nbpeer list \<times> bool" where
  "c_getPeerFromResource c resource peerID =
     (if resource_ID resource = peerID then ([], True)
      else case GetPeerInfo c (resource_ID resource) of None \<Rightarrow> ([], False) | Some p \<Rightarrow> ([p], False))"

definition c_rule_peers :: "(string list \<Rightarrow> string list) \<Rightarrow> NetworkMapComponents \<Rightarrow> string \<Rightarrow> Policy \<Rightarrow> PolicyRule \<Rightarrow> rule_ends" where
  "c_rule_peers iter c peerID policy r =
     ((if is_peer_resource (SourceResource r) then c_getPeerFromResource c (SourceResource r) peerID
       else c_getAllPeersFromGroups iter c (Sources r) peerID (SourcePostureChecks policy)),
      (if is_peer_resource (DestinationResource r) then c_getPeerFromResource c (DestinationResource r) peerID
       else c_getAllPeersFromGroups iter c (Destinations r) peerID []))"

definition c_getAllowedUserIDs :: "NetworkMapComponents \<Rightarrow> string set" where
  "c_getAllowedUserIDs c = (case c_AllowedUserIDs c of None \<Rightarrow> {} | Some S \<Rightarrow> S)"

definition c_getPeerConnectionResources ::
  "nm_lib \<Rightarrow> NetworkMapComponents \<Rightarrow> string \<Rightarrow> nbpeer list \<times> FirewallRule list \<times> authorized \<times> bool" where
  "c_getPeerConnectionResources L c targetPeerID =
     (case GetPeerInfo c targetPeerID of
        None \<Rightarrow> ([], [], Map.empty, False)
      | Some targetPeer \<Rightarrow>
          conn_resources (lib_meets L) targetPeer (c_GroupIDToUserIDs c) (c_getAllowedUserIDs c)
            (c_rule_peers (lib_iter L) c targetPeerID) (c_Policies c))"

definition c_take_route ::
  "string \<Rightarrow> string set \<times> account_route list \<times> account_route list \<Rightarrow> account_route \<Rightarrow>
   string set \<times> account_route list \<times> account_route list" where
  "c_take_route key st r =
     (let (seenRoute, enabledRoutes, disabledRoutes) = st; r' = r\<lparr>route_Peer := key\<rparr> in
      if route_ID r \<in> seenRoute then st
      else if route_Enabled r then (insert (route_ID r) seenRoute, enabledRoutes @ [r'], disabledRoutes)
      else (insert (route_ID r) seenRoute, enabledRoutes, disabledRoutes @ [r']))"

definition peer_or_router :: "NetworkMapComponents \<Rightarrow> string \<Rightarrow> nbpeer option" where
  "peer_or_router c peerID = (case GetPeerInfo c peerID of Some p \<Rightarrow> Some p | None \<Rightarrow> c_RouterPeers c peerID)"

definition c_getRoutingPeerRoutes :: "NetworkMapComponents \<Rightarrow> string \<Rightarrow> account_route list \<times> account_route list" where
  "c_getRoutingPeerRoutes c peerID =
     (case peer_or_router c peerID of
        None \<Rightarrow> ([], [])
      | Some peer \<Rightarrow>
          snd (foldl (c_take_route (peer_Key peer)) ({}, [], [])
            (concat (map (peer_copies (GetGroupInfo c) peerID) (c_Routes c)))))"

definition c_getRulePeers ::
  "(string list \<Rightarrow> string list) \<Rightarrow> NetworkMapComponents \<Rightarrow> PolicyRule \<Rightarrow> string list \<Rightarrow> string \<Rightarrow> string set \<Rightarrow> nbpeer list" where
  "c_getRulePeers iter c r postureChecks peerID distributionPeers =
     (let ok = (\<lambda>pID. pID \<in> distributionPeers \<and> map_of (c_Peers c) pID \<noteq> None \<and> ValidatePostureChecksOnPeer c postureChecks pID);
          fromGroups = concat (map (\<lambda>i. case GetGroupInfo c i of None \<Rightarrow> []
              | Some g \<Rightarrow> filter (\<lambda>pID. pID \<noteq> peerID \<and> ok pID) (group_Peers g)) (Sources r));
          fromResource = (if is_peer_resource (SourceResource r) \<and> ok (resource_ID (SourceResource r))
              then [resource_ID (SourceResource r)] else [])
      in List.map_filter (GetPeerInfo c) (iter (remdups (fromGroups @ fromResource))))"

definition c_getRouteFirewallRules ::
  "(string list \<Rightarrow> string list) \<Rightarrow> NetworkMapComponents \<Rightarrow> string \<Rightarrow> Policy list \<Rightarrow> account_route \<Rightarrow> string set \<Rightarrow> RouteFirewallRule list" where
  "c_getRouteFirewallRules iter c peerID policies rt distributionPeers =
     concat (map (\<lambda>(policy, r). generateRouteFirewallRules rt r
         (c_getRulePeers iter c r (SourcePostureChecks policy) peerID distributionPeers)) (enabled_rules policies))"

definition c_getAllRoutePoliciesFromGroups :: "NetworkMapComponents \<Rightarrow> string list \<Rightarrow> Policy list" where
  "c_getAllRoutePoliciesFromGroups c accessControlGroups =
     concat (map (\<lambda>groupID. concat (map (\<lambda>policy.
         map (\<lambda>_. policy) (filter (\<lambda>r. groupID \<in> set (Destinations r)) (Rules policy))) (c_Policies c)))
       accessControlGroups)"

definition c_getPeerRoutesFirewallRules :: "(string list \<Rightarrow> string list) \<Rightarrow> NetworkMapComponents \<Rightarrow> string \<Rightarrow> RouteFirewallRule list" where
  "c_getPeerRoutesFirewallRules iter c peerID =
     concat (map (\<lambda>r.
       if AccessControlGroups r = [] then getDefaultPermit r
       else concat (map (\<lambda>accessGroup.
              c_getRouteFirewallRules iter c peerID (c_getAllRoutePoliciesFromGroups c [accessGroup]) r
                (getDistributionGroupsPeers (GetGroupInfo c) r)) (AccessControlGroups r)))
       (fst (c_getRoutingPeerRoutes c peerID)))"

text \<open>Unlike \<open>ToRoute\<close>, a name that is not a domain gives a route without network.\<close>

definition networkResourceToRoute :: "nm_lib \<Rightarrow> NetworkResource \<Rightarrow> nbpeer \<Rightarrow> NetworkRouter \<Rightarrow> account_route" where
  "networkResourceToRoute L n peer router =
     (let r = \<lparr>Network = ''invalid Prefix'', Domains = None, route_NetID = nr_Name n, DomainNetwork = False, SkipAutoApply = False,
          route_ID = nr_ID n @ '':'' @ peer_ID peer, route_Peer = peer_Key peer, route_PeerID = peer_ID peer,
          route_PeerGroups = [], route_Groups = [], AccessControlGroups = [], Masquerade = router_Masquerade router,
          Metric = router_Metric router, KeepRoute = True, route_Enabled = nr_Enabled n\<rparr>
      in case nr_Type n of
           DomainResource \<Rightarrow>
             (case lib_domains L (nr_Domain n) of
                None \<Rightarrow> r
              | Some ds \<Rightarrow> r\<lparr>Domains := Some ds, DomainNetwork := True, Network := ''192.0.2.0/32''\<rparr>)
         | _ \<Rightarrow> r\<lparr>Network := nr_Prefix n\<rparr>)"

definition c_getNetworkResourcesRoutes ::
  "nm_lib \<Rightarrow> NetworkMapComponents \<Rightarrow> NetworkResource \<Rightarrow> string \<Rightarrow> NetworkRouter \<Rightarrow> account_route option list" where
  "c_getNetworkResourcesRoutes L c resource peerID router =
     (case c_ResourcePoliciesMap c (nr_ID resource) of
        None \<Rightarrow> []
      | Some [] \<Rightarrow> []
      | Some (_ # _) \<Rightarrow>
          (case GetPeerInfo c peerID of None \<Rightarrow> [] | Some peer \<Rightarrow> [Some (networkResourceToRoute L resource peer router)]))"

definition c_getNetworkResourcesRoutesToSync :: "nm_lib \<Rightarrow> NetworkMapComponents \<Rightarrow> string \<Rightarrow> resource_state option" where
  "c_getNetworkResourcesRoutesToSync L c peerID =
     sync_resources
       (sync_resource (policy_sources (lib_iter L) (c_getUniquePeerIDsFromGroupsIDs (lib_iter L) c)) (ValidatePostureChecksOnPeer c)
          (c_getNetworkResourcesRoutes L c) peerID (c_ResourcePoliciesMap c) (c_RoutersMap c))
       (c_NetworkResources c) (False, [], [])"

definition c_getPeerNetworkResourceFirewallRules ::
  "(string list \<Rightarrow> string list) \<Rightarrow> NetworkMapComponents \<Rightarrow> string \<Rightarrow> account_route list \<Rightarrow> RouteFirewallRule list" where
  "c_getPeerNetworkResourceFirewallRules iter c peerID routes =
     (case GetPeerInfo c peerID of
        None \<Rightarrow> []
      | Some peer \<Rightarrow>
          concat (map (\<lambda>r.
            let policies = (case c_ResourcePoliciesMap c (GetResourceID r) of None \<Rightarrow> [] | Some ps \<Rightarrow> ps)
            in filter (\<lambda>f. SourceRanges f \<noteq> [])
                 (c_getRouteFirewallRules iter c peerID policies r (getPoliciesSourcePeers (GetGroupInfo c) policies)))
            (filter (\<lambda>r. route_Peer r = peer_Key peer) routes)))"

definition c_addNetworksRoutingPeers ::
  "(string list \<Rightarrow> string list) \<Rightarrow> NetworkMapComponents \<Rightarrow> account_route list \<Rightarrow> string \<Rightarrow> nbpeer list \<Rightarrow> nbpeer list \<Rightarrow> bool \<Rightarrow> string list \<Rightarrow> nbpeer list" where
  "c_addNetworksRoutingPeers iter c networkResourcesRoutes peerID peersToConnect expiredPeers isRouter sourcePeers =
     peersToConnect @ List.map_filter (peer_or_router c)
       (iter (missing_peers networkResourcesRoutes peerID peersToConnect expiredPeers isRouter sourcePeers))"

text \<open>The comparison of texts: the text of an IPv6 address is never that of a peer address.\<close>

definition c_peerIsNameserver :: "nbpeer \<Rightarrow> NameServerGroup \<Rightarrow> bool" where
  "c_peerIsNameserver peer nsGroup =
     list_ex (\<lambda>addr. case addr of Addr4 w \<Rightarrow> IP_String w = IP_String (peer_IP peer) | _ \<Rightarrow> False) (NameServers nsGroup)"

definition getPeerNSGroupsFromGroups :: "NetworkMapComponents \<Rightarrow> string \<Rightarrow> string set \<Rightarrow> NameServerGroup list" where
  "getPeerNSGroupsFromGroups c peerID groupList =
     (case GetPeerInfo c peerID of
        None \<Rightarrow> []
      | Some peer \<Rightarrow>
          filter (\<lambda>n. nsg_Enabled n \<and> list_ex (\<lambda>g. g \<in> groupList) (nsg_Groups n) \<and> \<not> c_peerIsNameserver peer n)
            (c_NameServerGroups c))"

definition c_dns :: "NetworkMapComponents \<Rightarrow> string \<Rightarrow> dns_config" where
  "c_dns c peerID =
     (if \<not> DNSManagementStatus (c_DisabledManagementGroups c) (c_GetPeerGroups c peerID) then no_dns
      else \<lparr>ServiceEnable = True, dns_NameServerGroups = getPeerNSGroupsFromGroups c peerID (c_GetPeerGroups c peerID),
            CustomZones =
              (if c_CustomZoneDomain c \<noteq> '''' \<and> c_AllDNSRecords c \<noteq> []
               then [\<lparr>zone_Domain = c_CustomZoneDomain c, zone_Records = c_AllDNSRecords c, SearchDomainDisabled = False,
                      NonAuthoritative = False\<rparr>]
               else []) @ c_AccountZones c\<rparr>)"

definition Calculate :: "nm_lib \<Rightarrow> time \<Rightarrow> NetworkMapComponents \<Rightarrow> NetworkMap option" where
  "Calculate L now c =
     (let targetPeerID = c_PeerID c;
          (aclPeers, firewallRules, authorizedUsers, sshEnabled) = c_getPeerConnectionResources L c targetPeerID;
          expired = login_expired now (c_PeerLoginExpirationEnabled c) (c_PeerLoginExpiration c);
          expiredPeers = filter expired aclPeers;
          peersToConnect = filter (\<lambda>p. \<not> expired p) aclPeers;
          routesUpdate = routes_to_sync (c_getRoutingPeerRoutes c) targetPeerID peersToConnect (c_GetPeerGroups c targetPeerID);
          routesFirewallRules = c_getPeerRoutesFirewallRules (lib_iter L) c targetPeerID
      in case c_getNetworkResourcesRoutesToSync L c targetPeerID of
           None \<Rightarrow> None
         | Some (isRouter, routes, sourcePeers) \<Rightarrow>
             (case all_some routes of
                None \<Rightarrow> None
              | Some networkResourcesRoutes \<Rightarrow>
                  let networkResourcesFirewallRules =
                        (if isRouter then c_getPeerNetworkResourceFirewallRules (lib_iter L) c targetPeerID networkResourcesRoutes else []);
                      peersIncludingRouters =
                        c_addNetworksRoutingPeers (lib_iter L) c networkResourcesRoutes targetPeerID peersToConnect expiredPeers isRouter sourcePeers
                  in Some \<lparr>nm_Serial = c_Serial c, nm_Peers = peersIncludingRouters, nm_Routes = networkResourcesRoutes @ routesUpdate,
                       DNSConfig = c_dns c targetPeerID, OfflinePeers = expiredPeers, FirewallRules = firewallRules,
                       RoutesFirewallRules = networkResourcesFirewallRules @ routesFirewallRules,
                       AuthorizedUsers = authorizedUsers, EnableSSH = sshEnabled\<rparr>))"

definition GetPeerNetworkMapFromComponents ::
  "nm_lib \<Rightarrow> time \<Rightarrow> Account \<Rightarrow> string \<Rightarrow> CustomZone \<Rightarrow> Zone list \<Rightarrow> string set \<Rightarrow> (string \<Rightarrow> Policy list option) \<Rightarrow>
   routers_map \<Rightarrow> (string \<Rightarrow> string list option) \<Rightarrow> NetworkMap option" where
  "GetPeerNetworkMapFromComponents L now a peerID peersCustomZone accountZones validatedPeersMap resourcePolicies routers groupIDToUserIDs =
     (case GetPeerNetworkMapComponents L a peerID peersCustomZone accountZones validatedPeersMap resourcePolicies routers groupIDToUserIDs of
        None \<Rightarrow> None
      | Some None \<Rightarrow> Some (empty_map (Serial a))
      | Some (Some c) \<Rightarrow> Calculate L now c)"

section \<open>Association lists whose values follow from their keys\<close>

definition follows :: "('k \<Rightarrow> 'v) \<Rightarrow> ('k \<times> 'v) list \<Rightarrow> bool" where
  "follows F al \<longleftrightarrow> (\<forall>(k, v) \<in> set al. v = F k)"

lemma follows_lookup: "follows F al \<Longrightarrow> map_of al k = (if k \<in> fst ` set al then Some (F k) else None)"
  by (induction al) (auto simp: follows_def)

lemma set_update_subset: "set (AList.update k v al) \<subseteq> insert (k, v) (set al)"
  by (induction al) auto

lemma fst_set_update [simp]: "fst ` set (AList.update k v al) = insert k (fst ` set al)"
  by (simp add: dom_update)

lemma follows_update: "follows F al \<Longrightarrow> follows F (AList.update k (F k) al)"
  using set_update_subset [of k "F k" al] by (fastforce simp: follows_def)

lemma follows_updates:
  "follows F al \<Longrightarrow> follows F (foldl (\<lambda>m i. AList.update i (F i) m) al ids) \<and>
     fst ` set (foldl (\<lambda>m i. AList.update i (F i) m) al ids) = fst ` set al \<union> set ids"
  by (induction ids arbitrary: al) (auto simp: follows_update)

lemma follows_filtered:
  assumes "follows F al"
  shows "map_of (List.map_filter (\<lambda>(k, v). map_option (Pair k) (H k v)) al) k =
    (if k \<in> fst ` set al then H k (F k) else None)"
  using assms by (induction al) (auto simp: follows_def List.map_filter_simps split: option.splits)

section \<open>Scanning groups\<close>

definition failed_on :: "failed_peers \<Rightarrow> string \<Rightarrow> string set" where
  "failed_on f i = (case f i of None \<Rightarrow> {} | Some S \<Rightarrow> S)"

lemma failed_on_add [simp]: "failed_on (add_failed f i x) j = (if j = i then insert x (failed_on f i) else failed_on f j)"
  by (simp add: failed_on_def add_failed_def)

definition grows :: "failed_peers \<Rightarrow> failed_peers \<Rightarrow> bool" where
  "grows f f' \<longleftrightarrow> (\<forall>i. failed_on f i \<subseteq> failed_on f' i)"

definition sound_failed :: "Account \<Rightarrow> failed_peers \<Rightarrow> bool" where
  "sound_failed a f \<longleftrightarrow> (\<forall>i x. i \<noteq> '''' \<longrightarrow> x \<in> failed_on f i \<longrightarrow> (\<exists>q. GetPeer a x = Some q \<and> check_fails a q i))"

definition covers :: "Account \<Rightarrow> string set \<Rightarrow> string list \<Rightarrow> string set \<Rightarrow> failed_peers \<Rightarrow> bool" where
  "covers a V checks X f \<longleftrightarrow>
     (\<forall>x \<in> X \<inter> V. \<forall>q. GetPeer a x = Some q \<longrightarrow> \<not> validatePostureChecksOnPeer a checks x \<longrightarrow> (\<exists>i \<in> set checks. x \<in> failed_on f i))"

definition good :: "Account \<Rightarrow> string set \<Rightarrow> string list \<Rightarrow> string \<Rightarrow> bool" where
  "good a V checks x \<longleftrightarrow> x \<in> V \<and> validatePostureChecksOnPeer a checks x"

lemma grows_refl [simp]: "grows f f"
  by (simp add: grows_def)

lemma grows_trans: "grows f g \<Longrightarrow> grows g h \<Longrightarrow> grows f h"
  by (auto simp: grows_def)

lemma grows_add [simp]: "grows f (add_failed f i x)"
  by (auto simp: grows_def)

lemma covers_grows: "covers a V cs X f \<Longrightarrow> grows f g \<Longrightarrow> covers a V cs X g"
  unfolding covers_def grows_def by blast

lemma covers_Un [simp]: "covers a V cs (X \<union> Y) f \<longleftrightarrow> covers a V cs X f \<and> covers a V cs Y f"
  by (auto simp: covers_def)

lemma covers_empty [simp]: "covers a V cs {} f"
  by (simp add: covers_def)

lemma sound_add:
  "sound_failed a f \<Longrightarrow> GetPeer a x = Some q \<Longrightarrow> check_fails a q i \<Longrightarrow> sound_failed a (add_failed f i x)"
  by (auto simp: sound_failed_def)

text \<open>What scanning the peers \<open>X\<close> for the target \<open>p\<close> has collected, starting from the failures \<open>f\<close>.\<close>

definition scanned :: "Account \<Rightarrow> string set \<Rightarrow> string list \<Rightarrow> string \<Rightarrow> failed_peers \<Rightarrow> string set \<Rightarrow> group_scan \<Rightarrow> bool" where
  "scanned a V checks p f X st \<longleftrightarrow>
     set (fst st) = {x \<in> X. good a V checks x \<and> x \<noteq> p} \<and> fst (snd st) = (p \<in> X \<and> good a V checks p) \<and>
     grows f (snd (snd st)) \<and> (sound_failed a f \<longrightarrow> sound_failed a (snd (snd st))) \<and> covers a V checks X (snd (snd st))"

lemma scanned_start [simp]: "scanned a V cs p f {} ([], False, f)"
  by (simp add: scanned_def)

lemma scan_peer_scanned:
  assumes "keyed a" and "'''' \<notin> set checks" and "scanned a V checks p f X st"
  shows "scanned a V checks p f (insert x X) (scan_peer a p checks V st x)"
proof -
  obtain ids b g where st: "st = (ids, b, g)" by (cases st)
  note S = assms(3) [unfolded st scanned_def, simplified]
  show ?thesis
  proof (cases "GetPeer a x")
    case None
    then have "\<not> good a V checks x" by (simp add: good_def validatePostureChecksOnPeer_def)
    then have "{y. (y = x \<or> y \<in> X) \<and> good a V checks y \<and> y \<noteq> p} = {y \<in> X. good a V checks y \<and> y \<noteq> p}"
      "(p = x \<or> p \<in> X) \<and> good a V checks p \<longleftrightarrow> p \<in> X \<and> good a V checks p" by auto
    moreover have "covers a V checks (insert x X) g" using S None by (auto simp: covers_def)
    ultimately show ?thesis using None S by (simp add: scan_peer_def st scanned_def)
  next
    case (Some q)
    have i: "peer_ID q = x" using GetPeer_ID [OF assms(1) Some] .
    show ?thesis
    proof (cases "x \<in> V")
      case False
      then have "\<not> good a V checks x" by (simp add: good_def)
      then have "{y. (y = x \<or> y \<in> X) \<and> good a V checks y \<and> y \<noteq> p} = {y \<in> X. good a V checks y \<and> y \<noteq> p}"
        "(p = x \<or> p \<in> X) \<and> good a V checks p \<longleftrightarrow> p \<in> X \<and> good a V checks p" by auto
      moreover have "covers a V checks (insert x X) g" using S False by (auto simp: covers_def)
      ultimately show ?thesis using False Some i S by (simp add: scan_peer_def st scanned_def)
    next
      case True
      show ?thesis
      proof (cases "find (check_fails a q) checks")
        case None
        then have v: "validatePostureChecksOnPeer a checks x"
          by (auto simp: validatePostureChecksOnPeer_def Some list_all_iff find_None_iff)
        then have "good a V checks x" using True by (simp add: good_def)
        moreover have "covers a V checks (insert x X) g" using S v by (auto simp: covers_def)
        ultimately show ?thesis using Some i S True None
          by (auto simp: scan_peer_def st scanned_def validatePostureChecksOnPeerGetFailed_def)
      next
        case f: (Some j)
        from f have j: "j \<in> set checks" "check_fails a q j" by (auto simp: find_Some_iff)
        then have "\<not> good a V checks x" by (auto simp: good_def validatePostureChecksOnPeer_def Some list_all_iff)
        then have "{y. (y = x \<or> y \<in> X) \<and> good a V checks y \<and> y \<noteq> p} = {y \<in> X. good a V checks y \<and> y \<noteq> p}"
          "(p = x \<or> p \<in> X) \<and> good a V checks p \<longleftrightarrow> p \<in> X \<and> good a V checks p" by auto
        note sets = this
        have "covers a V checks X (add_failed g j x)" using S covers_grows [of a V checks X g] by simp
        moreover have "covers a V checks {x} (add_failed g j x)" using j(1) by (auto simp: covers_def intro!: bexI [of _ j])
        ultimately have "covers a V checks (insert x X) (add_failed g j x)" using covers_Un [of a V checks "{x}" X] by simp
        moreover have "sound_failed a f \<longrightarrow> sound_failed a (add_failed g j x)" using S sound_add [OF _ Some j(2)] by blast
        moreover have "grows f (add_failed g j x)" using S grows_trans by (metis grows_add)
        moreover have "j \<noteq> ''''" using j(1) assms(2) by metis
        ultimately show ?thesis using Some i S True f sets
          by (simp add: scan_peer_def st scanned_def validatePostureChecksOnPeerGetFailed_def)
      qed
    qed
  qed
qed

lemma scan_peers_scanned:
  assumes "keyed a" and "'''' \<notin> set checks"
  shows "scanned a V checks p f X st \<Longrightarrow> scanned a V checks p f (X \<union> set xs) (foldl (scan_peer a p checks V) st xs)"
proof (induction xs arbitrary: st X)
  case (Cons x xs)
  from Cons.IH [OF scan_peer_scanned [OF assms Cons.prems, of x]] show ?case by simp
qed simp

lemma scan_unseen_scanned:
  assumes "keyed a" and "'''' \<notin> set checks"
  shows "scanned a V checks p f seen st \<Longrightarrow>
    fst (foldl (scan_unseen a p checks V) (seen, st) xs) = seen \<union> set xs \<and>
    scanned a V checks p f (seen \<union> set xs) (snd (foldl (scan_unseen a p checks V) (seen, st) xs))"
proof (induction xs arbitrary: seen st)
  case (Cons x xs)
  show ?case
  proof (cases "x \<in> seen")
    case True
    with Cons.IH [OF Cons.prems] show ?thesis by (simp add: scan_unseen_def insert_absorb)
  next
    case False
    with Cons.IH [OF scan_peer_scanned [OF assms Cons.prems, of x]] show ?thesis by (simp add: scan_unseen_def)
  qed
qed simp

lemma scanned_failed:
  assumes "scanned a V checks p f X st"
  shows "scanned a V checks p f {} ([], False, snd (snd st))"
  using assms by (simp add: scanned_def)

lemma scan_groups_scanned:
  assumes "keyed a" and "'''' \<notin> set checks" and "scanned a V checks p f seen (snd st)" and "fst st = seen"
  shows "\<exists>X. scanned a V checks p f X (scan_groups a n p checks V st groups) \<and>
    (X = seen \<union> members (GetGroup a) groups \<or>
     (\<exists>i \<in> set groups. \<exists>g. GetGroup a i = Some g \<and> X = set (group_Peers g) \<and> (IsGroupAll g \<or> n = 1)))"
  using assms(3,4)
proof (induction groups arbitrary: st seen)
  case Nil
  then show ?case by auto
next
  case (Cons i groups)
  show ?case
  proof (cases "GetGroup a i")
    case None
    with Cons.IH [OF Cons.prems] show ?thesis by auto
  next
    case (Some g)
    show ?thesis
    proof (cases "IsGroupAll g \<or> n = 1")
      case True
      have "scanned a V checks p f ({} \<union> set (group_Peers g))
          (foldl (scan_peer a p checks V) ([], False, snd (snd (snd st))) (group_Peers g))"
        by (rule scan_peers_scanned [OF assms(1,2) scanned_failed [OF Cons.prems(1)]])
      with True Some show ?thesis by auto
    next
      case False
      from scan_unseen_scanned [OF assms(1,2) Cons.prems(1), of "group_Peers g"] Cons.prems(2)
      have "scanned a V checks p f (seen \<union> set (group_Peers g)) (snd (foldl (scan_unseen a p checks V) st (group_Peers g)))"
        "fst (foldl (scan_unseen a p checks V) st (group_Peers g)) = seen \<union> set (group_Peers g)" by (cases st, simp)+
      from Cons.IH [OF this] False Some show ?thesis by (auto simp: Un_assoc)
    qed
  qed
qed

lemma getPeersFromGroups_scanned:
  assumes "keyed a" and "all_superset (GetGroup a)" and "'''' \<notin> set checks"
  shows "scanned a V checks p f (members (GetGroup a) groups) (getPeersFromGroups a groups p checks V f)"
proof -
  obtain X where X: "scanned a V checks p f X (getPeersFromGroups a groups p checks V f)"
    "X = {} \<union> members (GetGroup a) groups \<or>
     (\<exists>i \<in> set groups. \<exists>g. GetGroup a i = Some g \<and> X = set (group_Peers g) \<and> (IsGroupAll g \<or> length groups = 1))"
    using scan_groups_scanned [OF assms(1,3), of V p f "{}" "({}, [], False, f)" "length groups" groups]
    unfolding getPeersFromGroups_def by auto
  then have "X = members (GetGroup a) groups" using early_members [OF assms(2)] by auto
  with X(1) show ?thesis by simp
qed

section \<open>What the selection has done\<close>

text \<open>
  Accounts on which both computations agree: embedded peers are in no group, a peer that a rule names as
  a resource is validated, no posture check has the empty ID, and the groups that rules and routes name
  exist.
\<close>

definition compactable :: "Account \<Rightarrow> string set \<Rightarrow> bool" where
  "compactable a V \<longleftrightarrow> wf_account a \<and>
     list_all (\<lambda>(i, g). list_all (\<lambda>x. case GetPeer a x of None \<Rightarrow> True | Some q \<Rightarrow> \<not> Embedded q) (group_Peers g)) (Groups a) \<and>
     list_all (\<lambda>(pol, r). list_all (\<lambda>res. is_peer_resource res \<longrightarrow> GetPeer a (resource_ID res) = None \<or> resource_ID res \<in> V)
       [SourceResource r, DestinationResource r]) (enabled_rules (Policies a)) \<and>
     list_all (\<lambda>pol. '''' \<notin> set (SourcePostureChecks pol)) (Policies a) \<and>
     list_all (\<lambda>(pol, r). list_all (\<lambda>i. GetGroup a i \<noteq> None) (Sources r @ Destinations r)) (enabled_rules (Policies a)) \<and>
     list_all (\<lambda>(i, rt). list_all (\<lambda>i. GetGroup a i \<noteq> None) (route_groups rt)) (Routes a)"

lemma compactableD:
  assumes "compactable a V"
  shows "keyed a" "all_superset (GetGroup a)" "wf_account a"
    and "GetGroup a i = Some g \<Longrightarrow> x \<in> set (group_Peers g) \<Longrightarrow> GetPeer a x = Some q \<Longrightarrow> \<not> Embedded q"
    and "(pol, r) \<in> set (enabled_rules (Policies a)) \<Longrightarrow> is_peer_resource (SourceResource r) \<Longrightarrow>
       GetPeer a (resource_ID (SourceResource r)) \<noteq> None \<Longrightarrow> resource_ID (SourceResource r) \<in> V"
    and "(pol, r) \<in> set (enabled_rules (Policies a)) \<Longrightarrow> is_peer_resource (DestinationResource r) \<Longrightarrow>
       GetPeer a (resource_ID (DestinationResource r)) \<noteq> None \<Longrightarrow> resource_ID (DestinationResource r) \<in> V"
    and "pol \<in> set (Policies a) \<Longrightarrow> '''' \<notin> set (SourcePostureChecks pol)"
    and "(pol, r) \<in> set (enabled_rules (Policies a)) \<Longrightarrow> i \<in> set (Sources r) \<union> set (Destinations r) \<Longrightarrow> GetGroup a i \<noteq> None"
    and "rt \<in> set (map snd (Routes a)) \<Longrightarrow> i \<in> set (route_groups rt) \<Longrightarrow> GetGroup a i \<noteq> None"
  using assms unfolding compactable_def list_all_iff
  by (fastforce simp: wf_account_def GetGroup_def dest: map_of_SomeD)+

definition parts_inv :: "Account \<Rightarrow> string set \<Rightarrow> string \<Rightarrow> (string \<times> nbpeer option) list \<Rightarrow> (string \<times> Group option) list \<Rightarrow> failed_peers \<Rightarrow> bool" where
  "parts_inv a V p peers groups failed \<longleftrightarrow>
     follows (GetPeer a) peers \<and> (\<forall>x \<in> fst ` set peers. GetPeer a x \<noteq> None \<longrightarrow> x \<in> V) \<and> p \<in> fst ` set peers \<and>
     follows (GetGroup a) groups \<and> (\<forall>i \<in> fst ` set groups. GetGroup a i \<noteq> None) \<and>
     (\<forall>i g. GetGroup a i = Some g \<longrightarrow> p \<in> set (group_Peers g) \<longrightarrow> i \<in> fst ` set groups) \<and>
     sound_failed a failed"

abbreviation rel_inv :: "Account \<Rightarrow> string set \<Rightarrow> string \<Rightarrow> relevant \<Rightarrow> bool" where
  "rel_inv a V p rel \<equiv> parts_inv a V p (relevantPeerIDs rel) (relevantGroupIDs rel) (rel_failed rel)"

definition rel_le :: "relevant \<Rightarrow> relevant \<Rightarrow> bool" where
  "rel_le rel rel' \<longleftrightarrow>
     fst ` set (relevantPeerIDs rel) \<subseteq> fst ` set (relevantPeerIDs rel') \<and>
     fst ` set (relevantGroupIDs rel) \<subseteq> fst ` set (relevantGroupIDs rel') \<and>
     neededGroupIDs rel \<subseteq> neededGroupIDs rel' \<and> (needAllowedUserIDs rel \<longrightarrow> needAllowedUserIDs rel') \<and>
     grows (rel_failed rel) (rel_failed rel')"

definition ssh_ready :: "bool \<Rightarrow> PolicyRule \<Rightarrow> relevant \<Rightarrow> bool" where
  "ssh_ready ssh r rel \<longleftrightarrow>
     (if Protocol r = PolicyRuleProtocolNetbirdSSH
      then if AuthorizedGroups r \<noteq> [] then fst ` set (AuthorizedGroups r) \<subseteq> neededGroupIDs rel
           else AuthorizedUser r \<noteq> '''' \<or> needAllowedUserIDs rel
      else policyRuleImpliesLegacySSH r \<and> ssh \<longrightarrow> needAllowedUserIDs rel)"

definition rule_done :: "Account \<Rightarrow> string set \<Rightarrow> string \<Rightarrow> bool \<Rightarrow> Policy \<Rightarrow> PolicyRule \<Rightarrow> relevant \<Rightarrow> bool" where
  "rule_done a V p ssh pol r rel \<longleftrightarrow>
     (p \<in> source_ids a V pol r \<longrightarrow>
        dest_ids a V r - {p} \<subseteq> fst ` set (relevantPeerIDs rel) \<and> set (Destinations r) \<subseteq> fst ` set (relevantGroupIDs rel)) \<and>
     (p \<in> dest_ids a V r \<longrightarrow>
        source_ids a V pol r - {p} \<subseteq> fst ` set (relevantPeerIDs rel) \<and> set (Sources r) \<subseteq> fst ` set (relevantGroupIDs rel) \<and>
        ssh_ready ssh r rel) \<and>
     (\<not> is_peer_resource (SourceResource r) \<longrightarrow>
        covers a V (SourcePostureChecks pol) (members (GetGroup a) (Sources r)) (rel_failed rel))"

lemma rel_le_refl [simp]: "rel_le rel rel"
  by (simp add: rel_le_def)

lemma rel_le_trans: "rel_le x y \<Longrightarrow> rel_le y z \<Longrightarrow> rel_le x z"
  unfolding rel_le_def by (elim conjE, intro conjI; (erule (1) order_trans | erule (1) grows_trans | iprover))

lemma ssh_ready_mono: "ssh_ready ssh r rel \<Longrightarrow> rel_le rel rel' \<Longrightarrow> ssh_ready ssh r rel'"
  unfolding ssh_ready_def rel_le_def by (auto split: if_splits)

lemma rule_done_mono:
  assumes "rule_done a V p ssh pol r rel" and "rel_le rel rel'"
  shows "rule_done a V p ssh pol r rel'"
proof -
  have "fst ` set (relevantPeerIDs rel) \<subseteq> fst ` set (relevantPeerIDs rel')" (is "?P \<subseteq> ?P'")
    "fst ` set (relevantGroupIDs rel) \<subseteq> fst ` set (relevantGroupIDs rel')" (is "?G \<subseteq> ?G'")
    "grows (rel_failed rel) (rel_failed rel')"
    using assms(2) by (simp_all add: rel_le_def)
  note le = subset_trans [OF _ this(1)] subset_trans [OF _ this(2)] covers_grows [OF _ this(3)]
  show ?thesis
    using assms(1) ssh_ready_mono [OF _ assms(2), of ssh r] unfolding rule_done_def by (intro conjI impI; elim conjE) (iprover intro: le)+
qed

lemma end_ids_groups:
  assumes "compactable a V" and "\<not> is_peer_resource res"
  shows "end_ids a V cs res gs = {x \<in> members (GetGroup a) gs. good a V cs x}"
proof -
  have "usable_peer a cs V x \<noteq> None \<longleftrightarrow> good a V cs x" if "x \<in> members (GetGroup a) gs" for x
  proof (cases "GetPeer a x")
    case None
    then show ?thesis by (simp add: usable_peer_def good_def validatePostureChecksOnPeer_def)
  next
    case (Some q)
    have "\<not> Embedded q" using that compactableD(4) [OF assms(1) _ _ Some] by (auto simp: members_def)
    with Some GetPeer_ID [OF compactableD(1) [OF assms(1)] Some] show ?thesis by (simp add: usable_peer_def good_def)
  qed
  with assms(2) show ?thesis by (auto simp: end_ids_def)
qed

lemma scan_end_spec:
  assumes "compactable a V" and "GetPeer a p \<noteq> None" and "'''' \<notin> set cs"
    and "is_peer_resource res \<Longrightarrow> GetPeer a (resource_ID res) \<noteq> None \<Longrightarrow> resource_ID res \<in> V"
    and "scan_end a res gs p cs V f = (ids, b, f')"
  shows "b = (p \<in> end_ids a V cs res gs) \<and> end_ids a V cs res gs - {p} \<subseteq> set ids \<and>
    (\<forall>x \<in> set ids. GetPeer a x \<noteq> None \<longrightarrow> x \<in> V) \<and> grows f f' \<and> (sound_failed a f \<longrightarrow> sound_failed a f') \<and>
    (\<not> is_peer_resource res \<longrightarrow> covers a V cs (members (GetGroup a) gs) f')"
proof (cases "is_peer_resource res")
  case True
  with assms show ?thesis by (auto simp: scan_end_def end_ids_def)
next
  case False
  with assms(5) have "getPeersFromGroups a gs p cs V f = (ids, b, f')" by (simp add: scan_end_def)
  with getPeersFromGroups_scanned [OF compactableD(1,2) [OF assms(1)] assms(3), of V p f gs] False
  show ?thesis by (auto simp: scanned_def end_ids_groups [OF assms(1) False] good_def)
qed

lemma add_peers_props:
  assumes "rel_inv a V p rel" and "\<And>x. x \<in> set ids \<Longrightarrow> GetPeer a x \<noteq> None \<Longrightarrow> x \<in> V"
  shows "rel_inv a V p (add_peers a ids rel)" "rel_le rel (add_peers a ids rel)"
    "fst ` set (relevantPeerIDs (add_peers a ids rel)) = fst ` set (relevantPeerIDs rel) \<union> set ids"
proof -
  have f: "follows (GetPeer a) (relevantPeerIDs rel)" using assms(1) by (simp add: parts_inv_def)
  note u = follows_updates [OF f, of ids]
  show "fst ` set (relevantPeerIDs (add_peers a ids rel)) = fst ` set (relevantPeerIDs rel) \<union> set ids"
    using u by (simp add: add_peers_def)
  with u assms show "rel_inv a V p (add_peers a ids rel)"
    unfolding parts_inv_def by (simp add: add_peers_def ball_Un)
  show "rel_le rel (add_peers a ids rel)" using u by (simp add: rel_le_def add_peers_def)
qed

lemma add_groups_props:
  assumes "rel_inv a V p rel" and "\<And>i. i \<in> set ids \<Longrightarrow> GetGroup a i \<noteq> None"
  shows "rel_inv a V p (add_groups a ids rel)" "rel_le rel (add_groups a ids rel)"
    "fst ` set (relevantGroupIDs (add_groups a ids rel)) = fst ` set (relevantGroupIDs rel) \<union> set ids"
proof -
  have f: "follows (GetGroup a) (relevantGroupIDs rel)" using assms(1) by (simp add: parts_inv_def)
  note u = follows_updates [OF f, of ids]
  show "fst ` set (relevantGroupIDs (add_groups a ids rel)) = fst ` set (relevantGroupIDs rel) \<union> set ids"
    using u by (simp add: add_groups_def)
  with u assms show "rel_inv a V p (add_groups a ids rel)"
    unfolding parts_inv_def by (simp add: add_groups_def ball_Un)
  show "rel_le rel (add_groups a ids rel)" using u by (simp add: rel_le_def add_groups_def)
qed

lemma ssh_needs_props:
  "relevantPeerIDs (ssh_needs ssh r rel) = relevantPeerIDs rel" "relevantGroupIDs (ssh_needs ssh r rel) = relevantGroupIDs rel"
  "rel_failed (ssh_needs ssh r rel) = rel_failed rel" "rel_le rel (ssh_needs ssh r rel)" "ssh_ready ssh r (ssh_needs ssh r rel)"
  by (auto simp: ssh_needs_def rel_le_def ssh_ready_def)

lemma add_both:
  assumes "rel_inv a V p rel" and "\<And>x. x \<in> set ids \<Longrightarrow> GetPeer a x \<noteq> None \<Longrightarrow> x \<in> V"
    and "\<And>i. i \<in> set gs \<Longrightarrow> GetGroup a i \<noteq> None" and "rel' = add_groups a gs (add_peers a ids rel)"
  shows "rel_inv a V p rel'" "rel_le rel rel'" "set ids \<subseteq> fst ` set (relevantPeerIDs rel')" "set gs \<subseteq> fst ` set (relevantGroupIDs rel')"
    "rel_failed rel' = rel_failed rel"
proof -
  note P = add_peers_props [OF assms(1), of ids]
  note G = add_groups_props [OF P(1), of gs]
  show "rel_inv a V p rel'" using G(1) assms(2-4) by blast
  show "rel_le rel rel'" using P(2) G(2) assms(2-4) rel_le_trans by blast
  have "relevantPeerIDs rel' = relevantPeerIDs (add_peers a ids rel)" by (simp add: assms(4) add_groups_def)
  then show "set ids \<subseteq> fst ` set (relevantPeerIDs rel')" using P(3) assms(2) by simp
  show "set gs \<subseteq> fst ` set (relevantGroupIDs rel')" using G(3) assms(2-4) by simp
  show "rel_failed rel' = rel_failed rel" by (simp add: assms(4) add_groups_def add_peers_def)
qed

lemma relevant_rule_done:
  assumes c: "compactable a V" and p: "GetPeer a p \<noteq> None" and r: "(pol, r) \<in> set (enabled_rules (Policies a))"
    and inv: "rel_inv a V p rel" and step: "relevant_rule a p ssh V pol (rel, b) r = (rel', b')"
  shows "rel_inv a V p rel' \<and> rel_le rel rel' \<and> rule_done a V p ssh pol r rel' \<and>
    b' = (b \<or> list_ex (\<lambda>g. g \<in> routeAccessControlGroups a) (Destinations r) \<or> p \<in> source_ids a V pol r \<or> p \<in> dest_ids a V r)"
proof -
  let ?route = "list_ex (\<lambda>g. g \<in> routeAccessControlGroups a) (Destinations r)"
  define rel1 where "rel1 = (if ?route then add_groups a (Sources r @ Destinations r) rel else rel)"
  obtain src inS f1 where s: "scan_end a (SourceResource r) (Sources r) p (SourcePostureChecks pol) V (rel_failed rel1) = (src, inS, f1)"
    by (metis surj_pair)
  obtain dst inD f2 where d: "scan_end a (DestinationResource r) (Destinations r) p [] V f1 = (dst, inD, f2)" by (metis surj_pair)
  define rel2 where "rel2 = rel1\<lparr>rel_failed := f2\<rparr>"
  define rel3 where "rel3 = (if inS then add_groups a (Destinations r) (add_peers a dst rel2) else rel2)"
  have "relevant_rule a p ssh V pol (rel, b) r =
      (if inD then ssh_needs ssh r (add_groups a (Sources r) (add_peers a src rel3)) else rel3, b \<or> ?route \<or> inS \<or> inD)"
    by (simp only: relevant_rule_def Let_def prod.case rel1_def [symmetric] s d rel2_def [symmetric] rel3_def [symmetric])
  with step have st: "rel' = (if inD then ssh_needs ssh r (add_groups a (Sources r) (add_peers a src rel3)) else rel3)"
    "b' = (b \<or> ?route \<or> inS \<or> inD)"
    by simp_all
  have pol: "pol \<in> set (Policies a)" using r by (auto simp: enabled_rules_def)
  have gs: "i \<in> set (Sources r) \<union> set (Destinations r) \<Longrightarrow> GetGroup a i \<noteq> None" for i using compactableD(8) [OF c r] .
  have r1: "rel_inv a V p rel1" "rel_le rel rel1"
    using add_groups_props [OF inv, of "Sources r @ Destinations r"] gs inv by (simp_all add: rel1_def)
  note S = scan_end_spec [OF c p compactableD(7) [OF c pol] compactableD(5) [OF c r] s, folded source_ids_def]
  have "'''' \<notin> set ([] :: string list)" by simp
  note D = scan_end_spec [OF c p this compactableD(6) [OF c r] d, folded dest_ids_def]
  have "sound_failed a (rel_failed rel1)" using r1(1) by (simp add: parts_inv_def)
  with S D have f: "grows (rel_failed rel1) f1" "grows f1 f2" "sound_failed a f2" by iprover+
  note g = grows_trans [OF f(1,2)]
  have r2: "rel_inv a V p rel2" "rel_le rel1 rel2"
    using r1(1) f(3) g by (simp_all add: rel2_def parts_inv_def rel_le_def)
  have r3: "rel_inv a V p rel3 \<and> rel_le rel2 rel3 \<and> rel_failed rel3 = f2 \<and>
      (inS \<longrightarrow> set dst \<subseteq> fst ` set (relevantPeerIDs rel3) \<and> set (Destinations r) \<subseteq> fst ` set (relevantGroupIDs rel3))"
    using add_both [OF r2(1), of dst "Destinations r" rel3] D gs r2 by (auto simp: rel3_def rel2_def)
  let ?rel4 = "add_groups a (Sources r) (add_peers a src rel3)"
  have r4: "rel_inv a V p rel' \<and> rel_le rel3 rel' \<and> rel_failed rel' = f2 \<and>
      (inD \<longrightarrow> set src \<subseteq> fst ` set (relevantPeerIDs rel') \<and> set (Sources r) \<subseteq> fst ` set (relevantGroupIDs rel') \<and> ssh_ready ssh r rel')"
    using add_both [OF conjunct1 [OF r3], of src "Sources r" ?rel4] S gs r3 rel_le_trans [of rel3 ?rel4] ssh_needs_props [where ssh = ssh and r = r and rel = ?rel4]
    by (auto simp: st)
  have "rel_le rel2 rel3" "rel_le rel3 rel'" using r3 r4 by iprover+
  note rel_le_trans [OF r1(2) rel_le_trans [OF r2(2) rel_le_trans [OF this]]]
  moreover have "rule_done a V p ssh pol r rel'"
  proof -
    have "covers a V (SourcePostureChecks pol) (members (GetGroup a) (Sources r)) f2" if "\<not> is_peer_resource (SourceResource r)"
      using that S covers_grows [OF _ f(2)] by iprover
    moreover have "fst ` set (relevantPeerIDs rel3) \<subseteq> fst ` set (relevantPeerIDs rel')"
      "fst ` set (relevantGroupIDs rel3) \<subseteq> fst ` set (relevantGroupIDs rel')" using r4 by (simp_all add: rel_le_def)
    moreover have "dest_ids a V r - {p} \<subseteq> set dst" "source_ids a V pol r - {p} \<subseteq> set src" "inS = (p \<in> source_ids a V pol r)"
      "inD = (p \<in> dest_ids a V r)" using S D by iprover+
    ultimately show ?thesis using r3 r4 unfolding rule_done_def by (simp, intro conjI impI; iprover intro: subset_trans)
  qed
  moreover have "inS = (p \<in> source_ids a V pol r)" "inD = (p \<in> dest_ids a V r)" using S D by iprover+
  moreover have "rel_inv a V p rel'" using r4 by iprover
  ultimately show ?thesis by (simp add: st(2))
qed

definition concerns :: "Account \<Rightarrow> string set \<Rightarrow> string \<Rightarrow> Policy \<Rightarrow> PolicyRule \<Rightarrow> bool" where
  "concerns a V p pol r \<longleftrightarrow> list_ex (\<lambda>g. g \<in> routeAccessControlGroups a) (Destinations r) \<or>
     p \<in> source_ids a V pol r \<or> p \<in> dest_ids a V r"

lemma relevant_rules_done:
  assumes c: "compactable a V" and p: "GetPeer a p \<noteq> None"
  shows "(\<And>r. r \<in> set rs \<Longrightarrow> (pol, r) \<in> set (enabled_rules (Policies a))) \<Longrightarrow> rel_inv a V p rel \<Longrightarrow>
    foldl (relevant_rule a p ssh V pol) (rel, b) rs = (rel', b') \<Longrightarrow>
    rel_inv a V p rel' \<and> rel_le rel rel' \<and> (\<forall>r \<in> set rs. rule_done a V p ssh pol r rel') \<and> b' = (b \<or> list_ex (concerns a V p pol) rs)"
proof (induction rs arbitrary: rel b)
  case (Cons r rs)
  obtain rel1 b1 where s: "relevant_rule a p ssh V pol (rel, b) r = (rel1, b1)" by (metis surj_pair)
  have "(pol, r) \<in> set (enabled_rules (Policies a))" using Cons.prems(1) by simp
  note D = relevant_rule_done [OF c p this Cons.prems(2) s]
  have f: "foldl (relevant_rule a p ssh V pol) (rel1, b1) rs = (rel', b')" using Cons.prems(3) s by simp
  have inv: "rel_inv a V p rel1" using D by iprover
  have "rel_inv a V p rel' \<and> rel_le rel1 rel' \<and> (\<forall>r \<in> set rs. rule_done a V p ssh pol r rel') \<and>
      b' = (b1 \<or> list_ex (concerns a V p pol) rs)"
    by (rule Cons.IH [OF _ inv f]) (use Cons.prems(1) in simp)
  moreover from this D have "rel_le rel rel'" "rule_done a V p ssh pol r rel'"
    by (iprover intro: rel_le_trans rule_done_mono)+
  ultimately show ?case using D by (simp add: concerns_def [of a V p pol r])
qed simp

lemma relevant_policies_done:
  assumes c: "compactable a V" and p: "GetPeer a p \<noteq> None"
  shows "set pols \<subseteq> {pol \<in> set (Policies a). policy_Enabled pol} \<Longrightarrow> rel_inv a V p rel \<Longrightarrow>
    foldl (relevant_policy a p ssh V) (rel, ps) pols = (rel', ps') \<Longrightarrow>
    rel_inv a V p rel' \<and> rel_le rel rel' \<and> (\<forall>(pol, r) \<in> set (enabled_rules pols). rule_done a V p ssh pol r rel') \<and>
    ps' = ps @ filter (\<lambda>pol. list_ex (concerns a V p pol) (filter rule_Enabled (Rules pol))) pols"
proof (induction pols arbitrary: rel ps)
  case (Cons pol pols)
  let ?rs = "filter rule_Enabled (Rules pol)"
  obtain rel1 b1 where s: "foldl (relevant_rule a p ssh V pol) (rel, False) ?rs = (rel1, b1)" by (metis surj_pair)
  have "(pol, r) \<in> set (enabled_rules (Policies a))" if "r \<in> set ?rs" for r
    using that Cons.prems(1) by (force simp: enabled_rules_def)
  note D = relevant_rules_done [OF c p this Cons.prems(2) s]
  have f: "foldl (relevant_policy a p ssh V) (rel1, if b1 then ps @ [pol] else ps) pols = (rel', ps')"
    using Cons.prems(3) s by (cases b1) (simp_all add: relevant_policy_def [of a p ssh V "(rel, ps)" pol])
  have inv: "rel_inv a V p rel1" using D by iprover
  have "set pols \<subseteq> {pol \<in> set (Policies a). policy_Enabled pol}" using Cons.prems(1) by simp
  note IH = Cons.IH [OF this inv f]
  from D IH have "rel_le rel rel'" by (iprover intro: rel_le_trans)
  moreover from D IH have "\<forall>r \<in> set ?rs. rule_done a V p ssh pol r rel'" using rule_done_mono by fast
  moreover have "enabled_rules (pol # pols) = map (Pair pol) ?rs @ enabled_rules pols"
    using Cons.prems(1) by (simp add: enabled_rules_def)
  ultimately show ?case using D IH by (simp add: ball_Un)
qed (simp add: enabled_rules_def)

lemma relevant_start_inv:
  assumes "compactable a V" and "GetPeer a p \<noteq> None" and "p \<in> V"
  shows "rel_inv a V p (relevant_start a p)"
proof -
  let ?gs = "map (\<lambda>(i, g). (i, GetGroup a i)) (filter (\<lambda>(i, g). p \<in> set (group_Peers g)) (Groups a))"
  let ?rel = "\<lparr>relevantPeerIDs = [(p, GetPeer a p)], relevantGroupIDs = ?gs, neededGroupIDs = {}, needAllowedUserIDs = False,
    rel_failed = Map.empty\<rparr>"
  have k: "keyed a" using compactableD(1) [OF assms(1)] .
  have "GetGroup a i = Some g" if "(i, g) \<in> set (Groups a)" for i g
    using k that by (simp add: GetGroup_def keyed_def)
  then have "follows (GetGroup a) ?gs" "\<forall>i \<in> fst ` set ?gs. GetGroup a i \<noteq> None" by (auto simp: follows_def)
  moreover have "i \<in> fst ` set ?gs" if "GetGroup a i = Some g" "p \<in> set (group_Peers g)" for i g
    using that by (force simp: GetGroup_def dest: map_of_SomeD)
  ultimately have "rel_inv a V p ?rel"
    using assms(3) by (auto simp: parts_inv_def follows_def sound_failed_def failed_on_def)
  then show ?thesis unfolding relevant_start_def
    by (rule add_groups_props(1)) (use compactableD(9) [OF assms(1)] in fastforce)
qed

lemma selection_done:
  assumes c: "compactable a V" and p: "GetPeer a p \<noteq> None" and v: "p \<in> V"
    and s: "getPeersGroupsPoliciesRoutes a p ssh V = (rel, pols)"
  shows "rel_inv a V p rel" "(pol, r) \<in> set (enabled_rules (Policies a)) \<Longrightarrow> rule_done a V p ssh pol r rel"
    "pols = filter (\<lambda>pol. policy_Enabled pol \<and> list_ex (concerns a V p pol) (filter rule_Enabled (Rules pol))) (Policies a)"
proof -
  have "set (filter policy_Enabled (Policies a)) \<subseteq> {pol \<in> set (Policies a). policy_Enabled pol}" by auto
  note D = relevant_policies_done [OF c p this relevant_start_inv [OF c p v] s [unfolded getPeersGroupsPoliciesRoutes_def]]
  have "enabled_rules (filter policy_Enabled (Policies a)) = enabled_rules (Policies a)" by (simp add: enabled_rules_def)
  with D show "rel_inv a V p rel" "(pol, r) \<in> set (enabled_rules (Policies a)) \<Longrightarrow> rule_done a V p ssh pol r rel"
    "pols = filter (\<lambda>pol. policy_Enabled pol \<and> list_ex (concerns a V p pol) (filter rule_Enabled (Rules pol))) (Policies a)"
    by (auto simp: conj_commute)
qed

section \<open>Adding network resources keeps the selection\<close>

definition static_parts where
  "static_parts (c :: NetworkMapComponents) = (c_PeerID c, c_Serial c, c_PeerLoginExpirationEnabled c, c_PeerLoginExpiration c, c_DisabledManagementGroups c,
     c_Policies c, c_Routes c, c_NameServerGroups c, c_AccountZones c, c_GroupIDToUserIDs c, c_AllowedUserIDs c)"

abbreviation comp_inv :: "Account \<Rightarrow> string set \<Rightarrow> NetworkMapComponents \<Rightarrow> bool" where
  "comp_inv a V c \<equiv> parts_inv a V (c_PeerID c) (c_Peers c) (c_Groups c) (c_PostureFailedPeers c)"

definition comp_step :: "Account \<Rightarrow> string set \<Rightarrow> NetworkMapComponents \<Rightarrow> NetworkMapComponents \<Rightarrow> bool" where
  "comp_step a V c c' \<longleftrightarrow> static_parts c' = static_parts c \<and>
     fst ` set (c_Peers c) \<subseteq> fst ` set (c_Peers c') \<and> fst ` set (c_Groups c) \<subseteq> fst ` set (c_Groups c') \<and>
     grows (c_PostureFailedPeers c) (c_PostureFailedPeers c') \<and> (comp_inv a V c \<longrightarrow> comp_inv a V c')"

lemma comp_step_refl [simp]: "comp_step a V c c"
  by (simp add: comp_step_def)

lemma comp_step_trans: "comp_step a V c d \<Longrightarrow> comp_step a V d e \<Longrightarrow> comp_step a V c e"
  unfolding comp_step_def by (elim conjE, intro conjI; (erule (1) order_trans | erule (1) grows_trans | simp))

lemma fst_put_new [simp]: "fst ` set (put_new m k v) = insert k (fst ` set m)"
  by (auto simp: put_new_def map_of_eq_None_iff)

lemma follows_put_new: "follows F m \<Longrightarrow> follows F (put_new m k (F k))"
  by (simp add: put_new_def follows_update)

lemma put_new_peers:
  assumes "parts_inv a V p m gs f" and "\<And>x. x \<in> set xs \<Longrightarrow> x \<in> V"
  shows "parts_inv a V p (foldl (\<lambda>m x. put_new m x (GetPeer a x)) m xs) gs f \<and>
    fst ` set (foldl (\<lambda>m x. put_new m x (GetPeer a x)) m xs) = fst ` set m \<union> set xs"
  using assms
proof (induction xs arbitrary: m)
  case (Cons x xs)
  have "parts_inv a V p (put_new m x (GetPeer a x)) gs f" using Cons.prems by (simp add: parts_inv_def follows_put_new)
  from Cons.IH [OF this] Cons.prems(2) show ?case by simp
qed simp

lemma policy_groups_props:
  assumes "parts_inv a V p ps m f"
  shows "parts_inv a V p ps (policy_groups a pol m) f"
proof -
  let ?step = "\<lambda>m i. case GetGroup a i of None \<Rightarrow> m | Some g \<Rightarrow> put_new m i (Some g)"
  have "parts_inv a V p ps (foldl ?step m is) f" for "is"
    using assms
  proof (induction "is" arbitrary: m)
    case (Cons i "is")
    have "parts_inv a V p ps (?step m i) f"
      using Cons.prems follows_put_new [of "GetGroup a" m i] by (cases "GetGroup a i") (simp_all add: parts_inv_def)
    with Cons.IH show ?case by simp
  qed simp
  then show ?thesis by (simp add: policy_groups_def)
qed

lemma policy_groups_keys: "fst ` set m \<subseteq> fst ` set (policy_groups a pol m)"
proof -
  let ?step = "\<lambda>m i. case GetGroup a i of None \<Rightarrow> m | Some g \<Rightarrow> put_new m i (Some g)"
  have "fst ` set m \<subseteq> fst ` set (foldl ?step m is)" for "is"
  proof (induction "is" arbitrary: m)
    case (Cons i "is")
    have "fst ` set m \<subseteq> fst ` set (?step m i)" by (auto split: option.split)
    with Cons [of "?step m i"] show ?case by auto
  qed simp
  then show ?thesis by (simp add: policy_groups_def)
qed

lemma save_failed_props:
  assumes "getPostureValidPeersSaveFailed a xs checks V f = (valid, f')"
  shows "set valid \<subseteq> V \<and> grows f f' \<and> (sound_failed a f \<longrightarrow> sound_failed a f')"
proof -
  have "set ids \<subseteq> V \<Longrightarrow> foldl (valid_or_failed a checks V) (ids, f) xs = (valid, f') \<Longrightarrow>
      set valid \<subseteq> V \<and> grows f f' \<and> (sound_failed a f \<longrightarrow> sound_failed a f')" for ids
  proof (induction xs arbitrary: ids f)
    case (Cons x xs)
    obtain ids1 f1 where s: "valid_or_failed a checks V (ids, f) x = (ids1, f1)" by (metis surj_pair)
    have 1: "set ids1 \<subseteq> V \<and> grows f f1 \<and> (sound_failed a f \<longrightarrow> sound_failed a f1)"
    proof (cases "x \<in> V \<and> \<not> fst (validatePostureChecksOnPeerGetFailed a checks x)")
      case True
      then have f1: "f1 = add_failed f (snd (validatePostureChecksOnPeerGetFailed a checks x)) x" "ids1 = ids"
        using s by (auto simp: valid_or_failed_def Let_def case_prod_unfold)
      have "\<exists>q. GetPeer a x = Some q \<and> check_fails a q i" if "snd (validatePostureChecksOnPeerGetFailed a checks x) = i" "i \<noteq> ''''" for i
        using that True by (auto simp: validatePostureChecksOnPeerGetFailed_def find_Some_iff split: option.splits)
      then have "sound_failed a f \<longrightarrow> sound_failed a f1" unfolding f1 by (auto simp: sound_failed_def)
      then show ?thesis using Cons.prems(1) f1 by simp
    next
      case False
      then show ?thesis using s Cons.prems(1) by (auto simp: valid_or_failed_def Let_def case_prod_unfold split: if_splits)
    qed
    have "foldl (valid_or_failed a checks V) (ids1, f1) xs = (valid, f')" using Cons.prems(2) s by simp
    with Cons.IH [OF _ this] 1 show ?case by (auto intro: grows_trans)
  qed simp
  from this [of "[]"] assms show ?thesis by (simp add: getPostureValidPeersSaveFailed_def)
qed

lemma sound_GetFailed:
  "sound_failed a f \<Longrightarrow> \<not> fst (validatePostureChecksOnPeerGetFailed a checks x) \<Longrightarrow>
     sound_failed a (add_failed f (snd (validatePostureChecksOnPeerGetFailed a checks x)) x)"
  by (auto simp: sound_failed_def validatePostureChecksOnPeerGetFailed_def find_Some_iff split: option.splits)

lemma component_policy_step:
  assumes "Rules pol \<noteq> []"
  shows "\<exists>c' b'. component_policy L a V i ps pol (c, b) = Some (c', b') \<and> comp_step a V c c'"
proof -
  obtain r0 rs where r: "Rules pol = r0 # rs" using assms by (cases "Rules pol") auto
  have use: "comp_step a V d (d\<lparr>c_Groups := policy_groups a pol (c_Groups d),
      c_ResourcePoliciesMap := (c_ResourcePoliciesMap d)(i \<mapsto> ps)\<rparr>)" for d
    using policy_groups_props [of a V "c_PeerID d" "c_Peers d" "c_Groups d" "c_PostureFailedPeers d" pol]
    by (simp add: comp_step_def static_parts_def policy_groups_keys)
  show ?thesis
  proof (cases b)
    case True
    let ?peers = "if is_peer_resource (SourceResource r0) then [resource_ID (SourceResource r0)]
      else getUniquePeerIDsFromGroupsIDs (lib_iter L) a (SourceGroups (lib_iter L) pol)"
    obtain valid f where v: "getPostureValidPeersSaveFailed a ?peers (SourcePostureChecks pol) V (c_PostureFailedPeers c) = (valid, f)"
      by (metis surj_pair)
    let ?d = "c\<lparr>c_PostureFailedPeers := f, c_Peers := foldl (\<lambda>m x. put_new m x (GetPeer a x)) (c_Peers c) valid\<rparr>"
    have "comp_step a V c ?d"
    proof -
      have k: "fst ` set (foldl (\<lambda>m x. put_new m x (GetPeer a x)) m xs) = fst ` set m \<union> set xs" for m xs
        by (induction xs arbitrary: m) auto
      have "parts_inv a V (c_PeerID c) (c_Peers c) (c_Groups c) f" if "comp_inv a V c"
        using that save_failed_props [OF v] by (simp add: parts_inv_def)
      then have "comp_inv a V c \<longrightarrow> comp_inv a V ?d"
        using put_new_peers [of a V "c_PeerID c" "c_Peers c" "c_Groups c" f valid] save_failed_props [OF v] by auto
      then show ?thesis using save_failed_props [OF v] by (simp add: comp_step_def static_parts_def k)
    qed
    from comp_step_trans [OF this use] True r v show ?thesis by (auto simp: component_policy_def Let_def)
  next
    case False
    have "comp_step a V c (c\<lparr>c_PostureFailedPeers := add_failed (c_PostureFailedPeers c)
        (snd (validatePostureChecksOnPeerGetFailed a (SourcePostureChecks pol) (c_PeerID c))) (c_PeerID c)\<rparr>)"
      if "\<not> fst (validatePostureChecksOnPeerGetFailed a (SourcePostureChecks pol) (c_PeerID c))"
      using sound_GetFailed [OF _ that] by (simp add: comp_step_def static_parts_def parts_inv_def)
    with use [of c] False r show ?thesis by (auto simp: component_policy_def Let_def case_prod_unfold)
  qed
qed

lemma component_policies_step:
  "(\<And>pol. pol \<in> set ps \<Longrightarrow> Rules pol \<noteq> []) \<Longrightarrow>
     \<exists>c' b'. component_policies L a V i all ps (c, b) = Some (c', b') \<and> comp_step a V c c'"
proof (induction ps arbitrary: c b)
  case (Cons pol ps)
  have "Rules pol \<noteq> []" using Cons.prems by simp
  from component_policy_step [OF this, of L a V i all c b] obtain c1 b1 where
    1: "component_policy L a V i all pol (c, b) = Some (c1, b1)" "comp_step a V c c1" by blast
  have "\<exists>c' b'. component_policies L a V i all ps (c1, b1) = Some (c', b') \<and> comp_step a V c1 c'"
    by (rule Cons.IH) (use Cons.prems in simp)
  with 1 comp_step_trans show ?case by fastforce
qed simp

lemma component_router_step: "comp_step a V c (component_router a V c i)"
proof (cases "GetPeer a i")
  case (Some q)
  have "parts_inv a V p (put_new m i (Some q)) gs f" if "parts_inv a V p m gs f" "i \<in> V" for p m gs f
    using put_new_peers [OF that(1), of "[i]"] that(2) Some by simp
  with Some show ?thesis by (auto simp: component_router_def comp_step_def static_parts_def Let_def)
qed (simp add: component_router_def)

lemma component_routers_step: "comp_step a V c (foldl (component_router a V) c is)"
  by (induction "is" arbitrary: c) (auto intro: comp_step_trans component_router_step)

lemma component_resources_step:
  assumes "\<And>j ps pol. rp j = Some ps \<Longrightarrow> pol \<in> set ps \<Longrightarrow> Rules pol \<noteq> []"
  shows "\<exists>c'. component_resources L a V rp routers ns c = Some c' \<and> comp_step a V c c'"
proof (induction ns arbitrary: c)
  case (Cons n ns)
  have "\<exists>c'. component_resource L a V rp routers c n = Some c' \<and> comp_step a V c c'"
  proof (cases "nr_Enabled n \<and> rp (nr_ID n) \<noteq> None")
    case True
    then obtain ps where ps: "rp (nr_ID n) = Some ps" by blast
    let ?nrp = "case routers (nr_NetworkID n) of None \<Rightarrow> [] | Some al \<Rightarrow> al"
    have "\<exists>c' b'. component_policies L a V (nr_ID n) ps ps (c, map_of ?nrp (c_PeerID c) \<noteq> None) = Some (c', b') \<and> comp_step a V c c'"
      by (rule component_policies_step) (use assms [OF ps] in blast)
    then obtain c1 b1 where 1: "component_policies L a V (nr_ID n) ps ps (c, map_of ?nrp (c_PeerID c) \<noteq> None) = Some (c1, b1)"
      "comp_step a V c c1" by blast
    let ?d = "c1\<lparr>c_RoutersMap := (c_RoutersMap c1)(nr_NetworkID n \<mapsto> ?nrp)\<rparr>"
    let ?e = "foldl (component_router a V) ?d (map fst ?nrp)"
    have "comp_step a V c1 ?d" by (simp add: comp_step_def static_parts_def)
    then have e: "comp_step a V c ?e" by (intro comp_step_trans [OF 1(2)] comp_step_trans [OF _ component_routers_step])
    moreover have "comp_step a V ?e (?e\<lparr>c_NetworkResources := x\<rparr>)" for x by (simp add: comp_step_def static_parts_def)
    ultimately show ?thesis using True ps 1(1) comp_step_trans [OF e] by (simp add: component_resource_def Let_def)
  qed (auto simp: component_resource_def)
  then obtain c1 where c1: "component_resource L a V rp routers c n = Some c1" "comp_step a V c c1" by blast
  from Cons [of c1] obtain c' where "component_resources L a V rp routers ns c1 = Some c'" "comp_step a V c1 c'" by blast
  with c1 comp_step_trans [OF c1(2)] show ?case by simp
qed simp

end
