(* ===== verification/CompactedMap.thy ===== *)
theory CompactedMap
  imports NetworkMapComponents
begin

text \<open>
  The map calculated from a peer's components against the map calculated from the whole account
  (\<open>management/server/types/networkmap_components.go\<close> and \<open>account.go\<close>): what the finished components
  hold, that they supply the access-control loop with the same rule ends as the account does, and that
  the two network maps therefore agree.
\<close>

section \<open>The finished components\<close>

definition trim :: "string set \<Rightarrow> Group \<Rightarrow> Group option" where
  "trim K g = (let ps = filter (\<lambda>x. x \<in> K) (group_Peers g) in if ps = [] then None else Some (g\<lparr>group_Peers := ps\<rparr>))"

text \<open>Components that hold the peers \<open>K\<close>, the groups \<open>G\<close> cut down to \<open>K\<close>, and the failed checks \<open>f\<close> of these peers.\<close>

definition built :: "Account \<Rightarrow> string set \<Rightarrow> string set \<Rightarrow> failed_peers \<Rightarrow> NetworkMapComponents \<Rightarrow> bool" where
  "built a K G f c \<longleftrightarrow>
     (\<forall>x. map_of (c_Peers c) x = (if x \<in> K then Some (GetPeer a x) else None)) \<and>
     (\<forall>i. map_of (c_Groups c) i = (if i \<in> G then map_option Some (Option.bind (GetGroup a i) (trim K)) else None)) \<and>
     (\<forall>pol \<in> set (c_Policies c). \<forall>i \<in> set (SourcePostureChecks pol). \<forall>x \<in> K.
        x \<in> failed_on (c_PostureFailedPeers c) i \<longleftrightarrow> x \<in> failed_on f i) \<and>
     (\<forall>(i, h) \<in> set (c_Groups c). map_of (c_Groups c) i = Some h)"

definition set_ok :: "Account \<Rightarrow> string set \<Rightarrow> string \<Rightarrow> string set \<Rightarrow> string set \<Rightarrow> failed_peers \<Rightarrow> bool" where
  "set_ok a V p K G f \<longleftrightarrow>
     (\<forall>x \<in> K. GetPeer a x \<noteq> None \<longrightarrow> x \<in> V) \<and> p \<in> K \<and> (\<forall>i \<in> G. GetGroup a i \<noteq> None) \<and>
     (\<forall>i g. GetGroup a i = Some g \<longrightarrow> p \<in> set (group_Peers g) \<longrightarrow> i \<in> G) \<and> sound_failed a f"

lemma failed_on_filter:
  assumes "\<And>x. map_of peers x = (if x \<in> K then Some (P x) else None)" and "x \<in> K" and "pol \<in> set pols" and "i \<in> set (SourcePostureChecks pol)"
  shows "x \<in> failed_on (filterPostureFailedPeers f pols rp ids peers) i \<longleftrightarrow> x \<in> failed_on f i"
proof -
  have "list_ex (\<lambda>p. i \<in> set (SourcePostureChecks p)) pols" using assms(3,4) by (auto simp: list_ex_iff)
  then show ?thesis using assms(1,2)
    by (auto simp: filterPostureFailedPeers_def failed_on_def Let_def split: option.splits if_splits)
qed

lemma filterGroupPeers_built:
  assumes "follows (GetGroup a) groups" and "\<And>i. i \<in> fst ` set groups \<Longrightarrow> GetGroup a i \<noteq> None"
    and "\<And>x. map_of peers x = (if x \<in> K then Some (P x) else None)"
  shows "\<exists>gs. filterGroupPeers groups peers = Some gs \<and>
    (\<forall>i. map_of gs i = (if i \<in> fst ` set groups then map_option Some (Option.bind (GetGroup a i) (trim K)) else None)) \<and>
    (\<forall>(i, h) \<in> set gs. map_of gs i = Some h)"
proof -
  let ?H = "\<lambda>(i :: string) g. map_option Some (trim K (the g))"
  have "\<not> list_ex (\<lambda>(i, g). g = None) groups" using assms(1,2) by (fastforce simp: list_ex_iff follows_def)
  moreover have "(\<lambda>(i, g). let g = the g; fp = filter (\<lambda>pid. map_of peers pid \<noteq> None) (group_Peers g)
        in if fp = [] then None else Some (i, Some (g\<lparr>group_Peers := fp\<rparr>))) = (\<lambda>(i, g). map_option (Pair i) (?H i g))"
    by (auto simp: fun_eq_iff trim_def Let_def assms(3))
  ultimately have "filterGroupPeers groups peers = Some (List.map_filter (\<lambda>(i, g). map_option (Pair i) (?H i g)) groups)"
    by (simp add: filterGroupPeers_def)
  moreover have "map_of (List.map_filter (\<lambda>(i, g). map_option (Pair i) (?H i g)) groups) i =
      (if i \<in> fst ` set groups then map_option Some (Option.bind (GetGroup a i) (trim K)) else None)" for i
    using follows_filtered [OF assms(1), of ?H i] assms(2) [of i] by (cases "i \<in> fst ` set groups"; cases "GetGroup a i") simp_all
  moreover have "map_of gs i = Some h" if "gs = List.map_filter (\<lambda>(i, g). map_option (Pair i) (?H i g)) groups" "(i, h) \<in> set gs" for gs i h
  proof -
    from that obtain v where v: "(i, v) \<in> set groups" "?H i v = Some h" by auto
    then have "v = GetGroup a i" using assms(1) by (auto simp: follows_def)
    with follows_filtered [OF assms(1), of ?H i] v show ?thesis unfolding that(1) by force
  qed
  ultimately show ?thesis by (intro exI conjI ballI allI) (assumption, assumption, simp only: case_prod_unfold prod.collapse)
qed

lemma components_built:
  assumes c: "compactable a V" and p: "GetPeer a p = Some t" and v: "p \<in> V"
    and rp: "\<And>j ps pol. rp j = Some ps \<Longrightarrow> pol \<in> set ps \<Longrightarrow> Rules pol \<noteq> []"
    and s: "getPeersGroupsPoliciesRoutes a p (SSHEnabled t) V = (rel, pols)"
  shows "\<exists>c K G f. GetPeerNetworkMapComponents L a p cz az V rp routers gu = Some (Some c) \<and> built a K G f c \<and> set_ok a V p K G f \<and>
    static_parts c = static_parts (components_start L a t p cz az V gu) \<and>
    fst ` set (relevantPeerIDs rel) \<subseteq> K \<and> fst ` set (relevantGroupIDs rel) \<subseteq> G \<and> grows (rel_failed rel) f"
proof -
  let ?st = "components_start L a t p cz az V gu"
  have rel: "rel_inv a V p rel" using selection_done(1) [OF c _ v s] p by simp
  have c0: "c_PeerID ?st = p" "c_Peers ?st = relevantPeerIDs rel" "c_Groups ?st = relevantGroupIDs rel" "c_PostureFailedPeers ?st = rel_failed rel"
    by (simp_all add: components_start_def s Let_def)
  have "\<exists>c1. component_resources L a V rp routers (NetworkResources a) ?st = Some c1 \<and> comp_step a V ?st c1"
    by (rule component_resources_step) (rule rp)
  then obtain c1 where c1: "component_resources L a V rp routers (NetworkResources a) ?st = Some c1" "comp_step a V ?st c1" by blast
  have st: "static_parts c1 = static_parts ?st" and inv: "comp_inv a V c1" and pid: "c_PeerID c1 = p"
    using c1(2) rel c0 by (auto simp: comp_step_def static_parts_def)
  define K where "K = fst ` set (c_Peers c1)"
  define G where "G = fst ` set (c_Groups c1)"
  have K: "map_of (c_Peers c1) x = (if x \<in> K then Some (GetPeer a x) else None)" for x
    unfolding K_def by (rule follows_lookup) (use inv in \<open>simp add: parts_inv_def\<close>)
  have fg: "follows (GetGroup a) (c_Groups c1)" "\<And>i. i \<in> fst ` set (c_Groups c1) \<Longrightarrow> GetGroup a i \<noteq> None"
    using inv unfolding parts_inv_def by blast+
  obtain gs where gs: "filterGroupPeers (c_Groups c1) (c_Peers c1) = Some gs"
    "\<And>i. map_of gs i = (if i \<in> G then map_option Some (Option.bind (GetGroup a i) (trim K)) else None)"
    "\<And>i h. (i, h) \<in> set gs \<Longrightarrow> map_of gs i = Some h"
    using filterGroupPeers_built [OF fg K] unfolding G_def by blast
  let ?c = "c1\<lparr>c_Groups := gs, c_PostureFailedPeers := filterPostureFailedPeers (c_PostureFailedPeers c1) (c_Policies c1)
      (c_ResourcePoliciesMap c1) (map nr_ID (NetworkResources a)) (c_Peers c1)\<rparr>"
  have "GetPeerNetworkMapComponents L a p cz az V rp routers gu = Some (Some ?c)"
    using p v c1(1) gs(1) by (simp add: GetPeerNetworkMapComponents_def)
  moreover have "built a K G (c_PostureFailedPeers c1) ?c"
    using failed_on_filter [OF K] gs(3) by (auto simp: built_def K gs(2))
  moreover have "set_ok a V p K G (c_PostureFailedPeers c1)"
    using inv pid unfolding set_ok_def parts_inv_def K_def G_def by simp
  moreover have "static_parts ?c = static_parts ?st" using st by (simp add: static_parts_def)
  moreover have "fst ` set (relevantPeerIDs rel) \<subseteq> K" "fst ` set (relevantGroupIDs rel) \<subseteq> G" "grows (rel_failed rel) (c_PostureFailedPeers c1)"
    using c1(2) c0 unfolding comp_step_def K_def G_def by simp_all
  ultimately show ?thesis
    by - (rule exI [of _ ?c], rule exI [of _ K], rule exI [of _ G], rule exI [of _ "c_PostureFailedPeers c1"], intro conjI)
qed

lemma built_lookups:
  assumes "built a K G f c"
  shows "GetPeerInfo c x = (if x \<in> K then GetPeer a x else None)"
    and "GetGroupInfo c i = (if i \<in> G then Option.bind (GetGroup a i) (trim K) else None)"
    and "map_of (c_Peers c) x \<noteq> None \<longleftrightarrow> x \<in> K"
  using assms by (auto simp: built_def GetPeerInfo_def GetGroupInfo_def split: option.split)

lemma trim_peers: "Option.bind (GetGroup a i) (trim K) = Some h \<Longrightarrow>
    \<exists>g. GetGroup a i = Some g \<and> group_Name h = group_Name g \<and> set (group_Peers h) = set (group_Peers g) \<inter> K"
  by (cases "GetGroup a i") (auto simp: trim_def Let_def split: if_splits)

lemma trim_member: "GetGroup a i = Some g \<Longrightarrow> x \<in> set (group_Peers g) \<Longrightarrow> x \<in> K \<Longrightarrow>
    \<exists>h. Option.bind (GetGroup a i) (trim K) = Some h \<and> x \<in> set (group_Peers h)"
  by (auto simp: trim_def Let_def filter_empty_conv)

lemma built_members:
  assumes "built a K G f c"
  shows "x \<in> members (GetGroupInfo c) gs \<longleftrightarrow> x \<in> K \<and> (\<exists>i \<in> set gs \<inter> G. \<exists>g. GetGroup a i = Some g \<and> x \<in> set (group_Peers g))"
proof
  assume "x \<in> members (GetGroupInfo c) gs"
  then obtain i h where "i \<in> set gs" "i \<in> G" "Option.bind (GetGroup a i) (trim K) = Some h" "x \<in> set (group_Peers h)"
    by (auto simp: members_def built_lookups(2) [OF assms] split: if_splits)
  moreover from trim_peers [OF this(3)] this(4) obtain g where "GetGroup a i = Some g" "x \<in> set (group_Peers g)" "x \<in> K" by auto
  ultimately show "x \<in> K \<and> (\<exists>i \<in> set gs \<inter> G. \<exists>g. GetGroup a i = Some g \<and> x \<in> set (group_Peers g))" by auto
next
  assume "x \<in> K \<and> (\<exists>i \<in> set gs \<inter> G. \<exists>g. GetGroup a i = Some g \<and> x \<in> set (group_Peers g))"
  then obtain i g where i: "x \<in> K" "i \<in> set gs" "i \<in> G" "GetGroup a i = Some g" "x \<in> set (group_Peers g)" by blast
  from trim_member [OF i(4,5,1)] obtain h where "GetGroupInfo c i = Some h" "x \<in> set (group_Peers h)"
    using built_lookups(2) [OF assms, of i] i(3) by auto
  with i(2) show "x \<in> members (GetGroupInfo c) gs" by (auto simp: members_def)
qed

lemma built_superset:
  assumes "built a K G f c" and "all_superset (GetGroup a)"
  shows "all_superset (GetGroupInfo c)"
  unfolding all_superset_def
proof (intro allI impI)
  fix i j g h
  assume "GetGroupInfo c i = Some g" "IsGroupAll g" "GetGroupInfo c j = Some h"
  then obtain g' h' where *: "GetGroup a i = Some g'" "group_Name g = group_Name g'" "set (group_Peers g) = set (group_Peers g') \<inter> K"
    "GetGroup a j = Some h'" "set (group_Peers h) = set (group_Peers h') \<inter> K" "IsGroupAll g"
    using trim_peers [of a i K g] trim_peers [of a j K h] by (auto simp: built_lookups(2) [OF assms(1)] split: if_splits)
  then have "IsGroupAll g'" by (simp add: IsGroupAll_def)
  with assms(2) *(1,4) have "set (group_Peers h') \<subseteq> set (group_Peers g')" unfolding all_superset_def by blast
  then show "set (group_Peers h) \<subseteq> set (group_Peers g)" unfolding *(3,5) by blast
qed

lemma built_validate:
  assumes "built a K G f c" and "sound_failed a f" and "covers a V checks X f" and "x \<in> X \<inter> V" and "x \<in> K" and "GetPeer a x = Some q"
    and "pol \<in> set (c_Policies c)" and "checks = SourcePostureChecks pol" and "'''' \<notin> set checks"
  shows "ValidatePostureChecksOnPeer c checks x \<longleftrightarrow> validatePostureChecksOnPeer a checks x"
proof -
  have "ValidatePostureChecksOnPeer c checks x \<longleftrightarrow> (\<forall>i \<in> set checks. x \<notin> failed_on (c_PostureFailedPeers c) i)"
    using built_lookups(3) [OF assms(1), of x] assms(5)
    by (auto simp: ValidatePostureChecksOnPeer_def list_all_iff failed_on_def split: option.splits)
  also have "\<dots> \<longleftrightarrow> (\<forall>i \<in> set checks. x \<notin> failed_on f i)" using assms(1,5,7,8) by (auto simp: built_def)
  also have "\<dots> \<longleftrightarrow> validatePostureChecksOnPeer a checks x"
  proof
    assume "\<forall>i \<in> set checks. x \<notin> failed_on f i"
    with assms(3,4,6) show "validatePostureChecksOnPeer a checks x" unfolding covers_def by blast
  next
    assume v: "validatePostureChecksOnPeer a checks x"
    show "\<forall>i \<in> set checks. x \<notin> failed_on f i"
    proof
      fix i
      assume i: "i \<in> set checks"
      then have "i \<noteq> ''''" using assms(9) by metis
      moreover have "\<not> check_fails a q i" using v i assms(6) by (auto simp: validatePostureChecksOnPeer_def list_all_iff)
      ultimately show "x \<notin> failed_on f i" using assms(2,6) unfolding sound_failed_def by force
    qed
  qed
  finally show ?thesis .
qed

section \<open>The components as a provider of rule ends\<close>

lemma c_ids:
  assumes c: "compactable a V" and B: "built a K G f c" and S: "set_ok a V p K G f" and it: "iteration iter"
    and cs: "cs = [] \<or> pol \<in> set (c_Policies c) \<and> cs = SourcePostureChecks pol \<and> '''' \<notin> set cs \<and>
      covers a V cs (members (GetGroup a) gs) f"
  shows "x \<in> set (c_getUniquePeerIDsFromGroupsIDs iter c gs) \<and> GetPeerInfo c x \<noteq> None \<and> ValidatePostureChecksOnPeer c cs x \<longleftrightarrow>
    x \<in> K \<and> (\<exists>i \<in> set gs \<inter> G. \<exists>g. GetGroup a i = Some g \<and> x \<in> set (group_Peers g)) \<and> good a V cs x"
proof -
  let ?in = "\<exists>i \<in> set gs \<inter> G. \<exists>g. GetGroup a i = Some g \<and> x \<in> set (group_Peers g)"
  have "x \<in> set (c_getUniquePeerIDsFromGroupsIDs iter c gs) \<longleftrightarrow> x \<in> K \<and> ?in"
    unfolding c_getUniquePeerIDsFromGroupsIDs_def set_unique_peer_ids [OF it built_superset [OF B compactableD(2) [OF c]]]
    by (rule built_members [OF B])
  moreover have "GetPeerInfo c x \<noteq> None \<and> ValidatePostureChecksOnPeer c cs x \<longleftrightarrow> good a V cs x" if x: "x \<in> K" "?in"
  proof (cases "GetPeer a x")
    case None
    then show ?thesis using built_lookups(1) [OF B, of x] by (simp add: good_def validatePostureChecksOnPeer_def)
  next
    case (Some q)
    then have v: "x \<in> V" using S x(1) by (simp add: set_ok_def)
    have sf: "sound_failed a f" using S by (simp add: set_ok_def)
    have m: "x \<in> members (GetGroup a) gs \<inter> V" using x(2) v by (auto simp: members_def)
    have "ValidatePostureChecksOnPeer c cs x \<longleftrightarrow> validatePostureChecksOnPeer a cs x"
    proof (cases "cs = []")
      case True
      then show ?thesis using built_lookups(3) [OF B, of x] x(1) Some
        by (simp add: ValidatePostureChecksOnPeer_def validatePostureChecksOnPeer_def)
    next
      case False
      with cs have f: "pol \<in> set (c_Policies c)" "cs = SourcePostureChecks pol" "'''' \<notin> set cs"
        "covers a V cs (members (GetGroup a) gs) f" by blast+
      show ?thesis by (rule built_validate [OF B sf f(4) m x(1) Some f(1,2,3)])
    qed
    then show ?thesis using v Some x(1) built_lookups(1) [OF B, of x] by (simp add: good_def)
  qed
  ultimately show ?thesis by iprover
qed

lemma c_groups_spec:
  assumes c: "compactable a V" and B: "built a K G f c" and S: "set_ok a V p K G f" and it: "iteration iter"
    and cs: "cs = [] \<or> pol \<in> set (c_Policies c) \<and> cs = SourcePostureChecks pol \<and> '''' \<notin> set cs \<and>
      covers a V cs (members (GetGroup a) gs) f"
    and res: "\<not> is_peer_resource res" and e: "c_getAllPeersFromGroups iter c gs p cs = (ps, b)"
  shows "b = (p \<in> end_ids a V cs res gs)"
    and "set gs \<subseteq> G \<Longrightarrow> end_ids a V cs res gs - {p} \<subseteq> K \<Longrightarrow> set ps = peers_of a (end_ids a V cs res gs - {p})"
proof -
  let ?ids = "filter (\<lambda>p. GetPeerInfo c p \<noteq> None \<and> ValidatePostureChecksOnPeer c cs p) (c_getUniquePeerIDsFromGroupsIDs iter c gs)"
  have ids: "x \<in> set ?ids \<longleftrightarrow> x \<in> K \<and> (\<exists>i \<in> set gs \<inter> G. \<exists>g. GetGroup a i = Some g \<and> x \<in> set (group_Peers g)) \<and> good a V cs x" for x
    unfolding c_ids [OF c B S it cs, symmetric] by simp
  have X: "x \<in> end_ids a V cs res gs \<longleftrightarrow> (\<exists>i \<in> set gs. \<exists>g. GetGroup a i = Some g \<and> x \<in> set (group_Peers g)) \<and> good a V cs x" for x
    unfolding end_ids_groups [OF c res] by (simp add: members_def)
  have p: "p \<in> K" "\<And>i g. GetGroup a i = Some g \<Longrightarrow> p \<in> set (group_Peers g) \<Longrightarrow> i \<in> G" using S by (auto simp: set_ok_def)
  have eq: "ps = List.map_filter (GetPeerInfo c) (filter (\<lambda>x. x \<noteq> p) ?ids)" "b = (p \<in> set ?ids)"
    using e by (auto simp: c_getAllPeersFromGroups_def Let_def)
  show "b = (p \<in> end_ids a V cs res gs)" unfolding eq(2) ids X using p by blast
  assume sub: "set gs \<subseteq> G" "end_ids a V cs res gs - {p} \<subseteq> K"
  have same: "x \<in> set ?ids \<longleftrightarrow> x \<in> end_ids a V cs res gs" if "x \<noteq> p" for x
  proof -
    have "x \<in> end_ids a V cs res gs \<Longrightarrow> x \<in> K" using sub(2) that by blast
    with sub(1) show ?thesis unfolding ids X by blast
  qed
  have look: "GetPeerInfo c x = GetPeer a x" if "x \<in> end_ids a V cs res gs" "x \<noteq> p" for x
    using built_lookups(1) [OF B, of x] sub(2) that by auto
  have ps: "q \<in> set ps \<longleftrightarrow> (\<exists>x. x \<in> end_ids a V cs res gs \<and> x \<noteq> p \<and> GetPeer a x = Some q)" for q
  proof -
    have "q \<in> set ps \<longleftrightarrow> (\<exists>x \<in> set (filter (\<lambda>x. x \<noteq> p) ?ids). GetPeerInfo c x = Some q)"
      unfolding eq(1) set_map_filter by (rule mem_Collect_eq)
    also have "\<dots> \<longleftrightarrow> (\<exists>x. x \<in> set ?ids \<and> x \<noteq> p \<and> GetPeerInfo c x = Some q)"
      unfolding set_filter [of "\<lambda>x. x \<noteq> p"] by blast
    also have "\<dots> \<longleftrightarrow> (\<exists>x. x \<in> end_ids a V cs res gs \<and> x \<noteq> p \<and> GetPeer a x = Some q)"
    proof (intro ex_cong1)
      fix x
      show "x \<in> set ?ids \<and> x \<noteq> p \<and> GetPeerInfo c x = Some q \<longleftrightarrow> x \<in> end_ids a V cs res gs \<and> x \<noteq> p \<and> GetPeer a x = Some q"
        using same [of x] look [of x] by argo
    qed
    finally show ?thesis .
  qed
  show "set ps = peers_of a (end_ids a V cs res gs - {p})"
    using GetPeer_ID [OF compactableD(1) [OF c]] unfolding set_eq_iff ps peers_of_def by blast
qed

lemma c_resource_spec:
  assumes c: "compactable a V" and B: "built a K G f c" and S: "set_ok a V p K G f" and p: "GetPeer a p \<noteq> None"
    and res: "is_peer_resource res" and e: "c_getPeerFromResource c res p = (ps, b)"
  shows "b = (p \<in> end_ids a V cs res gs)"
    and "end_ids a V cs res gs - {p} \<subseteq> K \<Longrightarrow> set ps = peers_of a (end_ids a V cs res gs - {p})"
proof -
  show "b = (p \<in> end_ids a V cs res gs)"
    using e p res by (auto simp: c_getPeerFromResource_def end_ids_def split: if_splits option.splits)
  assume "end_ids a V cs res gs - {p} \<subseteq> K"
  then have "resource_ID res = p \<or> GetPeer a (resource_ID res) = None \<or> resource_ID res \<in> K"
    using res by (auto simp: end_ids_def)
  then have "resource_ID res \<noteq> p \<longrightarrow> GetPeerInfo c (resource_ID res) = GetPeer a (resource_ID res)"
    using built_lookups(1) [OF B, of "resource_ID res"] by auto
  then show "set ps = peers_of a (end_ids a V cs res gs - {p})"
    using e res GetPeer_ID [OF compactableD(1) [OF c]]
    by (auto simp: c_getPeerFromResource_def end_ids_def peers_of_def split: if_splits option.splits)
qed

text \<open>
  The components \<open>c\<close> of the peer \<open>t\<close>, after a selection \<open>rel\<close> that has seen every enabled rule of the account.
\<close>

definition supplied :: "Account \<Rightarrow> string set \<Rightarrow> nbpeer \<Rightarrow> (string \<Rightarrow> string list option) \<Rightarrow> relevant \<Rightarrow> NetworkMapComponents \<Rightarrow> bool" where
  "supplied a V t gu rel c \<longleftrightarrow>
     (\<forall>(pol, r) \<in> set (enabled_rules (Policies a)). rule_done a V (peer_ID t) (SSHEnabled t) pol r rel) \<and>
     c_Policies c = filter (\<lambda>pol. policy_Enabled pol \<and> list_ex (concerns a V (peer_ID t) pol) (filter rule_Enabled (Rules pol))) (Policies a) \<and>
     c_GroupIDToUserIDs c = filterGroupIDToUserIDs gu (neededGroupIDs rel) \<and>
     c_AllowedUserIDs c = (if needAllowedUserIDs rel then Some (getAllowedUserIDs a) else None)"

definition holds_parts :: "Account \<Rightarrow> string set \<Rightarrow> string \<Rightarrow> relevant \<Rightarrow> NetworkMapComponents \<Rightarrow> string set \<Rightarrow> string set \<Rightarrow> failed_peers \<Rightarrow> bool" where
  "holds_parts a V p rel c K G f \<longleftrightarrow> built a K G f c \<and> set_ok a V p K G f \<and>
     fst ` set (relevantPeerIDs rel) \<subseteq> K \<and> fst ` set (relevantGroupIDs rel) \<subseteq> G \<and> grows (rel_failed rel) f"

lemma supplied_rules:
  assumes "supplied a V t gu rel c" and "(pol, r) \<in> set (enabled_rules (c_Policies c))"
  shows "(pol, r) \<in> set (enabled_rules (Policies a))" "pol \<in> set (c_Policies c)" "pol \<in> set (Policies a)"
    "rule_done a V (peer_ID t) (SSHEnabled t) pol r rel"
  using assms by (auto simp: supplied_def enabled_rules_def)

lemma c_rule_peers_ends_ok:
  assumes c: "compactable a V" and H: "holds_parts a V p rel c K G f" and it: "iteration iter" and p: "GetPeer a p \<noteq> None"
    and pol: "pol \<in> set (c_Policies c)" "pol \<in> set (Policies a)" and R: "rule_done a V p ssh pol r rel"
  shows "ends_ok a (source_ids a V pol r) (dest_ids a V r) p (c_rule_peers iter c p pol r)"
proof -
  have B: "built a K G f c" and S: "set_ok a V p K G f" and g: "grows (rel_failed rel) f"
    and sub: "fst ` set (relevantPeerIDs rel) \<subseteq> K" "fst ` set (relevantGroupIDs rel) \<subseteq> G"
    using H by (simp_all add: holds_parts_def)
  let ?cs = "SourcePostureChecks pol"
  obtain ps b qs d where e: "c_rule_peers iter c p pol r = ((ps, b), (qs, d))" by (metis surj_pair)
  have S1: "b = (p \<in> source_ids a V pol r) \<and>
      (set (Sources r) \<subseteq> G \<longrightarrow> source_ids a V pol r - {p} \<subseteq> K \<longrightarrow> set ps = peers_of a (source_ids a V pol r - {p}))"
  proof (cases "is_peer_resource (SourceResource r)")
    case True
    with e have "c_getPeerFromResource c (SourceResource r) p = (ps, b)" by (simp add: c_rule_peers_def)
    from c_resource_spec [OF c B S p True this] show ?thesis unfolding source_ids_def by iprover
  next
    case False
    with e have e: "c_getAllPeersFromGroups iter c (Sources r) p ?cs = (ps, b)" by (simp add: c_rule_peers_def)
    have "covers a V ?cs (members (GetGroup a) (Sources r)) f"
      using R False covers_grows [OF _ g] unfolding rule_done_def by iprover
    then have k: "?cs = [] \<or> pol \<in> set (c_Policies c) \<and> ?cs = SourcePostureChecks pol \<and> '''' \<notin> set ?cs \<and>
        covers a V ?cs (members (GetGroup a) (Sources r)) f" using pol(1) compactableD(7) [OF c pol(2)] by iprover
    from c_groups_spec [OF c B S it k False e] show ?thesis unfolding source_ids_def by iprover
  qed
  have D1: "d = (p \<in> dest_ids a V r) \<and>
      (set (Destinations r) \<subseteq> G \<longrightarrow> dest_ids a V r - {p} \<subseteq> K \<longrightarrow> set qs = peers_of a (dest_ids a V r - {p}))"
  proof (cases "is_peer_resource (DestinationResource r)")
    case True
    with e have "c_getPeerFromResource c (DestinationResource r) p = (qs, d)" by (simp add: c_rule_peers_def)
    from c_resource_spec [OF c B S p True this] show ?thesis unfolding dest_ids_def by iprover
  next
    case False
    with e have e: "c_getAllPeersFromGroups iter c (Destinations r) p [] = (qs, d)" by (simp add: c_rule_peers_def)
    from c_groups_spec [OF c B S it disjI1 [OF refl] False e] show ?thesis unfolding dest_ids_def by iprover
  qed
  have "set (Destinations r) \<subseteq> G \<and> dest_ids a V r - {p} \<subseteq> K" if "p \<in> source_ids a V pol r"
    using that R sub unfolding rule_done_def by (iprover intro: subset_trans)
  moreover have "set (Sources r) \<subseteq> G \<and> source_ids a V pol r - {p} \<subseteq> K" if "p \<in> dest_ids a V r"
    using that R sub unfolding rule_done_def by (iprover intro: subset_trans)
  ultimately show ?thesis using S1 D1 unfolding ends_ok_def e fst_conv snd_conv by iprover
qed

lemma supplied_ssh:
  assumes "supplied a V t gu rel c" and "ssh_ready (SSHEnabled t) r rel"
  shows "ssh_step (c_GroupIDToUserIDs c) (c_getAllowedUserIDs c) t aus r True = ssh_step gu (getAllowedUserIDs a) t aus r True"
proof -
  have gu: "c_GroupIDToUserIDs c i = gu i" if "i \<in> neededGroupIDs rel" for i
    using assms(1) that by (simp add: supplied_def filterGroupIDToUserIDs_def)
  have al: "c_getAllowedUserIDs c = getAllowedUserIDs a" if "needAllowedUserIDs rel"
    using assms(1) that by (simp add: supplied_def c_getAllowedUserIDs_def)
  have "foldl (authorize_group (c_GroupIDToUserIDs c)) au gs = foldl (authorize_group gu) au gs"
    if "fst ` set gs \<subseteq> neededGroupIDs rel" for au gs
    by (rule foldl_cong) (use that gu in \<open>auto simp: authorize_group_def\<close>)
  with assms(2) al show ?thesis unfolding ssh_ready_def ssh_step_def by (simp split: if_splits)
qed

type_synonym comp_ctx =
  "nm_lib \<times> Account \<times> string set \<times> nbpeer \<times> (string \<Rightarrow> string list option) \<times> NetworkMapComponents"

definition comp_ctx_ok :: "comp_ctx \<Rightarrow> bool" where
  "comp_ctx_ok x = (case x of (L, a, V, t, gu, c) \<Rightarrow> iteration (lib_iter L) \<and> compactable a V \<and> GetPeer a (peer_ID t) \<noteq> None \<and>
     (\<exists>rel K G f. supplied a V t gu rel c \<and> holds_parts a V (peer_ID t) rel c K G f))"

lemma comp_policies:
  assumes "supplied a V t gu rel c"
  shows "\<exists>keep. c_Policies c = filter keep (Policies a) \<and>
    (\<forall>(pol, r) \<in> set (enabled_rules (Policies a)). \<not> keep pol \<longrightarrow> peer_ID t \<notin> source_ids a V pol r \<and> peer_ID t \<notin> dest_ids a V r)"
proof (intro exI conjI)
  show "c_Policies c = filter (\<lambda>pol. policy_Enabled pol \<and> list_ex (concerns a V (peer_ID t) pol) (filter rule_Enabled (Rules pol))) (Policies a)"
    using assms by (simp add: supplied_def)
qed (auto simp: enabled_rules_def list_ex_iff concerns_def)

interpretation components: ends_provider
  comp_ctx_ok "\<lambda>(L, a, V, t, gu, c). a" "\<lambda>(L, a, V, t, gu, c). V" "\<lambda>(L, a, V, t, gu, c). t" "\<lambda>(L, a, V, t, gu, c). gu"
  "\<lambda>(L, a, V, t, gu, c). c_GroupIDToUserIDs c" "\<lambda>(L, a, V, t, gu, c). c_getAllowedUserIDs c" "\<lambda>(L, a, V, t, gu, c). c_Policies c"
  "\<lambda>(L, a, V, t, gu, c). c_rule_peers (lib_iter L) c (peer_ID t)"
proof (unfold_locales, goal_cases)
  case (1 x pol r)
  obtain L a V t gu c where x: "x = (L, a, V, t, gu, c)" by (cases x)
  from 1(1) obtain rel K G f where w: "iteration (lib_iter L)" "compactable a V" "GetPeer a (peer_ID t) \<noteq> None"
    "supplied a V t gu rel c" "holds_parts a V (peer_ID t) rel c K G f" by (auto simp: x comp_ctx_ok_def)
  have "(pol, r) \<in> set (enabled_rules (c_Policies c))" using 1(2) by (simp add: x)
  note s = supplied_rules [OF w(4) this]
  show ?case using c_rule_peers_ends_ok [OF w(2,5,1,3) s(2,3,4)] by (simp add: x)
next
  case (2 x)
  then show ?case using comp_policies by (cases x) (auto simp: comp_ctx_ok_def)
next
  case (3 x pol r aus)
  obtain L a V t gu c where x: "x = (L, a, V, t, gu, c)" by (cases x)
  from 3(1) obtain rel where w: "supplied a V t gu rel c" by (auto simp: x comp_ctx_ok_def)
  have "(pol, r) \<in> set (enabled_rules (c_Policies c))" "peer_ID t \<in> dest_ids a V r" using 3(2,3) by (simp_all add: x)
  then have "ssh_ready (SSHEnabled t) r rel" using supplied_rules(4) [OF w] unfolding rule_done_def by iprover
  from supplied_ssh [OF w this] show ?case by (simp add: x)
next
  case (4 x)
  then show ?case by (cases x) (auto simp: comp_ctx_ok_def dest: compactableD(3) simp: wf_account_def)
qed

lemmas components_peers = components.peers_spec [of "(L, a, V, t, gu, c)" for L a V t gu c, simplified]
lemmas components_rules = components.rules_spec [of "(L, a, V, t, gu, c)" for L a V t gu c, simplified]
lemmas components_ssh = components.ssh_spec [of "(L, a, V, t, gu, c)" for L a V t gu c, simplified]

section \<open>Routes and groups of the components\<close>

lemma built_peer_groups:
  assumes "compactable a V" and B: "built a K G f c" and S: "set_ok a V p K G f"
  shows "c_GetPeerGroups c p = GetPeerGroups a p"
proof (rule set_eqI)
  fix i
  have "\<And>i h. (i, h) \<in> set (c_Groups c) \<Longrightarrow> map_of (c_Groups c) i = Some h" using B unfolding built_def by blast
  then have look: "(i, Some h) \<in> set (c_Groups c) \<longleftrightarrow> GetGroupInfo c i = Some h" for h
    by (auto simp: GetGroupInfo_def split: option.splits dest: map_of_SomeD)
  have "i \<in> c_GetPeerGroups c p \<longleftrightarrow> (\<exists>h. (i, Some h) \<in> set (c_Groups c) \<and> p \<in> set (group_Peers h))"
    by (force simp: c_GetPeerGroups_def split: option.splits)
  also have "\<dots> \<longleftrightarrow> (\<exists>h. GetGroupInfo c i = Some h \<and> p \<in> set (group_Peers h))"
    unfolding look ..
  also have "\<dots> \<longleftrightarrow> p \<in> members (GetGroupInfo c) [i]" by (auto simp: members_def)
  also have "\<dots> \<longleftrightarrow> (\<exists>g. GetGroup a i = Some g \<and> p \<in> set (group_Peers g))"
    unfolding built_members [OF B] using S by (auto simp: set_ok_def)
  also have "\<dots> \<longleftrightarrow> i \<in> GetPeerGroups a p" using GetPeerGroups_iff [OF compactableD(1) [OF assms(1)]] by simp
  finally show "i \<in> c_GetPeerGroups c p \<longleftrightarrow> i \<in> GetPeerGroups a p" .
qed

lemma built_peer_copies:
  assumes B: "built a K G f c" and "x \<in> K" and "set (route_PeerGroups rt) \<subseteq> G"
  shows "peer_copies (GetGroupInfo c) x rt = peer_copies (GetGroup a) x rt"
proof -
  let ?copy = "\<lambda>get i. case get i of None \<Rightarrow> []
    | Some g \<Rightarrow> if x \<in> set (group_Peers g) then [rt\<lparr>route_Peer := x, route_PeerGroups := [], route_ID := route_ID rt @ '':'' @ x\<rparr>] else []"
  have "?copy (GetGroupInfo c) i = ?copy (GetGroup a) i" if "i \<in> set (route_PeerGroups rt)" for i
  proof -
    have "GetGroupInfo c i = Option.bind (GetGroup a i) (trim K)" using built_lookups(2) [OF B, of i] that assms(3) by auto
    then show ?thesis using assms(2) by (cases "GetGroup a i") (auto simp: trim_def Let_def filter_empty_conv)
  qed
  then have "map (?copy (GetGroupInfo c)) (route_PeerGroups rt) = map (?copy (GetGroup a)) (route_PeerGroups rt)"
    by (rule map_cong [OF refl])
  then show ?thesis unfolding peer_copies_def by (rule arg_cong)
qed

lemma take_routes_agree:
  "fst (foldl (c_take_route key) st rs) = fst (foldl (take_route key) st' rs) \<and>
   fst (snd (foldl (c_take_route key) st rs)) = fst (snd (foldl (take_route key) st' rs)) \<and>
   map GetHAUniqueID (snd (snd (foldl (c_take_route key) st rs))) = map GetHAUniqueID (snd (snd (foldl (take_route key) st' rs)))"
  if "fst st = fst st'" "fst (snd st) = fst (snd st')" "map GetHAUniqueID (snd (snd st)) = map GetHAUniqueID (snd (snd st'))"
  using that
proof (induction rs arbitrary: st st')
  case (Cons r rs)
  have "GetHAUniqueID (r\<lparr>route_Peer := key\<rparr>) = GetHAUniqueID r" by (simp add: GetHAUniqueID_def NetString_def split: option.split)
  then show ?case unfolding foldl_Cons
    by (intro Cons.IH) (use Cons.prems in \<open>simp_all add: c_take_route_def take_route_def Let_def case_prod_unfold\<close>)
qed simp

lemma built_routing:
  assumes B: "built a K G f c" and x: "x \<in> K" and q: "GetPeer a x \<noteq> None" and r: "c_Routes c = map snd (Routes a)"
    and g: "\<And>rt. rt \<in> set (map snd (Routes a)) \<Longrightarrow> set (route_PeerGroups rt) \<subseteq> G"
  shows "fst (c_getRoutingPeerRoutes c x) = fst (getRoutingPeerRoutes a x)"
    and "map GetHAUniqueID (snd (c_getRoutingPeerRoutes c x)) = map GetHAUniqueID (snd (getRoutingPeerRoutes a x))"
proof -
  obtain q where q: "GetPeer a x = Some q" "peer_or_router c x = Some q"
    using q x built_lookups(1) [OF B, of x] by (auto simp: peer_or_router_def)
  have "concat (map (peer_copies (GetGroupInfo c) x) (map snd (Routes a))) = concat (map (peer_copies (GetGroup a) x) (map snd (Routes a)))"
    by (rule arg_cong [of _ _ concat], rule map_cong [OF refl], rule built_peer_copies [OF B x g])
  then have "c_getRoutingPeerRoutes c x = snd (foldl (c_take_route (peer_Key q)) ({}, [], []) (concat (map (peer_copies (GetGroup a) x) (map snd (Routes a)))))"
    by (simp only: c_getRoutingPeerRoutes_def q(2) r option.case)
  moreover have "getRoutingPeerRoutes a x = snd (foldl (take_route (peer_Key q)) ({}, [], []) (concat (map (peer_copies (GetGroup a) x) (map snd (Routes a)))))"
    by (simp only: getRoutingPeerRoutes_def q(1) option.case)
  ultimately show "fst (c_getRoutingPeerRoutes c x) = fst (getRoutingPeerRoutes a x)"
    "map GetHAUniqueID (snd (c_getRoutingPeerRoutes c x)) = map GetHAUniqueID (snd (getRoutingPeerRoutes a x))"
    using take_routes_agree [of "({}, [], [])" "({}, [], [])"] by simp_all
qed

lemma routes_to_sync_agree:
  assumes "\<And>x. x \<in> insert p (peer_ID ` set ps) \<Longrightarrow> fst (F x) = fst (F' x)" and "map GetHAUniqueID (snd (F p)) = map GetHAUniqueID (snd (F' p))"
    and "set ps = set qs"
  shows "set (routes_to_sync F p ps gs) = set (routes_to_sync F' p qs gs)"
proof -
  have "GetHAUniqueID ` set (snd (F p)) = GetHAUniqueID ` set (snd (F' p))" using assms(2) by (metis set_map)
  then have "set (routes_to_sync F p ps gs) = set (fst (F' p)) \<union> (\<Union>q \<in> set ps. set (filterRoutesFromPeersOfSameHAGroup
      (filterRoutesByGroups (fst (F (peer_ID q))) gs) (set (map GetHAUniqueID (fst (F' p) @ snd (F' p))))))"
    using assms(1) by (simp add: routes_to_sync_def case_prod_unfold Let_def image_Un)
  also have "\<dots> = set (routes_to_sync F' p qs gs)"
    using assms(1,3) by (simp add: routes_to_sync_def case_prod_unfold Let_def image_Un)
  finally show ?thesis .
qed

lemma selection_routes:
  assumes c: "compactable a V" and p: "GetPeer a p \<noteq> None" and v: "p \<in> V"
    and s: "getPeersGroupsPoliciesRoutes a p ssh V = (rel, pols)" and rt: "rt \<in> set (map snd (Routes a))"
  shows "set (route_PeerGroups rt) \<subseteq> fst ` set (relevantGroupIDs rel)"
proof -
  have "set (filter policy_Enabled (Policies a)) \<subseteq> {pol \<in> set (Policies a). policy_Enabled pol}" by auto
  from relevant_policies_done [OF c p this relevant_start_inv [OF c p v] s [unfolded getPeersGroupsPoliciesRoutes_def]]
  have "fst ` set (relevantGroupIDs (relevant_start a p)) \<subseteq> fst ` set (relevantGroupIDs rel)" by (simp add: rel_le_def)
  moreover have "fst ` set (foldl (\<lambda>m i. AList.update i (F i) m) al is) = fst ` set al \<union> set is" for F :: "string \<Rightarrow> Group option" and al "is"
    by (induction "is" arbitrary: al) auto
  then have "set (route_groups rt) \<subseteq> fst ` set (relevantGroupIDs (relevant_start a p))"
    using rt by (auto simp: relevant_start_def add_groups_def)
  ultimately show ?thesis by (auto simp: route_groups_def)
qed

section \<open>Network resources of the components\<close>

definition rp_from :: "(string \<Rightarrow> Policy list option) \<Rightarrow> NetworkMapComponents \<Rightarrow> bool" where
  "rp_from rp c \<longleftrightarrow> (\<forall>i ps. c_ResourcePoliciesMap c i = Some ps \<longrightarrow> (\<exists>j. rp j = Some ps))"

lemma rp_from_updates [simp]:
  "rp_from rp (c\<lparr>c_Groups := x\<rparr>) = rp_from rp c" "rp_from rp (c\<lparr>c_Peers := y\<rparr>) = rp_from rp c"
  "rp_from rp (c\<lparr>c_PostureFailedPeers := z\<rparr>) = rp_from rp c" "rp_from rp (c\<lparr>c_NetworkResources := u\<rparr>) = rp_from rp c"
  "rp_from rp (c\<lparr>c_RoutersMap := v\<rparr>) = rp_from rp c" "rp_from rp (c\<lparr>c_RouterPeers := w\<rparr>) = rp_from rp c"
  by (simp_all add: rp_from_def)

lemma component_policy_rp:
  assumes "component_policy L a V i ps pol (c, b) = Some (c', b')" and "rp j = Some ps" and "rp_from rp c"
  shows "rp_from rp c'"
proof -
  have "c_ResourcePoliciesMap c' = c_ResourcePoliciesMap c \<or> c_ResourcePoliciesMap c' = (c_ResourcePoliciesMap c)(i \<mapsto> ps)"
    using assms(1) by (auto simp: component_policy_def Let_def case_prod_unfold split: list.splits if_splits)
  then show ?thesis using assms(2,3) by (auto simp: rp_from_def split: if_splits)
qed

lemma component_policies_rp:
  assumes "rp j = Some all"
  shows "component_policies L a V i all ps (c, b) = Some (c', b') \<Longrightarrow> rp_from rp c \<Longrightarrow> rp_from rp c'"
proof (induction ps arbitrary: c b)
  case (Cons pol ps)
  then obtain c1 b1 where 1: "component_policy L a V i all pol (c, b) = Some (c1, b1)"
    "component_policies L a V i all ps (c1, b1) = Some (c', b')" by (auto split: option.splits)
  show ?case by (rule Cons.IH [OF 1(2) component_policy_rp [where rp = rp, OF 1(1) assms Cons.prems(2)]])
qed simp

lemma component_routers_rp: "rp_from rp c \<Longrightarrow> rp_from rp (foldl (component_router a V) c is)"
  by (induction "is" arbitrary: c) (auto simp: component_router_def Let_def split: option.splits)

lemma component_resources_rp:
  "component_resources L a V rp routers ns c = Some c' \<Longrightarrow> rp_from rp c \<Longrightarrow> rp_from rp c'"
proof (induction ns arbitrary: c)
  case (Cons n ns)
  then obtain c1 where c1: "component_resource L a V rp routers c n = Some c1" "component_resources L a V rp routers ns c1 = Some c'"
    by (auto split: option.splits)
  have "rp_from rp c1"
  proof (cases "nr_Enabled n \<and> rp (nr_ID n) \<noteq> None")
    case True
    then obtain ps where ps: "rp (nr_ID n) = Some ps" by blast
    from component_policies_rp [of rp, OF ps] Cons.prems(2) c1(1) True ps show ?thesis
      by (auto simp: component_resource_def Let_def split: option.splits intro!: component_routers_rp)
  qed (use c1(1) Cons.prems(2) in \<open>auto simp: component_resource_def split: if_splits\<close>)
  with Cons.IH [OF c1(2)] show ?case by simp
qed simp

lemma component_resources_none:
  "list_all (\<lambda>n. \<not> nr_Enabled n) ns \<Longrightarrow> component_resources L a V rp routers ns c = Some c"
  by (induction ns) (simp_all add: component_resource_def)

lemma components_resources:
  assumes "GetPeerNetworkMapComponents L a p cz az V rp routers gu = Some (Some c)"
  shows "rp_from rp c" and "list_all (\<lambda>n. \<not> nr_Enabled n) (NetworkResources a) \<Longrightarrow> c_NetworkResources c = []"
proof -
  obtain t where t: "GetPeer a p = Some t" "p \<in> V"
    using assms by (auto simp: GetPeerNetworkMapComponents_def split: option.splits if_splits)
  let ?st = "components_start L a t p cz az V gu"
  obtain c1 gs f where c1: "component_resources L a V rp routers (NetworkResources a) ?st = Some c1"
    "c = c1\<lparr>c_Groups := gs, c_PostureFailedPeers := f\<rparr>"
    using assms t by (auto simp: GetPeerNetworkMapComponents_def split: option.splits)
  have "rp_from rp ?st" "c_NetworkResources ?st = []" by (simp_all add: rp_from_def components_start_def Let_def case_prod_unfold)
  with component_resources_rp [OF c1(1)] c1(2) show "rp_from rp c" by simp
  show "c_NetworkResources c = []" if "list_all (\<lambda>n. \<not> nr_Enabled n) (NetworkResources a)"
    using component_resources_none [OF that, of L a V rp routers ?st] c1 \<open>c_NetworkResources ?st = []\<close> by simp
qed

lemma components_sync:
  assumes "rp_from (GetResourcePoliciesMap a) c"
  shows "\<exists>b rs sp. c_getNetworkResourcesRoutesToSync L c p = Some (b, map Some rs, sp)"
proof -
  let ?sources = "policy_sources (lib_iter L) (c_getUniquePeerIDsFromGroupsIDs (lib_iter L) c)"
  have "\<exists>b rs sp. c_getNetworkResourcesRoutesToSync L c p = Some (b, rs, sp) \<and> (\<forall>r \<in> set rs. r \<noteq> None)"
    unfolding c_getNetworkResourcesRoutesToSync_def
  proof (intro sync_resources_Some sync_resource_Some)
    fix n :: NetworkResource and pol
    assume "pol \<in> set (case c_ResourcePoliciesMap c (nr_ID n) of None \<Rightarrow> [] | Some ps \<Rightarrow> ps)"
    then obtain ps where "c_ResourcePoliciesMap c (nr_ID n) = Some ps" "pol \<in> set ps"
      by (cases "c_ResourcePoliciesMap c (nr_ID n)") auto
    then obtain j where "GetResourcePoliciesMap a j = Some ps" using assms by (auto simp: rp_from_def)
    then have "Rules pol \<noteq> []" using resource_policies_rules \<open>pol \<in> set ps\<close> by blast
    then show "?sources pol \<noteq> None" by (auto simp: policy_sources_def split: list.splits)
  qed (auto simp: c_getNetworkResourcesRoutes_def split: option.splits list.splits)
  then obtain b rs sp where "c_getNetworkResourcesRoutesToSync L c p = Some (b, rs, sp)" "\<forall>r \<in> set rs. r \<noteq> None" by blast
  moreover from this(2) have "rs = map Some (map the rs)" by (induction rs) auto
  ultimately show ?thesis by metis
qed

section \<open>The two network maps\<close>

lemma components_supplied:
  assumes c: "compactable a V" and p: "GetPeer a p = Some t" and v: "p \<in> V"
  shows "\<exists>c rel K G f. GetPeerNetworkMapComponents L a p cz az V (GetResourcePoliciesMap a) routers gu = Some (Some c) \<and>
    supplied a V t gu rel c \<and> holds_parts a V p rel c K G f \<and> c_PeerID c = p \<and> c_Serial c = Serial a \<and>
    c_PeerLoginExpirationEnabled c = PeerLoginExpirationEnabled a \<and> c_PeerLoginExpiration c = PeerLoginExpiration a \<and>
    c_DisabledManagementGroups c = DisabledManagementGroups a \<and> c_Routes c = map snd (Routes a) \<and>
    (\<forall>rt \<in> set (map snd (Routes a)). set (route_PeerGroups rt) \<subseteq> G)"
proof -
  obtain rel pols where s: "getPeersGroupsPoliciesRoutes a p (SSHEnabled t) V = (rel, pols)" by (metis surj_pair)
  have p': "GetPeer a p \<noteq> None" using p by simp
  have "\<exists>c K G f. GetPeerNetworkMapComponents L a p cz az V (GetResourcePoliciesMap a) routers gu = Some (Some c) \<and> built a K G f c \<and>
      set_ok a V p K G f \<and> static_parts c = static_parts (components_start L a t p cz az V gu) \<and>
      fst ` set (relevantPeerIDs rel) \<subseteq> K \<and> fst ` set (relevantGroupIDs rel) \<subseteq> G \<and> grows (rel_failed rel) f"
    by (rule components_built [OF c p v _ s]) (rule resource_policies_rules)
  then obtain c K G f where C: "GetPeerNetworkMapComponents L a p cz az V (GetResourcePoliciesMap a) routers gu = Some (Some c)"
    "holds_parts a V p rel c K G f" "static_parts c = static_parts (components_start L a t p cz az V gu)"
    "fst ` set (relevantGroupIDs rel) \<subseteq> G" unfolding holds_parts_def by iprover
  have st: "c_PeerID c = p" "c_Serial c = Serial a" "c_PeerLoginExpirationEnabled c = PeerLoginExpirationEnabled a"
    "c_PeerLoginExpiration c = PeerLoginExpiration a" "c_DisabledManagementGroups c = DisabledManagementGroups a"
    "c_Routes c = map snd (Routes a)" "c_Policies c = pols" "c_GroupIDToUserIDs c = filterGroupIDToUserIDs gu (neededGroupIDs rel)"
    "c_AllowedUserIDs c = (if needAllowedUserIDs rel then Some (getAllowedUserIDs a) else None)"
    using C(3) by (simp_all add: static_parts_def components_start_def s)
  have "supplied a V t gu rel c"
    unfolding supplied_def st(7-9) GetPeer_ID [OF compactableD(1) [OF c] p]
    using selection_done(2,3) [OF c p' v s] by auto
  moreover have "\<forall>rt \<in> set (map snd (Routes a)). set (route_PeerGroups rt) \<subseteq> G"
    using selection_routes [OF c p' v s] C(4) by blast
  ultimately show ?thesis using C(1,2) st(1-6) by iprover
qed

lemma acl_peers_held:
  assumes "supplied a V t gu rel c" and "holds_parts a V (peer_ID t) rel c K G f" and "q \<in> acl_peers a V (peer_ID t)"
  shows "peer_ID q \<in> K" "GetPeer a (peer_ID q) = Some q"
proof -
  from assms(3) obtain d pol r where q: "GetPeer a (peer_ID q) = Some q" and r: "(pol, r) \<in> set (enabled_rules (Policies a))"
    "peer_ID t \<noteq> peer_ID q" and
    ends: "peer_ID t \<in> source_ids a V pol r \<and> peer_ID q \<in> dest_ids a V r \<or> peer_ID q \<in> source_ids a V pol r \<and> peer_ID t \<in> dest_ids a V r"
    by (auto simp: acl_peers_def access_def Let_def)
  from assms(1) r(1) have D: "rule_done a V (peer_ID t) (SSHEnabled t) pol r rel" by (auto simp: supplied_def)
  have K: "x \<in> fst ` set (relevantPeerIDs rel) \<Longrightarrow> x \<in> K" for x using assms(2) unfolding holds_parts_def by (elim conjE) (rule subsetD)
  from ends show "peer_ID q \<in> K"
  proof
    assume "peer_ID t \<in> source_ids a V pol r \<and> peer_ID q \<in> dest_ids a V r"
    with D have "dest_ids a V r - {peer_ID t} \<subseteq> fst ` set (relevantPeerIDs rel)" "peer_ID q \<in> dest_ids a V r - {peer_ID t}"
      using r(2) unfolding rule_done_def by simp_all
    then show ?thesis by (intro K) (rule subsetD)
  next
    assume "peer_ID q \<in> source_ids a V pol r \<and> peer_ID t \<in> dest_ids a V r"
    with D have "source_ids a V pol r - {peer_ID t} \<subseteq> fst ` set (relevantPeerIDs rel)" "peer_ID q \<in> source_ids a V pol r - {peer_ID t}"
      using r(2) unfolding rule_done_def by simp_all
    then show ?thesis by (intro K) (rule subsetD)
  qed
  show "GetPeer a (peer_ID q) = Some q" by (rule q)
qed

lemma connection_resources_agree:
  assumes it: "iteration (lib_iter L)" and c: "compactable a V" and p: "GetPeer a p = Some t"
    and C: "supplied a V t gu rel c" "holds_parts a V p rel c K G f"
    and cr: "c_getPeerConnectionResources L c p = (acl, fw, au, ssh)"
    and ar: "GetPeerConnectionResources (lib_iter L) (lib_meets L) a t V gu = (acl', fw', au', ssh')"
  shows "set acl = set acl'" "set fw = set fw'" "au = au'" "ssh = ssh'" "set acl = acl_peers a V p"
proof -
  have w: "wf_account a" and i: "peer_ID t = p" using compactableD(3) [OF c] GetPeer_ID [OF compactableD(1) [OF c] p] .
  have ctx: "comp_ctx_ok (L, a, V, t, gu, c)" using it c p i C by (auto simp: comp_ctx_ok_def)
  have B: "built a K G f c" and "p \<in> K" using C(2) by (simp_all add: holds_parts_def set_ok_def)
  then have t: "GetPeerInfo c p = Some t" using built_lookups(1) [OF B, of p] p by simp
  have cr': "conn_resources (lib_meets L) t (c_GroupIDToUserIDs c) (c_getAllowedUserIDs c)
      (c_rule_peers (lib_iter L) c (peer_ID t)) (c_Policies c) = (acl, fw, au, ssh)"
    using cr t i by (simp add: c_getPeerConnectionResources_def)
  note ar' = ar [unfolded GetPeerConnectionResources_def] and iw = conjI [OF it w]
  show acl: "set acl = acl_peers a V p"
    using components_peers [OF ctx, of "lib_meets L" "c_GroupIDToUserIDs c" "c_getAllowedUserIDs c"] unfolding cr' by (simp add: i)
  show "set acl = set acl'"
    unfolding acl using account_peers [OF iw, of "lib_meets L" t gu "getAllowedUserIDs a" V] unfolding ar' by (simp add: i)
  show "set fw = set fw'"
    using components_rules [OF ctx, of "lib_meets L" "c_GroupIDToUserIDs c" "c_getAllowedUserIDs c"]
      account_rules [OF iw, of "lib_meets L" t gu "getAllowedUserIDs a" V] unfolding cr' ar' by simp
  have "(au, ssh) = (au', ssh')"
    using components_ssh [OF ctx, of "lib_meets L"] account_ssh [OF iw, of "lib_meets L" t gu V] unfolding cr' ar' by simp
  then show "au = au'" "ssh = ssh'" by simp_all
qed

text \<open>A map made from the connection resources \<open>(acl, fw, au, ssh)\<close> of the peer \<open>p\<close>.\<close>

definition map_from ::
  "Account \<Rightarrow> string \<Rightarrow> nbpeer list \<Rightarrow> FirewallRule list \<Rightarrow> authorized \<Rightarrow> bool \<Rightarrow> (nbpeer \<Rightarrow> bool) \<Rightarrow> NetworkMap \<Rightarrow> bool" where
  "map_from a p acl fw au ssh expired m \<longleftrightarrow>
     nm_Serial m = Serial a \<and> set (FirewallRules m) = set fw \<and> AuthorizedUsers m = au \<and> EnableSSH m = ssh \<and>
     set (OfflinePeers m) = set (filter expired acl) \<and> ServiceEnable (DNSConfig m) = getPeerDNSManagementStatus a p \<and>
     (list_all (\<lambda>n. \<not> nr_Enabled n) (NetworkResources a) \<longrightarrow>
        set (nm_Peers m) = set (filter (\<lambda>q. \<not> expired q) acl) \<and>
        set (nm_Routes m) = set (GetRoutesToSync a p (filter (\<lambda>q. \<not> expired q) acl) (GetPeerGroups a p)))"

lemma calculated_map:
  fixes now :: time
  assumes it: "iteration (lib_iter L)" and c: "compactable a V" and p: "GetPeer a p = Some t" and v: "p \<in> V"
    and ar: "GetPeerConnectionResources (lib_iter L) (lib_meets L) a t V gu = (acl', fw', au', ssh')"
    and ex: "expired = login_expired now (PeerLoginExpirationEnabled a) (PeerLoginExpiration a)"
  shows "\<exists>m. GetPeerNetworkMapFromComponents L now a p cz az V (GetResourcePoliciesMap a) routers gu = Some m \<and>
    map_from a p acl' fw' au' ssh' expired m"
proof -
  let ?rp = "GetResourcePoliciesMap a"
  obtain cc rel K G f where C: "GetPeerNetworkMapComponents L a p cz az V ?rp routers gu = Some (Some cc)"
    "supplied a V t gu rel cc" "holds_parts a V p rel cc K G f" and
    st: "c_PeerID cc = p" "c_Serial cc = Serial a" "c_PeerLoginExpirationEnabled cc = PeerLoginExpirationEnabled a"
    "c_PeerLoginExpiration cc = PeerLoginExpiration a" "c_DisabledManagementGroups cc = DisabledManagementGroups a"
    "c_Routes cc = map snd (Routes a)" "\<forall>rt \<in> set (map snd (Routes a)). set (route_PeerGroups rt) \<subseteq> G"
    using components_supplied [OF c p v, of L cz az routers gu] by (elim exE conjE) (rule that)
  have B: "built a K G f cc" and S: "set_ok a V p K G f" and "p \<in> K" using C(3) by (simp_all add: holds_parts_def set_ok_def)
  have i: "peer_ID t = p" using GetPeer_ID [OF compactableD(1) [OF c] p] .
  obtain acl fw au ssh where cr: "c_getPeerConnectionResources L cc p = (acl, fw, au, ssh)" by (metis surj_pair)
  note eq = connection_resources_agree [OF it c p C(2,3) cr ar]
  obtain b rs sp where s: "c_getNetworkResourcesRoutesToSync L cc p = Some (b, map Some rs, sp)"
    using components_sync [OF components_resources(1) [OF C(1)], of L p] by blast
  let ?on = "filter (\<lambda>q. \<not> expired q) acl" and ?on' = "filter (\<lambda>q. \<not> expired q) acl'"
  let ?sync = "routes_to_sync (c_getRoutingPeerRoutes cc) p ?on (c_GetPeerGroups cc p)"
  have all: "all_some (map Some rs) = Some rs" by (simp add: all_some_def image_iff)
  have "\<exists>m. GetPeerNetworkMapFromComponents L now a p cz az V ?rp routers gu = Some m \<and> nm_Serial m = Serial a \<and> FirewallRules m = fw \<and>
      AuthorizedUsers m = au \<and> EnableSSH m = ssh \<and> OfflinePeers m = filter expired acl \<and> DNSConfig m = c_dns cc p \<and>
      nm_Peers m = c_addNetworksRoutingPeers (lib_iter L) cc rs p ?on (filter expired acl) b sp \<and> nm_Routes m = rs @ ?sync"
    using C(1) s all cr by (simp add: GetPeerNetworkMapFromComponents_def Calculate_def st Let_def ex)
  then obtain m where m: "GetPeerNetworkMapFromComponents L now a p cz az V ?rp routers gu = Some m" "nm_Serial m = Serial a"
    "FirewallRules m = fw" "AuthorizedUsers m = au" "EnableSSH m = ssh" "OfflinePeers m = filter expired acl" "DNSConfig m = c_dns cc p"
    "nm_Peers m = c_addNetworksRoutingPeers (lib_iter L) cc rs p ?on (filter expired acl) b sp" "nm_Routes m = rs @ ?sync" by blast
  have gr: "c_GetPeerGroups cc p = GetPeerGroups a p" by (rule built_peer_groups [OF c B S])
  have dns: "ServiceEnable (c_dns cc p) = getPeerDNSManagementStatus a p"
    by (simp add: c_dns_def gr st(5) getPeerDNSManagementStatus_def no_dns_def)
  have held: "peer_ID q \<in> K \<and> GetPeer a (peer_ID q) = Some q" if "q \<in> set acl" for q
    using acl_peers_held [OF C(2) C(3) [folded i], of q] that eq(5) i by simp
  have sync: "set ?sync = set (GetRoutesToSync a p ?on' (GetPeerGroups a p))"
    unfolding GetRoutesToSync_def gr
  proof (rule routes_to_sync_agree)
    show "map GetHAUniqueID (snd (c_getRoutingPeerRoutes cc p)) = map GetHAUniqueID (snd (getRoutingPeerRoutes a p))"
      by (rule built_routing(2) [OF B \<open>p \<in> K\<close> _ st(6)]) (use p st(7) in auto)
    fix x
    assume "x \<in> insert p (peer_ID ` set ?on)"
    then have x: "x \<in> K" "GetPeer a x \<noteq> None" using held p \<open>p \<in> K\<close> by auto
    show "fst (c_getRoutingPeerRoutes cc x) = fst (getRoutingPeerRoutes a x)"
      by (rule built_routing(1) [OF B x st(6)]) (use st(7) in blast)
  qed (use eq(1) in simp)
  have none: "b = False \<and> rs = [] \<and> sp = []" if "list_all (\<lambda>n. \<not> nr_Enabled n) (NetworkResources a)"
    using s components_resources(2) [OF C(1) that] by (simp add: c_getNetworkResourcesRoutesToSync_def)
  have "set (nm_Peers m) = set ?on' \<and> set (nm_Routes m) = set (GetRoutesToSync a p ?on' (GetPeerGroups a p))"
    if "list_all (\<lambda>n. \<not> nr_Enabled n) (NetworkResources a)"
    using none [OF that] sync eq(1) it unfolding m(8,9) by (simp add: c_addNetworksRoutingPeers_def missing_peers_def)
  then show ?thesis
    by (intro exI [of _ m]) (simp add: map_from_def m(1-7) eq(1-4) dns)
qed

lemma sync_resources_none: "list_all (\<lambda>n. \<not> nr_Enabled n) ns \<Longrightarrow> sync_resources step ns st = Some st"
  by (induction ns) simp_all

lemma account_map:
  fixes now :: time
  assumes "iteration (lib_iter L)" and k: "keyed a" and p: "GetPeer a p = Some t" and v: "p \<in> V"
    and ar: "GetPeerConnectionResources (lib_iter L) (lib_meets L) a t V gu = (acl', fw', au', ssh')"
    and ex: "expired = login_expired now (PeerLoginExpirationEnabled a) (PeerLoginExpiration a)"
    and m: "GetPeerNetworkMap L now a p cz az V rp routers gu = Some m"
  shows "map_from a p acl' fw' au' ssh' expired m"
proof -
  let ?on = "filter (\<lambda>q. \<not> expired q) acl'"
  have dns: "ServiceEnable (account_dns L a t p cz az ps es) = getPeerDNSManagementStatus a p" for ps es
    by (simp add: account_dns_def no_dns_def)
  obtain b routes sp rs where s: "GetNetworkResourcesRoutesToSync L a p rp routers = Some (b, routes, sp)" "all_some routes = Some rs"
    using m p v by (auto simp: GetPeerNetworkMap_def ar Let_def split: option.splits)
  have "nm_Serial m = Serial a \<and> FirewallRules m = fw' \<and> AuthorizedUsers m = au' \<and> EnableSSH m = ssh' \<and>
      OfflinePeers m = filter expired acl' \<and> ServiceEnable (DNSConfig m) = getPeerDNSManagementStatus a p \<and>
      nm_Peers m = addNetworksRoutingPeers (lib_iter L) a rs t ?on (filter expired acl') b sp \<and>
      nm_Routes m = rs @ GetRoutesToSync a p ?on (GetPeerGroups a p)"
    using m p v s ar by (auto simp: GetPeerNetworkMap_def Let_def ex [symmetric] dns)
  moreover have "b = False \<and> rs = [] \<and> sp = []" if "list_all (\<lambda>n. \<not> nr_Enabled n) (NetworkResources a)"
  proof -
    have "sync_resources step (NetworkResources a) st = Some st" for step st
      using that by (rule sync_resources_none)
    with s show ?thesis by (auto simp: GetNetworkResourcesRoutesToSync_def all_some_def)
  qed
  moreover have "lib_iter L [] = []" using iteration_set [OF assms(1), of "[]"] by simp
  ultimately show ?thesis by (simp add: map_from_def addNetworksRoutingPeers_def missing_peers_def List.map_filter_simps)
qed

definition maps_agree :: "Account \<Rightarrow> NetworkMap \<Rightarrow> NetworkMap \<Rightarrow> bool" where
  "maps_agree a m m' \<longleftrightarrow>
     nm_Serial m = nm_Serial m' \<and> set (FirewallRules m) = set (FirewallRules m') \<and> set (OfflinePeers m) = set (OfflinePeers m') \<and>
     AuthorizedUsers m = AuthorizedUsers m' \<and> EnableSSH m = EnableSSH m' \<and>
     ServiceEnable (DNSConfig m) = ServiceEnable (DNSConfig m') \<and>
     (list_all (\<lambda>n. \<not> nr_Enabled n) (NetworkResources a) \<longrightarrow>
        set (nm_Peers m) = set (nm_Peers m') \<and> set (nm_Routes m) = set (nm_Routes m'))"

text \<open>
  C2. The compacted network map is the network map. For an account in which both computations see the
  same peers, the map of a validated peer calculated from its components exists, and if the map
  calculated from the account exists too, both have the same serial, firewall rules, offline
  peers, SSH users and SSH switch, and DNS switch; when no network resource is enabled they also
  have the same peers and routes.
\<close>

theorem compacted_map_agrees:
  assumes it: "iteration (lib_iter L)" and c: "compactable a V" and p: "GetPeer a p = Some t" and v: "p \<in> V"
  shows "\<exists>m. GetPeerNetworkMapFromComponents L now a p cz az V (GetResourcePoliciesMap a) (GetResourceRoutersMap a) gu = Some m \<and>
    (\<forall>m'. GetPeerNetworkMap L now a p cz az V (GetResourcePoliciesMap a) (GetResourceRoutersMap a) gu = Some m' \<longrightarrow> maps_agree a m m')"
proof -
  obtain acl fw au ssh where ar: "GetPeerConnectionResources (lib_iter L) (lib_meets L) a t V gu = (acl, fw, au, ssh)"
    by (metis surj_pair)
  let ?from = "map_from a p acl fw au ssh (login_expired now (PeerLoginExpirationEnabled a) (PeerLoginExpiration a))"
  obtain m where m: "GetPeerNetworkMapFromComponents L now a p cz az V (GetResourcePoliciesMap a) (GetResourceRoutersMap a) gu = Some m"
    "?from m" using calculated_map [OF it c p v ar refl] by blast
  moreover have "maps_agree a m m'" if "GetPeerNetworkMap L now a p cz az V (GetResourcePoliciesMap a) (GetResourceRoutersMap a) gu = Some m'" for m'
    using account_map [OF it compactableD(1) [OF c] p v ar refl that] m(2) by (simp add: map_from_def maps_agree_def)
  ultimately show ?thesis by blast
qed

lemma compactable_demo: "compactable demo_account {''a'', ''b'', ''c''}"
  using wf_demo_account by (simp add: compactable_def)
    (simp add: demo_account_def demo_rule_def no_resource_def demo_peer_def GetPeer_def GetGroup_def enabled_rules_def is_peer_resource_def)

theorem compacted_map_agrees_witness:
  "\<exists>m m'. GetPeerNetworkMapFromComponents demo_lib 0 demo_account ''b'' \<lparr>zone_Domain = '''', zone_Records = [], SearchDomainDisabled = False,
       NonAuthoritative = False\<rparr> [] {''a'', ''b'', ''c''} (GetResourcePoliciesMap demo_account) (GetResourceRoutersMap demo_account) Map.empty =
       Some m \<and>
     GetPeerNetworkMap demo_lib 0 demo_account ''b'' \<lparr>zone_Domain = '''', zone_Records = [], SearchDomainDisabled = False,
       NonAuthoritative = False\<rparr> [] {''a'', ''b'', ''c''} (GetResourcePoliciesMap demo_account) (GetResourceRoutersMap demo_account) Map.empty =
       Some m' \<and> maps_agree demo_account m m' \<and> nm_Peers m' = [demo_peer ''a'' 0x64400001]"
proof -
  let ?cz = "\<lparr>zone_Domain = '''', zone_Records = [], SearchDomainDisabled = False, NonAuthoritative = False\<rparr>"
  have it: "iteration (lib_iter demo_lib)" and p: "GetPeer demo_account ''b'' = Some (demo_peer ''b'' 0x64400002)"
    by (simp_all add: demo_lib_def GetPeer_def demo_account_def)
  have "map_option nm_Peers (GetPeerNetworkMap demo_lib 0 demo_account ''b'' ?cz [] {''a'', ''b'', ''c''}
      (GetResourcePoliciesMap demo_account) (GetResourceRoutersMap demo_account) Map.empty) = Some [demo_peer ''a'' 0x64400001]"
    by code_simp
  with compacted_map_agrees [OF it compactable_demo p, where now = 0 and cz = ?cz and az = "[]" and gu = Map.empty]
  show ?thesis by auto
qed

section \<open>Where the maps differ\<close>

text \<open>
  The account of the demonstration with a second rule that names the peer \<open>c\<close> itself as its source. The peer \<open>c\<close>
  is not validated and fails the posture check of the first rule.
\<close>

definition loose_account :: Account where
  "loose_account = demo_account\<lparr>Policies := Policies demo_account @
     [\<lparr>policy_ID = ''p2'', policy_Enabled = True,
       Rules = [demo_rule\<lparr>rule_ID := ''r2'', Sources := [], SourceResource := \<lparr>resource_ID = ''c'', resource_Type = ''peer''\<rparr>,
         Ports := [''80'']\<rparr>], SourcePostureChecks = []\<rparr>]\<rparr>"

definition ports_from :: "nbpeer \<Rightarrow> NetworkMap \<Rightarrow> string list" where
  "ports_from q m = map Port (filter (\<lambda>f. PeerIP f = IP_String (peer_IP q)) (FirewallRules m))"

text \<open>
  The compacted map can be more permissive than the map of the account when a rule names an unvalidated
  peer as a resource: the peer enters the components, and membership in the components stands for
  validation. In this account, although the peer \<open>c\<close> is not validated and fails the posture check of the first rule, the
  compacted map of \<open>b\<close> opens the port 22 of that rule to it.
\<close>

lemma compacted_map_admits_unvalidated:
  "let cz = \<lparr>zone_Domain = '''', zone_Records = [], SearchDomainDisabled = False, NonAuthoritative = False\<rparr>;
       rp = GetResourcePoliciesMap loose_account; rt = GetResourceRoutersMap loose_account; c = demo_peer ''c'' 0x64400003
   in \<not> validatePostureChecksOnPeer loose_account [''pc''] ''c'' \<and>
      map_option (ports_from c) (GetPeerNetworkMap demo_lib 0 loose_account ''b'' cz [] {''a'', ''b''} rp rt Map.empty) = Some [''80''] \<and>
      map_option (ports_from c) (GetPeerNetworkMapFromComponents demo_lib 0 loose_account ''b'' cz [] {''a'', ''b''} rp rt Map.empty) =
        Some [''22'', ''80'']"
  by code_simp

end
