(* ===== verification/PeerIPs.thy ===== *)
theory PeerIPs
  imports AccountTypes GoNet
begin

text \<open>
  The addresses of peers (\<open>AllocatePeerIP\<close> and \<open>AllocateRandomPeerIP\<close> of
  \<open>management/server/types/network.go\<close>, the check of a new network range in
  \<open>management/server/http/handlers/accounts/accounts_handler.go\<close>, and the assignment of new addresses to
  all peers in \<open>management/server/account.go\<close>).

  A mask is given by its length \<open>net_ones\<close> among \<open>net_bits\<close> bits, as \<open>net.CIDRMask\<close> makes it. The draws of a random
  number generator are a function of the number of the draw and the bound. Operations on the store
  are a log, with a parameter that says which of them succeed.
\<close>

unbundle bit_operations_syntax

section \<open>Addresses and networks\<close>

record IPNet =
  net_IP :: IP
  net_ones :: nat
  net_bits :: nat

definition IP_Mask :: "IPNet \<Rightarrow> IP" where
  "IP_Mask n =
     (case net_IP n of
        NilIP \<Rightarrow> NilIP
      | IP4 w \<Rightarrow>
          if net_bits n = 32 then IP4 (w AND NOT (mask (32 - net_ones n)))
          else if net_bits n = 128 \<and> 96 \<le> net_ones n then IP4 (w AND NOT (mask (128 - net_ones n)))
          else NilIP
      | IP16 v \<Rightarrow>
          if net_bits n = 128 then IP16 (v AND NOT (mask (128 - net_ones n)))
          else case To4 (IP16 v) of
            Some w \<Rightarrow> if net_bits n = 32 then IP4 (w AND NOT (mask (32 - net_ones n))) else NilIP
          | None \<Rightarrow> NilIP)"

definition ipToUint32 :: "IP \<Rightarrow> 32 word" where
  "ipToUint32 ip = (case To4 ip of Some w \<Rightarrow> w | None \<Rightarrow> 0)"

definition uint32ToIP :: "32 word \<Rightarrow> IP" where
  "uint32ToIP n = IP4 n"

section \<open>Allocation\<close>

type_synonym draws = "nat \<Rightarrow> nat \<Rightarrow> nat"

definition draws_ok :: "draws \<Rightarrow> bool" where
  "draws_ok rng \<longleftrightarrow> (\<forall>i n. 0 < n \<longrightarrow> rng i n < n)"

definition Intn :: "draws \<Rightarrow> nat \<Rightarrow> nat \<Rightarrow> nat option" where
  "Intn rng i n = (if n = 0 then None else Some (rng i n))"

text \<open>The result \<^const>\<open>None\<close> is a panic.\<close>

fun random_attempts :: "draws \<Rightarrow> 32 word \<Rightarrow> 32 word \<Rightarrow> 32 word list \<Rightarrow> nat \<Rightarrow> nat \<Rightarrow> 32 word option option" where
  "random_attempts rng baseIP totalIPs taken i 0 = Some None"
| "random_attempts rng baseIP totalIPs taken i (Suc left) =
     (case Intn rng i (unat (totalIPs - 2)) of
        None \<Rightarrow> None
      | Some d \<Rightarrow>
          let candidate = baseIP + (word_of_nat d + 1) in
          if candidate \<notin> set taken then Some (Some candidate) else random_attempts rng baseIP totalIPs taken (Suc i) left)"

definition scan_offsets :: "32 word \<Rightarrow> 32 word \<Rightarrow> 32 word list \<Rightarrow> 32 word option" where
  "scan_offsets baseIP totalIPs taken =
     find (\<lambda>candidate. candidate \<notin> set taken) (map (\<lambda>offset. baseIP + word_of_nat offset) [1..<unat (totalIPs - 1)])"

text \<open>\<^const>\<open>None\<close> in the second place is the error that the network is out of addresses.\<close>

definition AllocatePeerIP :: "draws \<Rightarrow> IPNet \<Rightarrow> IP list \<Rightarrow> IP option option" where
  "AllocatePeerIP rng ipNet takenIps =
     (let baseIP = ipToUint32 (IP_Mask ipNet);
          totalIPs = word_of_nat (2 ^ (net_bits ipNet - net_ones ipNet)) :: 32 word;
          taken = remdups ([baseIP, baseIP + totalIPs - 1] @ map ipToUint32 takenIps);
          maxAttempts = nat ((uint totalIPs - int (length taken)) div 100)
      in case random_attempts rng baseIP totalIPs taken 0 maxAttempts of
           None \<Rightarrow> None
         | Some (Some candidate) \<Rightarrow> Some (Some (uint32ToIP candidate))
         | Some None \<Rightarrow> Some (map_option uint32ToIP (scan_offsets baseIP totalIPs taken)))"

definition AllocateRandomPeerIP :: "draws \<Rightarrow> IPNet \<Rightarrow> IP option" where
  "AllocateRandomPeerIP rng ipNet =
     (let baseIP = ipToUint32 (IP_Mask ipNet);
          totalIPs = word_of_nat (2 ^ (net_bits ipNet - net_ones ipNet)) :: 32 word
      in map_option (\<lambda>d. uint32ToIP (baseIP + (word_of_nat d + 1))) (Intn rng 0 (unat (totalIPs - 2))))"

section \<open>The check of a network range\<close>

definition IsLoopback :: "Addr \<Rightarrow> bool" where
  "IsLoopback a = (case addr_Unmap a of NoAddr \<Rightarrow> False | Addr4 w \<Rightarrow> drop_bit 24 w = 127 | Addr6 v z \<Rightarrow> v = 1)"

definition IsMulticast :: "Addr \<Rightarrow> bool" where
  "IsMulticast a = (case addr_Unmap a of NoAddr \<Rightarrow> False | Addr4 w \<Rightarrow> drop_bit 28 w = 0xe | Addr6 v z \<Rightarrow> drop_bit 120 v = 0xff)"

definition IsLinkLocalUnicast :: "Addr \<Rightarrow> bool" where
  "IsLinkLocalUnicast a =
     (case addr_Unmap a of NoAddr \<Rightarrow> False | Addr4 w \<Rightarrow> drop_bit 16 w = 0xa9fe | Addr6 v z \<Rightarrow> drop_bit 118 v = 0x3fa)"

definition IsLinkLocalMulticast :: "Addr \<Rightarrow> bool" where
  "IsLinkLocalMulticast a =
     (case addr_Unmap a of NoAddr \<Rightarrow> False | Addr4 w \<Rightarrow> drop_bit 8 w = 0xe00000
      | Addr6 v z \<Rightarrow> drop_bit 112 v AND 0xff0f = 0xff02)"

datatype range_error = LoopbackRange | MulticastRange | LinkLocalRange | RangeTooSmall | PeersUnknown

definition validateIPAddress :: "Addr \<Rightarrow> range_error option" where
  "validateIPAddress a =
     (if IsLoopback a then Some LoopbackRange
      else if IsMulticast a then Some MulticastRange
      else if IsLinkLocalUnicast a \<or> IsLinkLocalMulticast a then Some LinkLocalRange
      else None)"

definition MinNetworkBitsIPv4 :: nat where
  "MinNetworkBitsIPv4 = 28"

definition MinNetworkBitsIPv6 :: nat where
  "MinNetworkBitsIPv6 = 120"

definition validateMinimumSize :: "Prefix \<Rightarrow> range_error option" where
  "validateMinimumSize p =
     (if Is4 (pfx_Addr p) \<and> MinNetworkBitsIPv4 < pfx_Bits p then Some RangeTooSmall
      else if is_Addr6 (pfx_Addr p) \<and> MinNetworkBitsIPv6 < pfx_Bits p then Some RangeTooSmall
      else None)"

definition calculateMaxHosts :: "Prefix \<Rightarrow> 64 word" where
  "calculateMaxHosts p =
     push_bit (BitLen (pfx_Addr p) - pfx_Bits p) 1 - (if Is4 (pfx_Addr p) then 2 else 0)"

definition MinRequiredAddresses :: int where
  "MinRequiredAddresses = 10"

text \<open>The product with the buffer of one half is exact for the numbers that a \<open>float64\<close> represents.\<close>

definition calculateRequiredAddresses :: "nat \<Rightarrow> int" where
  "calculateRequiredAddresses peerCount =
     (let requiredAddresses = int peerCount + int (peerCount div 2)
      in if requiredAddresses < MinRequiredAddresses then MinRequiredAddresses else requiredAddresses)"

text \<open>The argument \<open>peers\<close> is the number of peers that \<open>GetPeers\<close> returns, \<^const>\<open>None\<close> its error.\<close>

definition validateCapacity :: "nat option \<Rightarrow> Prefix \<Rightarrow> range_error option" where
  "validateCapacity peers p =
     (case peers of
        None \<Rightarrow> Some PeersUnknown
      | Some n \<Rightarrow> if sint (calculateMaxHosts p) < calculateRequiredAddresses n then Some RangeTooSmall else None)"

definition validateNetworkRange :: "nat option \<Rightarrow> Prefix \<Rightarrow> range_error option" where
  "validateNetworkRange peers p =
     (if pfx_Addr p = NoAddr then None
      else case validateIPAddress (pfx_Addr p) of
        Some e \<Rightarrow> Some e
      | None \<Rightarrow>
          (case validateMinimumSize p of
             Some e \<Rightarrow> Some e
           | None \<Rightarrow> validateCapacity peers p))"

section \<open>New addresses for all peers\<close>

datatype ip_op = UpdateAccountNetwork IPNet | SavePeer string IP

datatype ip_error = StoreFailed ip_op | OutOfIPs string

definition range_net :: "Prefix \<Rightarrow> IPNet" where
  "range_net p = \<lparr>net_IP = AsSlice (Masked p), net_ones = pfx_Bits p, net_bits = BitLen (pfx_Addr p)\<rparr>"

fun allocate_all :: "(nat \<Rightarrow> draws) \<Rightarrow> IPNet \<Rightarrow> string list \<Rightarrow> IP list \<Rightarrow> (ip_error + IP list) option" where
  "allocate_all rngs ipNet [] takenIPs = Some (Inr takenIPs)"
| "allocate_all rngs ipNet (peerID # ids) takenIPs =
     (case AllocatePeerIP (rngs (length takenIPs)) ipNet takenIPs of
        None \<Rightarrow> None
      | Some None \<Rightarrow> Some (Inl (OutOfIPs peerID))
      | Some (Some newIP) \<Rightarrow> allocate_all rngs ipNet ids (takenIPs @ [newIP]))"

fun run_ops :: "(ip_op \<Rightarrow> bool) \<Rightarrow> ip_op list \<Rightarrow> ip_op list \<Rightarrow> ip_op list \<times> ip_error option" where
  "run_ops store done_ops [] = (done_ops, None)"
| "run_ops store done_ops (op # ops) = (if store op then run_ops store (done_ops @ [op]) ops else (done_ops, Some (StoreFailed op)))"

definition reallocateAccountPeerIPs ::
  "(ip_op \<Rightarrow> bool) \<Rightarrow> (nat \<Rightarrow> draws) \<Rightarrow> string list \<Rightarrow> Prefix \<Rightarrow> (ip_op list \<times> ip_error option) option" where
  "reallocateAccountPeerIPs store rngs peers newNetworkRange =
     (if pfx_Addr newNetworkRange = NoAddr then Some ([], None)
      else let newIPNet = range_net newNetworkRange; net_op = UpdateAccountNetwork newIPNet in
        if \<not> store net_op then Some ([], Some (StoreFailed net_op))
        else case allocate_all rngs newIPNet peers [] of
          None \<Rightarrow> None
        | Some (Inl e) \<Rightarrow> Some ([net_op], Some e)
        | Some (Inr ips) \<Rightarrow> Some (run_ops store [net_op] (map (\<lambda>(i, ip). SavePeer i ip) (zip peers ips))))"

section \<open>Addresses of hosts\<close>

text \<open>An IPv4 network with its address as a number, the number of its host bits, and its host addresses.\<close>

definition ipv4_net :: "IPNet \<Rightarrow> 32 word \<Rightarrow> nat \<Rightarrow> bool" where
  "ipv4_net n w hb \<longleftrightarrow> To4 (net_IP n) = Some w \<and> net_bits n = 32 \<and> net_ones n + hb = 32"

definition first_addr :: "32 word \<Rightarrow> nat \<Rightarrow> nat" where
  "first_addr w hb = unat w div 2 ^ hb * 2 ^ hb"

definition hosts :: "32 word \<Rightarrow> nat \<Rightarrow> 32 word set" where
  "hosts w hb = {x. first_addr w hb < unat x \<and> unat x < first_addr w hb + 2 ^ hb - 1}"

lemma unat32_less: "unat (w :: 32 word) < 2 ^ 32"
  using unsigned_less [of w] by simp

lemma unat_masked:
  fixes w :: "32 word"
  assumes "n \<le> 32"
  shows "unat (w AND NOT (mask n)) = first_addr w n"
proof -
  have "w AND NOT (mask n) = push_bit n (drop_bit n w)"
    by (rule bit_eqI) (auto simp: bit_simps)
  then have "unat (w AND NOT (mask n)) = take_bit 32 (push_bit n (drop_bit n (unat w)))"
    using unat32_less [of w] by (simp add: unsigned_push_bit_eq unsigned_drop_bit_eq take_bit_nat_eq_self)
  then have "unat (w AND NOT (mask n)) = take_bit 32 (unat w div 2 ^ n * 2 ^ n)"
    by (simp only: push_bit_eq_mult drop_bit_eq_div)
  moreover have "unat w div 2 ^ n * 2 ^ n < 2 ^ 32"
    by (rule le_less_trans [OF div_times_less_eq_dividend unat32_less])
  ultimately show ?thesis by (simp add: first_addr_def take_bit_eq_mod)
qed

lemma first_addr_room:
  assumes "n \<le> 32"
  shows "first_addr w n + 2 ^ n \<le> 2 ^ 32"
proof -
  have "unat w < 2 ^ n * 2 ^ (32 - n)" using unat32_less [of w] assms by (simp flip: power_add)
  then have "unat w div 2 ^ n < 2 ^ (32 - n)" by (simp add: div_less_iff_less_mult mult.commute)
  then have "Suc (unat w div 2 ^ n) * 2 ^ n \<le> 2 ^ (32 - n) * 2 ^ n" by (intro mult_le_mono1) simp
  then show ?thesis using assms by (simp add: first_addr_def flip: power_add)
qed

lemma unat_of_nat32: "m < 2 ^ 32 \<Longrightarrow> unat (word_of_nat m :: 32 word) = m"
  by (simp add: unat_of_nat take_bit_nat_eq_self)

lemma unat_total:
  assumes "2 \<le> n" and "n \<le> 32"
  shows "unat (word_of_nat (2 ^ n) - 1 :: 32 word) = 2 ^ n - 1" "unat (word_of_nat (2 ^ n) - 2 :: 32 word) = 2 ^ n - 2"
proof -
  have p: "(4 :: nat) \<le> 2 ^ n" using power_increasing [OF assms(1), of "2 :: nat"] by simp
  have q: "(2 :: nat) ^ n \<le> 2 ^ 32" by (rule power_increasing [OF assms(2)]) simp
  have "word_of_nat (2 ^ n) - 1 = (word_of_nat (2 ^ n - 1) :: 32 word)" "word_of_nat (2 ^ n) - 2 = (word_of_nat (2 ^ n - 2) :: 32 word)"
    using p by (simp_all only: of_nat_diff of_nat_1 of_nat_numeral)
  then show "unat (word_of_nat (2 ^ n) - 1 :: 32 word) = 2 ^ n - 1" "unat (word_of_nat (2 ^ n) - 2 :: 32 word) = 2 ^ n - 2"
    using p q by (simp_all only: unat_of_nat32)
qed

lemmas unat_total_power = unat_total [unfolded of_nat_power of_nat_numeral]

lemma unat_candidate:
  assumes "2 \<le> n" and "n \<le> 32" and "d < 2 ^ n"
  shows "unat (((w :: 32 word) AND NOT (mask n)) + word_of_nat d) = first_addr w n + d"
proof -
  have "d < 2 ^ 32" using assms(3) power_increasing [OF assms(2), of "2 :: nat"] by simp
  then have "unat (word_of_nat d :: 32 word) = d" by (rule unat_of_nat32)
  moreover have "first_addr w n + d < 2 ^ 32" using first_addr_room [OF assms(2), of w] assms(3) by simp
  ultimately show ?thesis using unat_masked [OF assms(2), of w] unat_word_ariths(1) [of "w AND NOT (mask n)" "word_of_nat d"] by simp
qed

lemma candidate_host:
  assumes "2 \<le> n" and "n \<le> 32" and "0 < d" and "d < 2 ^ n - 1"
  shows "((w :: 32 word) AND NOT (mask n)) + word_of_nat d \<in> hosts w n"
  using unat_candidate [OF assms(1,2), of d w] assms(3,4) by (simp add: hosts_def)

lemma host_candidate:
  assumes "2 \<le> n" and "n \<le> 32" and "x \<in> hosts w n"
  shows "\<exists>d. 0 < d \<and> d < 2 ^ n - 1 \<and> x = (w AND NOT (mask n)) + word_of_nat d"
proof (intro exI conjI)
  let ?d = "unat x - first_addr w n"
  show o: "0 < ?d" "?d < 2 ^ n - 1" using assms(3) by (auto simp: hosts_def)
  have "unat ((w AND NOT (mask n)) + word_of_nat ?d) = unat x" using unat_candidate [OF assms(1,2), of ?d w] o by simp
  then show "x = (w AND NOT (mask n)) + word_of_nat ?d" by (simp add: word_unat_eq_iff)
qed

lemma card_hosts:
  assumes "2 \<le> n" and "n \<le> 32"
  shows "card (hosts w n) = 2 ^ n - 2" "finite (hosts w n)"
proof -
  let ?f = "\<lambda>d. (w AND NOT (mask n)) + word_of_nat d"
  have "hosts w n = ?f ` {0<..<2 ^ n - 1}"
    using candidate_host [OF assms] host_candidate [OF assms] by (force simp: image_iff)
  moreover have "inj_on ?f {0<..<2 ^ n - 1}"
    using unat_candidate [OF assms, of _ w] by (intro inj_onI) (metis (no_types, lifting) add_left_cancel diff_le_self greaterThanLessThan_iff order_less_le_trans)
  ultimately show "card (hosts w n) = 2 ^ n - 2" by (simp add: card_image)
qed (rule finite)

section \<open>What allocation returns\<close>

lemma ipv4_net_base:
  assumes "ipv4_net n w hb"
  shows "ipToUint32 (IP_Mask n) = w AND NOT (mask hb)" "net_bits n - net_ones n = hb" "hb \<le> 32"
proof -
  have hb: "hb = 32 - net_ones n" "net_bits n = 32" "net_ones n + hb = 32" using assms unfolding ipv4_net_def by auto
  show "ipToUint32 (IP_Mask n) = w AND NOT (mask hb)"
    using assms unfolding hb(1) by (auto simp: ipv4_net_def IP_Mask_def ipToUint32_def To4_def split: IP.splits if_splits)
  show "net_bits n - net_ones n = hb" "hb \<le> 32" using hb by simp_all
qed

lemma random_attempts_spec:
  assumes "2 \<le> hb" and "hb \<le> 32" and "draws_ok rng"
  shows "\<exists>r. random_attempts rng (w AND NOT (mask hb)) (word_of_nat (2 ^ hb)) taken i left = Some r \<and>
    (\<forall>x. r = Some x \<longrightarrow> x \<in> hosts w hb \<and> x \<notin> set taken)"
proof (induction left arbitrary: i)
  case (Suc left)
  have n: "0 < (2 :: nat) ^ hb - 2" using power_increasing [OF assms(1), of "2 :: nat"] by simp
  let ?d = "rng i (2 ^ hb - 2)"
  let ?c = "(w AND NOT (mask hb)) + word_of_nat (Suc ?d)"
  have "?d < 2 ^ hb - 2" using assms(3) n by (simp add: draws_ok_def)
  then have "?c \<in> hosts w hb" by (intro candidate_host [OF assms(1,2)]) simp_all
  moreover have "Intn rng i (unat (word_of_nat (2 ^ hb) - 2 :: 32 word)) = Some ?d"
    using n by (simp add: Intn_def unat_total_power(2) [OF assms(1,2)])
  ultimately show ?case using Suc [of "Suc i"] by (auto simp: Let_def add.commute)
qed simp

lemma scan_offsets_spec:
  assumes "2 \<le> hb" and "hb \<le> 32"
  shows "case scan_offsets (w AND NOT (mask hb)) (word_of_nat (2 ^ hb)) taken of
      None \<Rightarrow> hosts w hb \<subseteq> set taken
    | Some x \<Rightarrow> x \<in> hosts w hb \<and> x \<notin> set taken"
proof (cases "scan_offsets (w AND NOT (mask hb)) (word_of_nat (2 ^ hb)) taken")
  case None
  then have "\<forall>d. 0 < d \<and> d < 2 ^ hb - 1 \<longrightarrow> (w AND NOT (mask hb)) + word_of_nat d \<in> set taken"
    by (auto simp: scan_offsets_def find_None_iff unat_total_power(1) [OF assms])
  then have "hosts w hb \<subseteq> set taken" using host_candidate [OF assms] by (metis subsetI)
  with None show ?thesis by simp
next
  case (Some x)
  then have "x \<notin> set taken" "x \<in> (\<lambda>d. (w AND NOT (mask hb)) + word_of_nat d) ` set [1..<2 ^ hb - 1]"
    unfolding scan_offsets_def unat_total(1) [OF assms] find_Some_iff by (metis (no_types, lifting) set_map nth_mem)+
  with Some show ?thesis using candidate_host [OF assms] by auto
qed

lemma not_host:
  assumes "2 \<le> hb" and "hb \<le> 32"
  shows "w AND NOT (mask hb) \<notin> hosts w hb" "(w AND NOT (mask hb)) + word_of_nat (2 ^ hb) - 1 \<notin> hosts w hb"
proof -
  show "w AND NOT (mask hb) \<notin> hosts w hb" by (simp add: hosts_def unat_masked [OF assms(2)])
  have "(w AND NOT (mask hb)) + word_of_nat (2 ^ hb) - 1 = (w AND NOT (mask hb)) + word_of_nat (2 ^ hb - 1)" by (simp add: of_nat_diff)
  then show "(w AND NOT (mask hb)) + word_of_nat (2 ^ hb) - 1 \<notin> hosts w hb"
    using unat_candidate [OF assms, of "2 ^ hb - 1" w] by (simp only: hosts_def mem_Collect_eq) simp
qed

text \<open>
  An address is found exactly when a host address is free, and it is a free host address.
\<close>

lemma AllocatePeerIP_spec:
  assumes n: "ipv4_net n w hb" and hb: "2 \<le> hb" and r: "draws_ok rng"
  shows "\<exists>res. AllocatePeerIP rng n taken = Some res \<and>
    (case res of None \<Rightarrow> hosts w hb \<subseteq> ipToUint32 ` set taken
     | Some ip \<Rightarrow> \<exists>x. ip = IP4 x \<and> x \<in> hosts w hb \<and> x \<notin> ipToUint32 ` set taken)"
proof -
  note base = ipv4_net_base [OF n]
  let ?b = "w AND NOT (mask hb)" and ?t = "word_of_nat (2 ^ hb) :: 32 word"
  let ?l = "remdups ([?b, ?b + ?t - 1] @ map ipToUint32 taken)"
  let ?k = "nat ((uint ?t - int (length ?l)) div 100)"
  have l: "x \<in> set ?l \<longleftrightarrow> x \<in> ipToUint32 ` set taken" if "x \<in> hosts w hb" for x
    using that not_host [OF hb base(3), of w] by auto
  obtain a where a: "random_attempts rng ?b ?t ?l 0 ?k = Some a" "\<And>x. a = Some x \<Longrightarrow> x \<in> hosts w hb \<and> x \<notin> set ?l"
    using random_attempts_spec [OF hb base(3) r, of w ?l 0 ?k] by blast
  have A: "AllocatePeerIP rng n taken = Some (map_option uint32ToIP (case a of Some x \<Rightarrow> Some x | None \<Rightarrow> scan_offsets ?b ?t ?l))"
    using a(1) unfolding AllocatePeerIP_def base(1,2) Let_def by (simp split: option.split)
  show ?thesis
  proof (cases a)
    case None
    with scan_offsets_spec [OF hb base(3), of w ?l] A l show ?thesis
      by (cases "scan_offsets ?b ?t ?l") (auto simp: uint32ToIP_def)
  next
    case (Some x)
    with a(2) [OF Some] A l [of x] show ?thesis by (simp add: uint32ToIP_def)
  qed
qed

lemma allocate_all_spec:
  assumes n: "ipv4_net n w hb" and hb: "2 \<le> hb" and r: "\<And>i. draws_ok (rngs i)"
  shows "length ids + length taken \<le> 2 ^ hb - 2 \<Longrightarrow> distinct taken \<Longrightarrow> set taken \<subseteq> IP4 ` hosts w hb \<Longrightarrow>
    \<exists>ips. allocate_all rngs n ids taken = Some (Inr (taken @ ips)) \<and> length ips = length ids \<and>
      distinct (taken @ ips) \<and> set ips \<subseteq> IP4 ` hosts w hb"
proof (induction ids arbitrary: taken)
  case (Cons i ids)
  note base = ipv4_net_base [OF n]
  have "card (ipToUint32 ` set taken) \<le> length taken" by (rule order_trans [OF card_image_le card_length]) simp
  then have "\<not> hosts w hb \<subseteq> ipToUint32 ` set taken"
    using card_mono [of "ipToUint32 ` set taken" "hosts w hb"] card_hosts(1) [OF hb base(3), of w] Cons.prems(1) by auto
  with AllocatePeerIP_spec [OF n hb r, of "length taken" taken]
  obtain x where x: "AllocatePeerIP (rngs (length taken)) n taken = Some (Some (IP4 x))" "x \<in> hosts w hb" "x \<notin> ipToUint32 ` set taken"
    by (auto split: option.splits)
  have "IP4 x \<notin> set taken" using x(3) by (force simp: ipToUint32_def To4_def)
  with Cons.IH [of "taken @ [IP4 x]"] Cons.prems x
  obtain ips where "allocate_all rngs n ids (taken @ [IP4 x]) = Some (Inr ((taken @ [IP4 x]) @ ips))" "length ips = length ids"
    "distinct ((taken @ [IP4 x]) @ ips)" "set ips \<subseteq> IP4 ` hosts w hb" by auto
  with x(1,2) show ?case by (intro exI [of _ "IP4 x # ips"]) simp
qed simp

section \<open>A checked range is large enough\<close>

lemma run_ops_all: "(\<And>op. store op) \<Longrightarrow> run_ops store done_ops ops = (done_ops @ ops, None)"
  by (induction ops arbitrary: done_ops) simp_all

lemma max_hosts:
  assumes "2 \<le> hb" and "hb \<le> 32"
  shows "sint (push_bit hb 1 - 2 :: 64 word) = 2 ^ hb - 2"
proof -
  have p: "(4 :: nat) \<le> 2 ^ hb" using power_increasing [OF assms(1), of "2 :: nat"] by simp
  have q: "(2 :: nat) ^ hb \<le> 2 ^ 32" by (rule power_increasing [OF assms(2)]) simp
  have "push_bit hb 1 - 2 = (word_of_nat (2 ^ hb - 2) :: 64 word)" using p by (simp add: push_bit_eq_mult of_nat_diff)
  moreover have "signed_take_bit 63 (int (2 ^ hb - 2)) = int (2 ^ hb - 2)"
    by (rule signed_take_bit_int_eq_self) (use q in \<open>simp_all add: of_nat_diff nat_less_iff flip: of_nat_less_iff\<close>)
  then have "sint (word_of_nat (2 ^ hb - 2) :: 64 word) = int (2 ^ hb - 2)" unfolding signed_of_nat by simp
  ultimately show ?thesis using p by (simp add: of_nat_diff)
qed

lemma checked_range_size:
  assumes "validateNetworkRange (Some k) p = None" and "pfx_Addr p = Addr4 w"
  shows "pfx_Bits p \<le> 28" "int k \<le> 2 ^ (32 - pfx_Bits p) - 2"
proof -
  show b: "pfx_Bits p \<le> 28"
    using assms by (auto simp: validateNetworkRange_def validateMinimumSize_def Is4_def MinNetworkBitsIPv4_def split: option.splits if_splits)
  have "calculateRequiredAddresses k \<le> sint (calculateMaxHosts p)"
    using assms by (auto simp: validateNetworkRange_def validateCapacity_def split: option.splits if_splits)
  moreover have "int k \<le> calculateRequiredAddresses k" by (auto simp: calculateRequiredAddresses_def MinRequiredAddresses_def Let_def)
  moreover have "calculateMaxHosts p = push_bit (32 - pfx_Bits p) 1 - 2"
    using assms(2) by (simp add: calculateMaxHosts_def BitLen_def Is4_def)
  ultimately show "int k \<le> 2 ^ (32 - pfx_Bits p) - 2" using max_hosts [of "32 - pfx_Bits p"] b by simp
qed

text \<open>
  C33. A checked IPv4 range holds all peers. When the handler accepts a range for the number of peers of
  the account, the assignment of new addresses succeeds whatever the random draws are: every peer
  gets an address of its own strictly between the network and the broadcast address of the range, and
  the network and all peers are saved.
\<close>

theorem checked_range_holds_peers:
  assumes "validateNetworkRange (Some (length peers)) p = None" and "pfx_Addr p = Addr4 w"
    and "\<And>i. draws_ok (rngs i)" and "\<And>op. store op"
  shows "\<exists>ips. reallocateAccountPeerIPs store rngs peers p =
      Some (UpdateAccountNetwork (range_net p) # map (\<lambda>(i, ip). SavePeer i ip) (zip peers ips), None) \<and>
    length ips = length peers \<and> distinct ips \<and>
    (\<forall>ip \<in> set ips. \<exists>x. ip = IP4 x \<and> (let h = 32 - pfx_Bits p; first = unat w div 2 ^ h * 2 ^ h
       in first < unat x \<and> unat x < first + 2 ^ h - 1))"
proof -
  note size = checked_range_size [OF assms(1,2)]
  let ?h = "32 - pfx_Bits p"
  let ?w = "w AND NOT (mask ?h)"
  have h: "2 \<le> ?h" "?h \<le> 32" using size(1) by simp_all
  have n: "ipv4_net (range_net p) ?w ?h"
    using size(1) assms(2) by (simp add: ipv4_net_def range_net_def Masked_def AsSlice_def To4_def BitLen_def)
  have first: "first_addr ?w ?h = unat w div 2 ^ ?h * 2 ^ ?h"
    by (simp add: first_addr_def unat_masked [OF h(2)])
  have "int (length peers + 2) \<le> int (2 ^ ?h)" using size(2) by simp
  then have "length peers + length ([] :: IP list) \<le> 2 ^ ?h - 2" by (simp only: of_nat_le_iff) simp
  with allocate_all_spec [OF n h(1), of rngs peers "[]"] assms(3) obtain ips where
    "allocate_all rngs (range_net p) peers [] = Some (Inr ips)" "length ips = length peers" "distinct ips" "set ips \<subseteq> IP4 ` hosts ?w ?h"
    by auto
  then show ?thesis using assms(2,4)
    by (intro exI [of _ ips]) (auto simp: reallocateAccountPeerIPs_def Let_def run_ops_all hosts_def first)
qed

theorem checked_range_holds_peers_witness:
  "\<exists>ips. reallocateAccountPeerIPs (\<lambda>op. True) (\<lambda>i j n. 0) [''a'', ''b''] \<lparr>pfx_Addr = Addr4 0x0a010203, pfx_Bits = 28\<rparr> =
      Some (UpdateAccountNetwork \<lparr>net_IP = IP4 0x0a010200, net_ones = 28, net_bits = 32\<rparr> #
        map (\<lambda>(i, ip). SavePeer i ip) (zip [''a'', ''b''] ips), None) \<and> length ips = 2 \<and> distinct ips"
proof -
  let ?p = "\<lparr>pfx_Addr = Addr4 0x0a010203, pfx_Bits = 28\<rparr>"
  have "validateNetworkRange (Some (length [''a'', ''b''])) ?p = None" by code_simp
  moreover have "range_net ?p = \<lparr>net_IP = IP4 0x0a010200, net_ones = 28, net_bits = 32\<rparr>" by code_simp
  ultimately show ?thesis
    using checked_range_holds_peers [where peers = "[''a'', ''b'']" and p = ?p and w = "0x0a010203" and rngs = "\<lambda>i j n. 0" and store = "\<lambda>op. True"] by (auto simp: draws_ok_def)
qed

text \<open>
  An IPv6 range passes the check, but the addresses that the peers get are those of the IPv4 network
  \<open>0.0.0.0\<close>: \<open>ipToUint32\<close> is 0 for an address that has no IPv4 form.
\<close>

lemma checked_ipv6_range_gives_ipv4:
  "let p = \<lparr>pfx_Addr = Addr6 0xfd000000000000000000000000000000 [], pfx_Bits = 120\<rparr> in
   validateNetworkRange (Some 2) p = None \<and>
   reallocateAccountPeerIPs (\<lambda>op. True) (\<lambda>i j n. 0) [''a'', ''b''] p =
     Some ([UpdateAccountNetwork (range_net p), SavePeer ''a'' (IP4 1), SavePeer ''b'' (IP4 2)], None)"
  by code_simp

text \<open>A network of two addresses makes the random allocation panic, one of a single address leaves the network.\<close>

lemma random_allocation_small:
  "AllocateRandomPeerIP (\<lambda>i n. 7) \<lparr>net_IP = IP4 0x0a010200, net_ones = 31, net_bits = 32\<rparr> = None"
  "AllocateRandomPeerIP (\<lambda>i n. 7) \<lparr>net_IP = IP4 0x0a010200, net_ones = 32, net_bits = 32\<rparr> = Some (IP4 0x0a010208)"
  by (simp_all add: AllocateRandomPeerIP_def IP_Mask_def ipToUint32_def To4_def Intn_def uint32ToIP_def Let_def unat_gt_0)

lemma random_allocation_host:
  assumes "ipv4_net n w hb" and "2 \<le> hb" and "draws_ok rng"
  shows "\<exists>x. AllocateRandomPeerIP rng n = Some (IP4 x) \<and> x \<in> hosts w hb"
proof -
  note base = ipv4_net_base [OF assms(1)]
  have n: "0 < (2 :: nat) ^ hb - 2" using power_increasing [OF assms(2), of "2 :: nat"] by simp
  have "rng 0 (2 ^ hb - 2) < 2 ^ hb - 2" using assms(3) n by (simp add: draws_ok_def)
  then have "(w AND NOT (mask hb)) + word_of_nat (Suc (rng 0 (2 ^ hb - 2))) \<in> hosts w hb"
    by (intro candidate_host [OF assms(2) base(3)]) simp_all
  then show ?thesis using n
    by (simp add: AllocateRandomPeerIP_def base(1,2) Let_def Intn_def unat_total_power(2) [OF assms(2) base(3)] uint32ToIP_def add.commute)
qed

end
