(* ===== verification/LocalIPs.thy ===== *)
theory LocalIPs
  imports GoNet
begin

text \<open>
  The table of local addresses of the userspace packet filter,
  \<open>client/firewall/uspfilter/localip.go\<close>. The array of 256 pointers to arrays of 8192 words is a function
  of the index; every index the code computes is in range, since a 16-bit number divided by 32 is
  less than 2048. What the operating system says about the interfaces is an argument: \<^const>\<open>None\<close> where the
  call fails. The panic handler of \<open>UpdateLocalIPs\<close> has nothing to catch.
\<close>

unbundle bit_operations_syntax

section \<open>The bitmap\<close>

type_synonym ipv4LowBitmap = "nat \<Rightarrow> 32 word"

record localIPManager =
  ipv4Bitmap :: "nat \<Rightarrow> ipv4LowBitmap option"

definition newLocalIPManager :: localIPManager where
  "newLocalIPManager = \<lparr>ipv4Bitmap = (\<lambda>i. None)\<rparr>"

definition high :: "bytes \<Rightarrow> nat" where
  "high ip = unat (ip ! 0)"

definition low :: "bytes \<Rightarrow> 16 word" where
  "low ip = push_bit 8 (ucast (ip ! 1)) OR push_bit 4 (ucast (ip ! 2)) OR ucast (ip ! 3)"

definition set_bit_at :: "(nat \<Rightarrow> ipv4LowBitmap option) \<Rightarrow> bytes \<Rightarrow> (nat \<Rightarrow> ipv4LowBitmap option)" where
  "set_bit_at bitmap ip =
     (let page = (case bitmap (high ip) of Some p \<Rightarrow> p | None \<Rightarrow> (\<lambda>i. 0));
          index = unat (low ip) div 32;
          k = unat (low ip) mod 32
      in bitmap(high ip := Some (page(index := page index OR push_bit k 1))))"

definition setBitmapBit :: "localIPManager \<Rightarrow> IP \<Rightarrow> localIPManager" where
  "setBitmapBit m ip =
     (case To4 ip of None \<Rightarrow> m | Some w \<Rightarrow> m\<lparr>ipv4Bitmap := set_bit_at (ipv4Bitmap m) (be_bytes 4 w)\<rparr>)"

text \<open>The set \<open>ipv4Set\<close> always holds the elements of the list \<open>ipv4Addresses\<close>.\<close>

type_synonym collected = "(nat \<Rightarrow> ipv4LowBitmap option) \<times> Addr list"

definition setBitInBitmap :: "Addr \<Rightarrow> collected \<Rightarrow> collected" where
  "setBitInBitmap ip c =
     (case ip of
        Addr4 w \<Rightarrow>
          (set_bit_at (fst c) (be_bytes 4 w), if ip \<in> set (snd c) then snd c else snd c @ [ip])
      | _ \<Rightarrow> c)"

definition checkBitmapBit :: "localIPManager \<Rightarrow> bytes \<Rightarrow> bool" where
  "checkBitmapBit m ip =
     (case ipv4Bitmap m (high ip) of
        None \<Rightarrow> False
      | Some page \<Rightarrow> page (unat (low ip) div 32) AND push_bit (unat (low ip) mod 32) 1 \<noteq> 0)"

section \<open>Interfaces\<close>

datatype net_Addr = IPNetAddr IP | IPAddrAddr IP | OtherNetAddr

definition processIP :: "Addr \<Rightarrow> collected \<Rightarrow> collected" where
  "processIP ip c = setBitInBitmap ip c"

definition process_addr :: "collected \<Rightarrow> net_Addr \<Rightarrow> collected" where
  "process_addr c addr =
     (case addr of
        OtherNetAddr \<Rightarrow> c
      | IPNetAddr ip \<Rightarrow> if AddrFromSlice ip = NoAddr then c else processIP (addr_Unmap (AddrFromSlice ip)) c
      | IPAddrAddr ip \<Rightarrow> if AddrFromSlice ip = NoAddr then c else processIP (addr_Unmap (AddrFromSlice ip)) c)"

definition processInterface :: "collected \<Rightarrow> net_Addr list option \<Rightarrow> collected" where
  "processInterface c addrs = (case addrs of None \<Rightarrow> c | Some as \<Rightarrow> foldl process_addr c as)"

definition UpdateLocalIPs :: "Addr option \<Rightarrow> net_Addr list option list option \<Rightarrow> localIPManager \<Rightarrow> localIPManager" where
  "UpdateLocalIPs iface interfaces m =
     (let loopback = (\<lambda>i. None)(127 := Some (\<lambda>i. 0xFFFFFFFF));
          c0 = (case iface of None \<Rightarrow> (loopback, []) | Some ip \<Rightarrow> processIP ip (loopback, []));
          c1 = (case interfaces of None \<Rightarrow> c0 | Some is \<Rightarrow> foldl processInterface c0 is)
      in m\<lparr>ipv4Bitmap := fst c1\<rparr>)"

definition IsLocalIP :: "localIPManager \<Rightarrow> Addr \<Rightarrow> bool" where
  "IsLocalIP m ip = (case ip of Addr4 w \<Rightarrow> checkBitmapBit m (be_bytes 4 w) | _ \<Rightarrow> False)"

section \<open>Which addresses are local\<close>

text \<open>The IPv4 addresses of the interfaces, and the place of an address in the bitmap.\<close>

definition addr_v4 :: "Addr \<Rightarrow> 32 word set" where
  "addr_v4 a = (case a of Addr4 w \<Rightarrow> {w} | _ \<Rightarrow> {})"

definition net_v4 :: "net_Addr \<Rightarrow> 32 word set" where
  "net_v4 a = (case a of OtherNetAddr \<Rightarrow> {} | IPNetAddr ip \<Rightarrow> addr_v4 (addr_Unmap (AddrFromSlice ip))
     | IPAddrAddr ip \<Rightarrow> addr_v4 (addr_Unmap (AddrFromSlice ip)))"

definition interface_v4 :: "net_Addr list option \<Rightarrow> 32 word set" where
  "interface_v4 addrs = (case addrs of None \<Rightarrow> {} | Some l \<Rightarrow> \<Union>a \<in> set l. net_v4 a)"

definition local_v4 :: "Addr option \<Rightarrow> net_Addr list option list option \<Rightarrow> 32 word set" where
  "local_v4 iface interfaces =
     (case iface of None \<Rightarrow> {} | Some a \<Rightarrow> addr_v4 a) \<union>
     (case interfaces of None \<Rightarrow> {} | Some is \<Rightarrow> \<Union>addrs \<in> set is. interface_v4 addrs)"

definition place :: "32 word \<Rightarrow> nat \<times> 16 word" where
  "place w = (high (be_bytes 4 w), low (be_bytes 4 w))"

definition marked :: "(nat \<Rightarrow> ipv4LowBitmap option) \<Rightarrow> (nat \<times> 16 word) set" where
  "marked bitmap = {(h, l). case bitmap h of None \<Rightarrow> False | Some page \<Rightarrow> bit (page (unat l div 32)) (unat l mod 32)}"

lemma bit_test: "(w :: 32 word) AND 2 ^ k = 0 \<longleftrightarrow> \<not> bit w k"
  by (simp add: and_exp_eq_0_iff_not_bit)

lemma checkBitmapBit_marked: "checkBitmapBit m (be_bytes 4 w) \<longleftrightarrow> place w \<in> marked (ipv4Bitmap m)"
  by (simp add: checkBitmapBit_def bit_test marked_def place_def split: option.split)

lemma marked_set_bit: "marked (set_bit_at bitmap (be_bytes 4 w)) = insert (place w) (marked bitmap)"
proof -
  have inj: "l = k" if "unat l div 32 = unat k div 32" "unat l mod 32 = unat k mod 32" for l k :: "16 word"
    using that by (metis div_mult_mod_eq unsigned_word_eqI)
  have b: "bit (2 ^ (k mod 32) :: 32 word) (l mod 32) \<longleftrightarrow> l mod 32 = k mod 32" for k l :: nat
    by (auto simp: bit_simps)
  show ?thesis
    using inj [of _ "low (be_bytes 4 w)"]
    by (auto simp: marked_def set_bit_at_def place_def Let_def bit_or_iff b split: option.splits if_splits)
qed

lemma marked_processIP: "marked (fst (processIP a c)) = place ` addr_v4 a \<union> marked (fst c)"
  by (cases a) (auto simp: processIP_def setBitInBitmap_def addr_v4_def marked_set_bit)

lemma marked_process_addr: "marked (fst (process_addr c a)) = place ` net_v4 a \<union> marked (fst c)"
  by (cases a) (auto simp: process_addr_def net_v4_def marked_processIP addr_v4_def addr_Unmap_def)

lemma marked_addrs: "marked (fst (foldl process_addr c as)) = (\<Union>a \<in> set as. place ` net_v4 a) \<union> marked (fst c)"
  by (induction as arbitrary: c) (auto simp: marked_process_addr)

lemma marked_interface: "marked (fst (processInterface c addrs)) = place ` interface_v4 addrs \<union> marked (fst c)"
  by (cases addrs) (auto simp: processInterface_def marked_addrs interface_v4_def image_UN)

lemma marked_interfaces:
  "marked (fst (foldl processInterface c is)) = (\<Union>addrs \<in> set is. place ` interface_v4 addrs) \<union> marked (fst c)"
  by (induction "is" arbitrary: c) (auto simp: marked_interface)

lemma bit_ones: "k < 32 \<Longrightarrow> bit (0xFFFFFFFF :: 32 word) k"
proof -
  have "(0xFFFFFFFF :: 32 word) = - 1" by simp
  then show "k < 32 \<Longrightarrow> bit (0xFFFFFFFF :: 32 word) k" by (simp only: bit_minus_1_iff) simp
qed

lemma marked_loopback: "marked ((\<lambda>i. None)(127 := Some (\<lambda>i. 0xFFFFFFFF))) = {127} \<times> UNIV"
proof -
  have "bit (0xFFFFFFFF :: 32 word) (n mod 32)" for n :: nat by (rule bit_ones) simp
  then show ?thesis by (auto simp: marked_def split: if_splits)
qed

lemma marked_UpdateLocalIPs:
  "marked (ipv4Bitmap (UpdateLocalIPs iface interfaces m)) = {127} \<times> UNIV \<union> place ` local_v4 iface interfaces"
  by (cases iface; cases interfaces)
     (simp_all add: UpdateLocalIPs_def Let_def marked_processIP marked_interfaces marked_loopback local_v4_def image_UN
       image_Un Un_ac del: fun_upd_apply)

text \<open>
  Two addresses are alike if they have the same first byte and their other three bytes, laid on top of each other
  with the second shifted by two hexadecimal digits and the third by one, are the same: the digits are numbered from the right.
\<close>

definition nibble :: "nat \<Rightarrow> 32 word \<Rightarrow> 32 word" where
  "nibble k w = take_bit 4 (drop_bit (4 * k) w)"

definition alike :: "32 word \<Rightarrow> 32 word \<Rightarrow> bool" where
  "alike v w \<longleftrightarrow>
     drop_bit 24 v = drop_bit 24 w \<and> nibble 5 v = nibble 5 w \<and> (nibble 4 v OR nibble 3 v) = (nibble 4 w OR nibble 3 w) \<and>
     (nibble 2 v OR nibble 1 v) = (nibble 2 w OR nibble 1 w) \<and> nibble 0 v = nibble 0 w"

lemma bit_nibble: "bit (nibble k w) n \<longleftrightarrow> n < 4 \<and> bit w (4 * k + n)"
  by (simp add: nibble_def bit_take_bit_iff bit_drop_bit_eq comp_def)

lemma eq_nibbles:
  assumes "\<And>n. \<not> n < 4 \<Longrightarrow> \<not> bit v n \<and> \<not> bit w n"
  shows "v = w \<longleftrightarrow> (bit v 0 = bit w 0 \<and> bit v 1 = bit w 1 \<and> bit v 2 = bit w 2 \<and> bit v 3 = bit (w :: 32 word) 3)"
proof -
  have "v = w \<longleftrightarrow> (\<forall>n < 4. bit v n = bit w n)" using assms by (metis bit_eqI)
  moreover have "(\<forall>n < 4. P n) \<longleftrightarrow> P 0 \<and> P 1 \<and> P 2 \<and> P (3 :: nat)" for P
    by (simp add: numeral_eq_Suc All_less_Suc conj_ac)
  ultimately show ?thesis by simp
qed

lemma all_less_16: "(\<forall>n < 16. P n) \<longleftrightarrow> P 0 \<and> P 1 \<and> P 2 \<and> P 3 \<and> P 4 \<and> P 5 \<and> P 6 \<and> P 7 \<and> P 8 \<and> P 9 \<and> P 10 \<and>
    P 11 \<and> P 12 \<and> P 13 \<and> P 14 \<and> P (15 :: nat)"
  by (simp add: numeral_eq_Suc All_less_Suc conj_ac)

lemma low_alike: "low (be_bytes 4 v) = low (be_bytes 4 w) \<longleftrightarrow>
   nibble 5 v = nibble 5 w \<and> (nibble 4 v OR nibble 3 v) = (nibble 4 w OR nibble 3 w) \<and>
     (nibble 2 v OR nibble 1 v) = (nibble 2 w OR nibble 1 w) \<and> nibble 0 v = nibble 0 w"
proof -
  have "low (be_bytes 4 v) = low (be_bytes 4 w) \<longleftrightarrow> (\<forall>n < 16. bit (low (be_bytes 4 v)) n = bit (low (be_bytes 4 w)) n)"
    by (auto intro!: bit_word_eqI)
  then show ?thesis unfolding all_less_16
    by (simp add: eq_nibbles bit_nibble bit_or_iff low_def be_bytes_def upt_rec bit_push_bit_iff bit_ucast_iff bit_drop_bit_eq numeral_2_eq_2) argo
qed
lemma high_first_byte: "high (be_bytes 4 w) = unat (drop_bit 24 (w :: 32 word))"
proof -
  have "unat w < 2 ^ 32" using unsigned_less [of w] by simp
  then have "unat (drop_bit 24 w) < 256" unfolding unat_drop_bit_eq by (simp add: drop_bit_eq_div)
  then show ?thesis
    by (simp add: high_def be_bytes_def unsigned_ucast_eq take_bit_eq_mod upt_rec del: drop_bit_eq_div)
qed

lemma place_alike: "place v = place w \<longleftrightarrow> alike v w"
  unfolding place_def prod.inject high_first_byte low_alike alike_def by (simp add: word_unat_eq_iff)

lemma place_loopback: "place w \<in> {127} \<times> UNIV \<longleftrightarrow> drop_bit 24 w = 127"
  unfolding place_def mem_Times_iff fst_conv high_first_byte word_unat_eq_iff by simp

text \<open>
  C32. After \<open>UpdateLocalIPs\<close> an IPv4 address counts as local exactly when it is a loopback address or is alike to
  an IPv4 address of an interface: it has the same first byte, the same leading digit of the second byte and the same last digit, and the
  digits in between agree after the last digit of the second byte is joined with the first of the third, and the last of the third with the first of the fourth.
  Every address of an interface is therefore recognised, and addresses of another first byte never are, but foreign addresses can be,
  because the code shifts the third byte by four bits.
\<close>

theorem local_ips_recognised:
  "IsLocalIP (UpdateLocalIPs iface interfaces m) ip \<longleftrightarrow>
     (\<exists>w. ip = Addr4 w \<and> (drop_bit 24 w = 127 \<or> (\<exists>v \<in> local_v4 iface interfaces. alike v w)))"
proof -
  have "place w \<in> marked (ipv4Bitmap (UpdateLocalIPs iface interfaces m)) \<longleftrightarrow>
      drop_bit 24 w = 127 \<or> (\<exists>v \<in> local_v4 iface interfaces. alike v w)" for w
    unfolding marked_UpdateLocalIPs Un_iff place_loopback image_iff place_alike [symmetric] by metis
  then show ?thesis by (simp add: IsLocalIP_def checkBitmapBit_marked split: Addr.split)
qed

text \<open>The host 10.0.1.5 takes the packets for 10.0.0.21 as its own.\<close>

lemma foreign_ip_local:
  "IsLocalIP (UpdateLocalIPs (Some (Addr4 0x0A000105)) None newLocalIPManager) (Addr4 0x0A000015)"
  by code_simp

end
