(* ===== verification/PacketRewrite.thy ===== *)
theory PacketRewrite
  imports LocalIPs "HOL-Library.Monad_Syntax"
begin

text \<open>
  The rewriting of packets in the userspace packet filter: checksums, translation of addresses and
  ports (\<open>client/firewall/uspfilter/nat.go\<close>), and the clamping of the maximum segment size of TCP
  (\<open>clampTCPMSS\<close> in \<open>filter.go\<close>).

  A packet is its bytes; an access outside of them panics, which is the result \<^const>\<open>None\<close>. The decoder is
  the record of what \<open>gopacket\<close> found in the packet; the parser itself is a parameter of the filter.
\<close>

unbundle bit_operations_syntax

section \<open>The decoder\<close>

datatype LayerType =
    LayerTypeZero | LayerTypeIPv4 | LayerTypeIPv6 | LayerTypeTCP | LayerTypeUDP | LayerTypeICMPv4 | LayerTypeICMPv6
  | layerTypeAll | LayerTypeOther nat

text \<open>An option of a TCP header is its kind and its data.\<close>

record decoder =
  decoded :: "LayerType list"
  ip4_SrcIP :: bytes
  ip4_DstIP :: bytes
  ip4_IHL :: byte
  ip4_Flags :: byte
  ip4_FragOffset :: "16 word"
  ip4_Protocol :: byte
  ip6_SrcIP :: bytes
  ip6_DstIP :: bytes
  tcp_SrcPort :: "16 word"
  tcp_DstPort :: "16 word"
  tcp_SYN :: bool
  tcp_ACK :: bool
  tcp_FIN :: bool
  tcp_RST :: bool
  tcp_PSH :: bool
  tcp_URG :: bool
  tcp_Options :: "(byte \<times> bytes) list"
  udp_SrcPort :: "16 word"
  udp_DstPort :: "16 word"
  icmp4_Id :: "16 word"
  icmp4_TypeCode :: "byte \<times> byte"
  icmp4_Payload :: bytes
  dnatOrigPort :: "16 word"

section \<open>Checksums\<close>

definition u16 :: "bytes \<Rightarrow> nat \<Rightarrow> 16 word option" where
  "u16 p off = (if off + 2 \<le> length p then Some (be_word [p ! off, p ! (off + 1)]) else None)"

definition put16 :: "bytes \<Rightarrow> nat \<Rightarrow> 16 word \<Rightarrow> bytes option" where
  "put16 p off v =
     (if off + 2 \<le> length p then Some (p[off := ucast (drop_bit 8 v), off + 1 := ucast v]) else None)"

text \<open>The loop over pairs of bytes, with the odd byte at the end in the high half.\<close>

fun add_words :: "32 word \<Rightarrow> bytes \<Rightarrow> 32 word" where
  "add_words s (a # b # r) = add_words (s + ucast (be_word [a, b] :: 16 word)) r"
| "add_words s [a] = s + push_bit 8 (ucast a)"
| "add_words s [] = s"

definition carry_fold :: "32 word \<Rightarrow> 16 word" where
  "carry_fold s =
     (let t = (s AND 0xFFFF) + drop_bit 16 s;
          u = (if 0xFFFF < t then t + 1 else t)
      in NOT (ucast u))"

definition pair32 :: "bytes \<Rightarrow> nat \<Rightarrow> 32 word" where
  "pair32 p i = ucast (be_word [p ! i, p ! (i + 1)] :: 16 word)"

definition ipv4Checksum :: "bytes \<Rightarrow> 16 word" where
  "ipv4Checksum header =
     (if length header < 20 then 0
      else
        let sum1 = pair32 header 0 + pair32 header 4 + pair32 header 8 + pair32 header 14 + pair32 header 18;
            sum2 = pair32 header 2 + pair32 header 6 + pair32 header 12 + pair32 header 16
        in carry_fold (add_words (sum1 + sum2) (drop 20 header)))"

fun icmp_sums :: "32 word \<Rightarrow> 32 word \<Rightarrow> 32 word \<Rightarrow> 32 word \<Rightarrow> bytes \<Rightarrow> 32 word \<times> bytes" where
  "icmp_sums sum1 sum2 sum3 sum4 data =
     (if 16 \<le> length data
      then icmp_sums (sum1 + pair32 data 0 + pair32 data 8) (sum2 + pair32 data 2 + pair32 data 10)
             (sum3 + pair32 data 4 + pair32 data 12) (sum4 + pair32 data 6 + pair32 data 14) (drop 16 data)
      else (sum1 + sum2 + sum3 + sum4, data))"

declare icmp_sums.simps [simp del]

definition icmpChecksum :: "bytes \<Rightarrow> 16 word" where
  "icmpChecksum data = (case icmp_sums 0 0 0 0 data of (s, rest) \<Rightarrow> carry_fold (add_words s rest))"

text \<open>The same loop over the complements of the words.\<close>

fun add_complements :: "32 word \<Rightarrow> bytes \<Rightarrow> 32 word" where
  "add_complements s (a # b # r) = add_complements (s + ucast (NOT (be_word [a, b] :: 16 word))) r"
| "add_complements s [a] = s + push_bit 8 (ucast (NOT a))"
| "add_complements s [] = s"

definition incrementalUpdate :: "16 word \<Rightarrow> bytes \<Rightarrow> bytes \<Rightarrow> 16 word" where
  "incrementalUpdate oldChecksum oldBytes newBytes =
     (let s = ucast (NOT oldChecksum) :: 32 word in
      carry_fold
        (if length oldBytes = 4 \<and> length newBytes = 4
         then s + ucast (NOT (be_word [oldBytes ! 0, oldBytes ! 1] :: 16 word))
                + ucast (NOT (be_word [oldBytes ! 2, oldBytes ! 3] :: 16 word))
                + pair32 newBytes 0 + pair32 newBytes 2
         else add_words (add_complements s oldBytes) newBytes))"

section \<open>Translation of addresses\<close>

record biDNATMap =
  forward :: "Addr \<rightharpoonup> Addr"
  reverse :: "Addr \<rightharpoonup> Addr"

definition newBiDNATMap :: biDNATMap where
  "newBiDNATMap = \<lparr>forward = Map.empty, reverse = Map.empty\<rparr>"

definition biDNATMap_set :: "biDNATMap \<Rightarrow> Addr \<Rightarrow> Addr \<Rightarrow> biDNATMap" where
  "biDNATMap_set b original translated =
     \<lparr>forward = (forward b)(original \<mapsto> translated), reverse = (reverse b)(translated \<mapsto> original)\<rparr>"

definition biDNATMap_delete :: "biDNATMap \<Rightarrow> Addr \<Rightarrow> biDNATMap" where
  "biDNATMap_delete b original =
     (case forward b original of
        Some translated \<Rightarrow> \<lparr>forward = (forward b)(original := None), reverse = (reverse b)(translated := None)\<rparr>
      | None \<Rightarrow> b)"

record portDNATRule =
  pd_protocol :: LayerType
  pd_origPort :: "16 word"
  pd_targetPort :: "16 word"
  pd_targetIP :: Addr

text \<open>The fields of the manager that the translation uses; \<open>dnatBiMap\<close> is nil until the first mapping.\<close>

record nat_state =
  dnatEnabled :: bool
  dnatMappings :: "Addr \<rightharpoonup> Addr"
  dnatBiMap :: "biDNATMap option"
  portDNATEnabled :: bool
  portDNATRules :: "portDNATRule list"
  localipmanager :: localIPManager

datatype nat_error =
    InvalidOriginalIP | InvalidTranslatedIP | MapToLocalIP Addr | MappingNotFound Addr | IPv4Only
  | InvalidIPHeaderLength | PacketTooShort | UnsupportedProtocol

definition AddInternalDNATMapping :: "'a nat_state_scheme \<Rightarrow> Addr \<Rightarrow> Addr \<Rightarrow> 'a nat_state_scheme \<times> nat_error option" where
  "AddInternalDNATMapping m originalAddr translatedAddr =
     (if originalAddr = NoAddr then (m, Some InvalidOriginalIP)
      else if translatedAddr = NoAddr then (m, Some InvalidTranslatedIP)
      else if IsLocalIP (localipmanager m) translatedAddr then (m, Some (MapToLocalIP translatedAddr))
      else
        let (mappings, bi) = (case dnatBiMap m of
                None \<Rightarrow> (Map.empty, newBiDNATMap)
              | Some b \<Rightarrow> (dnatMappings m, b));
            mappings' = mappings(originalAddr \<mapsto> translatedAddr)
        in (m\<lparr>dnatMappings := mappings',
              dnatBiMap := Some (biDNATMap_set bi originalAddr translatedAddr),
              dnatEnabled := dnatEnabled m \<or> dom mappings' = {originalAddr}\<rparr>, None))"

definition RemoveInternalDNATMapping :: "'a nat_state_scheme \<Rightarrow> Addr \<Rightarrow> 'a nat_state_scheme \<times> nat_error option" where
  "RemoveInternalDNATMapping m originalAddr =
     (if dnatMappings m originalAddr = None then (m, Some (MappingNotFound originalAddr))
      else
        let mappings' = (dnatMappings m)(originalAddr := None)
        in (m\<lparr>dnatMappings := mappings',
              dnatBiMap := map_option (\<lambda>b. biDNATMap_delete b originalAddr) (dnatBiMap m),
              dnatEnabled := dnatEnabled m \<and> dom mappings' \<noteq> {}\<rparr>, None))"

definition getDNATTranslation :: "'a nat_state_scheme \<Rightarrow> Addr \<Rightarrow> Addr option" where
  "getDNATTranslation m addr = (if \<not> dnatEnabled m then None else Option.bind (dnatBiMap m) (\<lambda>b. forward b addr))"

definition findReverseDNATMapping :: "'a nat_state_scheme \<Rightarrow> Addr \<Rightarrow> Addr option" where
  "findReverseDNATMapping m translatedAddr =
     (if \<not> dnatEnabled m then None else Option.bind (dnatBiMap m) (\<lambda>b. reverse b translatedAddr))"

definition updateTCPChecksum :: "bytes \<Rightarrow> nat \<Rightarrow> bytes \<Rightarrow> bytes \<Rightarrow> bytes option" where
  "updateTCPChecksum p ipHeaderLen oldIP newIP =
     (if length p < ipHeaderLen + 18 then Some p
      else do {
        oldChecksum \<leftarrow> u16 p (ipHeaderLen + 16);
        put16 p (ipHeaderLen + 16) (incrementalUpdate oldChecksum oldIP newIP)
      })"

definition updateUDPChecksum :: "bytes \<Rightarrow> nat \<Rightarrow> bytes \<Rightarrow> bytes \<Rightarrow> bytes option" where
  "updateUDPChecksum p ipHeaderLen oldIP newIP =
     (if length p < ipHeaderLen + 8 then Some p
      else do {
        oldChecksum \<leftarrow> u16 p (ipHeaderLen + 6);
        if oldChecksum = 0 then Some p
        else put16 p (ipHeaderLen + 6) (incrementalUpdate oldChecksum oldIP newIP)
      })"

definition updateICMPChecksum :: "bytes \<Rightarrow> nat \<Rightarrow> bytes option" where
  "updateICMPChecksum p ipHeaderLen =
     (if length p < ipHeaderLen + 8 then Some p
      else do {
        p1 \<leftarrow> put16 p (ipHeaderLen + 2) 0;
        put16 p1 (ipHeaderLen + 2) (icmpChecksum (drop ipHeaderLen p1))
      })"

definition rewritePacketIP :: "bytes \<Rightarrow> decoder \<Rightarrow> Addr \<Rightarrow> nat \<Rightarrow> (bytes \<times> nat_error option) option" where
  "rewritePacketIP p d newIP ipOffset =
     (case newIP of
        Addr4 w \<Rightarrow>
          if length p < ipOffset + 4 then None
          else
            let oldIP = take 4 (drop ipOffset p);
                newIPBytes = be_bytes 4 w;
                p1 = take ipOffset p @ newIPBytes @ drop (ipOffset + 4) p;
                ipHeaderLen = unat (ip4_IHL d) * 4
            in if ipHeaderLen < 20 \<or> length p1 < ipHeaderLen then Some (p1, Some InvalidIPHeaderLength)
               else do {
                 p2 \<leftarrow> put16 p1 10 0;
                 p3 \<leftarrow> put16 p2 10 (ipv4Checksum (take ipHeaderLen p2));
                 p4 \<leftarrow> (if 1 < length (decoded d)
                       then (case decoded d ! 1 of
                               LayerTypeTCP \<Rightarrow> updateTCPChecksum p3 ipHeaderLen oldIP newIPBytes
                             | LayerTypeUDP \<Rightarrow> updateUDPChecksum p3 ipHeaderLen oldIP newIPBytes
                             | LayerTypeICMPv4 \<Rightarrow> updateICMPChecksum p3 ipHeaderLen
                             | _ \<Rightarrow> Some p3)
                       else Some p3);
                 Some (p4, None)
               }
      | _ \<Rightarrow> Some (p, Some IPv4Only))"

definition addr_at :: "bytes \<Rightarrow> nat \<Rightarrow> Addr option" where
  "addr_at p off = (if off + 4 \<le> length p then Some (Addr4 (be_word (take 4 (drop off p)))) else None)"

text \<open>Both translations return the packet and whether it was translated.\<close>

definition translateOutboundDNAT :: "'a nat_state_scheme \<Rightarrow> bytes \<Rightarrow> decoder \<Rightarrow> (bytes \<times> bool) option" where
  "translateOutboundDNAT m p d =
     (if \<not> dnatEnabled m then Some (p, False)
      else do {
        dstIP \<leftarrow> addr_at p 16;
        case getDNATTranslation m dstIP of
          None \<Rightarrow> Some (p, False)
        | Some translatedIP \<Rightarrow> do {
            (p', err) \<leftarrow> rewritePacketIP p d translatedIP 16;
            Some (p', err = None)
          }
      })"

definition translateInboundReverse :: "'a nat_state_scheme \<Rightarrow> bytes \<Rightarrow> decoder \<Rightarrow> (bytes \<times> bool) option" where
  "translateInboundReverse m p d =
     (if \<not> dnatEnabled m then Some (p, False)
      else do {
        srcIP \<leftarrow> addr_at p 12;
        case findReverseDNATMapping m srcIP of
          None \<Rightarrow> Some (p, False)
        | Some originalIP \<Rightarrow> do {
            (p', err) \<leftarrow> rewritePacketIP p d originalIP 12;
            Some (p', err = None)
          }
      })"

section \<open>Translation of ports\<close>

type_synonym Protocol = string

abbreviation (input) "ProtocolTCP \<equiv> ''tcp''"
abbreviation (input) "ProtocolUDP \<equiv> ''udp''"
abbreviation (input) "ProtocolICMP \<equiv> ''icmp''"
abbreviation (input) "ProtocolALL \<equiv> ''all''"

definition addPortRedirection :: "'a nat_state_scheme \<Rightarrow> Addr \<Rightarrow> LayerType \<Rightarrow> 16 word \<Rightarrow> 16 word \<Rightarrow> 'a nat_state_scheme" where
  "addPortRedirection m targetIP protocol sourcePort targetPort =
     m\<lparr>portDNATRules := portDNATRules m @
         [\<lparr>pd_protocol = protocol, pd_origPort = sourcePort, pd_targetPort = targetPort, pd_targetIP = targetIP\<rparr>],
       portDNATEnabled := True\<rparr>"

definition AddInboundDNAT ::
    "'a nat_state_scheme \<Rightarrow> Addr \<Rightarrow> Protocol \<Rightarrow> 16 word \<Rightarrow> 16 word \<Rightarrow> 'a nat_state_scheme \<times> nat_error option" where
  "AddInboundDNAT m localAddr protocol sourcePort targetPort =
     (if protocol = ProtocolTCP then (addPortRedirection m localAddr LayerTypeTCP sourcePort targetPort, None)
      else if protocol = ProtocolUDP then (addPortRedirection m localAddr LayerTypeUDP sourcePort targetPort, None)
      else (m, Some UnsupportedProtocol))"

definition removePortRedirection :: "'a nat_state_scheme \<Rightarrow> Addr \<Rightarrow> LayerType \<Rightarrow> 16 word \<Rightarrow> 16 word \<Rightarrow> 'a nat_state_scheme" where
  "removePortRedirection m targetIP protocol sourcePort targetPort =
     (let rules = filter (\<lambda>r. \<not> (pd_protocol r = protocol \<and> pd_origPort r = sourcePort \<and>
            pd_targetPort r = targetPort \<and> pd_targetIP r = targetIP)) (portDNATRules m)
      in m\<lparr>portDNATRules := rules, portDNATEnabled := portDNATEnabled m \<and> rules \<noteq> []\<rparr>)"

definition RemoveInboundDNAT ::
    "'a nat_state_scheme \<Rightarrow> Addr \<Rightarrow> Protocol \<Rightarrow> 16 word \<Rightarrow> 16 word \<Rightarrow> 'a nat_state_scheme \<times> nat_error option" where
  "RemoveInboundDNAT m localAddr protocol sourcePort targetPort =
     (if protocol = ProtocolTCP then (removePortRedirection m localAddr LayerTypeTCP sourcePort targetPort, None)
      else if protocol = ProtocolUDP then (removePortRedirection m localAddr LayerTypeUDP sourcePort targetPort, None)
      else (m, Some UnsupportedProtocol))"

definition rewriteTCPPort :: "bytes \<Rightarrow> decoder \<Rightarrow> 16 word \<Rightarrow> nat \<Rightarrow> (bytes \<times> nat_error option) option" where
  "rewriteTCPPort p d newPort portOffset =
     (let ipHeaderLen = unat (ip4_IHL d) * 4 in
      if ipHeaderLen < 20 \<or> length p < ipHeaderLen then Some (p, Some InvalidIPHeaderLength)
      else if length p < ipHeaderLen + 4 then Some (p, Some PacketTooShort)
      else do {
        oldPort \<leftarrow> u16 p (ipHeaderLen + portOffset);
        p1 \<leftarrow> put16 p (ipHeaderLen + portOffset) newPort;
        if length p1 < ipHeaderLen + 18 then Some (p1, None)
        else do {
          oldChecksum \<leftarrow> u16 p1 (ipHeaderLen + 16);
          p2 \<leftarrow> put16 p1 (ipHeaderLen + 16) (incrementalUpdate oldChecksum (be_bytes 2 oldPort) (be_bytes 2 newPort));
          Some (p2, None)
        }
      })"

definition rewriteUDPPort :: "bytes \<Rightarrow> decoder \<Rightarrow> 16 word \<Rightarrow> nat \<Rightarrow> (bytes \<times> nat_error option) option" where
  "rewriteUDPPort p d newPort portOffset =
     (let ipHeaderLen = unat (ip4_IHL d) * 4 in
      if ipHeaderLen < 20 \<or> length p < ipHeaderLen then Some (p, Some InvalidIPHeaderLength)
      else if length p < ipHeaderLen + 8 then Some (p, Some PacketTooShort)
      else do {
        oldPort \<leftarrow> u16 p (ipHeaderLen + portOffset);
        p1 \<leftarrow> put16 p (ipHeaderLen + portOffset) newPort;
        if length p1 < ipHeaderLen + 8 then Some (p1, None)
        else do {
          oldChecksum \<leftarrow> u16 p1 (ipHeaderLen + 6);
          if oldChecksum = 0 then Some (p1, None)
          else do {
            p2 \<leftarrow> put16 p1 (ipHeaderLen + 6) (incrementalUpdate oldChecksum (be_bytes 2 oldPort) (be_bytes 2 newPort));
            Some (p2, None)
          }
        }
      })"

text \<open>The packet and the decoder after the loop over the rules, and whether a rule applied.\<close>

fun applyPortRule ::
    "portDNATRule list \<Rightarrow> bytes \<Rightarrow> decoder \<Rightarrow> Addr \<Rightarrow> Addr \<Rightarrow> 16 word \<Rightarrow> LayerType
      \<Rightarrow> (bytes \<Rightarrow> decoder \<Rightarrow> 16 word \<Rightarrow> nat \<Rightarrow> (bytes \<times> nat_error option) option) \<Rightarrow> (bytes \<times> decoder \<times> bool) option" where
  "applyPortRule [] p d srcIP dstIP port protocol rewriteFn = Some (p, d, False)"
| "applyPortRule (rule # rules) p d srcIP dstIP port protocol rewriteFn =
     (if pd_protocol rule \<noteq> protocol \<or> pd_targetIP rule \<noteq> dstIP
      then applyPortRule rules p d srcIP dstIP port protocol rewriteFn
      else if pd_targetPort rule = port \<and> pd_targetIP rule = srcIP then Some (p, d, False)
      else if pd_origPort rule \<noteq> port then applyPortRule rules p d srcIP dstIP port protocol rewriteFn
      else do {
        (p', err) \<leftarrow> rewriteFn p d (pd_targetPort rule) 2;
        if err \<noteq> None then Some (p', d, False)
        else Some (p', d\<lparr>dnatOrigPort := pd_origPort rule\<rparr>, True)
      })"

definition transport :: "decoder \<Rightarrow> LayerType option" where
  "transport d = (if 1 < length (decoded d) then Some (decoded d ! 1) else None)"

definition translateInboundPortDNAT ::
    "'a nat_state_scheme \<Rightarrow> bytes \<Rightarrow> decoder \<Rightarrow> Addr \<Rightarrow> Addr \<Rightarrow> (bytes \<times> decoder \<times> bool) option" where
  "translateInboundPortDNAT m p d srcIP dstIP =
     (if \<not> portDNATEnabled m then Some (p, d, False)
      else do {
        layer \<leftarrow> transport d;
        case layer of
          LayerTypeTCP \<Rightarrow> applyPortRule (portDNATRules m) p d srcIP dstIP (tcp_DstPort d) LayerTypeTCP rewriteTCPPort
        | LayerTypeUDP \<Rightarrow> applyPortRule (portDNATRules m) p d NoAddr dstIP (udp_DstPort d) LayerTypeUDP rewriteUDPPort
        | _ \<Rightarrow> Some (p, d, False)
      })"

section \<open>Clamping of the maximum segment size\<close>

abbreviation (input) "TCPOptionKindEndList \<equiv> (0 :: byte)"
abbreviation (input) "TCPOptionKindNop \<equiv> (1 :: byte)"
abbreviation (input) "TCPOptionKindMSS \<equiv> (2 :: byte)"

lemma unat_low16: "unat ((s :: 32 word) AND 0xFFFF) = unat s mod 65536"
proof -
  have "(0xFFFF :: 32 word) = mask 16" by (simp add: mask_eq_exp_minus_1)
  then have "s AND 0xFFFF = take_bit 16 s" by (simp only: take_bit_eq_mask)
  then show ?thesis by (simp only: unsigned_take_bit_eq) (simp add: take_bit_eq_mod)
qed

lemma unat_high16: "unat (drop_bit 16 (s :: 32 word)) = unat s div 65536"
  unfolding unat_drop_bit_eq by (simp add: drop_bit_eq_div)

lemma unat_less32: "unat (s :: 32 word) < 4294967296"
  using unsigned_less [of s] by simp

lemma unat_half_sum: "unat ((s AND 0xFFFF) + drop_bit 16 s :: 32 word) = unat s mod 65536 + unat s div 65536"
proof -
  have "unat s div 65536 < 65536" using unat_less32 [of s] by (simp add: div_less_iff_less_mult)
  moreover have "unat s mod 65536 < 65536" by simp
  ultimately show ?thesis by (subst unat_add_lem [THEN iffD1]) (simp_all add: unat_low16 unat_high16 del: drop_bit_eq_div)
qed

function fold_loop :: "32 word \<Rightarrow> 32 word" where
  "fold_loop s = (if 0xFFFF < s then fold_loop ((s AND 0xFFFF) + drop_bit 16 s) else s)"
  by pat_completeness auto

termination
proof (relation "measure unat")
  fix s :: "32 word"
  assume "0xFFFF < s"
  then have "65535 < unat s" by (simp add: word_less_nat_alt)
  then have "0 < unat s div 65536" by (simp add: div_greater_zero_iff)
  then have "unat s mod 65536 + unat s div 65536 < unat s"
    using div_mult_mod_eq [of "unat s" 65536] by linarith
  then show "((s AND 0xFFFF) + drop_bit 16 s, s) \<in> measure unat" by (simp add: unat_half_sum del: drop_bit_eq_div)
qed simp

declare fold_loop.simps [simp del]

definition recalculateTCPChecksum :: "bytes \<Rightarrow> decoder \<Rightarrow> nat \<Rightarrow> bytes option" where
  "recalculateTCPChecksum p d tcpHeaderStart =
     (if length p < tcpHeaderStart + 18 \<or> length (ip4_SrcIP d) < 4 \<or> length (ip4_DstIP d) < 4 then None
      else do {
        p1 \<leftarrow> put16 p (tcpHeaderStart + 16) 0;
        let pseudoSum = pair32 (ip4_SrcIP d) 0 + pair32 (ip4_SrcIP d) 2 + pair32 (ip4_DstIP d) 0 + pair32 (ip4_DstIP d) 2 +
              ucast (ip4_Protocol d) + word_of_nat (length p - tcpHeaderStart);
            s = fold_loop (add_words pseudoSum (drop tcpHeaderStart p1))
        in put16 p1 (tcpHeaderStart + 16) (NOT (ucast s))
      })"

definition option_size :: "byte \<times> bytes \<Rightarrow> nat" where
  "option_size opt =
     (if fst opt = TCPOptionKindEndList \<or> fst opt = TCPOptionKindNop then 1 else 2 + length (snd opt))"

definition updateMSSOption :: "16 word \<Rightarrow> bytes \<Rightarrow> decoder \<Rightarrow> nat \<Rightarrow> nat \<Rightarrow> bytes option" where
  "updateMSSOption mssClampValue p d mssOptionIndex ipHeaderSize =
     (let optOffset = ipHeaderSize + 20 + sum_list (map option_size (take mssOptionIndex (tcp_Options d))) in
      do {
        p1 \<leftarrow> put16 p (optOffset + 2) mssClampValue;
        recalculateTCPChecksum p1 d ipHeaderSize
      })"

text \<open>The index of the option the loop of \<open>clampTCPMSS\<close> stops at.\<close>

definition mss_index :: "16 word \<Rightarrow> (byte \<times> bytes) list \<Rightarrow> nat option" where
  "mss_index clamp opts =
     find (\<lambda>i. fst (opts ! i) = TCPOptionKindMSS \<and> length (snd (opts ! i)) = 2 \<and> clamp < be_word (snd (opts ! i)))
       [0..<length opts]"

definition clampTCPMSS :: "16 word \<Rightarrow> bytes \<Rightarrow> decoder \<Rightarrow> (bytes \<times> bool) option" where
  "clampTCPMSS mssClampValue p d =
     (if \<not> tcp_SYN d then Some (p, False)
      else case mss_index mssClampValue (tcp_Options d) of
        None \<Rightarrow> Some (p, False)
      | Some i \<Rightarrow>
          let ipHeaderSize = unat (ip4_IHL d) * 4 in
          if ipHeaderSize < 20 then Some (p, False)
          else map_option (\<lambda>p'. (p', True)) (updateMSSOption mssClampValue p d i ipHeaderSize))"

section \<open>Sums of words\<close>

text \<open>
  The number the checksum of the Internet protocols is about: the sum of the 16-bit words, an odd byte
  counting as the high half of one. Data with a checksum verify when the sum is a multiple of \<open>2\<^sup>1\<^sup>6 - 1\<close>.
\<close>

fun wsum :: "bytes \<Rightarrow> nat" where
  "wsum (a # b # r) = 256 * unat a + unat b + wsum r"
| "wsum [a] = 256 * unat a"
| "wsum [] = 0"

lemma unat_byte: "unat (a :: byte) < 256"
  using unsigned_less [of a] by simp

lemma unat_half: "unat (v :: 16 word) < 65536"
  using unsigned_less [of v] by simp

lemma unat_be2: "unat (be_word [a, b] :: 16 word) = 256 * unat a + unat b"
proof -
  have dis: "push_bit 8 (ucast a) OR ucast b = (push_bit 8 (ucast a) + ucast b :: 16 word)"
    by (rule disjunctive_add [symmetric]) (auto simp: bit_simps dest: bit_imp_le_length)
  have "unat (push_bit 8 (ucast a) :: 16 word) = 256 * unat a"
    using unat_byte [of a] by (simp add: push_bit_eq_mult unat_word_ariths(2) unsigned_ucast_eq take_bit_eq_mod)
  moreover have "unat (ucast b :: 16 word) = unat b"
    using unat_byte [of b] by (simp add: unsigned_ucast_eq take_bit_eq_mod)
  ultimately show ?thesis
    using unat_byte [of a] unat_byte [of b] by (simp add: be_word_def dis unat_word_ariths(1))
qed

lemma ucast_half: "(ucast (v :: 16 word) :: 32 word) = word_of_nat (unat v)"
  by simp

lemma pair32_wsum: "pair32 p i = word_of_nat (wsum [p ! i, p ! (i + 1)])"
  unfolding pair32_def ucast_half unat_be2 by simp

lemma add_words_wsum: "add_words (word_of_nat n) bs = word_of_nat (n + wsum bs)"
proof (induction bs arbitrary: n rule: wsum.induct)
  case (1 a b r)
  have "word_of_nat n + ucast (be_word [a, b] :: 16 word) = (word_of_nat (n + (256 * unat a + unat b)) :: 32 word)"
    unfolding ucast_half unat_be2 by simp
  then show ?case using 1 [of "n + (256 * unat a + unat b)"] by (simp only: add_words.simps wsum.simps ac_simps)
next
  case (2 a)
  then show ?case by (simp add: push_bit_eq_mult)
qed simp

lemma unat_NOT16: "unat (NOT (v :: 16 word)) = 65535 - unat v"
proof -
  have "NOT v = - 1 - v" by (simp add: not_eq_complement)
  moreover have "unat (- 1 - v) = unat (- 1 :: 16 word) - unat v" by (rule unat_sub) (rule word_n1_ge)
  moreover have "unat (- 1 :: 16 word) = 65535" by (simp add: unsigned_minus_1_eq_mask mask_eq_exp_minus_1)
  ultimately show ?thesis by simp
qed

lemma carry_fold_parts:
  assumes "unat s = 65536 * q + r" and "q \<le> 65535" and "r \<le> 65535"
  shows "65535 dvd (unat (carry_fold s) + unat s)"
proof -
  let ?u = "(s AND 0xFFFF) + drop_bit 16 s"
  have "unat s mod 65536 = r" "unat s div 65536 = q" using assms by simp_all
  then have t: "unat ?u = r + q" by (simp only: unat_half_sum)
  show ?thesis
  proof (cases "65535 < r + q")
    case True
    have "unat (?u + 1) = r + q + 1"
      using assms(2,3) t by (subst unat_add_lem [THEN iffD1]) simp_all
    moreover have "0xFFFF < ?u" using True t by (simp add: word_less_nat_alt)
    ultimately have "unat (carry_fold s) = 65535 - (r + q + 1) mod 65536"
      by (simp add: carry_fold_def Let_def unat_NOT16 unsigned_ucast_eq take_bit_eq_mod del: drop_bit_eq_div)
    moreover have "(r + q + 1) mod 65536 = r + q - 65535" using True assms(2,3) by (simp add: mod_if)
    ultimately have "unat (carry_fold s) + unat s = 65535 * 2 + 65535 * q"
      using True assms by linarith
    then show ?thesis by (simp only: dvd_triv_left dvd_add)
  next
    case False
    then have "\<not> 0xFFFF < ?u" using t by (simp add: word_less_nat_alt)
    then have "unat (carry_fold s) = 65535 - (r + q)"
      using False t by (simp add: carry_fold_def Let_def unat_NOT16 unsigned_ucast_eq take_bit_eq_mod del: drop_bit_eq_div)
    then have "unat (carry_fold s) + unat s = 65535 * 1 + 65535 * q"
      using False assms(1) by linarith
    then show ?thesis by (simp only: dvd_triv_left dvd_add)
  qed
qed

lemma carry_fold_dvd: "65535 dvd (unat (carry_fold s) + unat s)"
proof (rule carry_fold_parts)
  show "unat s = 65536 * (unat s div 65536) + unat s mod 65536" by simp
  show "unat s div 65536 \<le> 65535" using unat_less32 [of s] by (simp add: less_Suc_eq_le [symmetric] div_less_iff_less_mult)
  show "unat s mod 65536 \<le> 65535" by (simp add: less_Suc_eq_le [symmetric])
qed

lemma carry_fold_wsum: "n < 2 ^ 32 \<Longrightarrow> 65535 dvd (unat (carry_fold (word_of_nat n)) + n)"
  using carry_fold_dvd [of "word_of_nat n"] by (simp add: unsigned_of_nat take_bit_eq_mod)

lemma wsum_append: "even (length xs) \<Longrightarrow> wsum (xs @ ys) = wsum xs + wsum ys"
  by (induction xs rule: wsum.induct) simp_all

lemma wsum_le: "wsum bs \<le> 65535 * length bs"
proof (induction bs rule: wsum.induct)
  case (1 a b r)
  then show ?case using unat_byte [of a] unat_byte [of b] by simp
next
  case (2 a)
  then show ?case using unat_byte [of a] by simp
qed simp

lemma wsum_split: "even k \<Longrightarrow> k \<le> length bs \<Longrightarrow> wsum bs = wsum (take k bs) + wsum (drop k bs)"
  using wsum_append [of "take k bs" "drop k bs"] by (simp add: min_def)

lemma wsum_be_bytes2: "wsum (be_bytes 2 v) = unat (v :: 16 word)"
proof -
  have b: "be_bytes 2 v = [ucast (drop_bit 8 v), ucast v]" by (simp add: be_bytes_def upt_rec)
  have "unat (ucast (drop_bit 8 v) :: byte) = unat v div 256"
    using unat_half [of v]
    by (simp add: unsigned_ucast_eq unat_drop_bit_eq take_bit_eq_mod del: drop_bit_eq_div)
       (simp add: drop_bit_eq_div div_less_iff_less_mult)
  moreover have "unat (ucast v :: byte) = unat v mod 256" by (simp add: unsigned_ucast_eq take_bit_eq_mod)
  ultimately show ?thesis by (simp add: b del: drop_bit_eq_div)
qed

lemma put16_eq: "off + 2 \<le> length p \<Longrightarrow> put16 p off v = Some (take off p @ be_bytes 2 v @ drop (off + 2) p)"
proof -
  assume off: "off + 2 \<le> length p"
  have b: "be_bytes 2 v = [ucast (drop_bit 8 v), ucast v]" by (simp add: be_bytes_def upt_rec)
  have d: "drop off p = p ! off # p ! (off + 1) # drop (off + 2) p"
    using off by (simp add: Cons_nth_drop_Suc)
  have "p[off := x, off + 1 := y] = take off p @ x # y # drop (off + 2) p" for x y
    using off by (subst append_take_drop_id [of off p, symmetric], subst d) (simp add: list_update_append min_def)
  then show ?thesis using off by (simp add: put16_def b)
qed

lemma put16_Some: "put16 p off v = Some p' \<Longrightarrow> off + 2 \<le> length p \<and> p' = take off p @ be_bytes 2 v @ drop (off + 2) p"
  using put16_eq [of off p v] by (auto simp: put16_def split: if_splits)

lemma length_addr_bytes [simp]: "length (be_bytes n w) = n"
  by (simp add: be_bytes_def)

lemma u16_wsum: "u16 p off = Some c \<Longrightarrow> off + 2 \<le> length p \<and> unat c = wsum (take 2 (drop off p))"
proof -
  assume c: "u16 p off = Some c"
  then have off: "off + 2 \<le> length p" and "c = be_word [p ! off, p ! (off + 1)]" by (auto simp: u16_def split: if_splits)
  moreover have "drop off p = p ! off # p ! (off + 1) # drop (off + 2) p"
    using off by (simp add: Cons_nth_drop_Suc)
  ultimately show ?thesis by (simp add: unat_be2)
qed

text \<open>What replacing two bytes at an even place does to the sum.\<close>

lemma wsum_put16:
  assumes "u16 p off = Some c" and "put16 p off v = Some p'" and "even off"
  shows "int (wsum p') = int (wsum p) - int (unat c) + int (unat v)"
proof -
  have off: "off + 2 \<le> length p" and p': "p' = take off p @ be_bytes 2 v @ drop (off + 2) p"
    using put16_Some [OF assms(2)] by auto
  have "wsum p = wsum (take off p) + (wsum (take 2 (drop off p)) + wsum (drop (off + 2) p))"
    using off assms(3) wsum_split [of off p] wsum_split [of 2 "drop off p"] by (simp add: add.commute)
  moreover have "wsum p' = wsum (take off p) + (unat v + wsum (drop (off + 2) p))"
    using off assms(3) by (simp add: p' wsum_append wsum_be_bytes2 min_def)
  ultimately show ?thesis using u16_wsum [OF assms(1)] by simp
qed

lemma incremental_dvd:
  assumes "length old = 2 \<and> length new = 2 \<or> length old = 4 \<and> length new = 4"
  shows "65535 dvd (int (unat (incrementalUpdate c old new)) - int (unat c) - int (wsum old) + int (wsum new))"
  using assms
proof
  assume l: "length old = 2 \<and> length new = 2"
  then obtain a b x y where o: "old = [a, b]" and n: "new = [x, y]" by (auto simp: length_Suc_conv numeral_2_eq_2)
  let ?s = "(65535 - unat c) + (65535 - (256 * unat a + unat b)) + (256 * unat x + unat y)"
  have "incrementalUpdate c old new = carry_fold (word_of_nat ?s)"
    by (simp add: incrementalUpdate_def o n ucast_half unat_NOT16 unat_be2 del: of_nat_unat of_nat_diff)
  moreover have le: "256 * unat a + unat b \<le> 65535" "256 * unat x + unat y \<le> 65535" "unat c \<le> 65535"
    using unat_byte [of a] unat_byte [of b] unat_byte [of x] unat_byte [of y] unat_half [of c] by simp_all
  ultimately have "65535 dvd (unat (incrementalUpdate c old new) + ?s)" using carry_fold_wsum [of ?s] by simp
  then have "int 65535 dvd int (unat (incrementalUpdate c old new) + ?s)" by (simp only: int_dvd_int_iff)
  also have "int (unat (incrementalUpdate c old new) + ?s) =
      int (unat (incrementalUpdate c old new)) - int (unat c) - int (wsum old) + int (wsum new) + int 65535 * 2"
    using le by (simp add: o n of_nat_diff)
  finally have "65535 dvd (int (unat (incrementalUpdate c old new)) - int (unat c) - int (wsum old) + int (wsum new) + 65535 * 2)"
    by simp
  then show ?thesis by (simp only: dvd_add_left_iff dvd_triv_left)
next
  assume l: "length old = 4 \<and> length new = 4"
  then obtain a b a' b' x y x' y' where o: "old = [a, b, a', b']" and n: "new = [x, y, x', y']"
    by (auto simp: length_Suc_conv eval_nat_numeral)
  let ?s = "(65535 - unat c) + (65535 - (256 * unat a + unat b)) + (65535 - (256 * unat a' + unat b')) +
      (256 * unat x + unat y) + (256 * unat x' + unat y')"
  have "incrementalUpdate c old new = carry_fold (word_of_nat ?s)"
    by (simp add: incrementalUpdate_def o n pair32_wsum ucast_half unat_NOT16 unat_be2 del: of_nat_unat of_nat_diff)
  moreover have le: "256 * unat a + unat b \<le> 65535" "256 * unat x + unat y \<le> 65535"
     "256 * unat a' + unat b' \<le> 65535" "256 * unat x' + unat y' \<le> 65535" "unat c \<le> 65535"
    using unat_byte [of a] unat_byte [of b] unat_byte [of x] unat_byte [of y] unat_half [of c]
      unat_byte [of a'] unat_byte [of b'] unat_byte [of x'] unat_byte [of y'] by simp_all
  ultimately have "65535 dvd (unat (incrementalUpdate c old new) + ?s)" using carry_fold_wsum [of ?s] by simp
  then have "int 65535 dvd int (unat (incrementalUpdate c old new) + ?s)" by (simp only: int_dvd_int_iff)
  also have "int (unat (incrementalUpdate c old new) + ?s) =
      int (unat (incrementalUpdate c old new)) - int (unat c) - int (wsum old) + int (wsum new) + int 65535 * 3"
    using le by (simp add: o n of_nat_diff)
  finally have "65535 dvd (int (unat (incrementalUpdate c old new)) - int (unat c) - int (wsum old) + int (wsum new) + 65535 * 3)"
    by simp
  then show ?thesis by (simp only: dvd_add_left_iff dvd_triv_left)
qed

lemma wsum_pairs:
  "2 * k \<le> length h \<Longrightarrow> wsum (take (2 * k) h) = sum_list (map (\<lambda>i. wsum [h ! (2 * i), h ! (2 * i + 1)]) [0..<k])"
proof (induction k)
  case (Suc k)
  have "take (2 * Suc k) h = take (2 * k) h @ [h ! (2 * k), h ! (2 * k + 1)]"
    using Suc.prems by (simp add: take_Suc_conv_app_nth)
  then show ?case using Suc by (simp add: wsum_append)
qed simp

lemma wsum_pairs_10:
  "20 \<le> length h \<Longrightarrow> wsum (take 20 h) = wsum [h ! 0, h ! 1] + wsum [h ! 2, h ! 3] + wsum [h ! 4, h ! 5] + wsum [h ! 6, h ! 7] +
     wsum [h ! 8, h ! 9] + wsum [h ! 10, h ! 11] + wsum [h ! 12, h ! 13] + wsum [h ! 14, h ! 15] + wsum [h ! 16, h ! 17] +
     wsum [h ! 18, h ! 19]"
  using wsum_pairs [of 10 h] by (simp add: upt_rec [of _ 10] del: wsum.simps)

lemma wsum_pairs_8:
  "16 \<le> length h \<Longrightarrow> wsum (take 16 h) = wsum [h ! 0, h ! 1] + wsum [h ! 2, h ! 3] + wsum [h ! 4, h ! 5] + wsum [h ! 6, h ! 7] +
     wsum [h ! 8, h ! 9] + wsum [h ! 10, h ! 11] + wsum [h ! 12, h ! 13] + wsum [h ! 14, h ! 15]"
  using wsum_pairs [of 8 h] by (simp add: upt_rec [of _ 8] del: wsum.simps)

lemma wsum_small: "length bs \<le> 65535 \<Longrightarrow> wsum bs < 2 ^ 32"
  using wsum_le [of bs] by simp

lemma ipv4Checksum_dvd:
  assumes "20 \<le> length h" and "length h \<le> 65535" and "u16 h 10 = Some 0"
  shows "65535 dvd (unat (ipv4Checksum h) + wsum h)"
proof -
  have z: "wsum [h ! 10, h ! 11] = 0"
    using assms(1,3) u16_wsum [OF assms(3)] by (simp add: u16_def unat_be2 [symmetric])
  have h: "wsum h = wsum (take 20 h) + wsum (drop 20 h)" using assms(1) by (intro wsum_split) simp_all
  have "ipv4Checksum h = carry_fold (add_words (word_of_nat (wsum (take 20 h))) (drop 20 h))"
    using assms(1) unfolding wsum_pairs_10 [OF assms(1)] z
    by (simp add: ipv4Checksum_def Let_def pair32_wsum ac_simps numeral_3_eq_3 del: wsum.simps)
  then have "ipv4Checksum h = carry_fold (word_of_nat (wsum h))" unfolding add_words_wsum h .
  then show ?thesis using carry_fold_wsum [OF wsum_small [OF assms(2)]] by simp
qed

lemma icmp_sums_wsum:
  "\<exists>m rest. icmp_sums (word_of_nat a) (word_of_nat b) (word_of_nat c) (word_of_nat d) data = (word_of_nat m, rest) \<and>
     m + wsum rest = a + b + c + d + wsum data"
proof (induction "length data" arbitrary: a b c d data rule: less_induct)
  case less
  show ?case
  proof (cases "16 \<le> length data")
    case True
    let ?w = "\<lambda>i. wsum [data ! i, data ! (i + 1)]"
    have step: "icmp_sums (word_of_nat a) (word_of_nat b) (word_of_nat c) (word_of_nat d) data =
        icmp_sums (word_of_nat (a + ?w 0 + ?w 8)) (word_of_nat (b + ?w 2 + ?w 10)) (word_of_nat (c + ?w 4 + ?w 12))
          (word_of_nat (d + ?w 6 + ?w 14)) (drop 16 data)"
      using True by (simp add: icmp_sums.simps [of _ _ _ _ data] pair32_wsum del: wsum.simps)
    have data: "wsum data = wsum (take 16 data) + wsum (drop 16 data)" using True by (intro wsum_split) simp_all
    have lt: "length (drop 16 data) < length data" using True by simp
    obtain m rest where ic: "icmp_sums (word_of_nat (a + ?w 0 + ?w 8)) (word_of_nat (b + ?w 2 + ?w 10))
          (word_of_nat (c + ?w 4 + ?w 12)) (word_of_nat (d + ?w 6 + ?w 14)) (drop 16 data) = (word_of_nat m, rest)"
      and m: "m + wsum rest = (a + ?w 0 + ?w 8) + (b + ?w 2 + ?w 10) + (c + ?w 4 + ?w 12) + (d + ?w 6 + ?w 14) + wsum (drop 16 data)"
      using less [OF lt, of "a + ?w 0 + ?w 8" "b + ?w 2 + ?w 10" "c + ?w 4 + ?w 12" "d + ?w 6 + ?w 14"] by blast
    have "m + wsum rest = a + b + c + d + wsum data"
      using m unfolding data wsum_pairs_8 [OF True] by (simp del: wsum.simps)
    with ic show ?thesis unfolding step by blast
  next
    case False
    then have "icmp_sums (word_of_nat a) (word_of_nat b) (word_of_nat c) (word_of_nat d) data = (word_of_nat (a + b + c + d), data)"
      by (simp add: icmp_sums.simps [of _ _ _ _ data])
    then show ?thesis by blast
  qed
qed

lemma icmpChecksum_dvd:
  assumes "length data \<le> 65535"
  shows "65535 dvd (unat (icmpChecksum data) + wsum data)"
proof -
  obtain m rest where "icmp_sums 0 0 0 0 data = (word_of_nat m, rest)" "m + wsum rest = wsum data"
    using icmp_sums_wsum [of 0 0 0 0 data, unfolded of_nat_0] by auto
  then have "icmpChecksum data = carry_fold (word_of_nat (wsum data))" by (simp add: icmpChecksum_def add_words_wsum del: of_nat_add)
  then show ?thesis using carry_fold_wsum [OF wsum_small [OF assms]] by simp
qed

lemma fold_loop_dvd: "65535 dvd (unat (NOT (ucast (fold_loop s)) :: 16 word) + unat s)"
proof (induction s rule: fold_loop.induct)
  case (1 s)
  show ?case
  proof (cases "0xFFFF < s")
    case True
    define x where "x = unat (NOT (ucast (fold_loop s)) :: 16 word)"
    define q where "q = unat s div 65536"
    define r where "r = unat s mod 65536"
    have "65535 dvd (x + (r + q))"
      using 1 [OF True] True unfolding x_def q_def r_def unat_half_sum [symmetric] by (simp only: fold_loop.simps [of s] if_True)
    moreover have "unat s = 65536 * q + r" by (simp add: q_def r_def)
    then have "x + unat s = (x + (r + q)) + 65535 * q" by simp
    ultimately have "65535 dvd (x + unat s)" by (simp only: dvd_add dvd_triv_left)
    then show ?thesis unfolding x_def .
  next
    case False
    then have "unat s \<le> 65535" by (simp add: word_less_nat_alt)
    then have "unat (NOT (ucast s :: 16 word)) + unat s = 65535"
      by (simp add: unat_NOT16 unsigned_ucast_eq take_bit_eq_mod)
    with False show ?thesis by (simp add: fold_loop.simps [of s])
  qed
qed

section \<open>Rewritten packets verify\<close>

text \<open>
  A packet verifies when its header checksum and the checksum of its TCP, UDP or ICMP part do; a UDP
  checksum of zero means that there is none. The pseudo header of TCP and UDP is made of the two
  addresses, the protocol number and the length of the part.
\<close>

definition header_len :: "decoder \<Rightarrow> nat" where
  "header_len d = unat (ip4_IHL d) * 4"

definition l4_sum :: "decoder \<Rightarrow> nat \<Rightarrow> bytes \<Rightarrow> nat" where
  "l4_sum d proto p = wsum (take 8 (drop 12 p)) + proto + (length p - header_len d) + wsum (drop (header_len d) p)"

definition l4_ok :: "decoder \<Rightarrow> bytes \<Rightarrow> bool" where
  "l4_ok d p =
     (case transport d of
        Some LayerTypeTCP \<Rightarrow> header_len d + 20 \<le> length p \<and> 65535 dvd l4_sum d 6 p
      | Some LayerTypeUDP \<Rightarrow>
          header_len d + 8 \<le> length p \<and> (u16 p (header_len d + 6) = Some 0 \<or> 65535 dvd l4_sum d 17 p)
      | Some LayerTypeICMPv4 \<Rightarrow> header_len d + 8 \<le> length p \<and> 65535 dvd wsum (drop (header_len d) p)
      | _ \<Rightarrow> True)"

definition verifies :: "decoder \<Rightarrow> bytes \<Rightarrow> bool" where
  "verifies d p \<longleftrightarrow> 20 \<le> header_len d \<and> header_len d \<le> length p \<and> length p \<le> 65535 \<and>
     65535 dvd wsum (take (header_len d) p) \<and> l4_ok d p"

lemma u16_exists: "off + 2 \<le> length p \<Longrightarrow> \<exists>c. u16 p off = Some c"
  by (simp add: u16_def)

lemma u16_drop: "u16 (drop i p) k = u16 p (i + k)" if "i \<le> length p"
  using that by (auto simp: u16_def)

lemma u16_take: "k + 2 \<le> i \<Longrightarrow> i \<le> length p \<Longrightarrow> u16 (take i p) k = u16 p k"
  by (simp add: u16_def min_def)

lemma unat_inject16: "unat v = unat w \<Longrightarrow> v = (w :: 16 word)"
  by (simp add: word_unat_eq_iff)

lemma u16_put16: "put16 p off v = Some p' \<Longrightarrow> u16 p' off = Some v"
proof -
  assume "put16 p off v = Some p'"
  then have p': "off + 2 \<le> length p" "p' = take off p @ be_bytes 2 v @ drop (off + 2) p" using put16_Some by auto
  then have "off + 2 \<le> length p'" by simp
  then obtain c where c: "u16 p' off = Some c" using u16_exists by blast
  then have "unat c = unat v" using u16_wsum [OF c] p' wsum_be_bytes2 [of v] by simp
  with c show ?thesis by (simp add: unat_inject16)
qed

lemma u16_put16_other: "put16 p off v = Some p' \<Longrightarrow> k + 2 \<le> off \<or> off + 2 \<le> k \<Longrightarrow> u16 p' k = u16 p k"
  by (auto simp: put16_def u16_def split: if_splits)

lemma put16_length: "put16 p off v = Some p' \<Longrightarrow> length p' = length p"
  by (auto simp: put16_def split: if_splits)

lemma put16_segment:
  assumes "put16 p (i + k) v = Some p'"
  shows "take i p' = take i p" "put16 (drop i p) k v = Some (drop i p')"
  using assms by (auto simp: put16_def drop_update_swap add.commute add.left_commute split: if_splits)

lemma put16_header:
  assumes "put16 p k v = Some p'" and "k + 2 \<le> i" and "i \<le> length p"
  shows "drop i p' = drop i p" "put16 (take i p) k v = Some (take i p')"
  using assms by (auto simp: put16_def take_update_swap split: if_splits)

lemma addresses_header: fixes p :: bytes shows "20 \<le> i \<Longrightarrow> take i p' = take i p \<Longrightarrow> take 8 (drop 12 p') = take 8 (drop 12 p)"
proof -
  assume i: "20 \<le> i" and eq: "take i p' = take i p"
  have "take 8 (drop 12 (take i q)) = take 8 (drop 12 q)" for q
    using i by (simp add: take_drop min_def)
  from this [of p] this [of p'] eq show ?thesis by simp
qed

lemma dvd_shift:
  assumes "int b = int a + e" and "65535 dvd e"
  shows "65535 dvd b \<longleftrightarrow> 65535 dvd (a :: nat)"
proof -
  have "65535 dvd b \<longleftrightarrow> int 65535 dvd int b" by (simp only: int_dvd_int_iff)
  also have "\<dots> \<longleftrightarrow> int 65535 dvd int a" using assms by (simp add: dvd_add_left_iff)
  also have "\<dots> \<longleftrightarrow> 65535 dvd a" by (simp only: int_dvd_int_iff)
  finally show ?thesis .
qed

text \<open>Changing a port and updating the checksum keeps the sum of the segment.\<close>

lemma segment_update:
  assumes "u16 q k = Some old" and "put16 q k new = Some q1" and "u16 q1 j = Some c"
    and "put16 q1 j (incrementalUpdate c (be_bytes 2 old) (be_bytes 2 new)) = Some q2" and "even k" and "even j"
  shows "\<exists>e. int (wsum q2) = int (wsum q) + e \<and> 65535 dvd e"
  using wsum_put16 [OF assms(1,2,5)] wsum_put16 [OF assms(3,4,6)] incremental_dvd [of "be_bytes 2 old" "be_bytes 2 new" c]
  by (intro exI [of _ "int (unat (incrementalUpdate c (be_bytes 2 old) (be_bytes 2 new))) - int (unat c) -
        int (wsum (be_bytes 2 old)) + int (wsum (be_bytes 2 new))"]) (simp add: wsum_be_bytes2)

lemma port_update:
  assumes "header_len d + k + 2 \<le> length p" and "header_len d + j + 2 \<le> length p" and "20 \<le> header_len d"
    and "even k" and "even j" and "k + 2 \<le> j"
    and p1: "put16 p (header_len d + k) new = Some p1" and old: "u16 p (header_len d + k) = Some old"
    and c: "u16 p1 (header_len d + j) = Some c"
    and p2: "put16 p1 (header_len d + j) (incrementalUpdate c (be_bytes 2 old) (be_bytes 2 new)) = Some p2"
  shows "take (header_len d) p2 = take (header_len d) p" "length p2 = length p"
    "65535 dvd l4_sum d proto p2 \<longleftrightarrow> 65535 dvd l4_sum d proto p" "u16 p2 (header_len d + k) = Some new"
proof -
  let ?i = "header_len d"
  show t: "take ?i p2 = take ?i p" using put16_segment(1) [OF p1] put16_segment(1) [OF p2] by simp
  show l: "length p2 = length p" using put16_length [OF p1] put16_length [OF p2] by simp
  have "u16 (drop ?i p) k = Some old" using old assms(1) by (simp add: u16_drop)
  moreover have "u16 (drop ?i p1) j = Some c" using c assms(2) put16_length [OF p1] by (simp add: u16_drop)
  ultimately obtain e where e: "int (wsum (drop ?i p2)) = int (wsum (drop ?i p)) + e" "65535 dvd e"
    using segment_update [OF _ put16_segment(2) [OF p1] _ put16_segment(2) [OF p2] assms(4,5)] by blast
  have "int (l4_sum d proto p2) = int (l4_sum d proto p) + e"
    using e(1) l addresses_header [OF assms(3) t] by (simp add: l4_sum_def)
  then show "65535 dvd l4_sum d proto p2 \<longleftrightarrow> 65535 dvd l4_sum d proto p" using dvd_shift e(2) by blast
  show "u16 p2 (?i + k) = Some new"
    using u16_put16_other [OF p2, of "?i + k"] u16_put16 [OF p1] assms(6) by simp
qed

lemma rewriteTCPPort_verifies:
  assumes "verifies d p" and "transport d = Some LayerTypeTCP" and "k = 0 \<or> k = 2"
  shows "\<exists>p'. rewriteTCPPort p d port k = Some (p', None) \<and> verifies d p' \<and> u16 p' (header_len d + k) = Some port"
proof -
  let ?i = "header_len d"
  have len: "20 \<le> ?i" "?i + 20 \<le> length p" using assms by (simp_all add: verifies_def l4_ok_def)
  then have k: "?i + k + 2 \<le> length p" "?i + 16 + 2 \<le> length p" "even k" "k + 2 \<le> 16" using assms(3) by auto
  obtain old where old: "u16 p (?i + k) = Some old" using k(1) u16_exists [of "?i + k" p] by auto
  obtain p1 where p1: "put16 p (?i + k) port = Some p1" using k(1) by (simp add: put16_def)
  have l1: "length p1 = length p" using put16_length [OF p1] .
  obtain c where c: "u16 p1 (?i + 16) = Some c" using l1 k(2) u16_exists [of "?i + 16" p1] by auto
  obtain p2 where p2: "put16 p1 (?i + 16) (incrementalUpdate c (be_bytes 2 old) (be_bytes 2 port)) = Some p2"
    using l1 k(2) by (simp add: put16_def)
  note upd = port_update [OF k(1,2) len(1) k(3) _ k(4) p1 old c p2, simplified]
  have "rewriteTCPPort p d port k = Some (p2, None)"
    using len l1 old p1 c p2 by (simp add: rewriteTCPPort_def Let_def header_len_def [symmetric])
  moreover have "verifies d p2" using assms(1,2) upd(1-3) by (simp add: verifies_def l4_ok_def)
  ultimately show ?thesis using upd(4) by blast
qed

lemma rewriteUDPPort_verifies:
  assumes "verifies d p" and "transport d = Some LayerTypeUDP" and "k = 0 \<or> k = 2"
  shows "\<exists>p'. rewriteUDPPort p d port k = Some (p', None) \<and> verifies d p' \<and> u16 p' (header_len d + k) = Some port"
proof -
  let ?i = "header_len d"
  have len: "20 \<le> ?i" "?i + 8 \<le> length p" using assms by (simp_all add: verifies_def l4_ok_def)
  then have k: "?i + k + 2 \<le> length p" "?i + 6 + 2 \<le> length p" "even k" "k + 2 \<le> 6" using assms(3) by auto
  obtain old where old: "u16 p (?i + k) = Some old" using k(1) u16_exists [of "?i + k" p] by auto
  obtain p1 where p1: "put16 p (?i + k) port = Some p1" using k(1) by (simp add: put16_def)
  have l1: "length p1 = length p" using put16_length [OF p1] .
  obtain c where c: "u16 p1 (?i + 6) = Some c" using l1 k(2) u16_exists [of "?i + 6" p1] by auto
  have c0: "u16 p (?i + 6) = Some c" using c u16_put16_other [OF p1, of "?i + 6"] k(4) by simp
  obtain p2 where p2: "put16 p1 (?i + 6) (incrementalUpdate c (be_bytes 2 old) (be_bytes 2 port)) = Some p2"
    using l1 k(2) by (simp add: put16_def)
  note upd = port_update [OF k(1,2) len(1) k(3) _ k(4) p1 old c p2, simplified]
  have res: "rewriteUDPPort p d port k = Some (if c = 0 then p1 else p2, None)"
    using len l1 old p1 c p2 by (simp add: rewriteUDPPort_def Let_def header_len_def [symmetric])
  show ?thesis
  proof (cases "c = 0")
    case True
    have "verifies d p1"
      using assms(1,2) l1 c True put16_segment(1) [OF p1] by (simp add: verifies_def l4_ok_def)
    then show ?thesis using res True u16_put16 [OF p1] by simp
  next
    case False
    then have "verifies d p2" using assms(1,2) upd(1-3) c0 by (simp add: verifies_def l4_ok_def)
    then show ?thesis using res False upd(4) by simp
  qed
qed

lemma be_word_be_bytes4: "(be_word (be_bytes 4 w) :: 32 word) = w"
proof (rule bit_word_eqI)
  fix n
  assume "n < LENGTH(32)"
  then consider "n < 8" | "8 \<le> n" "n < 16" | "16 \<le> n" "n < 24" | "24 \<le> n" "n < 32" by fastforce
  then show "bit (be_word (be_bytes 4 w) :: 32 word) n \<longleftrightarrow> bit w n"
    by cases (simp_all add: be_word_def be_bytes_def upt_rec bit_simps less_diff_conv2)
qed

text \<open>A new address with the header checksum recomputed.\<close>

lemma header_rewritten:
  assumes "20 \<le> i" and "i \<le> length p1" and "length p1 \<le> 65535"
    and "put16 p1 10 0 = Some p2" and "put16 p2 10 (ipv4Checksum (take i p2)) = Some p3"
  shows "65535 dvd wsum (take i p3)" "drop 12 p3 = drop 12 p1" "drop i p3 = drop i p1" "length p3 = length p1"
proof -
  have l2: "length p2 = length p1" using put16_length [OF assms(4)] .
  show "length p3 = length p1" using put16_length [OF assms(5)] l2 by simp
  have z: "u16 (take i p2) 10 = Some 0" using u16_put16 [OF assms(4)] assms(1,2) l2 by (simp add: u16_take)
  have "put16 (take i p2) 10 (ipv4Checksum (take i p2)) = Some (take i p3)"
    using put16_header(2) [OF assms(5), of i] assms(1,2) l2 by simp
  then have "int (wsum (take i p3)) = int (wsum (take i p2)) + int (unat (ipv4Checksum (take i p2)))"
    using wsum_put16 [OF z] by simp
  then have "wsum (take i p3) = unat (ipv4Checksum (take i p2)) + wsum (take i p2)" by linarith
  then show "65535 dvd wsum (take i p3)"
    using ipv4Checksum_dvd [OF _ _ z] assms(1-3) l2 by (simp add: min_def)
  show "drop 12 p3 = drop 12 p1" "drop i p3 = drop i p1"
    using put16_header(1) [OF assms(4)] put16_header(1) [OF assms(5)] assms(1,2) l2 by simp_all
qed

lemma packet_parts:
  assumes "20 \<le> length (p :: bytes)"
  obtains a s t r where "p = a @ s @ t @ r" "length a = 12" "length s = 4" "length t = 4"
proof
  have "drop 16 p = take 4 (drop 16 p) @ drop 20 p" using append_take_drop_id [of 4 "drop 16 p"] by simp
  moreover have "drop 12 p = take 4 (drop 12 p) @ drop 16 p" using append_take_drop_id [of 4 "drop 12 p"] by simp
  ultimately show "p = take 12 p @ take 4 (drop 12 p) @ take 4 (drop 16 p) @ drop 20 p"
    using append_take_drop_id [of 12 p] by simp
qed (use assms in simp_all)

lemma addresses_rewritten:
  assumes "20 \<le> length p" and "off = 12 \<or> off = 16" and "length new = 4" and "p1 = take off p @ new @ drop (off + 4) p"
  shows "int (wsum (take 8 (drop 12 p1))) = int (wsum (take 8 (drop 12 p))) - int (wsum (take 4 (drop off p))) + int (wsum new)"
    "take 4 (drop off p1) = new" "length p1 = length p" "20 \<le> i \<Longrightarrow> drop i p1 = drop i p"
proof -
  obtain a s t r where p: "p = a @ s @ t @ r" "length a = 12" "length s = 4" "length t = 4"
    using packet_parts [OF assms(1)] by blast
  have p1: "p1 = (if off = 12 then a @ new @ t @ r else a @ s @ new @ r)" using assms(2-4) p by auto
  show "int (wsum (take 8 (drop 12 p1))) = int (wsum (take 8 (drop 12 p))) - int (wsum (take 4 (drop off p))) + int (wsum new)"
    using assms(2,3) p by (auto simp: p1 wsum_append)
  show "take 4 (drop off p1) = new" "length p1 = length p" using assms(2,3) p by (auto simp: p1)
  show "20 \<le> i \<Longrightarrow> drop i p1 = drop i p" using assms(2,3) p by (auto simp: p1)
qed

lemma l4_updated:
  assumes "u16 q k = Some c" and "put16 q k (incrementalUpdate c old new) = Some q'" and "even k"
    and "length old = 4" and "length new = 4"
  shows "\<exists>e. int (wsum q') - int (wsum old) + int (wsum new) = int (wsum q) + e \<and> 65535 dvd e"
  using wsum_put16 [OF assms(1-3)] incremental_dvd [of old new c] assms(4,5)
  by (intro exI [of _ "int (unat (incrementalUpdate c old new)) - int (unat c) - int (wsum old) + int (wsum new)"]) simp

lemma l4_sum_shift:
  assumes "u16 p3 (header_len d + k) = Some c" and "put16 p3 (header_len d + k) (incrementalUpdate c old new) = Some p4"
    and "even k" and "length old = 4" and "length new = 4" and "20 \<le> header_len d" and "header_len d \<le> length p3"
    and "int (wsum (take 8 (drop 12 p3))) = int (wsum (take 8 (drop 12 p))) - int (wsum old) + int (wsum new)"
    and "drop (header_len d) p3 = drop (header_len d) p" and "length p3 = length p"
  shows "65535 dvd l4_sum d proto p4 \<longleftrightarrow> 65535 dvd l4_sum d proto p"
proof -
  let ?i = "header_len d"
  have "u16 (drop ?i p3) k = Some c" using assms(1,7) by (simp add: u16_drop)
  then obtain e where e: "int (wsum (drop ?i p4)) - int (wsum old) + int (wsum new) = int (wsum (drop ?i p3)) + e" "65535 dvd e"
    using l4_updated [OF _ put16_segment(2) [OF assms(2)] assms(3-5)] by blast
  have "take 8 (drop 12 p4) = take 8 (drop 12 p3)" using addresses_header [OF assms(6) put16_segment(1) [OF assms(2)]] .
  then have "int (l4_sum d proto p4) = int (l4_sum d proto p) + e"
    using e(1) assms(8-10) put16_length [OF assms(2)] by (simp add: l4_sum_def)
  then show ?thesis using dvd_shift e(2) by blast
qed

lemma icmp_rewritten:
  assumes "i + 8 \<le> length p" and "length p \<le> 65535"
  shows "\<exists>p'. updateICMPChecksum p i = Some p' \<and> take i p' = take i p \<and> length p' = length p \<and> 65535 dvd wsum (drop i p')"
proof -
  obtain p1 where p1: "put16 p (i + 2) 0 = Some p1" using assms(1) by (simp add: put16_def)
  have l1: "length p1 = length p" using put16_length [OF p1] .
  obtain p2 where p2: "put16 p1 (i + 2) (icmpChecksum (drop i p1)) = Some p2" using assms(1) l1 by (simp add: put16_def)
  have z: "u16 (drop i p1) 2 = Some 0" using u16_put16 [OF p1] assms(1) l1 by (simp add: u16_drop)
  have "int (wsum (drop i p2)) = int (wsum (drop i p1)) + int (unat (icmpChecksum (drop i p1)))"
    using wsum_put16 [OF z put16_segment(2) [OF p2]] by simp
  then have "wsum (drop i p2) = unat (icmpChecksum (drop i p1)) + wsum (drop i p1)" by linarith
  moreover have "length (drop i p1) \<le> 65535" using assms(2) l1 by simp
  ultimately have "65535 dvd wsum (drop i p2)" using icmpChecksum_dvd [of "drop i p1"] by simp
  moreover have "updateICMPChecksum p i = Some p2" using assms(1) p1 p2 by (simp add: updateICMPChecksum_def)
  ultimately show ?thesis using put16_segment(1) [OF p1] put16_segment(1) [OF p2] put16_length [OF p2] l1 by auto
qed

text \<open>
  The packet \<open>p3\<close> after the address \<open>new\<close> has replaced the one at \<open>off\<close> and the header checksum has been
  recomputed; the checksum of the segment is still the old one.
\<close>

definition readdressed :: "decoder \<Rightarrow> nat \<Rightarrow> bytes \<Rightarrow> bytes \<Rightarrow> bytes \<Rightarrow> bool" where
  "readdressed d off new p p3 \<longleftrightarrow>
     length p3 = length p \<and> 65535 dvd wsum (take (header_len d) p3) \<and> drop (header_len d) p3 = drop (header_len d) p \<and>
     take 4 (drop off p3) = new \<and>
     int (wsum (take 8 (drop 12 p3))) = int (wsum (take 8 (drop 12 p))) - int (wsum (take 4 (drop off p))) + int (wsum new)"

lemma rewritePacketIP_parts:
  assumes "verifies d p" and "off = 12 \<or> off = 16"
  shows "\<exists>p3. readdressed d off (be_bytes 4 w) p p3 \<and>
    rewritePacketIP p d (Addr4 w) off =
      do { p4 \<leftarrow> (case transport d of
               Some LayerTypeTCP \<Rightarrow> updateTCPChecksum p3 (header_len d) (take 4 (drop off p)) (be_bytes 4 w)
             | Some LayerTypeUDP \<Rightarrow> updateUDPChecksum p3 (header_len d) (take 4 (drop off p)) (be_bytes 4 w)
             | Some LayerTypeICMPv4 \<Rightarrow> updateICMPChecksum p3 (header_len d) | _ \<Rightarrow> Some p3); Some (p4, None) }"
proof -
  let ?i = "header_len d" and ?new = "be_bytes 4 w"
  define p1 where "p1 = take off p @ ?new @ drop (off + 4) p"
  have len: "20 \<le> ?i" "?i \<le> length p" "length p \<le> 65535" using assms(1) by (simp_all add: verifies_def)
  then have len20: "20 \<le> length p" by simp
  note adr = addresses_rewritten [OF len20 assms(2) length_addr_bytes p1_def]
  obtain p2 where p2: "put16 p1 10 0 = Some p2" using adr(3) len by (simp add: put16_def)
  obtain p3 where p3: "put16 p2 10 (ipv4Checksum (take ?i p2)) = Some p3"
    using put16_length [OF p2] adr(3) len by (simp add: put16_def)
  have "?i \<le> length p1" "length p1 \<le> 65535" using adr(3) len by simp_all
  note hdr = header_rewritten [OF len(1) this p2 p3]
  have "take 4 (drop off p3) = take 4 (drop (off - 12) (drop 12 p3))" using assms(2) by auto
  also have "\<dots> = ?new" using adr(2) hdr(2) assms(2) by auto
  finally have "readdressed d off ?new p p3"
    using hdr adr(1,3) adr(4) [OF len(1)] by (simp add: readdressed_def)
  moreover have "off + 4 \<le> length p" using assms(2) len by auto
  ultimately show ?thesis
    using len p2 p3 adr(3) unfolding rewritePacketIP_def
    by (intro exI [of _ p3])
       (simp add: Let_def header_len_def [symmetric] p1_def [symmetric] transport_def split: LayerType.split)
qed

text \<open>The update of the checksum at \<open>k\<close> that follows.\<close>

lemma readdressed_update:
  assumes "readdressed d off new p p3" and "verifies d p" and "length new = 4" and "off + 4 \<le> length p"
    and k: "header_len d + k + 2 \<le> length p" "even k"
  shows "\<exists>c p4. u16 p (header_len d + k) = Some c \<and> u16 p3 (header_len d + k) = Some c \<and>
    put16 p3 (header_len d + k) (incrementalUpdate c (take 4 (drop off p)) new) = Some p4 \<and>
    take (header_len d) p4 = take (header_len d) p3 \<and> length p4 = length p3 \<and>
    (65535 dvd l4_sum d proto p4 \<longleftrightarrow> 65535 dvd l4_sum d proto p)"
proof -
  let ?i = "header_len d" and ?old = "take 4 (drop off p)"
  have r: "length p3 = length p" "drop ?i p3 = drop ?i p"
      "int (wsum (take 8 (drop 12 p3))) = int (wsum (take 8 (drop 12 p))) - int (wsum ?old) + int (wsum new)"
    using assms(1) by (simp_all add: readdressed_def)
  have len: "20 \<le> ?i" "?i \<le> length p3" "length ?old = 4" using assms(2,4) r(1) by (simp_all add: verifies_def)
  obtain c where c: "u16 p3 (?i + k) = Some c" using k(1) r(1) u16_exists [of "?i + k" p3] by auto
  obtain p4 where p4: "put16 p3 (?i + k) (incrementalUpdate c ?old new) = Some p4" using k(1) r(1) by (simp add: put16_def)
  have "u16 p (?i + k) = Some c"
    using c r(1,2) len(2) u16_drop [of ?i p3 k] u16_drop [of ?i p k] by simp
  then show ?thesis
    using c p4 put16_segment(1) [OF p4] put16_length [OF p4]
      l4_sum_shift [OF c p4 k(2) len(3) assms(3) len(1,2) r(3,2,1)] by blast
qed

lemma readdressed_result:
  assumes "readdressed d off (be_bytes 4 w) p p3" and "verifies d p" and "off = 12 \<or> off = 16"
    and "take (header_len d) p4 = take (header_len d) p3" and "length p4 = length p3" and "l4_ok d p4"
  shows "verifies d p4 \<and> addr_at p4 off = Some (Addr4 w)"
proof -
  let ?i = "header_len d"
  have r: "length p3 = length p" "take 4 (drop off p3) = be_bytes 4 w" "65535 dvd wsum (take ?i p3)"
    using assms(1) by (simp_all add: readdressed_def)
  have len: "20 \<le> ?i" "?i \<le> length p" "length p \<le> 65535" using assms(2) by (simp_all add: verifies_def)
  have off: "off + 4 \<le> ?i" using assms(3) len by auto
  have "take 4 (drop off q) = take 4 (drop off (take ?i q))" for q :: bytes using off by (simp add: drop_take)
  from this [of p4] this [of p3] assms(4) r(2) have "take 4 (drop off p4) = be_bytes 4 w" by simp
  then show ?thesis using assms(4-6) r len off by (simp add: verifies_def addr_at_def be_word_be_bytes4)
qed

lemma rewritePacketIP_verifies:
  assumes "verifies d p" and "off = 12 \<or> off = 16"
  shows "\<exists>p'. rewritePacketIP p d (Addr4 w) off = Some (p', None) \<and> verifies d p' \<and> addr_at p' off = Some (Addr4 w)"
proof -
  let ?i = "header_len d" and ?new = "be_bytes 4 w" and ?old = "take 4 (drop off p)"
  obtain p3 where r: "readdressed d off ?new p p3"
    and res: "rewritePacketIP p d (Addr4 w) off =
      do { p4 \<leftarrow> (case transport d of Some LayerTypeTCP \<Rightarrow> updateTCPChecksum p3 ?i ?old ?new
             | Some LayerTypeUDP \<Rightarrow> updateUDPChecksum p3 ?i ?old ?new
             | Some LayerTypeICMPv4 \<Rightarrow> updateICMPChecksum p3 ?i | _ \<Rightarrow> Some p3); Some (p4, None) }"
    using rewritePacketIP_parts [OF assms, of w] by blast
  have off: "off + 4 \<le> length p" using assms by (auto simp: verifies_def)
  have l3: "length p3 = length p" using r by (simp add: readdressed_def)
  note fin = readdressed_result [OF r assms] and upd = readdressed_update [OF r assms(1) length_addr_bytes off]
  consider (tcp) "transport d = Some LayerTypeTCP" | (udp) "transport d = Some LayerTypeUDP"
    | (icmp) "transport d = Some LayerTypeICMPv4"
    | (other) "transport d \<noteq> Some LayerTypeTCP" "transport d \<noteq> Some LayerTypeUDP" "transport d \<noteq> Some LayerTypeICMPv4"
    by blast
  then show ?thesis
  proof cases
    case tcp
    then have l4: "?i + 20 \<le> length p" "65535 dvd l4_sum d 6 p" using assms(1) by (simp_all add: verifies_def l4_ok_def)
    obtain c p4 where c: "u16 p3 (?i + 16) = Some c" "put16 p3 (?i + 16) (incrementalUpdate c ?old ?new) = Some p4"
      and p4: "take ?i p4 = take ?i p3" "length p4 = length p3" "65535 dvd l4_sum d 6 p4" using upd [of 16 6] l4 by auto
    have "updateTCPChecksum p3 ?i ?old ?new = Some p4" using c l4(1) l3 by (simp add: updateTCPChecksum_def)
    then show ?thesis using fin [OF p4(1,2)] p4(2,3) l4(1) l3 res tcp by (simp add: l4_ok_def)
  next
    case udp
    then have l4: "?i + 8 \<le> length p" "u16 p (?i + 6) = Some 0 \<or> 65535 dvd l4_sum d 17 p"
      using assms(1) by (simp_all add: verifies_def l4_ok_def)
    obtain c p4 where c: "u16 p (?i + 6) = Some c" "u16 p3 (?i + 6) = Some c"
        "put16 p3 (?i + 6) (incrementalUpdate c ?old ?new) = Some p4"
      and p4: "take ?i p4 = take ?i p3" "length p4 = length p3" "65535 dvd l4_sum d 17 p4 \<longleftrightarrow> 65535 dvd l4_sum d 17 p"
      using upd [of 6 17] l4 by auto
    have "updateUDPChecksum p3 ?i ?old ?new = Some (if c = 0 then p3 else p4)"
      using c(2,3) l4(1) l3 by (simp add: updateUDPChecksum_def)
    then show ?thesis
      using fin [of p3] fin [OF p4(1,2)] p4(2,3) c l4 l3 res udp by (cases "c = 0") (simp_all add: l4_ok_def)
  next
    case icmp
    then have l4: "?i + 8 \<le> length p" "length p \<le> 65535" using assms(1) by (simp_all add: verifies_def l4_ok_def)
    then obtain p4 where "updateICMPChecksum p3 ?i = Some p4" "take ?i p4 = take ?i p3" "length p4 = length p3"
        "65535 dvd wsum (drop ?i p4)"
      using icmp_rewritten [of ?i p3] l3 by auto
    then show ?thesis using fin [of p4] l4(1) l3 res icmp by (simp add: l4_ok_def)
  next
    case other
    then have "l4_ok d p3" by (auto simp: l4_ok_def split: option.split LayerType.split)
    moreover have "rewritePacketIP p d (Addr4 w) off = Some (p3, None)"
      using res other by (auto split: option.splits LayerType.splits)
    ultimately show ?thesis using fin [of p3] by simp
  qed
qed

text \<open>
  What the parser says of a TCP segment: the addresses and the protocol of the header, and options that
  lie in the segment.
\<close>

definition parsed_tcp :: "decoder \<Rightarrow> bytes \<Rightarrow> bool" where
  "parsed_tcp d p \<longleftrightarrow> transport d = Some LayerTypeTCP \<and> ip4_SrcIP d = take 4 (drop 12 p) \<and>
     ip4_DstIP d = take 4 (drop 16 p) \<and> ip4_Protocol d = 6 \<and>
     header_len d + 20 + sum_list (map option_size (tcp_Options d)) \<le> length p"

lemma recalculateTCPChecksum_ok:
  assumes "20 \<le> header_len d" and "header_len d + 20 \<le> length p" and "length p \<le> 65535"
    and "ip4_SrcIP d = take 4 (drop 12 p)" and "ip4_DstIP d = take 4 (drop 16 p)" and "ip4_Protocol d = 6"
  shows "\<exists>p'. recalculateTCPChecksum p d (header_len d) = Some p' \<and> take (header_len d) p' = take (header_len d) p \<and>
    length p' = length p \<and> 65535 dvd l4_sum d 6 p' \<and> (\<forall>k \<ge> header_len d + 18. u16 p' k = u16 p k)"
proof -
  let ?i = "header_len d"
  obtain p1 where p1: "put16 p (?i + 16) 0 = Some p1" using assms(2) by (simp add: put16_def)
  define cs where "cs = (NOT (ucast (fold_loop (word_of_nat (l4_sum d 6 p1)))) :: 16 word)"
  obtain p2 where p2: "put16 p1 (?i + 16) cs = Some p2" using assms(2) put16_length [OF p1] by (simp add: put16_def)
  have l: "length p1 = length p" "length p2 = length p" using put16_length [OF p1] put16_length [OF p2] by simp_all
  have t: "take ?i p1 = take ?i p" "take ?i p2 = take ?i p1" using put16_segment(1) [OF p1] put16_segment(1) [OF p2] .
  have pairs: "wsum (take 8 (drop 12 p1)) = wsum [ip4_SrcIP d ! 0, ip4_SrcIP d ! 1] + wsum [ip4_SrcIP d ! 2, ip4_SrcIP d ! 3] +
      wsum [ip4_DstIP d ! 0, ip4_DstIP d ! 1] + wsum [ip4_DstIP d ! 2, ip4_DstIP d ! 3]"
    using assms(1,2) wsum_pairs [of 4 "drop 12 p"] addresses_header [OF assms(1) t(1)]
    by (simp add: assms(4,5) upt_rec [of _ 4] add.commute del: wsum.simps)
  have "l4_sum d 6 p1 < 2 ^ 32"
  proof -
    have "wsum (take 8 (drop 12 p1)) \<le> 65535 * 8" using wsum_le [of "take 8 (drop 12 p1)"] by simp
    moreover have "length (drop ?i p1) \<le> 65515" using assms(1,3) l(1) by simp
    then have "wsum (drop ?i p1) \<le> 65535 * 65515" using wsum_le [of "drop ?i p1"] by linarith
    ultimately show ?thesis using assms(3) l(1) by (simp add: l4_sum_def)
  qed
  then have "65535 dvd (unat cs + l4_sum d 6 p1)"
    using fold_loop_dvd [of "word_of_nat (l4_sum d 6 p1)"] by (simp add: cs_def unsigned_of_nat take_bit_eq_mod)
  moreover have z: "u16 (drop ?i p1) 16 = Some 0" using u16_put16 [OF p1] assms(2) l(1) by (simp add: u16_drop)
  have "int (wsum (drop ?i p2)) = int (wsum (drop ?i p1)) + int (unat cs)"
    using wsum_put16 [OF z put16_segment(2) [OF p2]] by simp
  then have "wsum (drop ?i p2) = wsum (drop ?i p1) + unat cs" by linarith
  then have "l4_sum d 6 p2 = unat cs + l4_sum d 6 p1"
    using addresses_header [OF assms(1) t(2)] l by (simp add: l4_sum_def)
  ultimately have "65535 dvd l4_sum d 6 p2" by simp
  moreover have "recalculateTCPChecksum p d ?i = Some p2"
  proof -
    have "pair32 (ip4_SrcIP d) 0 + pair32 (ip4_SrcIP d) 2 + pair32 (ip4_DstIP d) 0 + pair32 (ip4_DstIP d) 2 + ucast (ip4_Protocol d) +
        word_of_nat (length p - ?i) = (word_of_nat (wsum (take 8 (drop 12 p1)) + 6 + (length p1 - ?i)) :: 32 word)"
      by (simp add: pairs pair32_wsum assms(6) l(1) numeral_3_eq_3 del: wsum.simps)
    then show ?thesis
      using assms(1-5) p1 p2 by (simp add: recalculateTCPChecksum_def add_words_wsum l4_sum_def [symmetric] cs_def del: of_nat_add)
  qed
  moreover have "u16 p2 k = u16 p k" if "?i + 18 \<le> k" for k
    using u16_put16_other [OF p2, of k] u16_put16_other [OF p1, of k] that by simp
  ultimately show ?thesis using t l by auto
qed

lemma sum_list_at:
  fixes f :: "'a \<Rightarrow> nat"
  assumes "i < length xs"
  shows "sum_list (map f xs) = sum_list (map f (take i xs)) + f (xs ! i) + sum_list (map f (drop (Suc i) xs))"
proof -
  have "sum_list (map f xs) = sum_list (map f (take i xs @ xs ! i # drop (Suc i) xs))"
    using id_take_nth_drop [OF assms] by (rule arg_cong)
  then show ?thesis by simp
qed

lemma each_address:
  assumes "take 8 (drop 12 q) = take 8 (drop 12 (p :: bytes))"
  shows "take 4 (drop 12 q) = take 4 (drop 12 p)" "take 4 (drop 16 q) = take 4 (drop 16 p)"
proof -
  have "take 4 (take 8 (drop 12 q)) = take 4 (take 8 (drop 12 p))" "drop 4 (take 8 (drop 12 q)) = drop 4 (take 8 (drop 12 p))"
    unfolding assms by (rule refl)+
  then show "take 4 (drop 12 q) = take 4 (drop 12 p)" "take 4 (drop 16 q) = take 4 (drop 16 p)" by (simp_all add: drop_take)
qed

lemma clampTCPMSS_verifies:
  assumes "verifies d p" and "parsed_tcp d p"
  shows "\<exists>p' b. clampTCPMSS clamp p d = Some (p', b) \<and> verifies d p' \<and>
    (case mss_index clamp (tcp_Options d) of
       Some i \<Rightarrow> tcp_SYN d \<longrightarrow> b \<and>
         u16 p' (header_len d + 22 + sum_list (map option_size (take i (tcp_Options d)))) = Some clamp
     | None \<Rightarrow> \<not> b \<and> p' = p)"
proof (cases "tcp_SYN d \<and> mss_index clamp (tcp_Options d) \<noteq> None")
  case True
  then obtain i where i: "tcp_SYN d" "mss_index clamp (tcp_Options d) = Some i" by auto
  let ?h = "header_len d" and ?opts = "tcp_Options d"
  let ?at = "?h + 20 + sum_list (map option_size (take i ?opts)) + 2"
  have mss: "i < length ?opts" "fst (?opts ! i) = 2" "length (snd (?opts ! i)) = 2"
    using i(2) by (auto simp: mss_index_def find_Some_iff)
  note sum_list_at [OF mss(1), of option_size]
  moreover have "option_size (?opts ! i) = 4" using mss(2,3) by (simp add: option_size_def)
  ultimately have at: "?at + 2 \<le> length p" using assms(2) by (simp add: parsed_tcp_def)
  have len: "20 \<le> ?h" "length p \<le> 65535" using assms(1) by (simp_all add: verifies_def)
  obtain p1 where p1: "put16 p ?at clamp = Some p1" using at by (simp add: put16_def)
  have seg: "?at = ?h + (20 + sum_list (map option_size (take i ?opts)) + 2)" by simp
  have t1: "take ?h p1 = take ?h p" using put16_segment(1) p1 unfolding seg by blast
  have l1: "length p1 = length p" using put16_length [OF p1] .
  have "take 8 (drop 12 p1) = take 8 (drop 12 p)" using addresses_header [OF len(1) t1] .
  then have "take 4 (drop 12 p1) = take 4 (drop 12 p)" "take 4 (drop 16 p1) = take 4 (drop 16 p)"
    using each_address by blast+
  then have "ip4_SrcIP d = take 4 (drop 12 p1)" "ip4_DstIP d = take 4 (drop 16 p1)" "ip4_Protocol d = 6"
    using assms(2) by (simp_all add: parsed_tcp_def)
  then obtain p2 where p2: "recalculateTCPChecksum p1 d ?h = Some p2" "take ?h p2 = take ?h p1" "length p2 = length p1"
      "65535 dvd l4_sum d 6 p2" "u16 p2 ?at = u16 p1 ?at"
    using recalculateTCPChecksum_ok [OF len(1), of p1] at l1 len(2) by auto
  have "clampTCPMSS clamp p d = Some (p2, True)"
    using i len(1) p1 p2(1) by (simp add: clampTCPMSS_def updateMSSOption_def Let_def header_len_def [symmetric])
  moreover have "verifies d p2"
    using assms p2(2-4) t1 l1 by (simp add: verifies_def l4_ok_def parsed_tcp_def)
  ultimately show ?thesis using i p2(5) u16_put16 [OF p1] by (auto simp: add.commute add.left_commute)
next
  case False
  then have "clampTCPMSS clamp p d = Some (p, False)" by (auto simp: clampTCPMSS_def split: option.split)
  moreover have "\<not> tcp_SYN d" if "mss_index clamp (tcp_Options d) = Some i" for i using False that by simp
  ultimately show ?thesis
    using assms(1) by (intro exI [of _ p] exI [of _ False]) (simp split: option.split)
qed

text \<open>
  C9. Rewriting keeps packets intact. For a packet whose checksums verify, replacing an address or a TCP
  or UDP port and clamping the maximum segment size of a parsed segment succeed, the packet has the
  new address, port or segment size, and all its checksums verify again.
\<close>

theorem rewritten_packets_verify:
  assumes "verifies d p"
  shows "(off = 12 \<or> off = 16 \<longrightarrow>
      (\<exists>p'. rewritePacketIP p d (Addr4 w) off = Some (p', None) \<and> verifies d p' \<and> addr_at p' off = Some (Addr4 w))) \<and>
    (transport d = Some LayerTypeTCP \<and> (k = 0 \<or> k = 2) \<longrightarrow>
      (\<exists>p'. rewriteTCPPort p d port k = Some (p', None) \<and> verifies d p' \<and> u16 p' (header_len d + k) = Some port)) \<and>
    (transport d = Some LayerTypeUDP \<and> (k = 0 \<or> k = 2) \<longrightarrow>
      (\<exists>p'. rewriteUDPPort p d port k = Some (p', None) \<and> verifies d p' \<and> u16 p' (header_len d + k) = Some port)) \<and>
    (parsed_tcp d p \<longrightarrow>
      (\<exists>p' b. clampTCPMSS clamp p d = Some (p', b) \<and> verifies d p' \<and>
        (case mss_index clamp (tcp_Options d) of
           Some i \<Rightarrow> tcp_SYN d \<longrightarrow> b \<and>
             u16 p' (header_len d + 22 + sum_list (map option_size (take i (tcp_Options d)))) = Some clamp
         | None \<Rightarrow> \<not> b \<and> p' = p)))"
  using rewritePacketIP_verifies [OF assms, of off w] rewriteTCPPort_verifies [OF assms, of k port]
    rewriteUDPPort_verifies [OF assms, of k port] clampTCPMSS_verifies [OF assms, of clamp] by blast

definition zero_decoder :: decoder where
  "zero_decoder =
     \<lparr>decoded = [], ip4_SrcIP = [], ip4_DstIP = [], ip4_IHL = 0, ip4_Flags = 0, ip4_FragOffset = 0, ip4_Protocol = 0,
      ip6_SrcIP = [], ip6_DstIP = [], tcp_SrcPort = 0, tcp_DstPort = 0, tcp_SYN = False, tcp_ACK = False, tcp_FIN = False,
      tcp_RST = False, tcp_PSH = False, tcp_URG = False, tcp_Options = [], udp_SrcPort = 0, udp_DstPort = 0, icmp4_Id = 0,
      icmp4_TypeCode = (0, 0), icmp4_Payload = [], dnatOrigPort = 0\<rparr>"

definition dns_packet :: bytes where
  "dns_packet = [69, 0, 0, 28, 0, 0, 0, 0, 64, 17, 102, 207, 10, 0, 0, 1, 10, 0, 0, 2, 0, 53, 0, 53, 0, 8, 235, 113]"

definition dns_decoder :: decoder where
  "dns_decoder = zero_decoder\<lparr>decoded := [LayerTypeIPv4, LayerTypeUDP], ip4_IHL := 5\<rparr>"

theorem rewritten_packets_verify_witness:
  "\<exists>p' p''. rewriteUDPPort dns_packet dns_decoder 5353 2 = Some (p', None) \<and> verifies dns_decoder p' \<and> u16 p' 22 = Some 5353 \<and>
     rewritePacketIP dns_packet dns_decoder (Addr4 0x0A000003) 16 = Some (p'', None) \<and> verifies dns_decoder p''"
proof -
  have h: "header_len dns_decoder = 20" "transport dns_decoder = Some LayerTypeUDP"
    by (simp_all add: header_len_def transport_def dns_decoder_def)
  have v: "verifies dns_decoder dns_packet" by (simp add: verifies_def l4_ok_def l4_sum_def h dns_packet_def)
  note r = rewritten_packets_verify [OF v, where off = 16 and w = "0x0A000003" and k = 2 and port = 5353 and clamp = 0]
  from r obtain p'' where "rewritePacketIP dns_packet dns_decoder (Addr4 0x0A000003) 16 = Some (p'', None)" "verifies dns_decoder p''"
    by blast
  moreover from r h obtain p' where "rewriteUDPPort dns_packet dns_decoder 5353 2 = Some (p', None)" "verifies dns_decoder p'"
      "u16 p' 22 = Some 5353" by auto
  ultimately show ?thesis by blast
qed

text \<open>
  The update can turn the checksum of a UDP packet into zero, which means that the packet has no
  checksum; the protocol wants the value 65535 there.
\<close>

lemma udp_checksum_vanishes: "incrementalUpdate 1 (be_bytes 2 (0 :: 16 word)) (be_bytes 2 (1 :: 16 word)) = 0"
  by code_simp

text \<open>
  Overwriting a mapping leaves the old translation in the reverse map, and two mappings to one address
  share its entry there: removing one removes the way back of the other.
\<close>

lemma stale_reverse:
  assumes "a \<noteq> b"
  shows "reverse (biDNATMap_delete (biDNATMap_set (biDNATMap_set newBiDNATMap original a) original b) original) a = Some original"
    "let m = biDNATMap_delete (biDNATMap_set (biDNATMap_set newBiDNATMap a t) b t) b in forward m a = Some t \<and> reverse m t = None"
  using assms by (simp_all add: biDNATMap_delete_def biDNATMap_set_def newBiDNATMap_def Let_def)

text \<open>A mapping works in both directions as long as no other mapping touches its two addresses.\<close>

lemma mapping_both_ways:
  assumes "AddInternalDNATMapping m original translated = (m', None)"
  shows "dnatBiMap m' \<noteq> None \<and> Option.bind (dnatBiMap m') (\<lambda>b. forward b original) = Some translated \<and>
    Option.bind (dnatBiMap m') (\<lambda>b. reverse b translated) = Some original"
  using assms by (auto simp: AddInternalDNATMapping_def biDNATMap_set_def Let_def split: if_splits option.splits)

end
