(* ===== verification/Conntrack.thy ===== *)
theory Conntrack
  imports GoLib "HOL-Library.Signed_Division"
begin

text \<open>
  Connection tracking of the userspace packet filter:
  \<open>client/firewall/uspfilter/conntrack/common.go\<close> and \<open>tcp.go\<close>, with the flow events of
  \<open>client/internal/netflow/types\<close>.

  A connection object is reached only through the table of its tracker, so the table holds
  the objects by value and an operation on an object stores the changed one. The table is
  \<^const>\<open>None\<close> after \<open>Close\<close>, which sets the Go map to nil: reading it finds nothing, writing to it
  panics, and a panic is the result \<^const>\<open>None\<close>. The clock (\<open>now\<close>), the identifier \<open>uuid.New\<close>
  returns, and the order in which a Go map is iterated are arguments. The flow logger is the
  log of the events it was given.
\<close>

unbundle bit_operations_syntax

section \<open>Flow events\<close>

type_synonym uuid = nat

datatype Direction = DirectionUnknown | Ingress | Egress

datatype flow_type = TypeUnknown | TypeStart | TypeEnd | TypeDrop

abbreviation (input) "ICMP \<equiv> (1 :: byte)"
abbreviation (input) "TCP \<equiv> (6 :: byte)"
abbreviation (input) "UDP \<equiv> (17 :: byte)"

record EventFields =
  e_FlowID :: uuid
  e_Type :: flow_type
  e_RuleID :: bytes
  e_Direction :: Direction
  e_Protocol :: byte
  e_SourceIP :: Addr
  e_DestIP :: Addr
  e_SourceResourceID :: bytes
  e_DestResourceID :: bytes
  e_SourcePort :: "16 word"
  e_DestPort :: "16 word"
  e_ICMPType :: byte
  e_ICMPCode :: byte
  e_RxPackets :: "64 word"
  e_TxPackets :: "64 word"
  e_RxBytes :: "64 word"
  e_TxBytes :: "64 word"

section \<open>common.go\<close>

record BaseConnTrack =
  FlowId :: uuid
  Direction :: Direction
  SourceIP :: Addr
  DestIP :: Addr
  lastSeen :: time
  PacketsTx :: "64 word"
  PacketsRx :: "64 word"
  BytesTx :: "64 word"
  BytesRx :: "64 word"
  DNATOrigPort :: "32 word"

definition UpdateLastSeen :: "time \<Rightarrow> 'a BaseConnTrack_scheme \<Rightarrow> 'a BaseConnTrack_scheme" where
  "UpdateLastSeen now b = b\<lparr>lastSeen := now\<rparr>"

definition UpdateCounters :: "'a BaseConnTrack_scheme \<Rightarrow> Direction \<Rightarrow> int \<Rightarrow> 'a BaseConnTrack_scheme" where
  "UpdateCounters b direction bytes =
     (if direction = Egress
      then b\<lparr>PacketsTx := PacketsTx b + 1, BytesTx := BytesTx b + word_of_int bytes\<rparr>
      else b\<lparr>PacketsRx := PacketsRx b + 1, BytesRx := BytesRx b + word_of_int bytes\<rparr>)"

definition timeoutExceeded :: "time \<Rightarrow> 'a BaseConnTrack_scheme \<Rightarrow> duration \<Rightarrow> bool" where
  "timeoutExceeded now b timeout \<longleftrightarrow> timeout < now - lastSeen b"

record ConnKey =
  SrcIP :: Addr
  DstIP :: Addr
  SrcPort :: "16 word"
  DstPort :: "16 word"

text \<open>The object both constructors of a connection start from: all counters are zero.\<close>

definition base_conn :: "uuid \<Rightarrow> Direction \<Rightarrow> Addr \<Rightarrow> Addr \<Rightarrow> BaseConnTrack" where
  "base_conn flow direction srcIP dstIP =
     \<lparr>FlowId = flow, Direction = direction, SourceIP = srcIP, DestIP = dstIP, lastSeen = 0,
      PacketsTx = 0, PacketsRx = 0, BytesTx = 0, BytesRx = 0, DNATOrigPort = 0\<rparr>"

text \<open>The two port fields that \<open>TCPConnTrack\<close> and \<open>UDPConnTrack\<close> add.\<close>

record PortConnTrack = BaseConnTrack +
  SourcePort :: "16 word"
  DestPort :: "16 word"

definition port_event :: "byte \<Rightarrow> flow_type \<Rightarrow> 'a PortConnTrack_scheme \<Rightarrow> bytes \<Rightarrow> EventFields" where
  "port_event proto typ conn ruleID =
     \<lparr>e_FlowID = FlowId conn, e_Type = typ, e_RuleID = ruleID, e_Direction = Direction conn,
      e_Protocol = proto, e_SourceIP = SourceIP conn, e_DestIP = DestIP conn,
      e_SourceResourceID = [], e_DestResourceID = [],
      e_SourcePort = SourcePort conn, e_DestPort = DestPort conn, e_ICMPType = 0, e_ICMPCode = 0,
      e_RxPackets = PacketsRx conn, e_TxPackets = PacketsTx conn,
      e_RxBytes = BytesRx conn, e_TxBytes = BytesTx conn\<rparr>"

section \<open>tcp.go\<close>

abbreviation (input) "TimeWaitTimeout \<equiv> 4 * minute"
abbreviation (input) "DefaultTCPTimeout \<equiv> 3 * hour"
abbreviation (input) "TCPHandshakeTimeout \<equiv> 60 * second"

abbreviation (input) "TCPFin \<equiv> (0x01 :: byte)"
abbreviation (input) "TCPSyn \<equiv> (0x02 :: byte)"
abbreviation (input) "TCPRst \<equiv> (0x04 :: byte)"
abbreviation (input) "TCPPush \<equiv> (0x08 :: byte)"
abbreviation (input) "TCPAck \<equiv> (0x10 :: byte)"
abbreviation (input) "TCPUrg \<equiv> (0x20 :: byte)"

definition has_flag :: "byte \<Rightarrow> byte \<Rightarrow> bool" where
  "has_flag flags f \<longleftrightarrow> flags AND f \<noteq> 0"

datatype TCPState =
    TCPStateNew | TCPStateSynSent | TCPStateSynReceived | TCPStateEstablished
  | TCPStateFinWait1 | TCPStateFinWait2 | TCPStateClosing | TCPStateTimeWait
  | TCPStateCloseWait | TCPStateLastAck | TCPStateClosed

record TCPConnTrack = PortConnTrack +
  state :: TCPState
  tombstone :: bool

definition IsSupersededBy :: "TCPConnTrack \<Rightarrow> byte \<Rightarrow> bool" where
  "IsSupersededBy t flags \<longleftrightarrow>
     tombstone t \<or> has_flag flags TCPSyn \<and> \<not> has_flag flags TCPAck \<and> state t = TCPStateTimeWait"

record TCPTracker =
  connections :: "(ConnKey \<rightharpoonup> TCPConnTrack) option"
  tcp_timeout :: duration
  waitTimeout :: duration
  tcp_events :: "EventFields list"

definition NewTCPTracker :: "duration \<Rightarrow> TCPTracker" where
  "NewTCPTracker timeout =
     (if timeout = 0
      then \<lparr>connections = Some Map.empty, tcp_timeout = DefaultTCPTimeout, waitTimeout = TimeWaitTimeout, tcp_events = []\<rparr>
      else \<lparr>connections = Some Map.empty, tcp_timeout = timeout, waitTimeout = timeout sdiv 45, tcp_events = []\<rparr>)"

definition tcp_conn :: "TCPTracker \<Rightarrow> ConnKey \<rightharpoonup> TCPConnTrack" where
  "tcp_conn t key = Option.bind (connections t) (\<lambda>m. m key)"

definition tcp_sendEvent :: "TCPTracker \<Rightarrow> flow_type \<Rightarrow> TCPConnTrack \<Rightarrow> bytes \<Rightarrow> TCPTracker" where
  "tcp_sendEvent t typ conn ruleID = t\<lparr>tcp_events := tcp_events t @ [port_event TCP typ conn ruleID]\<rparr>"

text \<open>The state the \<open>switch\<close> of \<open>updateState\<close> assigns; \<^const>\<open>TCPStateNew\<close>, the zero value, means none.\<close>

definition new_state :: "TCPState \<Rightarrow> Direction \<Rightarrow> byte \<Rightarrow> Direction \<Rightarrow> TCPState" where
  "new_state currentState conn_dir flags packetDir =
     (case currentState of
        TCPStateNew \<Rightarrow>
          if has_flag flags TCPSyn \<and> \<not> has_flag flags TCPAck
          then (if conn_dir = Egress then TCPStateSynSent else TCPStateSynReceived)
          else TCPStateNew
      | TCPStateSynSent \<Rightarrow>
          if has_flag flags TCPSyn \<and> has_flag flags TCPAck
          then (if packetDir \<noteq> conn_dir then TCPStateEstablished else TCPStateSynReceived)
          else TCPStateNew
      | TCPStateSynReceived \<Rightarrow>
          if has_flag flags TCPAck \<and> \<not> has_flag flags TCPSyn
          then (if packetDir = conn_dir then TCPStateEstablished else TCPStateNew)
          else TCPStateNew
      | TCPStateEstablished \<Rightarrow>
          if has_flag flags TCPFin
          then (if packetDir = conn_dir then TCPStateFinWait1 else TCPStateCloseWait)
          else TCPStateNew
      | TCPStateFinWait1 \<Rightarrow>
          if packetDir \<noteq> conn_dir
          then (if has_flag flags TCPFin \<and> has_flag flags TCPAck then TCPStateClosing
                else if has_flag flags TCPFin then TCPStateClosing
                else if has_flag flags TCPAck then TCPStateFinWait2
                else TCPStateNew)
          else TCPStateNew
      | TCPStateFinWait2 \<Rightarrow> if has_flag flags TCPFin then TCPStateTimeWait else TCPStateNew
      | TCPStateClosing \<Rightarrow> if has_flag flags TCPAck then TCPStateTimeWait else TCPStateNew
      | TCPStateCloseWait \<Rightarrow> if has_flag flags TCPFin then TCPStateLastAck else TCPStateNew
      | TCPStateLastAck \<Rightarrow> if has_flag flags TCPAck then TCPStateClosed else TCPStateNew
      | TCPStateTimeWait \<Rightarrow> TCPStateNew
      | TCPStateClosed \<Rightarrow> TCPStateNew)"

definition updateState ::
    "time \<Rightarrow> TCPTracker \<Rightarrow> TCPConnTrack \<Rightarrow> byte \<Rightarrow> Direction \<Rightarrow> int \<Rightarrow> TCPTracker \<times> TCPConnTrack" where
  "updateState now t conn0 flags packetDir sz =
     (let conn = UpdateCounters (UpdateLastSeen now conn0) packetDir sz;
          currentState = state conn
      in if has_flag flags TCPRst
         then let conn' = conn\<lparr>state := TCPStateClosed, tombstone := True\<rparr>
              in (tcp_sendEvent t TypeEnd conn' [], conn')
         else let newState = new_state currentState (Direction conn) flags packetDir
              in if newState \<noteq> TCPStateNew
                 then let conn' = conn\<lparr>state := newState\<rparr>
                      in (case newState of
                            TCPStateTimeWait \<Rightarrow> (tcp_sendEvent t TypeEnd conn' [], conn')
                          | TCPStateClosed \<Rightarrow>
                              (let conn'' = conn'\<lparr>tombstone := True\<rparr>
                               in (tcp_sendEvent t TypeEnd conn'' [], conn''))
                          | _ \<Rightarrow> (t, conn'))
                 else (t, conn))"

text \<open>Storing the object a pointer of the table leads to.\<close>

definition put_conn :: "TCPTracker \<Rightarrow> ConnKey \<Rightarrow> TCPConnTrack \<Rightarrow> TCPTracker" where
  "put_conn t key conn = t\<lparr>connections := map_option (\<lambda>m. m(key \<mapsto> conn)) (connections t)\<rparr>"

definition update_conn :: "time \<Rightarrow> TCPTracker \<Rightarrow> ConnKey \<Rightarrow> TCPConnTrack \<Rightarrow> byte \<Rightarrow> Direction \<Rightarrow> int \<Rightarrow> TCPTracker" where
  "update_conn now t key conn flags packetDir sz =
     (case updateState now t conn flags packetDir sz of (t', conn') \<Rightarrow> put_conn t' key conn')"

definition updateIfExists ::
    "time \<Rightarrow> TCPTracker \<Rightarrow> ConnKey \<Rightarrow> byte \<Rightarrow> Direction \<Rightarrow> int \<Rightarrow> TCPTracker \<times> 16 word \<times> bool" where
  "updateIfExists now t key flags direction sz =
     (case tcp_conn t key of
        Some conn \<Rightarrow>
          if \<not> IsSupersededBy conn flags
          then (update_conn now t key conn flags direction sz, ucast (DNATOrigPort conn), True)
          else (t, 0, False)
      | None \<Rightarrow> (t, 0, False))"

definition conn_key :: "Addr \<Rightarrow> Addr \<Rightarrow> 16 word \<Rightarrow> 16 word \<Rightarrow> ConnKey" where
  "conn_key srcIP dstIP srcPort dstPort = \<lparr>SrcIP = srcIP, DstIP = dstIP, SrcPort = srcPort, DstPort = dstPort\<rparr>"

definition tcp_track ::
    "time \<Rightarrow> uuid \<Rightarrow> TCPTracker \<Rightarrow> Addr \<Rightarrow> Addr \<Rightarrow> 16 word \<Rightarrow> 16 word \<Rightarrow> byte \<Rightarrow> Direction \<Rightarrow> bytes \<Rightarrow> int \<Rightarrow> 16 word
      \<Rightarrow> TCPTracker option" where
  "tcp_track now flow t srcIP dstIP srcPort dstPort flags direction ruleID sz origPort =
     (let key = conn_key srcIP dstIP srcPort dstPort in
      case updateIfExists now t key flags direction sz of
        (t1, _, exists) \<Rightarrow>
          if exists \<or> \<not> has_flag flags TCPSyn then Some t1
          else
            let conn = PortConnTrack.extend
                  (BaseConnTrack.extend ((base_conn flow direction srcIP dstIP)\<lparr>DNATOrigPort := ucast origPort\<rparr>)
                     (PortConnTrack.fields srcPort dstPort))
                  (TCPConnTrack.fields TCPStateNew False)
            in (case updateState now t1 conn flags direction sz of
                  (t2, conn') \<Rightarrow>
                    if connections t2 = None then None
                    else Some (tcp_sendEvent (put_conn t2 key conn') TypeStart conn' ruleID)))"

definition tcp_TrackOutbound ::
    "time \<Rightarrow> uuid \<Rightarrow> TCPTracker \<Rightarrow> Addr \<Rightarrow> Addr \<Rightarrow> 16 word \<Rightarrow> 16 word \<Rightarrow> byte \<Rightarrow> int \<Rightarrow> (TCPTracker \<times> 16 word) option" where
  "tcp_TrackOutbound now flow t srcIP dstIP srcPort dstPort flags sz =
     (case updateIfExists now t (conn_key dstIP srcIP dstPort srcPort) flags Egress sz of
        (t1, origPort, exists) \<Rightarrow>
          if exists then Some (t1, origPort)
          else map_option (\<lambda>t2. (t2, 0)) (tcp_track now flow t1 srcIP dstIP srcPort dstPort flags Egress [] sz 0))"

definition tcp_TrackInbound ::
    "time \<Rightarrow> uuid \<Rightarrow> TCPTracker \<Rightarrow> Addr \<Rightarrow> Addr \<Rightarrow> 16 word \<Rightarrow> 16 word \<Rightarrow> byte \<Rightarrow> bytes \<Rightarrow> int \<Rightarrow> 16 word \<Rightarrow> TCPTracker option" where
  "tcp_TrackInbound now flow t srcIP dstIP srcPort dstPort flags ruleID sz dnatOrigPort =
     tcp_track now flow t srcIP dstIP srcPort dstPort flags Ingress ruleID sz dnatOrigPort"

definition isValidFlagCombination :: "byte \<Rightarrow> bool" where
  "isValidFlagCombination flags =
     (if has_flag flags TCPSyn \<and> has_flag flags TCPFin then False
      else if has_flag flags TCPRst \<and> (has_flag flags TCPSyn \<or> has_flag flags TCPFin) then False
      else True)"

definition isValidStateForFlags :: "TCPState \<Rightarrow> byte \<Rightarrow> bool" where
  "isValidStateForFlags s flags =
     (if \<not> isValidFlagCombination flags then False
      else if has_flag flags TCPRst then (if s = TCPStateSynSent then has_flag flags TCPAck else True)
      else case s of
        TCPStateNew \<Rightarrow> has_flag flags TCPSyn \<and> \<not> has_flag flags TCPAck
      | TCPStateSynSent \<Rightarrow> has_flag flags TCPSyn \<and> has_flag flags TCPAck
      | TCPStateSynReceived \<Rightarrow> has_flag flags TCPAck
      | TCPStateEstablished \<Rightarrow> has_flag flags TCPAck
      | TCPStateFinWait1 \<Rightarrow> has_flag flags TCPFin \<or> has_flag flags TCPAck
      | TCPStateFinWait2 \<Rightarrow> has_flag flags TCPFin \<or> has_flag flags TCPAck
      | TCPStateClosing \<Rightarrow> has_flag flags TCPAck
      | TCPStateTimeWait \<Rightarrow> has_flag flags TCPAck
      | TCPStateCloseWait \<Rightarrow> has_flag flags TCPFin \<or> has_flag flags TCPAck
      | TCPStateLastAck \<Rightarrow> has_flag flags TCPAck
      | TCPStateClosed \<Rightarrow> has_flag flags TCPAck)"

definition tcp_IsValidInbound ::
    "time \<Rightarrow> TCPTracker \<Rightarrow> Addr \<Rightarrow> Addr \<Rightarrow> 16 word \<Rightarrow> 16 word \<Rightarrow> byte \<Rightarrow> int \<Rightarrow> TCPTracker \<times> bool" where
  "tcp_IsValidInbound now t srcIP dstIP srcPort dstPort flags sz =
     (let key = conn_key dstIP srcIP dstPort srcPort in
      case tcp_conn t key of
        None \<Rightarrow> (t, False)
      | Some conn \<Rightarrow>
          if IsSupersededBy conn flags then (t, False)
          else if \<not> isValidStateForFlags (state conn) flags
            then (t, state conn = TCPStateEstablished)
          else (update_conn now t key conn flags Ingress sz, True))"

text \<open>One turn of the loop of \<open>cleanup\<close>, for the entry at \<open>key\<close>.\<close>

definition tcp_cleanup_key :: "time \<Rightarrow> TCPTracker \<Rightarrow> ConnKey \<Rightarrow> TCPTracker" where
  "tcp_cleanup_key now t key =
     (case tcp_conn t key of
        None \<Rightarrow> t
      | Some conn \<Rightarrow>
          let t' = t\<lparr>connections := map_option (\<lambda>m. m(key := None)) (connections t)\<rparr> in
          if tombstone conn then t'
          else
            let timeout = (case state conn of
                    TCPStateTimeWait \<Rightarrow> waitTimeout t
                  | TCPStateEstablished \<Rightarrow> tcp_timeout t
                  | _ \<Rightarrow> TCPHandshakeTimeout)
            in if timeoutExceeded now conn timeout
               then (if state conn \<noteq> TCPStateTimeWait then tcp_sendEvent t' TypeEnd conn [] else t')
               else t)"

definition tcp_cleanup :: "time \<Rightarrow> ConnKey list \<Rightarrow> TCPTracker \<Rightarrow> TCPTracker" where
  "tcp_cleanup now keys t = foldl (tcp_cleanup_key now) t keys"

definition tcp_Close :: "TCPTracker \<Rightarrow> TCPTracker" where
  "tcp_Close t = t\<lparr>connections := None\<rparr>"

section \<open>Runs of the tracker\<close>

datatype tcp_op =
    Outbound time uuid Addr Addr "16 word" "16 word" byte int
  | Inbound time uuid Addr Addr "16 word" "16 word" byte bytes int "16 word"
  | CheckInbound time Addr Addr "16 word" "16 word" byte int
  | Cleanup time "ConnKey list"

definition tcp_step :: "TCPTracker \<Rightarrow> tcp_op \<Rightarrow> TCPTracker" where
  "tcp_step t a =
     (case a of
        Outbound now flow srcIP dstIP srcPort dstPort flags sz \<Rightarrow>
          (case tcp_TrackOutbound now flow t srcIP dstIP srcPort dstPort flags sz of Some (t', _) \<Rightarrow> t' | None \<Rightarrow> t)
      | Inbound now flow srcIP dstIP srcPort dstPort flags ruleID sz dnat \<Rightarrow>
          (case tcp_TrackInbound now flow t srcIP dstIP srcPort dstPort flags ruleID sz dnat of Some t' \<Rightarrow> t' | None \<Rightarrow> t)
      | CheckInbound now srcIP dstIP srcPort dstPort flags sz \<Rightarrow>
          fst (tcp_IsValidInbound now t srcIP dstIP srcPort dstPort flags sz)
      | Cleanup now keys \<Rightarrow> tcp_cleanup now keys t)"

text \<open>The keys a packet may open: its own, when it carries SYN.\<close>

definition tcp_opens :: "tcp_op \<Rightarrow> ConnKey set" where
  "tcp_opens a =
     (case a of
        Outbound now flow srcIP dstIP srcPort dstPort flags sz \<Rightarrow>
          (if has_flag flags TCPSyn then {conn_key srcIP dstIP srcPort dstPort} else {})
      | Inbound now flow srcIP dstIP srcPort dstPort flags ruleID sz dnat \<Rightarrow>
          (if has_flag flags TCPSyn then {conn_key srcIP dstIP srcPort dstPort} else {})
      | CheckInbound now srcIP dstIP srcPort dstPort flags sz \<Rightarrow> {}
      | Cleanup now keys \<Rightarrow> {})"

lemma updateState_tracker:
  "connections (fst (updateState now t c flags dir sz)) = connections t"
  by (auto simp: updateState_def tcp_sendEvent_def Let_def split: TCPState.split)

lemma tcp_conn_sendEvent [simp]: "tcp_conn (tcp_sendEvent t typ c r) = tcp_conn t"
  by (simp add: tcp_conn_def tcp_sendEvent_def fun_eq_iff)

lemma tcp_conn_updateState [simp]: "tcp_conn (fst (updateState now t c flags dir sz)) = tcp_conn t"
  by (simp add: tcp_conn_def updateState_tracker fun_eq_iff)

lemma updateState_table:
  "updateState now t c flags dir sz = (t', c') \<Longrightarrow> connections t' = connections t \<and> tcp_conn t' = tcp_conn t"
  using updateState_tracker [of now t c flags dir sz] tcp_conn_updateState [of now t c flags dir sz] by simp

lemma tcp_conn_put [simp]:
  "tcp_conn (put_conn t key c) = (if connections t = None then Map.empty else (tcp_conn t)(key \<mapsto> c))"
  by (auto simp: tcp_conn_def put_conn_def fun_eq_iff)

lemma tcp_conn_Some [simp]: "connections t = Some m \<Longrightarrow> tcp_conn t = m"
  by (simp add: tcp_conn_def fun_eq_iff)

lemma tcp_conn_nil: "connections t = None \<Longrightarrow> tcp_conn t = Map.empty"
  by (simp add: tcp_conn_def fun_eq_iff)

lemma tcp_conn_update:
  "tcp_conn t key = Some c \<Longrightarrow>
   tcp_conn (update_conn now t key c flags dir sz) =
     (tcp_conn t)(key \<mapsto> snd (updateState now t c flags dir sz))"
  using tcp_conn_nil [of t]
  by (auto simp: update_conn_def dest: updateState_table split: prod.split)

lemma tcp_conn_cleanup_key:
  "tcp_conn (tcp_cleanup_key now t key) = tcp_conn t \<or>
   tcp_conn (tcp_cleanup_key now t key) = (tcp_conn t)(key := None)"
  by (cases "connections t")
     (auto simp: tcp_cleanup_key_def tcp_conn_def tcp_sendEvent_def Let_def fun_eq_iff split: option.split)

lemma dom_updateIfExists: "dom (tcp_conn (fst (updateIfExists now t key flags dir sz))) = dom (tcp_conn t)"
  by (auto simp: updateIfExists_def tcp_conn_update split: option.splits)

lemma updateIfExists_dom:
  "updateIfExists now t key flags dir sz = (t', p, e) \<Longrightarrow> dom (tcp_conn t') = dom (tcp_conn t)"
  using dom_updateIfExists [of now t key flags dir sz] by simp

lemma dom_track:
  "tcp_track now flow t s d sp dp flags dir ruleID sz orig = Some t' \<Longrightarrow>
   dom (tcp_conn t') \<subseteq> dom (tcp_conn t) \<union> (if has_flag flags TCPSyn then {conn_key s d sp dp} else {})"
  by (auto simp: tcp_track_def Let_def split: prod.splits if_splits
      dest!: updateIfExists_dom updateState_table)

lemma dom_cleanup: "dom (tcp_conn (tcp_cleanup now keys t)) \<subseteq> dom (tcp_conn t)"
proof -
  have "dom (tcp_conn (foldl (tcp_cleanup_key now) t keys)) \<subseteq> dom (tcp_conn t)"
  proof (induction keys arbitrary: t)
    case (Cons k keys)
    have "dom (tcp_conn (tcp_cleanup_key now t k)) \<subseteq> dom (tcp_conn t)"
      using tcp_conn_cleanup_key [of now t k] by (auto split: if_splits)
    with Cons [of "tcp_cleanup_key now t k"] show ?case by auto
  qed simp
  then show ?thesis by (simp add: tcp_cleanup_def)
qed

interpretation tcp_flows: flow_table tcp_step "\<lambda>t. dom (tcp_conn t)" tcp_opens
proof
  fix t a
  show "dom (tcp_conn (tcp_step t a)) \<subseteq> dom (tcp_conn t) \<union> tcp_opens a"
  proof (cases a)
    case (Outbound now flow s d sp dp flags sz)
    obtain t1 p e where u: "updateIfExists now t (conn_key d s dp sp) flags Egress sz = (t1, p, e)"
      by (metis prod.exhaust)
    show ?thesis
      using updateIfExists_dom [OF u] dom_track [of now flow t1 s d sp dp flags Egress "[]" sz 0]
      by (cases "tcp_track now flow t1 s d sp dp flags Egress [] sz 0")
         (auto simp: Outbound tcp_step_def tcp_opens_def tcp_TrackOutbound_def u)
  next
    case (Inbound now flow s d sp dp flags r sz o')
    then show ?thesis
      using dom_track [of now flow t s d sp dp flags Ingress r sz o']
      by (cases "tcp_track now flow t s d sp dp flags Ingress r sz o'")
         (auto simp: tcp_step_def tcp_opens_def tcp_TrackInbound_def)
  next
    case (CheckInbound now s d sp dp flags sz)
    then show ?thesis
      by (auto simp: tcp_step_def tcp_opens_def tcp_IsValidInbound_def tcp_conn_update Let_def split: option.splits if_splits)
  next
    case (Cleanup now keys)
    then show ?thesis using dom_cleanup by (simp add: tcp_step_def tcp_opens_def)
  qed
qed

section \<open>Accounting of flows\<close>

definition flow_count :: "flow_type \<Rightarrow> EventFields list \<Rightarrow> uuid \<Rightarrow> nat" where
  "flow_count typ l f = length (filter (\<lambda>e. e_Type e = typ \<and> e_FlowID e = f) l)"

definition finished :: "TCPConnTrack \<Rightarrow> bool" where
  "finished c \<longleftrightarrow> state c = TCPStateTimeWait \<or> state c = TCPStateClosed"

definition conn_ok :: "TCPConnTrack \<Rightarrow> bool" where
  "conn_ok c \<longleftrightarrow> (tombstone c \<longleftrightarrow> state c = TCPStateClosed)"

definition flow_inv :: "(ConnKey \<rightharpoonup> TCPConnTrack) \<Rightarrow> EventFields list \<Rightarrow> bool" where
  "flow_inv m l \<longleftrightarrow>
     (\<forall>k c. m k = Some c \<longrightarrow>
        conn_ok c \<and> flow_count TypeStart l (FlowId c) = 1 \<and>
        flow_count TypeEnd l (FlowId c) = (if finished c then 1 else 0)) \<and>
     (\<forall>k k' c c'. m k = Some c \<longrightarrow> m k' = Some c' \<longrightarrow> FlowId c = FlowId c' \<longrightarrow> k = k') \<and>
     (\<forall>f. (\<forall>k c. m k = Some c \<longrightarrow> FlowId c \<noteq> f) \<longrightarrow>
        flow_count TypeStart l f \<le> 1 \<and> flow_count TypeEnd l f = flow_count TypeStart l f)"

lemma flow_count_append [simp]: "flow_count typ (l @ l') f = flow_count typ l f + flow_count typ l' f"
  by (simp add: flow_count_def)

lemma flow_count_single [simp]:
  "flow_count typ [e] f = (if e_Type e = typ \<and> e_FlowID e = f then 1 else 0)" "flow_count typ [] f = 0"
  by (simp_all add: flow_count_def)

lemma port_event_sel [simp]: "e_Type (port_event p typ c r) = typ" "e_FlowID (port_event p typ c r) = FlowId c"
  by (simp_all add: port_event_def)

lemma flow_invD:
  assumes "flow_inv m l"
  shows "m k = Some c \<Longrightarrow> conn_ok c" "m k = Some c \<Longrightarrow> flow_count TypeStart l (FlowId c) = 1"
    "m k = Some c \<Longrightarrow> flow_count TypeEnd l (FlowId c) = (if finished c then 1 else 0)"
    "m k = Some c \<Longrightarrow> m k' = Some c' \<Longrightarrow> FlowId c = FlowId c' \<Longrightarrow> k = k'"
    "(\<And>k c. m k = Some c \<Longrightarrow> FlowId c \<noteq> f) \<Longrightarrow>
       flow_count TypeStart l f \<le> 1 \<and> flow_count TypeEnd l f = flow_count TypeStart l f"
  using assms unfolding flow_inv_def by blast+

lemma flow_inv_put:
  assumes inv: "flow_inv m l" and c: "m k = Some c" and c': "conn_ok c'" "FlowId c' = FlowId c"
    and e: "e_Type e = TypeEnd" "e_FlowID e = FlowId c" and fin: "finished c \<Longrightarrow> finished c'"
  shows "flow_inv (m(k \<mapsto> c')) (l @ (if finished c' \<and> \<not> finished c then [e] else []))"
  unfolding flow_inv_def
proof (intro conjI allI impI)
  fix k1 c1 k2 c2
  assume *: "(m(k \<mapsto> c')) k1 = Some c1"
  note d = flow_invD [OF inv]
  note c1 = d(1-3) [of k1 c1] d(1-3) [OF c] d(4) [of k1 c1 k c, OF _ c]
  show "conn_ok c1" using * c1 c' by (auto split: if_splits)
  show "flow_count TypeStart (l @ (if finished c' \<and> \<not> finished c then [e] else [])) (FlowId c1) = 1"
    using * c1 c' e by (auto split: if_splits)
  show "flow_count TypeEnd (l @ (if finished c' \<and> \<not> finished c then [e] else [])) (FlowId c1) = (if finished c1 then 1 else 0)"
    using * c1 c' e fin by (auto split: if_splits)
  assume "(m(k \<mapsto> c')) k2 = Some c2" "FlowId c1 = FlowId c2"
  with * show "k1 = k2" using d(4) [of k1 c1 k2 c2] d(4) [OF c, of k2 c2] c1(7) c' by (auto split: if_splits)
next
  fix f assume *: "\<forall>k1 c1. (m(k \<mapsto> c')) k1 = Some c1 \<longrightarrow> FlowId c1 \<noteq> f"
  have f: "f \<noteq> FlowId c" using * c' by (metis fun_upd_same)
  have f': "FlowId c1 \<noteq> f" if "m k1 = Some c1" for k1 c1
    using that * [rule_format, of k1 c1] c f by (cases "k1 = k") auto
  note d = flow_invD(5) [OF inv, of f, OF f']
  show "flow_count TypeStart (l @ (if finished c' \<and> \<not> finished c then [e] else [])) f \<le> 1"
    "flow_count TypeEnd (l @ (if finished c' \<and> \<not> finished c then [e] else [])) f =
     flow_count TypeStart (l @ (if finished c' \<and> \<not> finished c then [e] else [])) f"
    using d e f by auto
qed

lemma flow_inv_open:
  assumes inv: "flow_inv m l" and old: "\<And>c. m k = Some c \<Longrightarrow> finished c"
    and fresh: "flow_count TypeStart l (FlowId c') = 0" and c': "conn_ok c'"
    and s: "e_Type s = TypeStart" "e_FlowID s = FlowId c'" and e: "e_Type e = TypeEnd" "e_FlowID e = FlowId c'"
  shows "flow_inv (m(k \<mapsto> c')) (l @ (if finished c' then [e] else []) @ [s])"
  unfolding flow_inv_def
proof (intro conjI allI impI)
  have other: "m k1 = Some c1 \<Longrightarrow> FlowId c1 \<noteq> FlowId c'" for k1 c1
    using flow_invD(2) [OF inv, of k1 c1] fresh by auto
  then have none: "flow_count TypeEnd l (FlowId c') = 0" using flow_invD(5) [OF inv] fresh by metis
  fix k1 c1 k2 c2
  assume *: "(m(k \<mapsto> c')) k1 = Some c1"
  note c1 = flow_invD(1-3) [OF inv, of k1 c1] other [of k1 c1]
  show "conn_ok c1" using * c1 c' by (auto split: if_splits)
  show "flow_count TypeStart (l @ (if finished c' then [e] else []) @ [s]) (FlowId c1) = 1"
    "flow_count TypeEnd (l @ (if finished c' then [e] else []) @ [s]) (FlowId c1) = (if finished c1 then 1 else 0)"
    using * c1 s e fresh none by (auto split: if_splits)
  assume "(m(k \<mapsto> c')) k2 = Some c2" "FlowId c1 = FlowId c2"
  with * show "k1 = k2" using flow_invD(4) [OF inv, of k1 c1 k2 c2] other by (auto split: if_splits)
next
  fix f assume *: "\<forall>k1 c1. (m(k \<mapsto> c')) k1 = Some c1 \<longrightarrow> FlowId c1 \<noteq> f"
  then have ne: "FlowId c' \<noteq> f" by (auto split: if_splits)
  have "flow_count TypeStart l f \<le> 1 \<and> flow_count TypeEnd l f = flow_count TypeStart l f"
  proof (cases "\<exists>c. m k = Some c \<and> FlowId c = f")
    case True
    then show ?thesis using flow_invD(2,3) [OF inv, of k] old by auto
  next
    case False
    with * show ?thesis by (intro flow_invD(5) [OF inv]) (metis fun_upd_other)
  qed
  then show "flow_count TypeStart (l @ (if finished c' then [e] else []) @ [s]) f \<le> 1"
    "flow_count TypeEnd (l @ (if finished c' then [e] else []) @ [s]) f =
     flow_count TypeStart (l @ (if finished c' then [e] else []) @ [s]) f"
    using s e ne by auto
qed

lemma flow_inv_drop:
  assumes inv: "flow_inv m l" and c: "m k = Some c" and e: "e_Type e = TypeEnd" "e_FlowID e = FlowId c"
  shows "flow_inv (m(k := None)) (l @ (if finished c then [] else [e]))"
  unfolding flow_inv_def
proof (intro conjI allI impI)
  fix k1 c1 k2 c2
  assume *: "(m(k := None)) k1 = Some c1"
  then have m1: "m k1 = Some c1" "FlowId c1 \<noteq> FlowId c"
    using flow_invD(4) [OF inv, of k1 c1 k c] c by (auto split: if_splits)
  note c1 = flow_invD(1-3) [OF inv m1(1)]
  show "conn_ok c1" by (rule c1)
  show "flow_count TypeStart (l @ (if finished c then [] else [e])) (FlowId c1) = 1"
    "flow_count TypeEnd (l @ (if finished c then [] else [e])) (FlowId c1) = (if finished c1 then 1 else 0)"
    using c1 m1 e by auto
  assume "(m(k := None)) k2 = Some c2" "FlowId c1 = FlowId c2"
  then show "k1 = k2" using flow_invD(4) [OF inv m1(1), of k2 c2] by (auto split: if_splits)
next
  fix f assume *: "\<forall>k1 c1. (m(k := None)) k1 = Some c1 \<longrightarrow> FlowId c1 \<noteq> f"
  have "FlowId c \<noteq> f \<Longrightarrow> flow_count TypeStart l f \<le> 1 \<and> flow_count TypeEnd l f = flow_count TypeStart l f"
    using * c by (intro flow_invD(5) [OF inv]) (metis fun_upd_other option.inject)
  then show "flow_count TypeStart (l @ (if finished c then [] else [e])) f \<le> 1"
    "flow_count TypeEnd (l @ (if finished c then [] else [e])) f =
     flow_count TypeStart (l @ (if finished c then [] else [e])) f"
    using flow_invD(2,3) [OF inv c] e by (cases "FlowId c = f"; auto)+
qed

text \<open>
  The caller's side of the accounting: an identifier from \<open>uuid.New\<close> is not in the log yet, and
  no packet with RST arrives for a connection in TIME-WAIT.
\<close>

definition no_late_rst :: "TCPTracker \<Rightarrow> byte \<Rightarrow> ConnKey \<Rightarrow> bool" where
  "no_late_rst t flags key \<longleftrightarrow>
     \<not> (has_flag flags TCPRst \<and> map_option state (tcp_conn t key) = Some TCPStateTimeWait)"

definition tcp_legal :: "TCPTracker \<Rightarrow> tcp_op \<Rightarrow> bool" where
  "tcp_legal t a =
     (case a of
        Outbound now flow s d sp dp flags sz \<Rightarrow>
          flow_count TypeStart (tcp_events t) flow = 0 \<and>
          no_late_rst t flags (conn_key s d sp dp) \<and> no_late_rst t flags (conn_key d s dp sp)
      | Inbound now flow s d sp dp flags ruleID sz dnat \<Rightarrow>
          flow_count TypeStart (tcp_events t) flow = 0 \<and> no_late_rst t flags (conn_key s d sp dp)
      | CheckInbound now s d sp dp flags sz \<Rightarrow> no_late_rst t flags (conn_key d s dp sp)
      | Cleanup now keys \<Rightarrow> True)"

definition tcp_inv :: "TCPTracker \<Rightarrow> bool" where
  "tcp_inv t \<longleftrightarrow> connections t \<noteq> None \<and> flow_inv (tcp_conn t) (tcp_events t)"

lemma updateState_flow:
  assumes "updateState now t c flags dir sz = (t', c')" and "state c \<noteq> TCPStateClosed" and "\<not> tombstone c"
    and "\<not> (has_flag flags TCPRst \<and> state c = TCPStateTimeWait)"
  shows "FlowId c' = FlowId c" and "conn_ok c'" and "finished c \<Longrightarrow> finished c'"
    and "tcp_events t' = tcp_events t @ (if finished c' \<and> \<not> finished c then [port_event TCP TypeEnd c' []] else [])"
proof -
  let ?c = "UpdateCounters (UpdateLastSeen now c) dir sz"
  have sel: "state ?c = state c" "tombstone ?c = tombstone c" "FlowId ?c = FlowId c"
    by (simp_all add: UpdateCounters_def UpdateLastSeen_def)
  have nw: "new_state (state c) (Direction ?c) flags dir = TCPStateNew" if "state c = TCPStateTimeWait"
    using that by (simp add: new_state_def)
  show "FlowId c' = FlowId c" "conn_ok c'" "finished c \<Longrightarrow> finished c'"
    "tcp_events t' = tcp_events t @ (if finished c' \<and> \<not> finished c then [port_event TCP TypeEnd c' []] else [])"
    using assms sel nw
    by (auto simp: updateState_def Let_def conn_ok_def finished_def tcp_sendEvent_def
        split: if_splits TCPState.splits)
qed

lemma update_conn_inv:
  assumes inv: "tcp_inv t" and c: "tcp_conn t key = Some c" and live: "\<not> IsSupersededBy c flags"
    and quiet: "no_late_rst t flags key"
  shows "tcp_inv (update_conn now t key c flags dir sz)"
proof -
  obtain t' c' where u: "updateState now t c flags dir sz = (t', c')" by (metis prod.exhaust)
  have fi: "flow_inv (tcp_conn t) (tcp_events t)" using inv by (simp add: tcp_inv_def)
  have tomb: "\<not> tombstone c" "state c \<noteq> TCPStateClosed"
    using live flow_invD(1) [OF fi c] by (auto simp: IsSupersededBy_def conn_ok_def)
  have "\<not> (has_flag flags TCPRst \<and> state c = TCPStateTimeWait)" using quiet c by (simp add: no_late_rst_def)
  note f = updateState_flow [OF u tomb(2,1) this]
  have "flow_inv ((tcp_conn t)(key \<mapsto> c')) (tcp_events t')"
    unfolding f(4) by (rule flow_inv_put [OF fi c f(2,1)]) (simp_all add: f)
  moreover have "tcp_events (put_conn t' key c') = tcp_events t'" "connections (put_conn t' key c') \<noteq> None"
    using inv updateState_table [OF u] by (simp_all add: put_conn_def tcp_inv_def)
  ultimately show ?thesis
    using inv updateState_table [OF u] by (auto simp: update_conn_def u tcp_inv_def)
qed

lemma updateIfExists_inv:
  assumes "tcp_inv t" and "no_late_rst t flags key" and "updateIfExists now t key flags dir sz = (t', p, e)"
  shows "tcp_inv t'" and "\<not> e \<Longrightarrow> t' = t \<and> (\<forall>c. tcp_conn t key = Some c \<longrightarrow> IsSupersededBy c flags)"
  using assms update_conn_inv
  by (auto simp: updateIfExists_def split: option.splits if_splits)

lemma track_inv:
  assumes inv: "tcp_inv t" and fresh: "flow_count TypeStart (tcp_events t) flow = 0"
    and quiet: "no_late_rst t flags (conn_key s d sp dp)"
    and tr: "tcp_track now flow t s d sp dp flags dir ruleID sz orig = Some t'"
  shows "tcp_inv t'"
proof -
  let ?k = "conn_key s d sp dp"
  obtain t1 p e where u: "updateIfExists now t ?k flags dir sz = (t1, p, e)" by (metis prod.exhaust)
  note ui = updateIfExists_inv [OF inv quiet u]
  show ?thesis
  proof (cases "e \<or> \<not> has_flag flags TCPSyn")
    case True
    with tr u ui(1) show ?thesis by (simp add: tcp_track_def Let_def)
  next
    case False
    define c where "c = PortConnTrack.extend
        (BaseConnTrack.extend ((base_conn flow dir s d)\<lparr>DNATOrigPort := ucast orig\<rparr>) (PortConnTrack.fields sp dp))
        (TCPConnTrack.fields TCPStateNew False)"
    obtain t2 c' where us: "updateState now t c flags dir sz = (t2, c')" by (metis prod.exhaust)
    have sel: "FlowId c = flow" "state c = TCPStateNew" "\<not> tombstone c"
      by (simp_all add: c_def base_conn_def PortConnTrack.defs BaseConnTrack.defs TCPConnTrack.defs)
    have t': "t' = tcp_sendEvent (put_conn t2 ?k c') TypeStart c' ruleID"
      using tr False u ui(2) us by (simp add: tcp_track_def Let_def c_def [symmetric] split: if_splits)
    have "\<not> finished c" using sel by (simp add: finished_def)
    note f = updateState_flow [OF us, unfolded sel, simplified, OF sel(3)] this
    have fi: "flow_inv (tcp_conn t) (tcp_events t)" using inv by (simp add: tcp_inv_def)
    have "finished c0" if "tcp_conn t ?k = Some c0" for c0
      using that ui(2) False flow_invD(1) [OF fi that] by (auto simp: IsSupersededBy_def finished_def conn_ok_def)
    from flow_inv_open [OF fi this, of "?k" c' "port_event TCP TypeStart c' ruleID" "port_event TCP TypeEnd c' []"]
    have "flow_inv ((tcp_conn t)(?k \<mapsto> c')) (tcp_events t2 @ [port_event TCP TypeStart c' ruleID])"
      using f fresh by simp
    then show ?thesis
      using inv updateState_table [OF us] by (auto simp: t' tcp_inv_def tcp_sendEvent_def put_conn_def)
  qed
qed

lemma cleanup_key_inv:
  assumes inv: "tcp_inv t"
  shows "tcp_inv (tcp_cleanup_key now t key)"
proof (cases "tcp_conn t key")
  case None
  with inv show ?thesis by (simp add: tcp_cleanup_key_def)
next
  case (Some c)
  have fi: "flow_inv (tcp_conn t) (tcp_events t)" using inv by (simp add: tcp_inv_def)
  obtain m where m: "connections t = Some m" "tcp_conn t = m"
    using inv by (auto simp: tcp_inv_def)
  have ok: "conn_ok c" by (rule flow_invD(1) [OF fi Some])
  have drop: "flow_inv (m(key := None)) (tcp_events t @ (if finished c then [] else [port_event TCP TypeEnd c []]))"
    using flow_inv_drop [OF fi Some, of "port_event TCP TypeEnd c []"] m by simp
  show ?thesis
    using inv Some ok drop m
    by (auto simp: tcp_cleanup_key_def tcp_inv_def tcp_sendEvent_def conn_ok_def finished_def Let_def
        split: if_splits)
qed

interpretation tcp_machine: op_machine tcp_step tcp_legal tcp_inv
proof
  fix t a assume inv: "tcp_inv t" and legal: "tcp_legal t a"
  show "tcp_inv (tcp_step t a)"
  proof (cases a)
    case (Outbound now flow s d sp dp flags sz)
    then have l: "flow_count TypeStart (tcp_events t) flow = 0" "no_late_rst t flags (conn_key s d sp dp)"
        "no_late_rst t flags (conn_key d s dp sp)" using legal by (simp_all add: tcp_legal_def)
    obtain t1 p e where u: "updateIfExists now t (conn_key d s dp sp) flags Egress sz = (t1, p, e)"
      by (metis prod.exhaust)
    note ui = updateIfExists_inv [OF inv l(3) u] and tr = track_inv [OF inv l(1,2)]
    show ?thesis
      using ui tr inv by (cases e) (auto simp: Outbound tcp_step_def tcp_TrackOutbound_def u split: option.split)
  next
    case (Inbound now flow s d sp dp flags r sz o')
    then show ?thesis
      using track_inv [OF inv, of flow flags s d sp dp] legal inv
      by (auto simp: tcp_legal_def tcp_step_def tcp_TrackInbound_def split: option.split)
  next
    case (CheckInbound now s d sp dp flags sz)
    then show ?thesis
      using update_conn_inv [OF inv] legal inv
      by (auto simp: tcp_legal_def tcp_step_def tcp_IsValidInbound_def Let_def split: option.split)
  next
    case (Cleanup now keys)
    have "tcp_inv (foldl (tcp_cleanup_key now) t keys)"
      using inv by (induction keys arbitrary: t) (simp_all add: cleanup_key_inv)
    then show ?thesis by (simp add: Cleanup tcp_step_def tcp_cleanup_def)
  qed
qed

section \<open>Properties\<close>

text \<open>What \<open>IsValidInbound\<close> answered in a run.\<close>

fun tcp_verdicts :: "TCPTracker \<Rightarrow> tcp_op list \<Rightarrow> bool list" where
  "tcp_verdicts t [] = []"
| "tcp_verdicts t (CheckInbound now s d sp dp flags sz # as) =
     snd (tcp_IsValidInbound now t s d sp dp flags sz) #
     tcp_verdicts (fst (tcp_IsValidInbound now t s d sp dp flags sz)) as"
| "tcp_verdicts t (a # as) = tcp_verdicts (tcp_step t a) as"

lemma NewTCPTracker_sel [simp]:
  "tcp_conn (NewTCPTracker timeout) = Map.empty" "tcp_events (NewTCPTracker timeout) = []"
  "connections (NewTCPTracker timeout) = Some Map.empty"
  by (simp_all add: NewTCPTracker_def)

lemma IsValidInbound_dom:
  "snd (tcp_IsValidInbound now t s d sp dp flags sz) \<Longrightarrow> conn_key d s dp sp \<in> dom (tcp_conn t)"
  by (auto simp: tcp_IsValidInbound_def Let_def split: option.splits)

text \<open>
  C15. The stateful filter lets no inbound TCP packet through on its own: after any sequence of
  packets, checks and clean-ups, a packet passes \<open>IsValidInbound\<close> only if an earlier tracked packet
  carried SYN from its destination (address and port) to its source.
\<close>

theorem inbound_needs_syn:
  assumes "snd (tcp_IsValidInbound now (foldl tcp_step (NewTCPTracker timeout) as) s d sp dp flags sz)"
  shows "\<exists>a \<in> set as. conn_key d s dp sp \<in> tcp_opens a"
  using tcp_flows.opened [OF _ IsValidInbound_dom [OF assms]] by simp

text \<open>
  C14. Flow accounting: as long as identifiers are fresh and no RST meets a connection in TIME-WAIT, after
  any sequence of packets, checks and clean-ups each flow has at most one start event, and it has
  exactly one end event once its connection is finished or gone, and none before.
\<close>

theorem flow_accounting:
  assumes "legal_run tcp_legal tcp_step (NewTCPTracker timeout) as"
    and "t = foldl tcp_step (NewTCPTracker timeout) as"
  shows "flow_count TypeStart (tcp_events t) f \<le> 1 \<and>
    flow_count TypeEnd (tcp_events t) f =
      (if \<exists>k c. tcp_conn t k = Some c \<and> FlowId c = f \<and> \<not> finished c then 0
       else flow_count TypeStart (tcp_events t) f)"
proof -
  have "tcp_inv (NewTCPTracker timeout)" by (simp add: tcp_inv_def flow_inv_def)
  with assms have "flow_inv (tcp_conn t) (tcp_events t)"
    using tcp_machine.run_inv by (simp add: tcp_inv_def)
  note d = flow_invD [OF this]
  show ?thesis
  proof (cases "\<exists>k c. tcp_conn t k = Some c \<and> FlowId c = f")
    case True
    then obtain k c where c: "tcp_conn t k = Some c" "FlowId c = f" by blast
    have "c' = c" if "tcp_conn t k' = Some c'" "FlowId c' = f" for k' c'
      using d(4) [OF that(1) c(1)] that c by simp
    then have "(\<exists>k c. tcp_conn t k = Some c \<and> FlowId c = f \<and> \<not> finished c) \<longleftrightarrow> \<not> finished c"
      using c by blast
    with c(2) d(2,3) [OF c(1)] show ?thesis by simp
  next
    case False
    with d(5) [of f] show ?thesis by auto
  qed
qed

text \<open>The packets of a connection from \<open>a:p\<close> to \<open>b:q\<close> that is opened, used and closed by its initiator.\<close>

definition tcp_session :: "uuid \<Rightarrow> Addr \<Rightarrow> Addr \<Rightarrow> 16 word \<Rightarrow> 16 word \<Rightarrow> time \<Rightarrow> tcp_op list" where
  "tcp_session f a b p q now =
     [Outbound now f a b p q TCPSyn 60,
      CheckInbound now b a q p (TCPSyn OR TCPAck) 60,
      Outbound now (f + 1) a b p q TCPAck 52,
      CheckInbound now b a q p TCPAck 1400,
      Outbound now (f + 2) a b p q (TCPFin OR TCPAck) 52,
      CheckInbound now b a q p TCPAck 52,
      CheckInbound now b a q p (TCPFin OR TCPAck) 52,
      Outbound now (f + 3) a b p q TCPAck 52]"

lemmas tcp_eval = tcp_step_def tcp_TrackOutbound_def tcp_TrackInbound_def tcp_IsValidInbound_def tcp_track_def
  updateIfExists_def update_conn_def updateState_def put_conn_def tcp_sendEvent_def new_state_def
  IsSupersededBy_def has_flag_def isValidStateForFlags_def isValidFlagCombination_def
  UpdateCounters_def UpdateLastSeen_def base_conn_def port_event_def Let_def
  PortConnTrack.defs BaseConnTrack.defs TCPConnTrack.defs

text \<open>
  C16. A complete TCP session through the filter. For two different endpoints without an entry, the
  handshake, data and the four segments of the close all pass; the connection ends in TIME-WAIT
  and the flow log gains exactly its start and its end, with all packets and bytes counted.
\<close>

theorem session_accepted:
  assumes "connections t = Some m" and "m (conn_key a b p q) = None" and "m (conn_key b a q p) = None"
    and "(a, p) \<noteq> (b, q)"
  shows "tcp_verdicts t (tcp_session f a b p q now) = [True, True, True, True] \<and>
    map_option state (tcp_conn (foldl tcp_step t (tcp_session f a b p q now)) (conn_key a b p q)) = Some TCPStateTimeWait \<and>
    map (\<lambda>e. (e_Type e, e_FlowID e, e_TxPackets e, e_TxBytes e, e_RxPackets e, e_RxBytes e))
      (drop (length (tcp_events t)) (tcp_events (foldl tcp_step t (tcp_session f a b p q now)))) =
      [(TypeStart, f, 1, 60, 0, 0), (TypeEnd, f, 3, 164, 4, 1564)]"
proof -
  have "conn_key b a q p \<noteq> conn_key a b p q" using assms(4) by (auto simp: conn_key_def)
  with assms(1-3) show ?thesis by (simp add: tcp_session_def tcp_eval)
qed

definition ip_a :: Addr where "ip_a = Addr4 0x64400001"
definition ip_b :: Addr where "ip_b = Addr4 0x64400002"

lemma ip_ne [simp]: "ip_a \<noteq> ip_b" "ip_b \<noteq> ip_a"
  by (simp_all add: ip_a_def ip_b_def)

theorem inbound_needs_syn_witness:
  "snd (tcp_IsValidInbound 5 (foldl tcp_step (NewTCPTracker 0) [Outbound 1 1 ip_a ip_b 1000 443 TCPSyn 60])
      ip_b ip_a 443 1000 (TCPSyn OR TCPAck) 60) \<and>
   (\<exists>a \<in> {Outbound 1 1 ip_a ip_b 1000 443 TCPSyn 60}. conn_key ip_a ip_b 1000 443 \<in> tcp_opens a)"
proof -
  have "snd (tcp_IsValidInbound 5 (foldl tcp_step (NewTCPTracker 0) [Outbound 1 1 ip_a ip_b 1000 443 TCPSyn 60])
      ip_b ip_a 443 1000 (TCPSyn OR TCPAck) 60)"
    by (simp add: tcp_eval conn_key_def)
  with inbound_needs_syn [OF this] show ?thesis by simp
qed

theorem flow_accounting_witness:
  "flow_count TypeStart (tcp_events (foldl tcp_step (NewTCPTracker 0) (tcp_session 1 ip_a ip_b 1000 443 7))) 1 = 1 \<and>
   flow_count TypeEnd (tcp_events (foldl tcp_step (NewTCPTracker 0) (tcp_session 1 ip_a ip_b 1000 443 7))) 1 = 1"
proof -
  let ?t = "foldl tcp_step (NewTCPTracker 0) (tcp_session 1 ip_a ip_b 1000 443 7)"
  have l: "legal_run tcp_legal tcp_step (NewTCPTracker 0) (tcp_session 1 ip_a ip_b 1000 443 7)"
    by (simp add: tcp_session_def tcp_legal_def no_late_rst_def flow_count_def tcp_eval conn_key_def)
  have s: "flow_count TypeStart (tcp_events ?t) 1 = 1" "\<forall>k c. tcp_conn ?t k = Some c \<longrightarrow> finished c"
    by (simp_all add: tcp_session_def flow_count_def finished_def tcp_eval conn_key_def)
  from flow_accounting [OF l refl, of 1] s show ?thesis by (simp split: if_splits)
qed

theorem session_accepted_witness:
  "tcp_verdicts (NewTCPTracker 0) (tcp_session 1 ip_a ip_b 1000 443 7) = [True, True, True, True]"
  using session_accepted [of "NewTCPTracker 0" Map.empty ip_a ip_b 1000 443 1 7] by simp

text \<open>
  The assumption on RST is needed: after a complete session, a RST of the remote side passes the
  filter and ends the flow a second time.
\<close>

lemma rst_ends_twice:
  "flow_count TypeEnd (tcp_events (foldl tcp_step (NewTCPTracker 0)
     (tcp_session 1 ip_a ip_b 1000 443 7 @ [CheckInbound 8 ip_b ip_a 443 1000 TCPRst 40]))) 1 = 2"
  by (simp add: tcp_session_def flow_count_def tcp_eval conn_key_def)

text \<open>After \<open>Close\<close> the table is nil, and the first packet with SYN panics.\<close>

lemma track_after_close:
  "has_flag flags TCPSyn \<Longrightarrow> tcp_TrackOutbound now f (tcp_Close t) s d sp dp flags sz = None"
  by (auto simp: tcp_TrackOutbound_def tcp_track_def updateIfExists_def tcp_Close_def tcp_conn_def Let_def
      split: prod.split dest!: updateState_table)

end
