(* ===== verification/ConntrackDatagram.thy ===== *)
theory ConntrackDatagram
  imports Conntrack
begin

text \<open>
  Connection tracking of UDP and ICMP in the userspace packet filter:
  \<open>client/firewall/uspfilter/conntrack/udp.go\<close> and \<open>icmp.go\<close>. Conventions are those of the TCP
  tracker: the table is \<^const>\<open>None\<close> after \<open>Close\<close>, and a write to it then panics (result
  \<^const>\<open>None\<close>); the clock, fresh identifiers and iteration orders are arguments.
\<close>

section \<open>udp.go\<close>

abbreviation (input) "DefaultUDPTimeout \<equiv> 30 * second"

type_synonym UDPConnTrack = PortConnTrack

record UDPTracker =
  udp_conns :: "(ConnKey \<rightharpoonup> UDPConnTrack) option"
  udp_timeout :: duration
  udp_events :: "EventFields list"

definition NewUDPTracker :: "duration \<Rightarrow> UDPTracker" where
  "NewUDPTracker timeout =
     \<lparr>udp_conns = Some Map.empty, udp_timeout = (if timeout = 0 then DefaultUDPTimeout else timeout), udp_events = []\<rparr>"

definition udp_conn :: "UDPTracker \<Rightarrow> ConnKey \<rightharpoonup> UDPConnTrack" where
  "udp_conn t = (case udp_conns t of Some m \<Rightarrow> m | None \<Rightarrow> Map.empty)"

definition udp_put :: "UDPTracker \<Rightarrow> ConnKey \<Rightarrow> UDPConnTrack \<Rightarrow> UDPTracker" where
  "udp_put t key conn = t\<lparr>udp_conns := map_option (\<lambda>m. m(key \<mapsto> conn)) (udp_conns t)\<rparr>"

definition udp_sendEvent :: "UDPTracker \<Rightarrow> flow_type \<Rightarrow> UDPConnTrack \<Rightarrow> bytes \<Rightarrow> UDPTracker" where
  "udp_sendEvent t typ conn ruleID = t\<lparr>udp_events := udp_events t @ [port_event UDP typ conn ruleID]\<rparr>"

definition udp_updateIfExists ::
    "time \<Rightarrow> UDPTracker \<Rightarrow> ConnKey \<Rightarrow> Direction \<Rightarrow> int \<Rightarrow> UDPTracker \<times> 16 word \<times> bool" where
  "udp_updateIfExists now t key direction sz =
     (case udp_conn t key of
        Some conn \<Rightarrow>
          (udp_put t key (UpdateCounters (UpdateLastSeen now conn) direction sz), ucast (DNATOrigPort conn), True)
      | None \<Rightarrow> (t, 0, False))"

definition udp_track ::
    "time \<Rightarrow> uuid \<Rightarrow> UDPTracker \<Rightarrow> Addr \<Rightarrow> Addr \<Rightarrow> 16 word \<Rightarrow> 16 word \<Rightarrow> Direction \<Rightarrow> bytes \<Rightarrow> int \<Rightarrow> 16 word
      \<Rightarrow> UDPTracker option" where
  "udp_track now flow t srcIP dstIP srcPort dstPort direction ruleID sz origPort =
     (let key = conn_key srcIP dstIP srcPort dstPort in
      case udp_updateIfExists now t key direction sz of
        (t1, _, exists) \<Rightarrow>
          if exists then Some t1
          else
            let conn = BaseConnTrack.extend ((base_conn flow direction srcIP dstIP)\<lparr>DNATOrigPort := ucast origPort\<rparr>)
                  (PortConnTrack.fields srcPort dstPort);
                conn' = UpdateCounters (UpdateLastSeen now conn) direction sz
            in if udp_conns t1 = None then None
               else Some (udp_sendEvent (udp_put t1 key conn') TypeStart conn' ruleID))"

definition udp_TrackOutbound ::
    "time \<Rightarrow> uuid \<Rightarrow> UDPTracker \<Rightarrow> Addr \<Rightarrow> Addr \<Rightarrow> 16 word \<Rightarrow> 16 word \<Rightarrow> int \<Rightarrow> (UDPTracker \<times> 16 word) option" where
  "udp_TrackOutbound now flow t srcIP dstIP srcPort dstPort sz =
     (case udp_updateIfExists now t (conn_key dstIP srcIP dstPort srcPort) Egress sz of
        (t1, origPort, exists) \<Rightarrow>
          if exists then Some (t1, origPort)
          else map_option (\<lambda>t2. (t2, 0)) (udp_track now flow t1 srcIP dstIP srcPort dstPort Egress [] sz 0))"

definition udp_TrackInbound ::
    "time \<Rightarrow> uuid \<Rightarrow> UDPTracker \<Rightarrow> Addr \<Rightarrow> Addr \<Rightarrow> 16 word \<Rightarrow> 16 word \<Rightarrow> bytes \<Rightarrow> int \<Rightarrow> 16 word \<Rightarrow> UDPTracker option" where
  "udp_TrackInbound now flow t srcIP dstIP srcPort dstPort ruleID sz dnatOrigPort =
     udp_track now flow t srcIP dstIP srcPort dstPort Ingress ruleID sz dnatOrigPort"

definition udp_IsValidInbound ::
    "time \<Rightarrow> UDPTracker \<Rightarrow> Addr \<Rightarrow> Addr \<Rightarrow> 16 word \<Rightarrow> 16 word \<Rightarrow> int \<Rightarrow> UDPTracker \<times> bool" where
  "udp_IsValidInbound now t srcIP dstIP srcPort dstPort sz =
     (let key = conn_key dstIP srcIP dstPort srcPort in
      case udp_conn t key of
        None \<Rightarrow> (t, False)
      | Some conn \<Rightarrow>
          if timeoutExceeded now conn (udp_timeout t) then (t, False)
          else (udp_put t key (UpdateCounters (UpdateLastSeen now conn) Ingress sz), True))"

definition udp_cleanup_key :: "time \<Rightarrow> UDPTracker \<Rightarrow> ConnKey \<Rightarrow> UDPTracker" where
  "udp_cleanup_key now t key =
     (case udp_conn t key of
        None \<Rightarrow> t
      | Some conn \<Rightarrow>
          if timeoutExceeded now conn (udp_timeout t)
          then udp_sendEvent (t\<lparr>udp_conns := map_option (\<lambda>m. m(key := None)) (udp_conns t)\<rparr>) TypeEnd conn []
          else t)"

definition udp_cleanup :: "time \<Rightarrow> ConnKey list \<Rightarrow> UDPTracker \<Rightarrow> UDPTracker" where
  "udp_cleanup now keys t = foldl (udp_cleanup_key now) t keys"

definition udp_Close :: "UDPTracker \<Rightarrow> UDPTracker" where
  "udp_Close t = t\<lparr>udp_conns := None\<rparr>"

section \<open>icmp.go\<close>

abbreviation (input) "DefaultICMPTimeout \<equiv> 30 * second"
abbreviation (input) "ICMPv4TypeEchoReply \<equiv> (0 :: byte)"
abbreviation (input) "ICMPv4TypeEchoRequest \<equiv> (8 :: byte)"

record ICMPConnKey =
  k_SrcIP :: Addr
  k_DstIP :: Addr
  k_ID :: "16 word"

record ICMPConnTrack = BaseConnTrack +
  ICMPType :: byte
  ICMPCode :: byte

record ICMPTracker =
  icmp_conns :: "(ICMPConnKey \<rightharpoonup> ICMPConnTrack) option"
  icmp_timeout :: duration
  icmp_events :: "EventFields list"

definition NewICMPTracker :: "duration \<Rightarrow> ICMPTracker" where
  "NewICMPTracker timeout =
     \<lparr>icmp_conns = Some Map.empty, icmp_timeout = (if timeout = 0 then DefaultICMPTimeout else timeout), icmp_events = []\<rparr>"

definition icmp_conn :: "ICMPTracker \<Rightarrow> ICMPConnKey \<rightharpoonup> ICMPConnTrack" where
  "icmp_conn t = (case icmp_conns t of Some m \<Rightarrow> m | None \<Rightarrow> Map.empty)"

definition icmp_put :: "ICMPTracker \<Rightarrow> ICMPConnKey \<Rightarrow> ICMPConnTrack \<Rightarrow> ICMPTracker" where
  "icmp_put t key conn = t\<lparr>icmp_conns := map_option (\<lambda>m. m(key \<mapsto> conn)) (icmp_conns t)\<rparr>"

definition icmp_sendEvent :: "ICMPTracker \<Rightarrow> flow_type \<Rightarrow> ICMPConnTrack \<Rightarrow> bytes \<Rightarrow> ICMPTracker" where
  "icmp_sendEvent t typ conn ruleID =
     t\<lparr>icmp_events := icmp_events t @
        [\<lparr>e_FlowID = FlowId conn, e_Type = typ, e_RuleID = ruleID, e_Direction = Direction conn,
          e_Protocol = ICMP, e_SourceIP = SourceIP conn, e_DestIP = DestIP conn,
          e_SourceResourceID = [], e_DestResourceID = [], e_SourcePort = 0, e_DestPort = 0,
          e_ICMPType = ICMPType conn, e_ICMPCode = ICMPCode conn,
          e_RxPackets = PacketsRx conn, e_TxPackets = PacketsTx conn,
          e_RxBytes = BytesRx conn, e_TxBytes = BytesTx conn\<rparr>]\<rparr>"

definition icmp_sendStartEvent ::
    "uuid \<Rightarrow> ICMPTracker \<Rightarrow> Direction \<Rightarrow> Addr \<Rightarrow> Addr \<Rightarrow> byte \<Rightarrow> byte \<Rightarrow> bytes \<Rightarrow> int \<Rightarrow> ICMPTracker" where
  "icmp_sendStartEvent flow t direction srcIP dstIP typ code ruleID sz =
     (let fields =
        \<lparr>e_FlowID = flow, e_Type = TypeStart, e_RuleID = ruleID, e_Direction = direction,
          e_Protocol = ICMP, e_SourceIP = srcIP, e_DestIP = dstIP,
          e_SourceResourceID = [], e_DestResourceID = [], e_SourcePort = 0, e_DestPort = 0,
          e_ICMPType = typ, e_ICMPCode = code,
          e_RxPackets = 0, e_TxPackets = 0, e_RxBytes = 0, e_TxBytes = 0\<rparr>;
          fields' = (if direction = Ingress
                     then fields\<lparr>e_RxPackets := 1, e_RxBytes := word_of_int sz\<rparr>
                     else fields\<lparr>e_TxPackets := 1, e_TxBytes := word_of_int sz\<rparr>)
      in t\<lparr>icmp_events := icmp_events t @ [fields']\<rparr>)"

definition icmp_key :: "Addr \<Rightarrow> Addr \<Rightarrow> 16 word \<Rightarrow> ICMPConnKey" where
  "icmp_key srcIP dstIP ident = \<lparr>k_SrcIP = srcIP, k_DstIP = dstIP, k_ID = ident\<rparr>"

definition icmp_updateIfExists ::
    "time \<Rightarrow> ICMPTracker \<Rightarrow> ICMPConnKey \<Rightarrow> Direction \<Rightarrow> int \<Rightarrow> ICMPTracker \<times> bool" where
  "icmp_updateIfExists now t key direction sz =
     (case icmp_conn t key of
        Some conn \<Rightarrow> (icmp_put t key (UpdateCounters (UpdateLastSeen now conn) direction sz), True)
      | None \<Rightarrow> (t, False))"

definition icmp_track ::
    "time \<Rightarrow> uuid \<Rightarrow> ICMPTracker \<Rightarrow> Addr \<Rightarrow> Addr \<Rightarrow> 16 word \<Rightarrow> byte \<times> byte \<Rightarrow> Direction \<Rightarrow> bytes \<Rightarrow> int \<Rightarrow> ICMPTracker option" where
  "icmp_track now flow t srcIP dstIP ident typecode direction ruleId sz =
     (let key = icmp_key srcIP dstIP ident in
      case icmp_updateIfExists now t key direction sz of
        (t1, exists) \<Rightarrow>
          if exists then Some t1
          else
            let (typ, code) = typecode in
            if typ \<noteq> ICMPv4TypeEchoRequest
            then Some (icmp_sendStartEvent flow t1 direction srcIP dstIP typ code ruleId sz)
            else
              let conn = BaseConnTrack.extend (base_conn flow direction srcIP dstIP) (ICMPConnTrack.fields typ code);
                  conn' = UpdateCounters (UpdateLastSeen now conn) direction sz
              in if icmp_conns t1 = None then None
                 else Some (icmp_sendEvent (icmp_put t1 key conn') TypeStart conn' ruleId))"

definition icmp_TrackOutbound ::
    "time \<Rightarrow> uuid \<Rightarrow> ICMPTracker \<Rightarrow> Addr \<Rightarrow> Addr \<Rightarrow> 16 word \<Rightarrow> byte \<times> byte \<Rightarrow> int \<Rightarrow> ICMPTracker option" where
  "icmp_TrackOutbound now flow t srcIP dstIP ident typecode sz =
     (case icmp_updateIfExists now t (icmp_key dstIP srcIP ident) Egress sz of
        (t1, exists) \<Rightarrow>
          if exists then Some t1
          else icmp_track now flow t1 srcIP dstIP ident typecode Egress [] sz)"

definition icmp_TrackInbound ::
    "time \<Rightarrow> uuid \<Rightarrow> ICMPTracker \<Rightarrow> Addr \<Rightarrow> Addr \<Rightarrow> 16 word \<Rightarrow> byte \<times> byte \<Rightarrow> bytes \<Rightarrow> int \<Rightarrow> ICMPTracker option" where
  "icmp_TrackInbound now flow t srcIP dstIP ident typecode ruleId sz =
     icmp_track now flow t srcIP dstIP ident typecode Ingress ruleId sz"

definition icmp_IsValidInbound ::
    "time \<Rightarrow> ICMPTracker \<Rightarrow> Addr \<Rightarrow> Addr \<Rightarrow> 16 word \<Rightarrow> byte \<Rightarrow> int \<Rightarrow> ICMPTracker \<times> bool" where
  "icmp_IsValidInbound now t srcIP dstIP ident icmpType sz =
     (if icmpType \<noteq> ICMPv4TypeEchoReply then (t, False)
      else
        let key = icmp_key dstIP srcIP ident in
        case icmp_conn t key of
          None \<Rightarrow> (t, False)
        | Some conn \<Rightarrow>
            if timeoutExceeded now conn (icmp_timeout t) then (t, False)
            else (icmp_put t key (UpdateCounters (UpdateLastSeen now conn) Ingress sz), True))"

definition icmp_cleanup_key :: "time \<Rightarrow> ICMPTracker \<Rightarrow> ICMPConnKey \<Rightarrow> ICMPTracker" where
  "icmp_cleanup_key now t key =
     (case icmp_conn t key of
        None \<Rightarrow> t
      | Some conn \<Rightarrow>
          if timeoutExceeded now conn (icmp_timeout t)
          then icmp_sendEvent (t\<lparr>icmp_conns := map_option (\<lambda>m. m(key := None)) (icmp_conns t)\<rparr>) TypeEnd conn []
          else t)"

definition icmp_cleanup :: "time \<Rightarrow> ICMPConnKey list \<Rightarrow> ICMPTracker \<Rightarrow> ICMPTracker" where
  "icmp_cleanup now keys t = foldl (icmp_cleanup_key now) t keys"

definition icmp_Close :: "ICMPTracker \<Rightarrow> ICMPTracker" where
  "icmp_Close t = t\<lparr>icmp_conns := None\<rparr>"

text \<open>What a log line says about the packet an ICMP error message carries; \<open>payload\<close> is \<open>PayloadData\<close>.\<close>

record ICMPInfo =
  TypeCode :: "byte \<times> byte"
  PayloadData :: bytes
  PayloadLen :: nat

abbreviation (input) "MaxICMPPayloadLength \<equiv> (28 :: nat)"

definition make_ICMPInfo :: "byte \<times> byte \<Rightarrow> bytes \<Rightarrow> ICMPInfo" where
  "make_ICMPInfo typecode payload =
     \<lparr>TypeCode = typecode,
      PayloadData = take MaxICMPPayloadLength payload @ replicate (MaxICMPPayloadLength - length payload) 0,
      PayloadLen = min (length payload) MaxICMPPayloadLength\<rparr>"

definition isErrorMessage :: "ICMPInfo \<Rightarrow> bool" where
  "isErrorMessage info \<longleftrightarrow> fst (TypeCode info) \<in> {3, 5, 11, 12}"

definition be16 :: "byte \<Rightarrow> byte \<Rightarrow> nat" where
  "be16 hi lo = 256 * unat hi + unat lo"

definition ip_string :: "bytes \<Rightarrow> string" where
  "ip_string b = itoa (unat (b ! 0)) @ ''.'' @ itoa (unat (b ! 1)) @ ''.'' @ itoa (unat (b ! 2)) @ ''.'' @ itoa (unat (b ! 3))"

definition arrow :: string where
  "arrow = string_of [32, 0xE2, 0x86, 0x92, 32]"

definition parseOriginalPacket :: "ICMPInfo \<Rightarrow> string" where
  "parseOriginalPacket info =
     (let d = PayloadData info in
      if PayloadLen info < MaxICMPPayloadLength then ''''
      else if unat (d ! 0) div 16 \<noteq> 4 then ''''
      else
        let protocol = d ! 9;
            srcIP = ip_string (take 4 (drop 12 d));
            dstIP = ip_string (take 4 (drop 16 d));
            transportData = drop 20 d;
            srcPort = itoa (be16 (transportData ! 0) (transportData ! 1));
            dstPort = itoa (be16 (transportData ! 2) (transportData ! 3))
        in if protocol = TCP then ''TCP '' @ srcIP @ '':'' @ srcPort @ arrow @ dstIP @ '':'' @ dstPort
           else if protocol = UDP then ''UDP '' @ srcIP @ '':'' @ srcPort @ arrow @ dstIP @ '':'' @ dstPort
           else if protocol = ICMP
             then ''ICMP '' @ srcIP @ arrow @ dstIP @ '' (type '' @ itoa (unat (transportData ! 0)) @
                  '' code '' @ itoa (unat (transportData ! 1)) @ '')''
           else ''Proto '' @ itoa (unat protocol) @ '' '' @ srcIP @ arrow @ dstIP)"

section \<open>Idle connections\<close>

lemma udp_sel [simp]:
  "udp_timeout (udp_put t k c) = udp_timeout t" "udp_timeout (udp_sendEvent t ty c r) = udp_timeout t"
  "udp_conn (udp_sendEvent t ty c r) = udp_conn t" "udp_conns (udp_sendEvent t ty c r) = udp_conns t"
  by (simp_all add: udp_put_def udp_sendEvent_def udp_conn_def)

lemma udp_conn_put [simp]:
  "udp_conn (udp_put t k c) = (if udp_conns t = None then Map.empty else (udp_conn t)(k \<mapsto> c))"
  by (auto simp: udp_conn_def udp_put_def)

lemma udp_conn_Some: "udp_conn t k = Some c \<Longrightarrow> udp_conns t \<noteq> None"
  by (auto simp: udp_conn_def split: option.splits)

lemma conn_key_sel [simp]: "conn_key (SrcIP k) (DstIP k) (SrcPort k) (DstPort k) = k"
  by (simp add: conn_key_def)

lemma touch_sel [simp]:
  "lastSeen (UpdateCounters (UpdateLastSeen now c) dir sz) = now"
  by (simp add: UpdateCounters_def UpdateLastSeen_def)

lemma udp_cleanup_key_conn:
  "udp_timeout (udp_cleanup_key now t key) = udp_timeout t \<and>
   udp_conn (udp_cleanup_key now t key) k =
     (if k = key \<and> (\<exists>c. udp_conn t k = Some c \<and> timeoutExceeded now c (udp_timeout t)) then None else udp_conn t k)"
  by (auto simp: udp_cleanup_key_def udp_conn_def udp_sendEvent_def split: option.split)

lemma udp_cleanup_conn:
  "udp_timeout (udp_cleanup now keys t) = udp_timeout t \<and>
   udp_conn (udp_cleanup now keys t) k =
     (if k \<in> set keys \<and> (\<exists>c. udp_conn t k = Some c \<and> timeoutExceeded now c (udp_timeout t)) then None else udp_conn t k)"
proof (induction keys arbitrary: t)
  case (Cons key keys)
  then show ?case
    using udp_cleanup_key_conn [of now t key] by (auto simp: udp_cleanup_def)
qed (simp add: udp_cleanup_def)

interpretation udp_idle: idle_table "\<lambda>t k. map_option lastSeen (udp_conn t k)" udp_timeout udp_cleanup
  "\<lambda>now t k. snd (udp_IsValidInbound now t (DstIP k) (SrcIP k) (DstPort k) (SrcPort k) 0)"
  by unfold_locales
     (auto simp: udp_cleanup_conn timeoutExceeded_def udp_IsValidInbound_def Let_def split: option.splits)

lemma udp_valid_size:
  "snd (udp_IsValidInbound now t s d sp dp sz) = snd (udp_IsValidInbound now t s d sp dp 0)"
  by (auto simp: udp_IsValidInbound_def Let_def split: option.split)

lemma udp_TrackOutbound_seen:
  assumes "udp_TrackOutbound now f t s d sp dp sz = Some (t', p)" and "udp_conn t (conn_key d s dp sp) = None"
  shows "map_option lastSeen (udp_conn t' (conn_key s d sp dp)) = Some now \<and> udp_timeout t' = udp_timeout t"
  using assms udp_conn_Some
  by (auto simp: udp_TrackOutbound_def udp_track_def udp_updateIfExists_def Let_def split: option.splits if_splits)

text \<open>
  C17. The window for UDP replies. After an outbound datagram on a tuple whose reverse is not
  tracked, and any clean-ups since, a reply passes the filter exactly when the time since the
  datagram is at most the timeout of the tracker.
\<close>

theorem udp_reply_window:
  assumes "udp_TrackOutbound t0 f t s d sp dp sz = Some (t', p)" and "udp_conn t (conn_key d s dp sp) = None"
    and "\<And>u ks. (u, ks) \<in> set sw \<Longrightarrow> u \<le> now"
  shows "snd (udp_IsValidInbound now (foldl (\<lambda>t (u, ks). udp_cleanup u ks t) t' sw) d s dp sp sz')
           \<longleftrightarrow> now - t0 \<le> udp_timeout t"
  using udp_idle.window [of t' "conn_key s d sp dp" t0 sw now] assms(3) udp_TrackOutbound_seen [OF assms(1,2)]
  by (simp add: sweeps_def udp_valid_size [of _ _ _ _ _ _ sz'] conn_key_def)

theorem udp_reply_window_witness:
  "\<exists>t' p. udp_TrackOutbound 0 1 (NewUDPTracker 0) ip_a ip_b 5000 53 60 = Some (t', p) \<and>
     snd (udp_IsValidInbound (30 * second) (udp_cleanup (15 * second) [conn_key ip_a ip_b 5000 53] t') ip_b ip_a 53 5000 80) \<and>
     \<not> snd (udp_IsValidInbound (31 * second) (udp_cleanup (15 * second) [conn_key ip_a ip_b 5000 53] t') ip_b ip_a 53 5000 80)"
proof -
  obtain t' p where t': "udp_TrackOutbound 0 1 (NewUDPTracker 0) ip_a ip_b 5000 53 60 = Some (t', p)"
    by (simp add: udp_TrackOutbound_def udp_track_def udp_updateIfExists_def udp_conn_def NewUDPTracker_def Let_def)
  have n: "udp_conn (NewUDPTracker 0) k = None" "udp_timeout (NewUDPTracker 0) = 30 * second" for k
    by (simp_all add: udp_conn_def NewUDPTracker_def)
  have "snd (udp_IsValidInbound now (udp_cleanup (15 * second) [conn_key ip_a ip_b 5000 53] t') ip_b ip_a 53 5000 80)
      \<longleftrightarrow> now \<le> 30 * second" if "15 * second \<le> now" for now
    using udp_reply_window [OF t' n(1), of "[(15 * second, [conn_key ip_a ip_b 5000 53])]" now 80] that n(2) by auto
  from this [of "30 * second"] this [of "31 * second"] t' show ?thesis by auto
qed

lemma icmp_sel [simp]:
  "icmp_timeout (icmp_put t k c) = icmp_timeout t" "icmp_timeout (icmp_sendEvent t ty c r) = icmp_timeout t"
  "icmp_conn (icmp_sendEvent t ty c r) = icmp_conn t" "icmp_conns (icmp_sendEvent t ty c r) = icmp_conns t"
  by (simp_all add: icmp_put_def icmp_sendEvent_def icmp_conn_def)

lemma icmp_conn_put [simp]:
  "icmp_conn (icmp_put t k c) = (if icmp_conns t = None then Map.empty else (icmp_conn t)(k \<mapsto> c))"
  by (auto simp: icmp_conn_def icmp_put_def)

lemma icmp_conn_Some: "icmp_conn t k = Some c \<Longrightarrow> icmp_conns t \<noteq> None"
  by (auto simp: icmp_conn_def split: option.splits)

lemma icmp_key_sel [simp]: "icmp_key (k_SrcIP k) (k_DstIP k) (k_ID k) = k"
  by (simp add: icmp_key_def)

lemma icmp_cleanup_key_conn:
  "icmp_timeout (icmp_cleanup_key now t key) = icmp_timeout t \<and>
   icmp_conn (icmp_cleanup_key now t key) k =
     (if k = key \<and> (\<exists>c. icmp_conn t k = Some c \<and> timeoutExceeded now c (icmp_timeout t)) then None else icmp_conn t k)"
  by (auto simp: icmp_cleanup_key_def icmp_conn_def icmp_sendEvent_def split: option.split)

lemma icmp_cleanup_conn:
  "icmp_timeout (icmp_cleanup now keys t) = icmp_timeout t \<and>
   icmp_conn (icmp_cleanup now keys t) k =
     (if k \<in> set keys \<and> (\<exists>c. icmp_conn t k = Some c \<and> timeoutExceeded now c (icmp_timeout t)) then None else icmp_conn t k)"
proof (induction keys arbitrary: t)
  case (Cons key keys)
  then show ?case
    using icmp_cleanup_key_conn [of now t key] by (auto simp: icmp_cleanup_def)
qed (simp add: icmp_cleanup_def)

interpretation icmp_idle: idle_table "\<lambda>t k. map_option lastSeen (icmp_conn t k)" icmp_timeout icmp_cleanup
  "\<lambda>now t k. snd (icmp_IsValidInbound now t (k_DstIP k) (k_SrcIP k) (k_ID k) ICMPv4TypeEchoReply 0)"
  by unfold_locales
     (auto simp: icmp_cleanup_conn timeoutExceeded_def icmp_IsValidInbound_def Let_def split: option.splits)

section \<open>Only requested packets enter\<close>

datatype icmp_op =
    ICMPOut time uuid Addr Addr "16 word" "byte \<times> byte" int
  | ICMPIn time uuid Addr Addr "16 word" "byte \<times> byte" bytes int
  | ICMPCheck time Addr Addr "16 word" byte int
  | ICMPCleanup time "ICMPConnKey list"

definition icmp_step :: "ICMPTracker \<Rightarrow> icmp_op \<Rightarrow> ICMPTracker" where
  "icmp_step t a =
     (case a of
        ICMPOut now flow s d ident tc sz \<Rightarrow>
          (case icmp_TrackOutbound now flow t s d ident tc sz of Some t' \<Rightarrow> t' | None \<Rightarrow> t)
      | ICMPIn now flow s d ident tc r sz \<Rightarrow>
          (case icmp_TrackInbound now flow t s d ident tc r sz of Some t' \<Rightarrow> t' | None \<Rightarrow> t)
      | ICMPCheck now s d ident typ sz \<Rightarrow> fst (icmp_IsValidInbound now t s d ident typ sz)
      | ICMPCleanup now ks \<Rightarrow> icmp_cleanup now ks t)"

text \<open>The keys a packet may open: its own, when it is an echo request.\<close>

definition icmp_opens :: "icmp_op \<Rightarrow> ICMPConnKey set" where
  "icmp_opens a =
     (case a of
        ICMPOut now flow s d ident tc sz \<Rightarrow> (if fst tc = ICMPv4TypeEchoRequest then {icmp_key s d ident} else {})
      | ICMPIn now flow s d ident tc r sz \<Rightarrow> (if fst tc = ICMPv4TypeEchoRequest then {icmp_key s d ident} else {})
      | ICMPCheck now s d ident typ sz \<Rightarrow> {}
      | ICMPCleanup now ks \<Rightarrow> {})"

lemma icmp_conn_start [simp]: "icmp_conn (icmp_sendStartEvent f t dir s d ty co r sz) = icmp_conn t"
  by (simp add: icmp_sendStartEvent_def icmp_conn_def Let_def)

lemma icmp_update_dom:
  "icmp_updateIfExists now t key dir sz = (t', e) \<Longrightarrow> dom (icmp_conn t') = dom (icmp_conn t)"
  using icmp_conn_Some [of t key] by (auto simp: icmp_updateIfExists_def split: option.splits if_splits)

lemma icmp_track_dom:
  "icmp_track now flow t s d ident tc dir r sz = Some t' \<Longrightarrow>
   dom (icmp_conn t') \<subseteq> dom (icmp_conn t) \<union> (if fst tc = ICMPv4TypeEchoRequest then {icmp_key s d ident} else {})"
  by (auto simp: icmp_track_def Let_def split: prod.splits if_splits dest!: icmp_update_dom)

interpretation icmp_flows: flow_table icmp_step "\<lambda>t. dom (icmp_conn t)" icmp_opens
proof
  fix t a
  show "dom (icmp_conn (icmp_step t a)) \<subseteq> dom (icmp_conn t) \<union> icmp_opens a"
  proof (cases a)
    case (ICMPOut now flow s d ident tc sz)
    obtain t1 e where u: "icmp_updateIfExists now t (icmp_key d s ident) Egress sz = (t1, e)"
      by (metis prod.exhaust)
    show ?thesis
      using icmp_update_dom [OF u] icmp_track_dom [of now flow t1 s d ident tc Egress "[]" sz]
      by (cases "icmp_track now flow t1 s d ident tc Egress [] sz")
         (auto simp: ICMPOut icmp_step_def icmp_opens_def icmp_TrackOutbound_def u)
  next
    case (ICMPIn now flow s d ident tc r sz)
    then show ?thesis
      using icmp_track_dom [of now flow t s d ident tc Ingress r sz]
      by (cases "icmp_track now flow t s d ident tc Ingress r sz")
         (auto simp: icmp_step_def icmp_opens_def icmp_TrackInbound_def)
  next
    case (ICMPCheck now s d ident ty sz)
    then show ?thesis
      by (auto simp: icmp_step_def icmp_opens_def icmp_IsValidInbound_def Let_def split: option.splits if_splits)
  next
    case (ICMPCleanup now ks)
    then show ?thesis using icmp_cleanup_conn [of now ks t]
      by (auto simp: icmp_step_def icmp_opens_def split: if_splits)
  qed
qed

text \<open>
  ICMP enters only as an answer: after any sequence of packets, checks and clean-ups, an
  inbound ICMP packet passes \<open>IsValidInbound\<close> only if it is an echo reply, an echo request
  with its identifier was tracked before from its destination to its source, and the
  connection was used within the timeout.
\<close>

lemma icmp_only_replies:
  assumes "t = foldl icmp_step (NewICMPTracker timeout) as"
    and "snd (icmp_IsValidInbound now t s d ident typ sz)"
  shows "typ = ICMPv4TypeEchoReply \<and> (\<exists>a \<in> set as. icmp_key d s ident \<in> icmp_opens a) \<and>
    (\<exists>c. icmp_conn t (icmp_key d s ident) = Some c \<and> now - lastSeen c \<le> icmp_timeout t)"
proof -
  have c: "typ = ICMPv4TypeEchoReply" "\<exists>c. icmp_conn t (icmp_key d s ident) = Some c \<and> now - lastSeen c \<le> icmp_timeout t"
    using assms(2) by (auto simp: icmp_IsValidInbound_def timeoutExceeded_def Let_def split: if_splits option.splits)
  then have "icmp_key d s ident \<in> dom (icmp_conn (foldl icmp_step (NewICMPTracker timeout) as))"
    using assms(1) by auto
  with icmp_flows.opened [OF _ this] c show ?thesis by (simp add: NewICMPTracker_def icmp_conn_def)
qed

end
