(* ===== verification/PacketFilter.thy ===== *)
theory PacketFilter
  imports PacketRewrite ConntrackDatagram Sha256 "HOL-Library.AList"
begin

text \<open>
  The userspace packet filter of the client, \<open>client/firewall/uspfilter/filter.go\<close>, with \<open>rule.go\<close>,
  \<open>common/hooks.go\<close>, \<open>hooks_filter.go\<close>, the ports, networks and sets of \<open>client/firewall/manager\<close>, the keys of
  route rules in \<open>client/internal/acl/id\<close>, and the table of rule IDs of \<open>forwarder/forwarder.go\<close>.

  A panic is the result \<^const>\<open>None\<close>; a nil tracker is \<^const>\<open>None\<close> and using it panics. The parser of \<open>gopacket\<close> is a
  parameter that takes the decoder it is called on, since decoders are pooled and reused, and
  says whether it succeeded. The decoder the pool hands out, the clock and fresh identifiers are
  arguments. A rule set is a Go map and therefore an association list with an iteration order
  \<open>iter\<close>. The native firewall is known by a log of the calls it gets and a parameter that
  answers them; the network stack behind the forwarder is the log of the packets it is given. Locks
  and log lines are left out, and so is the map \<open>outgoingRules\<close>, which nothing fills.
\<close>

unbundle bit_operations_syntax

section \<open>Ports, actions, networks\<close>

record Port =
  IsRange :: bool
  Values :: "16 word list"

datatype port_error = NoPort | InvalidPort int

fun find_bad_port :: "int list \<Rightarrow> int option" where
  "find_bad_port [] = None"
| "find_bad_port (p # ps) = (if p < 1 \<or> 65535 < p then Some p else find_bad_port ps)"

definition NewPort :: "int list \<Rightarrow> port_error + Port" where
  "NewPort ports =
     (if ports = [] then Inl NoPort
      else case find_bad_port ports of
        Some p \<Rightarrow> Inl (InvalidPort p)
      | None \<Rightarrow> Inr \<lparr>IsRange = 1 < length ports, Values = map word_of_int ports\<rparr>)"

fun join_ports :: "16 word list \<Rightarrow> string" where
  "join_ports [] = []"
| "join_ports [p] = itoa (unat p)"
| "join_ports (p # q # ps) = itoa (unat p) @ '','' @ join_ports (q # ps)"

definition Port_String :: "Port \<Rightarrow> string" where
  "Port_String p = (if IsRange p then ''range:'' else []) @ join_ports (Values p)"

datatype Action = ActionAccept | ActionDrop

definition Action_int :: "Action \<Rightarrow> nat" where
  "Action_int a = (case a of ActionAccept \<Rightarrow> 0 | ActionDrop \<Rightarrow> 1)"

record Set =
  set_hash :: bytes
  set_comment :: string

definition zero_Set :: Set where
  "zero_Set = \<lparr>set_hash = [0, 0, 0, 0], set_comment = []\<rparr>"

definition HashedName :: "Set \<Rightarrow> string" where
  "HashedName s = ''nb-'' @ hex_bytes (set_hash s)"

record Network =
  nw_Set :: Set
  nw_Prefix :: Prefix

definition Network_String :: "Network \<Rightarrow> string" where
  "Network_String n =
     (if Prefix_IsValid (nw_Prefix n) then Prefix_String (nw_Prefix n)
      else if nw_Set n \<noteq> zero_Set then HashedName (nw_Set n)
      else ''<invalid network>'')"

text \<open>Insertion keeps the order of elements neither of which is less than the other.\<close>

fun ins_by :: "('a \<Rightarrow> 'a \<Rightarrow> bool) \<Rightarrow> 'a \<Rightarrow> 'a list \<Rightarrow> 'a list" where
  "ins_by lt x [] = [x]"
| "ins_by lt x (y # ys) = (if lt x y then x # y # ys else y # ins_by lt x ys)"

definition sort_by :: "('a \<Rightarrow> 'a \<Rightarrow> bool) \<Rightarrow> 'a list \<Rightarrow> 'a list" where
  "sort_by lt xs = foldl (\<lambda>acc x. ins_by lt x acc) [] xs"

definition SortPrefixes :: "Prefix list \<Rightarrow> Prefix list" where
  "SortPrefixes prefixes =
     sort_by (\<lambda>p q. Addr_Less (pfx_Addr p) (pfx_Addr q) \<or> pfx_Addr p = pfx_Addr q \<and> pfx_Bits q < pfx_Bits p) prefixes"

definition GenerateRouteRuleKey ::
    "Prefix list \<Rightarrow> Network \<Rightarrow> Protocol \<Rightarrow> Port option \<Rightarrow> Port option \<Rightarrow> Action \<Rightarrow> string" where
  "GenerateRouteRuleKey sources destination proto sPort dPort action =
     (let port = (\<lambda>p. case p of Some x \<Rightarrow> Port_String x | None \<Rightarrow> ''<nil>'');
          text = ''sources:'' @ concat (map (\<lambda>s. Prefix_String s @ '','') (SortPrefixes sources)) @
            ''destination:'' @ Network_String destination @ ''proto:'' @ proto @
            ''sPort:'' @ port sPort @ ''dPort:'' @ port dPort @ ''action:'' @ itoa (Action_int action)
      in Network_String destination @ ''-'' @ take 16 (hex_bytes (sha256 (bytes_of text))))"

section \<open>Rules and the state of the filter\<close>

record PeerRule =
  pr_id :: string
  pr_mgmtId :: bytes
  pr_ip :: Addr
  pr_ipLayer :: LayerType
  pr_matchByIP :: bool
  pr_protoLayer :: LayerType
  pr_sPort :: "Port option"
  pr_dPort :: "Port option"
  pr_drop :: bool

record RouteRule =
  rr_id :: string
  rr_mgmtId :: bytes
  rr_sources :: "Prefix list"
  rr_dstSet :: Set
  rr_destinations :: "Prefix list"
  rr_protoLayer :: LayerType
  rr_srcPort :: "Port option"
  rr_dstPort :: "Port option"
  rr_action :: Action

type_synonym RuleSet = "(string \<times> PeerRule) list"

record PacketHook =
  hook_IP :: Addr
  hook_Port :: "16 word"
  hook_Fn :: "bytes \<Rightarrow> bool"

text \<open>The forwarder: what was injected and the rule IDs of the flows.\<close>

record Forwarder =
  injected :: "bytes list"
  ruleIdMap :: "ConnKey \<rightharpoonup> bytes"

text \<open>The interface: its address, its network, whether it has a userspace device, whether a forwarder can be made for it.\<close>

record IFaceMapper =
  wg_IP :: Addr
  wg_Network :: Prefix
  wg_Device :: bool
  wg_forwards :: bool

datatype native_call =
    NativeAddRoute bytes "Prefix list" Network Protocol "Port option" "Port option" Action
  | NativeDeleteRoute string | NativeUpdateSet Set "Prefix list"

text \<open>
  The values of \<open>routeRulesMap\<close> are the pointers in \<open>routeRules\<close>, each under the ID of its rule, and only their IDs
  are read: the map is the set of its keys.
\<close>

record Manager = nat_state +
  incomingDenyRules :: "Addr \<rightharpoonup> RuleSet"
  incomingRules :: "Addr \<rightharpoonup> RuleSet"
  routeRules :: "RouteRule list"
  routeRulesMap :: "string set"
  wgIface :: IFaceMapper
  nativeFirewall :: bool
  native_log :: "native_call list"
  disableServerRoutes :: bool
  routingEnabled :: bool
  nativeRouter :: bool
  stateful :: bool
  netstack :: bool
  localForwarding :: bool
  udpTracker :: "UDPTracker option"
  icmpTracker :: "ICMPTracker option"
  tcpTracker :: "TCPTracker option"
  forwarder :: "Forwarder option"
  flow_events :: "EventFields list"
  blockRule :: "string option"
  netstackServices :: "(LayerType \<times> 16 word) set"
  mssClampValue :: "16 word"
  mssClampEnabled :: bool
  udpHookOut :: "PacketHook option"
  tcpHookOut :: "PacketHook option"

datatype filter_error =
    SetFilterFailed | ForwardingNotSupported | CreateForwarder | InvalidIP IP | NoSuchRule string | RouteRuleNotFound string
  | RouteRuleNotInSlice string | NoRuleForSet Set | NativeFailed | BlockInvalidRouted filter_error | DeleteBlockRule filter_error
  | DetermineRouting filter_error

section \<open>Creation and routing modes\<close>

definition ParseBool :: "string \<Rightarrow> bool option" where
  "ParseBool s =
     (if s \<in> {''1'', ''t'', ''T'', ''TRUE'', ''true'', ''True''} then Some True
      else if s \<in> {''0'', ''f'', ''F'', ''FALSE'', ''false'', ''False''} then Some False
      else None)"

definition env_bool :: "(string \<Rightarrow> string) \<Rightarrow> string \<Rightarrow> bool" where
  "env_bool getenv name = (getenv name \<noteq> [] \<and> ParseBool (getenv name) = Some True)"

definition parseCreateEnv :: "(string \<Rightarrow> string) \<Rightarrow> bool \<times> bool \<times> bool" where
  "parseCreateEnv getenv =
     (env_bool getenv ''NB_DISABLE_CONNTRACK'',
      if getenv ''NB_ENABLE_NETSTACK_LOCAL_FORWARDING'' \<noteq> [] then env_bool getenv ''NB_ENABLE_NETSTACK_LOCAL_FORWARDING''
      else env_bool getenv ''NB_ENABLE_LOCAL_FORWARDING'',
      env_bool getenv ''NB_DISABLE_MSS_CLAMPING'')"

definition initForwarder :: "Manager \<Rightarrow> Manager \<times> filter_error option" where
  "initForwarder m =
     (if forwarder m \<noteq> None then (m, None)
      else if \<not> wg_Device (wgIface m) then (m\<lparr>routingEnabled := False\<rparr>, Some ForwardingNotSupported)
      else if \<not> wg_forwards (wgIface m) then (m\<lparr>routingEnabled := False\<rparr>, Some CreateForwarder)
      else (m\<lparr>forwarder := Some \<lparr>injected = [], ruleIdMap = Map.empty\<rparr>\<rparr>, None))"

text \<open>
  \<open>interfaces\<close> is what the operating system says about its interfaces, \<open>isNetstack\<close> the result of
  \<open>netstack.IsEnabled\<close>, \<open>filterSet\<close> whether the interface took the filter.
\<close>

definition create ::
    "(string \<Rightarrow> string) \<Rightarrow> bool \<Rightarrow> net_Addr list option list option \<Rightarrow> bool \<Rightarrow> IFaceMapper \<Rightarrow> bool \<Rightarrow> bool \<Rightarrow> 16 word
      \<Rightarrow> filter_error + Manager" where
  "create getenv isNetstack interfaces filterSet iface native disableServer mtu =
     (case parseCreateEnv getenv of
        (disableConntrack, enableLocalForwarding, disableMSSClamping) \<Rightarrow>
          let m = \<lparr>dnatEnabled = False, dnatMappings = Map.empty, dnatBiMap = None, portDNATEnabled = False, portDNATRules = [],
                   localipmanager = UpdateLocalIPs (Some (wg_IP iface)) interfaces newLocalIPManager,
                   incomingDenyRules = Map.empty, incomingRules = Map.empty, routeRules = [], routeRulesMap = {},
                   wgIface = iface, nativeFirewall = native, native_log = [], disableServerRoutes = disableServer,
                   routingEnabled = False, nativeRouter = False, stateful = \<not> disableConntrack, netstack = isNetstack,
                   localForwarding = enableLocalForwarding,
                   udpTracker = (if disableConntrack then None else Some (NewUDPTracker DefaultUDPTimeout)),
                   icmpTracker = (if disableConntrack then None else Some (NewICMPTracker DefaultICMPTimeout)),
                   tcpTracker = (if disableConntrack then None else Some (NewTCPTracker DefaultTCPTimeout)),
                   forwarder = None, flow_events = [], blockRule = None, netstackServices = {},
                   mssClampValue = (if disableMSSClamping then 0 else mtu - 40), mssClampEnabled = \<not> disableMSSClamping,
                   udpHookOut = None, tcpHookOut = None\<rparr>;
              m' = (if isNetstack \<and> enableLocalForwarding then fst (initForwarder m) else m)
          in if filterSet then Inr m' else Inl SetFilterFailed)"

definition determineRouting :: "(string \<Rightarrow> string) \<Rightarrow> Manager \<Rightarrow> Manager \<times> filter_error option" where
  "determineRouting getenv m =
     (let disableUspRouting = env_bool getenv ''NB_DISABLE_USERSPACE_ROUTING'';
          forceUserspaceRouter = env_bool getenv ''NB_FORCE_USERSPACE_ROUTER'';
          (enabled, native) =
            (if disableUspRouting then (False, False)
             else if disableServerRoutes m then (True, True)
             else if forceUserspaceRouter then (True, False)
             else if \<not> netstack m \<and> nativeFirewall m then (True, True)
             else (True, False));
          m' = m\<lparr>routingEnabled := enabled, nativeRouter := native\<rparr>
      in if enabled \<and> \<not> native then initForwarder m' else (m', None))"

section \<open>Adding and removing rules\<close>

definition protoToLayer :: "Protocol \<Rightarrow> LayerType \<Rightarrow> LayerType" where
  "protoToLayer proto ipLayer =
     (if proto = ProtocolTCP then LayerTypeTCP
      else if proto = ProtocolUDP then LayerTypeUDP
      else if proto = ProtocolICMP then (if ipLayer = LayerTypeIPv6 then LayerTypeICMPv6 else LayerTypeICMPv4)
      else if proto = ProtocolALL then layerTypeAll
      else LayerTypeZero)"

definition AddPeerFiltering ::
    "string \<Rightarrow> Manager \<Rightarrow> bytes \<Rightarrow> IP \<Rightarrow> Protocol \<Rightarrow> Port option \<Rightarrow> Port option \<Rightarrow> Action \<Rightarrow> Manager \<times> (filter_error + PeerRule list)" where
  "AddPeerFiltering uuid m ident ip proto sPort dPort action =
     (if AddrFromSlice ip = NoAddr then (m, Inl (InvalidIP ip))
      else
        let i = addr_Unmap (AddrFromSlice ip);
            ipLayer = (if Is4 i then LayerTypeIPv4 else LayerTypeIPv6);
            r = \<lparr>pr_id = uuid, pr_mgmtId = ident, pr_ip = i, pr_ipLayer = ipLayer,
                 pr_matchByIP = (Addr_String i \<noteq> ''0.0.0.0'' \<and> Addr_String i \<noteq> ''::''),
                 pr_protoLayer = protoToLayer proto ipLayer, pr_sPort = sPort, pr_dPort = dPort, pr_drop = (action = ActionDrop)\<rparr>;
            put = (\<lambda>t. t(i \<mapsto> AList.update uuid r (case t i of Some rs \<Rightarrow> rs | None \<Rightarrow> [])))
        in (if pr_drop r then m\<lparr>incomingDenyRules := put (incomingDenyRules m)\<rparr>
            else m\<lparr>incomingRules := put (incomingRules m)\<rparr>, Inr [r]))"

text \<open>Removing the rule from one of the two tables; \<^const>\<open>None\<close> when it is not there.\<close>

definition delete_rule :: "(Addr \<rightharpoonup> RuleSet) \<Rightarrow> PeerRule \<Rightarrow> (Addr \<rightharpoonup> RuleSet) option" where
  "delete_rule t r =
     (case t (pr_ip r) of
        None \<Rightarrow> None
      | Some rs \<Rightarrow>
          if map_of rs (pr_id r) = None then None
          else let rs' = AList.delete (pr_id r) rs in Some (t(pr_ip r := if rs' = [] then None else Some rs')))"

definition DeletePeerRule :: "Manager \<Rightarrow> PeerRule \<Rightarrow> Manager \<times> filter_error option" where
  "DeletePeerRule m r =
     (if pr_drop r
      then (case delete_rule (incomingDenyRules m) r of
              None \<Rightarrow> (m, Some (NoSuchRule (pr_id r)))
            | Some t \<Rightarrow> (m\<lparr>incomingDenyRules := t\<rparr>, None))
      else (case delete_rule (incomingRules m) r of
              None \<Rightarrow> (m, Some (NoSuchRule (pr_id r)))
            | Some t \<Rightarrow> (m\<lparr>incomingRules := t\<rparr>, None)))"

definition RouteRules_Less :: "RouteRule \<Rightarrow> RouteRule \<Rightarrow> bool" where
  "RouteRules_Less a b =
     (if rr_action a = ActionDrop \<and> rr_action b \<noteq> ActionDrop then True
      else if rr_action a \<noteq> ActionDrop \<and> rr_action b = ActionDrop then False
      else string_less (rr_id a) (rr_id b))"

definition RouteRules_Sort :: "RouteRule list \<Rightarrow> RouteRule list" where
  "RouteRules_Sort rules = sort_by RouteRules_Less rules"

text \<open>
  \<open>nf\<close> answers the calls to the native firewall: \<^const>\<open>None\<close> is an error, the text the ID of the rule it returns.
\<close>

definition addRouteFiltering ::
    "(native_call \<Rightarrow> string option) \<Rightarrow> Manager \<Rightarrow> bytes \<Rightarrow> Prefix list \<Rightarrow> Network \<Rightarrow> Protocol \<Rightarrow> Port option \<Rightarrow> Port option \<Rightarrow> Action
      \<Rightarrow> Manager \<times> (filter_error + string)" where
  "addRouteFiltering nf m ident sources destination proto sPort dPort action =
     (if nativeRouter m \<and> nativeFirewall m
      then let c = NativeAddRoute ident sources destination proto sPort dPort action
           in (m\<lparr>native_log := native_log m @ [c]\<rparr>, case nf c of Some i \<Rightarrow> Inr i | None \<Rightarrow> Inl NativeFailed)
      else
        let ruleKey = GenerateRouteRuleKey sources destination proto sPort dPort action in
        if ruleKey \<in> routeRulesMap m then (m, Inr ruleKey)
        else
          let rule = \<lparr>rr_id = ruleKey, rr_mgmtId = ident, rr_sources = SortPrefixes sources, rr_dstSet = nw_Set destination,
                rr_destinations = (if Prefix_IsValid (nw_Prefix destination) then [nw_Prefix destination] else []),
                rr_protoLayer = protoToLayer proto LayerTypeIPv4, rr_srcPort = sPort, rr_dstPort = dPort, rr_action = action\<rparr>
          in (m\<lparr>routeRules := RouteRules_Sort (routeRules m @ [rule]), routeRulesMap := insert ruleKey (routeRulesMap m)\<rparr>, Inr ruleKey))"

definition remove_first :: "('a \<Rightarrow> bool) \<Rightarrow> 'a list \<Rightarrow> 'a list" where
  "remove_first P xs = takeWhile (\<lambda>x. \<not> P x) xs @ drop 1 (dropWhile (\<lambda>x. \<not> P x) xs)"

definition deleteRouteRule :: "(native_call \<Rightarrow> string option) \<Rightarrow> Manager \<Rightarrow> string \<Rightarrow> Manager \<times> filter_error option" where
  "deleteRouteRule nf m ruleKey =
     (if nativeRouter m \<and> nativeFirewall m
      then (m\<lparr>native_log := native_log m @ [NativeDeleteRoute ruleKey]\<rparr>,
            if nf (NativeDeleteRoute ruleKey) = None then Some NativeFailed else None)
      else if ruleKey \<notin> routeRulesMap m then (m, Some (RouteRuleNotFound ruleKey))
      else if \<not> list_ex (\<lambda>r. rr_id r = ruleKey) (routeRules m) then (m, Some (RouteRuleNotInSlice ruleKey))
      else (m\<lparr>routeRules := remove_first (\<lambda>r. rr_id r = ruleKey) (routeRules m),
              routeRulesMap := routeRulesMap m - {ruleKey}\<rparr>, None))"

definition UpdateSet :: "(native_call \<Rightarrow> string option) \<Rightarrow> Manager \<Rightarrow> Set \<Rightarrow> Prefix list \<Rightarrow> Manager \<times> filter_error option" where
  "UpdateSet nf m s prefixes =
     (if nativeRouter m \<and> nativeFirewall m
      then (m\<lparr>native_log := native_log m @ [NativeUpdateSet s prefixes]\<rparr>,
            if nf (NativeUpdateSet s prefixes) = None then Some NativeFailed else None)
      else case filter (\<lambda>r. rr_dstSet r = s) (routeRules m) of
        [] \<Rightarrow> (m, Some (NoRuleForSet s))
      | r # _ \<Rightarrow>
          let destinations = remdups_adj (sort_by
                (\<lambda>p q. Addr_Less (pfx_Addr p) (pfx_Addr q) \<or> pfx_Addr p = pfx_Addr q \<and> pfx_Bits p < pfx_Bits q)
                (rr_destinations r @ filter (\<lambda>p. Is4 (pfx_Addr p)) prefixes))
          in (m\<lparr>routeRules := map (\<lambda>r. if rr_dstSet r = s then r\<lparr>rr_destinations := destinations\<rparr> else r) (routeRules m)\<rparr>, None))"

definition blockInvalidRouted :: "(native_call \<Rightarrow> string option) \<Rightarrow> Manager \<Rightarrow> Manager \<times> (filter_error + string)" where
  "blockInvalidRouted nf m =
     addRouteFiltering nf m [] [\<lparr>pfx_Addr = Addr4 0, pfx_Bits = 0\<rparr>] \<lparr>nw_Set = zero_Set, nw_Prefix = wg_Network (wgIface m)\<rparr>
       ProtocolALL None None ActionDrop"

definition EnableRouting :: "(string \<Rightarrow> string) \<Rightarrow> (native_call \<Rightarrow> string option) \<Rightarrow> Manager \<Rightarrow> Manager \<times> filter_error option" where
  "EnableRouting getenv nf m =
     (case determineRouting getenv m of
        (m1, Some e) \<Rightarrow> (m1, Some (DetermineRouting e))
      | (m1, None) \<Rightarrow>
          if forwarder m1 = None then (m1, None)
          else case blockInvalidRouted nf m1 of
            (m2, Inl e) \<Rightarrow> (m2, Some (BlockInvalidRouted e))
          | (m2, Inr rule) \<Rightarrow> (m2\<lparr>blockRule := Some rule\<rparr>, None))"

definition DisableRouting :: "(native_call \<Rightarrow> string option) \<Rightarrow> Manager \<Rightarrow> Manager \<times> filter_error option" where
  "DisableRouting nf m =
     (if forwarder m = None then (m, None)
      else
        let m1 = m\<lparr>routingEnabled := False, nativeRouter := False\<rparr> in
        if netstack m \<and> localForwarding m then (m1, None)
        else
          let m2 = m1\<lparr>forwarder := None\<rparr> in
          case blockRule m2 of
            None \<Rightarrow> (m2, None)
          | Some rule \<Rightarrow>
              (case deleteRouteRule nf m2 rule of
                 (m3, Some e) \<Rightarrow> (m3, Some (DeleteBlockRule e))
               | (m3, None) \<Rightarrow> (m3\<lparr>blockRule := None\<rparr>, None)))"

text \<open>The trackers are closed but stay in place, and so does the stopped forwarder.\<close>

definition resetState :: "Manager \<Rightarrow> Manager" where
  "resetState m =
     m\<lparr>incomingDenyRules := Map.empty, incomingRules := Map.empty, routeRulesMap := {}, routeRules := [],
       udpHookOut := None, tcpHookOut := None, udpTracker := map_option udp_Close (udpTracker m),
       icmpTracker := map_option icmp_Close (icmpTracker m), tcpTracker := map_option tcp_Close (tcpTracker m)\<rparr>"

definition layer_of_protocol :: "byte \<Rightarrow> LayerType" where
  "layer_of_protocol protocol =
     (if protocol = TCP then LayerTypeTCP else if protocol = UDP then LayerTypeUDP
      else if protocol = ICMP then LayerTypeICMPv4 else LayerTypeZero)"

definition RegisterNetstackService :: "Manager \<Rightarrow> byte \<Rightarrow> 16 word \<Rightarrow> Manager" where
  "RegisterNetstackService m protocol port =
     m\<lparr>netstackServices := insert (layer_of_protocol protocol, port) (netstackServices m)\<rparr>"

definition UnregisterNetstackService :: "Manager \<Rightarrow> byte \<Rightarrow> 16 word \<Rightarrow> Manager" where
  "UnregisterNetstackService m protocol port =
     m\<lparr>netstackServices := netstackServices m - {(layer_of_protocol protocol, port)}\<rparr>"

definition SetHook :: "Addr \<Rightarrow> 16 word \<Rightarrow> (bytes \<Rightarrow> bool) option \<Rightarrow> PacketHook option" where
  "SetHook ip dPort hook = map_option (\<lambda>f. \<lparr>hook_IP = ip, hook_Port = dPort, hook_Fn = f\<rparr>) hook"

definition HookMatches :: "PacketHook option \<Rightarrow> Addr \<Rightarrow> 16 word \<Rightarrow> bytes \<Rightarrow> bool" where
  "HookMatches h dstIP dport p =
     (case h of None \<Rightarrow> False | Some k \<Rightarrow> hook_IP k = dstIP \<and> hook_Port k = dport \<and> hook_Fn k p)"

definition SetUDPPacketHook :: "Manager \<Rightarrow> Addr \<Rightarrow> 16 word \<Rightarrow> (bytes \<Rightarrow> bool) option \<Rightarrow> Manager" where
  "SetUDPPacketHook m ip dPort hook = m\<lparr>udpHookOut := SetHook ip dPort hook\<rparr>"

definition SetTCPPacketHook :: "Manager \<Rightarrow> Addr \<Rightarrow> 16 word \<Rightarrow> (bytes \<Rightarrow> bool) option \<Rightarrow> Manager" where
  "SetTCPPacketHook m ip dPort hook = m\<lparr>tcpHookOut := SetHook ip dPort hook\<rparr>"

section \<open>Access control of packets\<close>

definition addr_of_bytes :: "bytes \<Rightarrow> Addr" where
  "addr_of_bytes bs =
     (if length bs = 4 then Addr4 (GoNet.be_word bs) else if length bs = 16 then Addr6 (GoNet.be_word bs) [] else NoAddr)"

definition extractIPs :: "decoder \<Rightarrow> (Addr \<times> Addr) option" where
  "extractIPs d =
     (case decoded d of
        [] \<Rightarrow> None
      | l # _ \<Rightarrow>
          Some (case l of
                  LayerTypeIPv4 \<Rightarrow> (addr_of_bytes (ip4_SrcIP d), addr_of_bytes (ip4_DstIP d))
                | LayerTypeIPv6 \<Rightarrow> (addr_of_bytes (ip6_SrcIP d), addr_of_bytes (ip6_DstIP d))
                | _ \<Rightarrow> (NoAddr, NoAddr)))"

definition getTCPFlags :: "decoder \<Rightarrow> byte" where
  "getTCPFlags d =
     (if tcp_SYN d then TCPSyn else 0) OR (if tcp_ACK d then TCPAck else 0) OR (if tcp_FIN d then TCPFin else 0) OR
     (if tcp_RST d then TCPRst else 0) OR (if tcp_PSH d then TCPPush else 0) OR (if tcp_URG d then TCPUrg else 0)"

definition getProtocolFromPacket :: "LayerType \<Rightarrow> byte" where
  "getProtocolFromPacket layer =
     (case layer of LayerTypeTCP \<Rightarrow> TCP | LayerTypeUDP \<Rightarrow> UDP | LayerTypeICMPv4 \<Rightarrow> ICMP | LayerTypeICMPv6 \<Rightarrow> ICMP | _ \<Rightarrow> 0)"

definition getPortsFromPacket :: "LayerType \<Rightarrow> decoder \<Rightarrow> 16 word \<times> 16 word" where
  "getPortsFromPacket layer d =
     (case layer of
        LayerTypeTCP \<Rightarrow> (tcp_SrcPort d, tcp_DstPort d)
      | LayerTypeUDP \<Rightarrow> (udp_SrcPort d, udp_DstPort d)
      | _ \<Rightarrow> (0, 0))"

text \<open>A range with fewer than two values panics.\<close>

definition portsMatch :: "Port option \<Rightarrow> 16 word \<Rightarrow> bool option" where
  "portsMatch rulePort packetPort =
     (case rulePort of
        None \<Rightarrow> Some True
      | Some p \<Rightarrow>
          if IsRange p
          then (case Values p of
                  a # rest \<Rightarrow>
                    if packetPort < a then Some False
                    else (case rest of b # _ \<Rightarrow> Some (packetPort \<le> b) | [] \<Rightarrow> None)
                | [] \<Rightarrow> None)
          else Some (packetPort \<in> set (Values p)))"

definition ports_match2 :: "Port option \<Rightarrow> 16 word \<Rightarrow> Port option \<Rightarrow> 16 word \<Rightarrow> bool option" where
  "ports_match2 sPort src dPort dst = do { b \<leftarrow> portsMatch sPort src; if b then portsMatch dPort dst else Some False }"

text \<open>Whether the loop of \<open>validateRule\<close> returns at a rule.\<close>

definition rule_applies :: "Addr \<Rightarrow> LayerType \<Rightarrow> decoder \<Rightarrow> PeerRule \<Rightarrow> bool option" where
  "rule_applies ip payloadLayer d rule =
     (if pr_matchByIP rule \<and> ip \<noteq> pr_ip rule then Some False
      else if pr_protoLayer rule = layerTypeAll then Some True
      else if payloadLayer \<noteq> pr_protoLayer rule then Some False
      else case payloadLayer of
        LayerTypeTCP \<Rightarrow> ports_match2 (pr_sPort rule) (tcp_SrcPort d) (pr_dPort rule) (tcp_DstPort d)
      | LayerTypeUDP \<Rightarrow> ports_match2 (pr_sPort rule) (udp_SrcPort d) (pr_dPort rule) (udp_DstPort d)
      | LayerTypeICMPv4 \<Rightarrow> Some True
      | LayerTypeICMPv6 \<Rightarrow> Some True
      | _ \<Rightarrow> Some False)"

fun validateRule :: "Addr \<Rightarrow> LayerType \<Rightarrow> decoder \<Rightarrow> RuleSet \<Rightarrow> (bytes \<times> bool) option option" where
  "validateRule ip payloadLayer d [] = Some None"
| "validateRule ip payloadLayer d ((_, rule) # rules) = do {
     b \<leftarrow> rule_applies ip payloadLayer d rule;
     if b then Some (Some (pr_mgmtId rule, pr_drop rule)) else validateRule ip payloadLayer d rules
   }"

definition isSpecialICMP :: "LayerType \<Rightarrow> decoder \<Rightarrow> bool" where
  "isSpecialICMP layer d \<longleftrightarrow> layer = LayerTypeICMPv4 \<and> (fst (icmp4_TypeCode d) = 3 \<or> fst (icmp4_TypeCode d) = 11)"

definition rule_set :: "(Addr \<rightharpoonup> RuleSet) \<Rightarrow> Addr \<Rightarrow> RuleSet" where
  "rule_set t a = (case t a of Some rs \<Rightarrow> rs | None \<Rightarrow> [])"

definition peerACLsBlock :: "(RuleSet \<Rightarrow> RuleSet) \<Rightarrow> Manager \<Rightarrow> Addr \<Rightarrow> LayerType \<Rightarrow> decoder \<Rightarrow> (bytes \<times> bool) option" where
  "peerACLsBlock iter m srcIP layer d =
     (if isSpecialICMP layer d then Some ([], False)
      else do {
        r1 \<leftarrow> validateRule srcIP layer d (iter (rule_set (incomingDenyRules m) srcIP));
        case r1 of Some v \<Rightarrow> Some v | None \<Rightarrow> do {
        r2 \<leftarrow> validateRule srcIP layer d (iter (rule_set (incomingRules m) srcIP));
        case r2 of Some v \<Rightarrow> Some v | None \<Rightarrow> do {
        r3 \<leftarrow> validateRule srcIP layer d (iter (rule_set (incomingRules m) (Addr4 0)));
        case r3 of Some v \<Rightarrow> Some v | None \<Rightarrow> do {
        r4 \<leftarrow> validateRule srcIP layer d (iter (rule_set (incomingRules m) (Addr6 0 [])));
        case r4 of Some v \<Rightarrow> Some v | None \<Rightarrow> Some ([], True)
      }}}})"

definition ruleMatches :: "RouteRule \<Rightarrow> Addr \<Rightarrow> Addr \<Rightarrow> LayerType \<Rightarrow> 16 word \<Rightarrow> 16 word \<Rightarrow> bool option" where
  "ruleMatches rule srcAddr dstAddr protoLayer srcPort dstPort =
     (if rr_protoLayer rule \<noteq> layerTypeAll \<and> rr_protoLayer rule \<noteq> protoLayer then Some False
      else do {
        ports \<leftarrow> (if protoLayer = LayerTypeTCP \<or> protoLayer = LayerTypeUDP
                 then ports_match2 (rr_srcPort rule) srcPort (rr_dstPort rule) dstPort else Some True);
        Some (ports \<and> list_ex (\<lambda>dst. Contains dst dstAddr) (rr_destinations rule) \<and>
              list_ex (\<lambda>src. Contains src srcAddr) (rr_sources rule))
      })"

fun routeACLsPass :: "RouteRule list \<Rightarrow> Addr \<Rightarrow> Addr \<Rightarrow> LayerType \<Rightarrow> 16 word \<Rightarrow> 16 word \<Rightarrow> (bytes \<times> bool) option" where
  "routeACLsPass [] srcIP dstIP protoLayer srcPort dstPort = Some ([], False)"
| "routeACLsPass (rule # rules) srcIP dstIP protoLayer srcPort dstPort = do {
     b \<leftarrow> ruleMatches rule srcIP dstIP protoLayer srcPort dstPort;
     if b then Some (rr_mgmtId rule, rr_action rule = ActionAccept)
     else routeACLsPass rules srcIP dstIP protoLayer srcPort dstPort
   }"

section \<open>Packets\<close>

text \<open>
  What a packet meets: the parser, the clock, a fresh identifier for a flow or event, and the order in
  which rule sets are iterated.
\<close>

record packet_env =
  decode :: "decoder \<Rightarrow> bytes \<Rightarrow> decoder \<times> bool"
  clock :: time
  fresh :: uuid
  rule_order :: "RuleSet \<Rightarrow> RuleSet"

definition trackOutbound :: "packet_env \<Rightarrow> Manager \<Rightarrow> LayerType \<Rightarrow> decoder \<Rightarrow> Addr \<Rightarrow> Addr \<Rightarrow> bytes \<Rightarrow> int \<Rightarrow> (Manager \<times> bytes) option" where
  "trackOutbound e m layer d srcIP dstIP p sz =
     (case layer of
        LayerTypeUDP \<Rightarrow> do {
          t \<leftarrow> udpTracker m;
          (t', origPort) \<leftarrow> udp_TrackOutbound (clock e) (fresh e) t srcIP dstIP (udp_SrcPort d) (udp_DstPort d) sz;
          let m' = m\<lparr>udpTracker := Some t'\<rparr> in
          if origPort = 0 then Some (m', p)
          else do { (p', _) \<leftarrow> rewriteUDPPort p d origPort 0; Some (m', p') }
        }
      | LayerTypeTCP \<Rightarrow> do {
          t \<leftarrow> tcpTracker m;
          (t', origPort) \<leftarrow> tcp_TrackOutbound (clock e) (fresh e) t srcIP dstIP (tcp_SrcPort d) (tcp_DstPort d) (getTCPFlags d) sz;
          let m' = m\<lparr>tcpTracker := Some t'\<rparr> in
          if origPort = 0 then Some (m', p)
          else do { (p', _) \<leftarrow> rewriteTCPPort p d origPort 0; Some (m', p') }
        }
      | LayerTypeICMPv4 \<Rightarrow> do {
          t \<leftarrow> icmpTracker m;
          t' \<leftarrow> icmp_TrackOutbound (clock e) (fresh e) t srcIP dstIP (icmp4_Id d) (icmp4_TypeCode d) sz;
          Some (m\<lparr>icmpTracker := Some t'\<rparr>, p)
        }
      | _ \<Rightarrow> Some (m, p))"

definition trackInbound ::
    "packet_env \<Rightarrow> Manager \<Rightarrow> LayerType \<Rightarrow> decoder \<Rightarrow> Addr \<Rightarrow> Addr \<Rightarrow> bytes \<Rightarrow> int \<Rightarrow> (Manager \<times> decoder) option" where
  "trackInbound e m layer d srcIP dstIP ruleID sz = do {
     m' \<leftarrow> (case layer of
        LayerTypeUDP \<Rightarrow> do {
          t \<leftarrow> udpTracker m;
          t' \<leftarrow> udp_TrackInbound (clock e) (fresh e) t srcIP dstIP (udp_SrcPort d) (udp_DstPort d) ruleID sz (dnatOrigPort d);
          Some (m\<lparr>udpTracker := Some t'\<rparr>)
        }
      | LayerTypeTCP \<Rightarrow> do {
          t \<leftarrow> tcpTracker m;
          t' \<leftarrow> tcp_TrackInbound (clock e) (fresh e) t srcIP dstIP (tcp_SrcPort d) (tcp_DstPort d) (getTCPFlags d) ruleID sz
            (dnatOrigPort d);
          Some (m\<lparr>tcpTracker := Some t'\<rparr>)
        }
      | LayerTypeICMPv4 \<Rightarrow> do {
          t \<leftarrow> icmpTracker m;
          t' \<leftarrow> icmp_TrackInbound (clock e) (fresh e) t srcIP dstIP (icmp4_Id d) (icmp4_TypeCode d) ruleID sz;
          Some (m\<lparr>icmpTracker := Some t'\<rparr>)
        }
      | _ \<Rightarrow> Some m);
     Some (m', d\<lparr>dnatOrigPort := 0\<rparr>)
   }"

text \<open>The result \<^const>\<open>True\<close> of a filter means that the packet is dropped.\<close>

definition filterOutbound ::
    "packet_env \<Rightarrow> Manager \<Rightarrow> decoder \<Rightarrow> bytes \<Rightarrow> int \<Rightarrow> (Manager \<times> decoder \<times> bytes \<times> bool) option" where
  "filterOutbound e m d0 p sz =
     (case decode e d0 p of (d, ok) \<Rightarrow>
        if \<not> ok \<or> length (decoded d) < 2 then Some (m, d, p, False)
        else do {
          (srcIP, dstIP) \<leftarrow> extractIPs d;
          layer \<leftarrow> transport d;
          if srcIP = NoAddr then Some (m, d, p, False)
          else if layer = LayerTypeUDP \<and> HookMatches (udpHookOut m) dstIP (udp_DstPort d) p then Some (m, d, p, True)
          else if layer = LayerTypeTCP \<and> HookMatches (tcpHookOut m) dstIP (tcp_DstPort d) p then Some (m, d, p, True)
          else do {
            (p1, _) \<leftarrow> (if layer = LayerTypeTCP \<and> mssClampEnabled m then clampTCPMSS (mssClampValue m) p d else Some (p, False));
            (m1, p2) \<leftarrow> trackOutbound e m layer d srcIP dstIP p1 sz;
            (p3, _) \<leftarrow> translateOutboundDNAT m1 p2 d;
            Some (m1, d, p3, False)
          }
        })"

definition isValidPacket :: "packet_env \<Rightarrow> decoder \<Rightarrow> bytes \<Rightarrow> decoder \<times> bool \<times> bool" where
  "isValidPacket e d0 p =
     (case decode e d0 p of (d, ok) \<Rightarrow>
        if \<not> ok then (d, False, False)
        else if 2 \<le> length (decoded d) then (d, True, False)
        else if decoded d = [LayerTypeIPv4] \<and> (ip4_Flags d AND 1 \<noteq> 0 \<or> ip4_FragOffset d \<noteq> 0) then (d, True, True)
        else (d, False, False))"

definition isValidTrackedConnection ::
    "packet_env \<Rightarrow> Manager \<Rightarrow> LayerType \<Rightarrow> decoder \<Rightarrow> Addr \<Rightarrow> Addr \<Rightarrow> int \<Rightarrow> (Manager \<times> bool) option" where
  "isValidTrackedConnection e m layer d srcIP dstIP sz =
     (case layer of
        LayerTypeTCP \<Rightarrow> do {
          t \<leftarrow> tcpTracker m;
          let (t', b) = tcp_IsValidInbound (clock e) t srcIP dstIP (tcp_SrcPort d) (tcp_DstPort d) (getTCPFlags d) sz in
          Some (m\<lparr>tcpTracker := Some t'\<rparr>, b)
        }
      | LayerTypeUDP \<Rightarrow> do {
          t \<leftarrow> udpTracker m;
          let (t', b) = udp_IsValidInbound (clock e) t srcIP dstIP (udp_SrcPort d) (udp_DstPort d) sz in
          Some (m\<lparr>udpTracker := Some t'\<rparr>, b)
        }
      | LayerTypeICMPv4 \<Rightarrow> do {
          t \<leftarrow> icmpTracker m;
          let (t', b) = icmp_IsValidInbound (clock e) t srcIP dstIP (icmp4_Id d) (fst (icmp4_TypeCode d)) sz in
          Some (m\<lparr>icmpTracker := Some t'\<rparr>, b)
        }
      | _ \<Rightarrow> Some (m, False))"

text \<open>The forwarder refuses a packet shorter than a header.\<close>

definition InjectIncomingPacket :: "Forwarder \<Rightarrow> bytes \<Rightarrow> Forwarder \<times> bool" where
  "InjectIncomingPacket f p = (if length p < 20 then (f, False) else (f\<lparr>injected := injected f @ [p]\<rparr>, True))"

definition RegisterRuleID :: "Forwarder \<Rightarrow> Addr \<Rightarrow> Addr \<Rightarrow> 16 word \<Rightarrow> 16 word \<Rightarrow> bytes \<Rightarrow> Forwarder" where
  "RegisterRuleID f srcIP dstIP srcPort dstPort ruleID =
     (let key = conn_key srcIP dstIP srcPort dstPort in
      if ruleIdMap f key = None then f\<lparr>ruleIdMap := (ruleIdMap f)(key \<mapsto> ruleID)\<rparr> else f)"

definition getRuleID :: "Forwarder \<Rightarrow> Addr \<Rightarrow> Addr \<Rightarrow> 16 word \<Rightarrow> 16 word \<Rightarrow> bytes option" where
  "getRuleID f srcIP dstIP srcPort dstPort =
     (case ruleIdMap f (conn_key srcIP dstIP srcPort dstPort) of
        Some v \<Rightarrow> Some v
      | None \<Rightarrow> ruleIdMap f (conn_key dstIP srcIP dstPort srcPort))"

definition DeleteRuleID :: "Forwarder \<Rightarrow> Addr \<Rightarrow> Addr \<Rightarrow> 16 word \<Rightarrow> 16 word \<Rightarrow> Forwarder" where
  "DeleteRuleID f srcIP dstIP srcPort dstPort =
     (let key = conn_key srcIP dstIP srcPort dstPort; key' = conn_key dstIP srcIP dstPort srcPort in
      if ruleIdMap f key \<noteq> None then f\<lparr>ruleIdMap := (ruleIdMap f)(key := None)\<rparr>
      else f\<lparr>ruleIdMap := (ruleIdMap f)(key' := None)\<rparr>)"

definition hasMatchingNetstackService :: "Manager \<Rightarrow> LayerType \<Rightarrow> decoder \<Rightarrow> bool" where
  "hasMatchingNetstackService m layer d =
     (case layer of
        LayerTypeTCP \<Rightarrow> (layer, tcp_DstPort d) \<in> netstackServices m
      | LayerTypeUDP \<Rightarrow> (layer, udp_DstPort d) \<in> netstackServices m
      | _ \<Rightarrow> False)"

definition shouldForward :: "Manager \<Rightarrow> LayerType \<Rightarrow> decoder \<Rightarrow> Addr \<Rightarrow> bool" where
  "shouldForward m layer d dstIP =
     (if \<not> localForwarding m then False
      else if netstack m then \<not> hasMatchingNetstackService m layer d
      else dstIP \<noteq> wg_IP (wgIface m))"

definition handleForwardedLocalTraffic :: "Manager \<Rightarrow> bytes \<Rightarrow> Manager \<times> bool" where
  "handleForwardedLocalTraffic m p =
     (case forwarder m of
        None \<Rightarrow> (m, True)
      | Some f \<Rightarrow> (m\<lparr>forwarder := Some (fst (InjectIncomingPacket f p))\<rparr>, True))"

definition drop_event :: "packet_env \<Rightarrow> LayerType \<Rightarrow> decoder \<Rightarrow> Addr \<Rightarrow> Addr \<Rightarrow> bytes \<Rightarrow> int \<Rightarrow> EventFields" where
  "drop_event e layer d srcIP dstIP ruleID sz =
     \<lparr>e_FlowID = fresh e, e_Type = TypeDrop, e_RuleID = ruleID, e_Direction = Ingress, e_Protocol = getProtocolFromPacket layer,
      e_SourceIP = srcIP, e_DestIP = dstIP, e_SourceResourceID = [], e_DestResourceID = [],
      e_SourcePort = fst (getPortsFromPacket layer d), e_DestPort = snd (getPortsFromPacket layer d),
      e_ICMPType = 0, e_ICMPCode = 0, e_RxPackets = 1, e_TxPackets = 0, e_RxBytes = word_of_int sz, e_TxBytes = 0\<rparr>"

definition handleLocalTraffic ::
    "packet_env \<Rightarrow> Manager \<Rightarrow> LayerType \<Rightarrow> decoder \<Rightarrow> Addr \<Rightarrow> Addr \<Rightarrow> bytes \<Rightarrow> int \<Rightarrow> (Manager \<times> decoder \<times> bool) option" where
  "handleLocalTraffic e m layer d srcIP dstIP p sz = do {
     (ruleID, blocked) \<leftarrow> peerACLsBlock (rule_order e) m srcIP layer d;
     if blocked then Some (m\<lparr>flow_events := flow_events m @ [drop_event e layer d srcIP dstIP ruleID sz]\<rparr>, d, True)
     else if shouldForward m layer d dstIP then
       (case handleForwardedLocalTraffic m p of (m', b) \<Rightarrow> Some (m', d, b))
     else do {
       (m', d') \<leftarrow> trackInbound e m layer d srcIP dstIP ruleID sz;
       Some (m', d', False)
     }
   }"

definition handleRoutedTraffic ::
    "packet_env \<Rightarrow> Manager \<Rightarrow> LayerType \<Rightarrow> decoder \<Rightarrow> Addr \<Rightarrow> Addr \<Rightarrow> bytes \<Rightarrow> int \<Rightarrow> (Manager \<times> decoder \<times> bool) option" where
  "handleRoutedTraffic e m layer d srcIP dstIP p sz =
     (if \<not> routingEnabled m then Some (m, d, True)
      else if nativeRouter m then do {
        (m', d') \<leftarrow> trackInbound e m layer d srcIP dstIP [] sz;
        Some (m', d', False)
      }
      else
        let (srcPort, dstPort) = getPortsFromPacket layer d in
        do {
          (ruleID, pass) \<leftarrow> routeACLsPass (routeRules m) srcIP dstIP layer srcPort dstPort;
          if \<not> pass then Some (m\<lparr>flow_events := flow_events m @ [drop_event e layer d srcIP dstIP ruleID sz]\<rparr>, d, True)
          else case forwarder m of
            None \<Rightarrow> Some (m, d, True)
          | Some f \<Rightarrow>
              (case InjectIncomingPacket (RegisterRuleID f srcIP dstIP srcPort dstPort ruleID) p of
                 (f', ok) \<Rightarrow>
                   Some (m\<lparr>forwarder := Some (if ok then f' else DeleteRuleID f' srcIP dstIP srcPort dstPort)\<rparr>, d, True))
        })"

text \<open>
  After a translation the packet is decoded again, with the decoder that was used before. The addresses are
  \<^const>\<open>None\<close> when this fails.
\<close>

definition redecode :: "packet_env \<Rightarrow> bool \<Rightarrow> decoder \<Rightarrow> bytes \<Rightarrow> Addr \<times> Addr \<Rightarrow> (decoder \<times> (Addr \<times> Addr) option) option" where
  "redecode e translated d p ips =
     (if \<not> translated then Some (d, Some ips)
      else case decode e d p of (d', ok) \<Rightarrow>
        if \<not> ok then Some (d', None)
        else do { ips' \<leftarrow> extractIPs d'; Some (d', Some ips') })"

definition translate_inbound ::
    "packet_env \<Rightarrow> Manager \<Rightarrow> bytes \<Rightarrow> decoder \<Rightarrow> Addr \<times> Addr \<Rightarrow> (decoder \<times> bytes \<times> (Addr \<times> Addr) option) option" where
  "translate_inbound e m p d ips = do {
     (p1, d1, translated) \<leftarrow> translateInboundPortDNAT m p d (fst ips) (snd ips);
     (d2, res) \<leftarrow> redecode e translated d1 p1 ips;
     case res of None \<Rightarrow> Some (d2, p1, None) | Some ips2 \<Rightarrow> do {
       (p3, translated') \<leftarrow> translateInboundReverse m p1 d2;
       (d3, res') \<leftarrow> redecode e translated' d2 p3 ips2;
       Some (d3, p3, res')
     }
   }"

text \<open>What happens to a packet after the translations: the last part of \<open>filterInbound\<close>.\<close>

definition decide_inbound ::
    "packet_env \<Rightarrow> Manager \<Rightarrow> decoder \<Rightarrow> bytes \<Rightarrow> Addr \<Rightarrow> Addr \<Rightarrow> int \<Rightarrow> (Manager \<times> decoder \<times> bool) option" where
  "decide_inbound e m d p srcIP dstIP sz =
     (if transport d = None \<and> \<not> stateful m \<and> \<not> IsLocalIP (localipmanager m) dstIP \<and> \<not> routingEnabled m
      then Some (m, d, True)
      else do {
        layer \<leftarrow> transport d;
        (m1, tracked) \<leftarrow> (if stateful m then isValidTrackedConnection e m layer d srcIP dstIP sz else Some (m, False));
        if tracked then Some (m1, d, False)
        else if IsLocalIP (localipmanager m1) dstIP then handleLocalTraffic e m1 layer d srcIP dstIP p sz
        else handleRoutedTraffic e m1 layer d srcIP dstIP p sz
      })"

definition filterInbound ::
    "packet_env \<Rightarrow> Manager \<Rightarrow> decoder \<Rightarrow> bytes \<Rightarrow> int \<Rightarrow> (Manager \<times> decoder \<times> bytes \<times> bool) option" where
  "filterInbound e m d0 p sz =
     (case isValidPacket e d0 p of (d, valid, fragment) \<Rightarrow>
        if \<not> valid then Some (m, d, p, True)
        else do {
          ips \<leftarrow> extractIPs d;
          if fst ips = NoAddr then Some (m, d, p, True)
          else if fragment then Some (m, d, p, False)
          else do {
            (d1, p1, res) \<leftarrow> translate_inbound e m p d ips;
            case res of
              None \<Rightarrow> Some (m, d1, p1, True)
            | Some (srcIP, dstIP) \<Rightarrow> do {
                (m2, d2, b) \<leftarrow> decide_inbound e m d1 p1 srcIP dstIP sz;
                Some (m2, d2, p1, b)
              }
          }
        })"

section \<open>The filter with hooks only\<close>

record HooksFilter =
  udpHook :: "PacketHook option"
  tcpHook :: "PacketHook option"

definition HooksFilter_FilterOutbound :: "HooksFilter \<Rightarrow> bytes \<Rightarrow> bool" where
  "HooksFilter_FilterOutbound f p =
     (if length p < 20 then False
      else if drop_bit 4 (p ! 0) \<noteq> 4 then False
      else
        let ihl = unat (p ! 0 AND 0x0f) * 4 in
        if ihl < 20 \<or> length p < ihl + 4 then False
        else if (GoNet.be_word [p ! 6, p ! 7] :: 16 word) AND 0x1fff \<noteq> 0 then False
        else
          let dstIP = Addr4 (GoNet.be_word (take 4 (drop 16 p))); dstPort = GoNet.be_word [p ! (ihl + 2), p ! (ihl + 3)] in
          if p ! 9 = UDP then HookMatches (udpHook f) dstIP dstPort p
          else if p ! 9 = TCP then HookMatches (tcpHook f) dstIP dstPort p
          else False)"

section \<open>Decisions\<close>

text \<open>
  A port specification the manager of access rules makes: a range has two values. In the tables every
  rule stands under its address and its ID, rules that deny in one table and rules that allow in the
  other.
\<close>

definition port_ok :: "Port option \<Rightarrow> bool" where
  "port_ok p = (case p of None \<Rightarrow> True | Some q \<Rightarrow> IsRange q \<longrightarrow> 2 \<le> length (Values q))"

definition table_ok :: "bool \<Rightarrow> (Addr \<rightharpoonup> RuleSet) \<Rightarrow> bool" where
  "table_ok deny t \<longleftrightarrow>
     (\<forall>a rs. t a = Some rs \<longrightarrow> rs \<noteq> [] \<and> distinct (map fst rs) \<and>
        (\<forall>(i, r) \<in> set rs. pr_id r = i \<and> pr_ip r = a \<and> pr_drop r = deny \<and> port_ok (pr_sPort r) \<and> port_ok (pr_dPort r)))"

definition peer_rules_ok :: "Manager \<Rightarrow> bool" where
  "peer_rules_ok m \<longleftrightarrow> table_ok True (incomingDenyRules m) \<and> table_ok False (incomingRules m)"

definition applies :: "Addr \<Rightarrow> LayerType \<Rightarrow> decoder \<Rightarrow> PeerRule \<Rightarrow> bool" where
  "applies ip layer d r \<longleftrightarrow> rule_applies ip layer d r = Some True"

definition rules_at :: "(Addr \<rightharpoonup> RuleSet) \<Rightarrow> Addr \<Rightarrow> PeerRule set" where
  "rules_at t a = snd ` set (rule_set t a)"

text \<open>What the access rules say about a packet: no rule denies it and some rule allows it.\<close>

definition permitted :: "Manager \<Rightarrow> Addr \<Rightarrow> LayerType \<Rightarrow> decoder \<Rightarrow> bool" where
  "permitted m src layer d \<longleftrightarrow>
     \<not> (\<exists>r \<in> rules_at (incomingDenyRules m) src. applies src layer d r) \<and>
     (\<exists>r \<in> rules_at (incomingRules m) src \<union> rules_at (incomingRules m) (Addr4 0) \<union> rules_at (incomingRules m) (Addr6 0 []).
        applies src layer d r)"

lemma portsMatch_total: "port_ok p \<Longrightarrow> portsMatch p x \<noteq> None"
  by (auto simp: port_ok_def portsMatch_def numeral_2_eq_2 Suc_le_length_iff split: option.splits list.splits)

lemma ports_match2_total: "port_ok p \<Longrightarrow> port_ok q \<Longrightarrow> ports_match2 p x q y \<noteq> None"
  using portsMatch_total [of p x] portsMatch_total [of q y] by (auto simp: ports_match2_def)

lemma rule_applies_total:
  "port_ok (pr_sPort r) \<Longrightarrow> port_ok (pr_dPort r) \<Longrightarrow> rule_applies ip layer d r \<noteq> None"
  using ports_match2_total [of "pr_sPort r" "pr_dPort r"] by (simp add: rule_applies_def del: not_None_eq split: LayerType.split)

lemma validateRule_find:
  assumes "\<And>i r. (i, r) \<in> set rs \<Longrightarrow> rule_applies ip layer d r \<noteq> None"
  shows "validateRule ip layer d rs = Some (map_option (\<lambda>r. (pr_mgmtId r, pr_drop r)) (find (applies ip layer d) (map snd rs)))"
  using assms
proof (induction rs)
  case (Cons a rs)
  obtain i r where a: "a = (i, r)" by fastforce
  obtain b where b: "rule_applies ip layer d r = Some b" using Cons.prems [of i r] a by auto
  have "validateRule ip layer d rs = Some (map_option (\<lambda>r. (pr_mgmtId r, pr_drop r)) (find (applies ip layer d) (map snd rs)))"
    by (rule Cons.IH) (rule Cons.prems, erule list.set_intros(2))
  moreover have "applies ip layer d r = b" using b by (simp add: applies_def)
  ultimately show ?case by (cases b) (simp_all add: a b)
qed simp

text \<open>The answer of \<open>validateRule\<close> for a rule set of a well-formed table, in any order.\<close>

lemma validateRule_table:
  assumes "table_ok deny t" and "iteration iter"
  shows "\<exists>res. validateRule ip layer d (iter (rule_set t a)) = Some res \<and>
    ((\<exists>r \<in> rules_at t a. applies ip layer d r) \<and> (\<exists>i. res = Some (i, deny)) \<or>
     \<not> (\<exists>r \<in> rules_at t a. applies ip layer d r) \<and> res = None)"
proof -
  let ?rs = "iter (rule_set t a)"
  have set: "set ?rs = set (rule_set t a)" using assms(2) by simp
  have ok: "pr_drop r = deny \<and> rule_applies ip layer d r \<noteq> None" if i: "(i, r) \<in> set (rule_set t a)" for i r
  proof -
    obtain rs where "t a = Some rs" "(i, r) \<in> set rs"
      using i unfolding rule_set_def by (cases "t a") simp_all
    then have "pr_drop r = deny \<and> port_ok (pr_sPort r) \<and> port_ok (pr_dPort r)" using assms(1) by (fastforce simp: table_ok_def)
    then show ?thesis using rule_applies_total by blast
  qed
  have v: "validateRule ip layer d ?rs =
      Some (map_option (\<lambda>r. (pr_mgmtId r, pr_drop r)) (find (applies ip layer d) (map snd ?rs)))"
    by (rule validateRule_find) (use ok set in auto)
  show ?thesis
  proof (cases "find (applies ip layer d) (map snd ?rs)")
    case None
    then have "\<not> (\<exists>r \<in> rules_at t a. applies ip layer d r)" using set by (auto simp: find_None_iff rules_at_def)
    then show ?thesis using v None by auto
  next
    case (Some r)
    then have "r \<in> set (map snd ?rs)" "applies ip layer d r" by (auto simp: find_Some_iff)
    then have "r \<in> rules_at t a" "pr_drop r = deny" using set ok by (auto simp: rules_at_def)
    then show ?thesis using v Some \<open>applies ip layer d r\<close> by auto
  qed
qed

lemma peerACLsBlock_permitted:
  assumes "peer_rules_ok m" and "iteration iter"
  shows "\<exists>i. peerACLsBlock iter m src layer d = Some (i, \<not> isSpecialICMP layer d \<and> \<not> permitted m src layer d)"
proof (cases "isSpecialICMP layer d")
  case False
  have t: "table_ok True (incomingDenyRules m)" "table_ok False (incomingRules m)" using assms(1) by (auto simp: peer_rules_ok_def)
  obtain r1 where v1: "validateRule src layer d (iter (rule_set (incomingDenyRules m) (src))) = Some r1"
      "(\<exists>r \<in> rules_at (incomingDenyRules m) (src). applies src layer d r) \<and> (\<exists>i. r1 = Some (i, True)) \<or>
        \<not> (\<exists>r \<in> rules_at (incomingDenyRules m) (src). applies src layer d r) \<and> r1 = None"
    using validateRule_table [OF t(1) assms(2), of src layer d "src"] by blast
  obtain r2 where v2: "validateRule src layer d (iter (rule_set (incomingRules m) (src))) = Some r2"
      "(\<exists>r \<in> rules_at (incomingRules m) (src). applies src layer d r) \<and> (\<exists>i. r2 = Some (i, False)) \<or>
        \<not> (\<exists>r \<in> rules_at (incomingRules m) (src). applies src layer d r) \<and> r2 = None"
    using validateRule_table [OF t(2) assms(2), of src layer d "src"] by blast
  obtain r3 where v3: "validateRule src layer d (iter (rule_set (incomingRules m) (Addr4 0))) = Some r3"
      "(\<exists>r \<in> rules_at (incomingRules m) (Addr4 0). applies src layer d r) \<and> (\<exists>i. r3 = Some (i, False)) \<or>
        \<not> (\<exists>r \<in> rules_at (incomingRules m) (Addr4 0). applies src layer d r) \<and> r3 = None"
    using validateRule_table [OF t(2) assms(2), of src layer d "Addr4 0"] by blast
  obtain r4 where v4: "validateRule src layer d (iter (rule_set (incomingRules m) (Addr6 0 []))) = Some r4"
      "(\<exists>r \<in> rules_at (incomingRules m) (Addr6 0 []). applies src layer d r) \<and> (\<exists>i. r4 = Some (i, False)) \<or>
        \<not> (\<exists>r \<in> rules_at (incomingRules m) (Addr6 0 []). applies src layer d r) \<and> r4 = None"
    using validateRule_table [OF t(2) assms(2), of src layer d "Addr6 0 []"] by blast
  show ?thesis
    using v1(2) v2(2) v3(2) v4(2) False unfolding peerACLsBlock_def v1(1) v2(1) v3(1) v4(1) permitted_def bex_Un
    by (elim disjE conjE exE) simp_all
qed (simp add: peerACLsBlock_def)

text \<open>Whether the trackers hold the flow that a packet would be a reply of.\<close>

definition has_flow :: "Manager \<Rightarrow> LayerType \<Rightarrow> decoder \<Rightarrow> Addr \<Rightarrow> Addr \<Rightarrow> bool" where
  "has_flow m layer d src dst =
     (case layer of
        LayerTypeTCP \<Rightarrow> (\<exists>t. tcpTracker m = Some t \<and> tcp_conn t (conn_key dst src (tcp_DstPort d) (tcp_SrcPort d)) \<noteq> None)
      | LayerTypeUDP \<Rightarrow> (\<exists>t. udpTracker m = Some t \<and> udp_conn t (conn_key dst src (udp_DstPort d) (udp_SrcPort d)) \<noteq> None)
      | LayerTypeICMPv4 \<Rightarrow> (\<exists>t. icmpTracker m = Some t \<and> fst (icmp4_TypeCode d) = ICMPv4TypeEchoReply \<and>
            icmp_conn t (icmp_key dst src (icmp4_Id d)) \<noteq> None)
      | _ \<Rightarrow> False)"

lemma tracked_has_flow:
  assumes "isValidTrackedConnection e m layer d src dst sz = Some (m1, tracked)"
  shows "tracked \<Longrightarrow> has_flow m layer d src dst"
    and "incomingDenyRules m1 = incomingDenyRules m \<and> incomingRules m1 = incomingRules m \<and>
      localipmanager m1 = localipmanager m \<and> routingEnabled m1 = routingEnabled m \<and> nativeRouter m1 = nativeRouter m \<and>
      localForwarding m1 = localForwarding m \<and> netstack m1 = netstack m \<and> netstackServices m1 = netstackServices m \<and>
      wgIface m1 = wgIface m \<and> stateful m1 = stateful m \<and> forwarder m1 = forwarder m \<and> routeRules m1 = routeRules m"
  using assms
  by (cases layer; auto simp: isValidTrackedConnection_def has_flow_def tcp_IsValidInbound_def udp_IsValidInbound_def
      icmp_IsValidInbound_def Let_def split: bind_splits prod.splits if_splits option.splits)+

lemma routed_passes:
  assumes "handleRoutedTraffic e m layer d src dst p sz = Some (m', d', False)"
  shows "routingEnabled m \<and> nativeRouter m"
  using assms by (auto simp: handleRoutedTraffic_def split: if_splits bind_splits prod.splits option.splits)

lemma local_passes:
  assumes "handleLocalTraffic e m layer d src dst p sz = Some (m', d', False)" and "peer_rules_ok m" and "iteration (rule_order e)"
  shows "\<not> shouldForward m layer d dst \<and> (isSpecialICMP layer d \<or> permitted m src layer d)"
proof -
  obtain i where "peerACLsBlock (rule_order e) m src layer d = Some (i, \<not> isSpecialICMP layer d \<and> \<not> permitted m src layer d)"
    using peerACLsBlock_permitted [OF assms(2,3)] by blast
  then show ?thesis using assms(1)
    by (auto simp: handleLocalTraffic_def handleForwardedLocalTraffic_def split: if_splits option.splits bind_splits prod.splits)
qed

lemma permitted_cong:
  "incomingDenyRules m1 = incomingDenyRules m \<Longrightarrow> incomingRules m1 = incomingRules m \<Longrightarrow> permitted m1 = permitted m"
  by (intro ext) (simp only: permitted_def)

lemma shouldForward_cong:
  "localForwarding m1 = localForwarding m \<Longrightarrow> netstack m1 = netstack m \<Longrightarrow> netstackServices m1 = netstackServices m \<Longrightarrow>
   wgIface m1 = wgIface m \<Longrightarrow> shouldForward m1 = shouldForward m"
  by (simp add: shouldForward_def hasMatchingNetstackService_def fun_eq_iff split: LayerType.split)

lemma decide_frame:
  assumes "(if stateful m then isValidTrackedConnection e m layer d src dst sz else Some (m, False)) = Some (m1, tracked)"
  shows "incomingDenyRules m1 = incomingDenyRules m \<and> incomingRules m1 = incomingRules m \<and>
      localipmanager m1 = localipmanager m \<and> routingEnabled m1 = routingEnabled m \<and> nativeRouter m1 = nativeRouter m \<and>
      permitted m1 = permitted m \<and> shouldForward m1 = shouldForward m"
proof (cases "stateful m")
  case True
  then have "isValidTrackedConnection e m layer d src dst sz = Some (m1, tracked)" using assms by simp
  from tracked_has_flow(2) [OF this] show ?thesis by (elim conjE) (intro conjI; (rule permitted_cong shouldForward_cong)?; assumption)
qed (use assms in simp)

lemma decide_inbound_passes:
  assumes "decide_inbound e m d p src dst sz = Some (m', d', False)" and "peer_rules_ok m" and "iteration (rule_order e)"
  shows "\<exists>layer. transport d = Some layer \<and>
    (stateful m \<and> has_flow m layer d src dst \<or>
     IsLocalIP (localipmanager m) dst \<and> \<not> shouldForward m layer d dst \<and> (isSpecialICMP layer d \<or> permitted m src layer d) \<or>
     \<not> IsLocalIP (localipmanager m) dst \<and> routingEnabled m \<and> nativeRouter m)"
proof -
  let ?t = "\<lambda>layer. if stateful m then isValidTrackedConnection e m layer d src dst sz else Some (m, False)"
  obtain layer where layer: "transport d = Some layer"
    using assms(1) by (cases "transport d") (simp_all add: decide_inbound_def split: if_splits)
  have eq: "?t layer \<bind> (\<lambda>(m1, tracked). if tracked then Some (m1, d, False)
      else if IsLocalIP (localipmanager m1) dst then handleLocalTraffic e m1 layer d src dst p sz
      else handleRoutedTraffic e m1 layer d src dst p sz) = Some (m', d', False)"
    using assms(1) unfolding decide_inbound_def layer by simp
  from this [THEN Option.bind_eq_Some_conv [THEN iffD1]] obtain r where r: "?t layer = Some r" by (elim exE conjE)
  obtain m1 tracked where rp: "r = (m1, tracked)" by (rule prod.exhaust)
  note m1 = r [unfolded rp]
  have fin: "tracked \<or> (if IsLocalIP (localipmanager m1) dst then handleLocalTraffic e m1 layer d src dst p sz
      else handleRoutedTraffic e m1 layer d src dst p sz) = Some (m', d', False)"
    using eq unfolding m1 by (cases tracked) simp_all
  have same: "incomingDenyRules m1 = incomingDenyRules m" "incomingRules m1 = incomingRules m"
      "localipmanager m1 = localipmanager m" "routingEnabled m1 = routingEnabled m" "nativeRouter m1 = nativeRouter m"
      "permitted m1 = permitted m" "shouldForward m1 = shouldForward m"
    using decide_frame [OF m1] by simp_all
  have ok: "peer_rules_ok m1" using assms(2) same by (simp add: peer_rules_ok_def)
  show ?thesis
  proof (cases tracked)
    case True
    then show ?thesis using m1 layer tracked_has_flow(1) by (auto split: if_splits)
  next
    case False
    then show ?thesis
      using fin layer local_passes [OF _ ok assms(3)] routed_passes same by (auto split: if_splits)
  qed
qed

end
