(* ===== verification/PacketRules.thy ===== *)
theory PacketRules
  imports PacketFilter
begin

text \<open>
  The rules of the packet filter, seen as the sets of peer and route rules that the operations of
  \<open>client/firewall/uspfilter/filter.go\<close> add and remove, and the decisions for packets as functions of these sets.
  The tables are kept well formed and the list of route rules sorted with the denying rules first by every
  sequence of operations.
\<close>

text \<open>
  The operations on the rules, as the managers of access rules and routes call them. \<open>CloseFilter\<close> is
  \<open>resetState\<close>.
\<close>

datatype rule_op =
    AddPeer string bytes IP Protocol "Port option" "Port option" Action
  | DelPeer PeerRule
  | AddRoute bytes "Prefix list" Network Protocol "Port option" "Port option" Action
  | DelRoute string
  | UpdSet Set "Prefix list"
  | Enable
  | Disable
  | CloseFilter

definition rule_step :: "(string \<Rightarrow> string) \<Rightarrow> (native_call \<Rightarrow> string option) \<Rightarrow> Manager \<Rightarrow> rule_op \<Rightarrow> Manager" where
  "rule_step getenv nf m op =
     (case op of
        AddPeer uuid ident ip proto sPort dPort action \<Rightarrow> fst (AddPeerFiltering uuid m ident ip proto sPort dPort action)
      | DelPeer r \<Rightarrow> fst (DeletePeerRule m r)
      | AddRoute ident sources destination proto sPort dPort action \<Rightarrow>
          fst (addRouteFiltering nf m ident sources destination proto sPort dPort action)
      | DelRoute k \<Rightarrow> fst (deleteRouteRule nf m k)
      | UpdSet s prefixes \<Rightarrow> fst (UpdateSet nf m s prefixes)
      | Enable \<Rightarrow> fst (EnableRouting getenv nf m)
      | Disable \<Rightarrow> fst (DisableRouting nf m)
      | CloseFilter \<Rightarrow> resetState m)"

definition installed_rules :: "Manager \<Rightarrow> PeerRule set" where
  "installed_rules m = (\<Union>a. rules_at (incomingDenyRules m) a) \<union> (\<Union>a. rules_at (incomingRules m) a)"

text \<open>Ports are well formed, identifiers of new peer rules are fresh.\<close>

definition rule_legal :: "Manager \<Rightarrow> rule_op \<Rightarrow> bool" where
  "rule_legal m op =
     (case op of
        AddPeer uuid _ _ _ sPort dPort _ \<Rightarrow> port_ok sPort \<and> port_ok dPort \<and> uuid \<notin> pr_id ` installed_rules m
      | AddRoute _ _ _ _ sPort dPort _ \<Rightarrow> port_ok sPort \<and> port_ok dPort
      | _ \<Rightarrow> True)"

definition route_rules_ok :: "Manager \<Rightarrow> bool" where
  "route_rules_ok m \<longleftrightarrow>
     sorted_wrt (\<lambda>a b. \<not> RouteRules_Less b a) (routeRules m) \<and> distinct (map rr_id (routeRules m)) \<and>
     routeRulesMap m = rr_id ` set (routeRules m) \<and>
     (\<forall>r \<in> set (routeRules m). port_ok (rr_srcPort r) \<and> port_ok (rr_dstPort r))"

definition rules_ok :: "Manager \<Rightarrow> bool" where
  "rules_ok m \<longleftrightarrow> peer_rules_ok m \<and> route_rules_ok m"

text \<open>Sorting by insertion.\<close>

lemma set_ins_by [simp]: "set (ins_by lt x ys) = insert x (set ys)"
  by (induction ys) auto

lemma mset_ins_by [simp]: "mset (ins_by lt x ys) = add_mset x (mset ys)"
  by (induction ys) auto

lemma sort_by_snoc [simp]: "sort_by lt (xs @ [x]) = ins_by lt x (sort_by lt xs)"
  by (simp add: sort_by_def)

lemma sort_by_Nil [simp]: "sort_by lt [] = []"
  by (simp add: sort_by_def)

lemma mset_sort_by [simp]: "mset (sort_by lt xs) = mset xs"
  by (induction xs rule: rev_induct) simp_all

lemma set_sort_by [simp]: "set (sort_by lt xs) = set xs"
  by (metis mset_sort_by set_mset_mset)

definition weak_order :: "('a \<Rightarrow> 'a \<Rightarrow> bool) \<Rightarrow> bool" where
  "weak_order lt \<longleftrightarrow> (\<forall>x y. lt x y \<longrightarrow> \<not> lt y x) \<and> (\<forall>x y z. lt x z \<longrightarrow> lt x y \<or> lt y z)"

lemma sorted_ins_by:
  assumes "weak_order lt" and "sorted_wrt (\<lambda>a b. \<not> lt b a) ys"
  shows "sorted_wrt (\<lambda>a b. \<not> lt b a) (ins_by lt x ys)"
  using assms(2)
proof (induction ys)
  case (Cons y ys)
  have "\<not> lt z x" if z: "z \<in> set ys" and l: "lt x y" for z
    using assms(1) Cons.prems z l unfolding weak_order_def by (metis sorted_wrt.simps(2))
  then show ?case using Cons assms(1) unfolding weak_order_def by auto
qed simp

lemma sorted_sort_by: "weak_order lt \<Longrightarrow> sorted_wrt (\<lambda>a b. \<not> lt b a) (sort_by lt xs)"
  by (induction xs rule: rev_induct) (simp_all add: sorted_ins_by)

lemma string_less_asym: "string_less x y \<Longrightarrow> \<not> string_less y x"
  by (induction x y rule: string_less.induct) auto

lemma string_less_neg_trans: "string_less x z \<Longrightarrow> string_less x y \<or> string_less y z"
proof (induction x z arbitrary: y rule: string_less.induct)
  case (3 a xs c zs)
  then show ?case by (cases y) (auto simp: of_char_eq_iff [symmetric, where ?'a = nat] simp del: of_char_eq_iff)
next
  case (2 c zs)
  then show ?case by (cases y) auto
qed simp

lemma RouteRules_Less_order: "weak_order RouteRules_Less"
  unfolding weak_order_def RouteRules_Less_def
  by (intro conjI allI impI) (auto split: if_splits dest: string_less_asym string_less_neg_trans)

section \<open>The operations keep the tables well formed\<close>

lemma table_ok_empty [simp]: "table_ok deny Map.empty"
  by (simp add: table_ok_def)

definition rs_ok :: "bool \<Rightarrow> Addr \<Rightarrow> RuleSet \<Rightarrow> bool" where
  "rs_ok deny a rs \<longleftrightarrow> distinct (map fst rs) \<and>
     (\<forall>(i, r) \<in> set rs. pr_id r = i \<and> pr_ip r = a \<and> pr_drop r = deny \<and> port_ok (pr_sPort r) \<and> port_ok (pr_dPort r))"

lemma rs_ok_Nil [simp]: "rs_ok deny a []"
  by (simp add: rs_ok_def)

lemma table_ok_iff: "table_ok deny t \<longleftrightarrow> (\<forall>a. t a \<noteq> Some [] \<and> rs_ok deny a (rule_set t a))"
proof -
  have "(\<forall>rs. t a = Some rs \<longrightarrow> rs \<noteq> [] \<and> rs_ok deny a rs) = (t a \<noteq> Some [] \<and> rs_ok deny a (rule_set t a))" for a
    by (cases "t a") (auto simp: rule_set_def)
  then show ?thesis by (simp add: table_ok_def rs_ok_def)
qed

lemma rule_set_upd [simp]:
  "rule_set (t(a := x)) b = (if b = a then (case x of Some rs \<Rightarrow> rs | None \<Rightarrow> []) else rule_set t b)"
  by (simp add: rule_set_def)

lemma set_alist_update: "distinct (map fst xs) \<Longrightarrow> set (AList.update k v xs) = insert (k, v) {x \<in> set xs. fst x \<noteq> k}"
  by (induction xs) (auto simp: image_iff)

lemma rs_ok_update:
  "rs_ok (pr_drop r) (pr_ip r) rs \<Longrightarrow> port_ok (pr_sPort r) \<Longrightarrow> port_ok (pr_dPort r) \<Longrightarrow>
   rs_ok (pr_drop r) (pr_ip r) (AList.update (pr_id r) r rs)"
  unfolding rs_ok_def by (simp add: distinct_update set_alist_update)

lemma rs_ok_delete: "rs_ok deny a rs \<Longrightarrow> rs_ok deny a (AList.delete k rs)"
  unfolding rs_ok_def by (simp add: distinct_map_filter AList.delete_eq)

lemma table_ok_put:
  assumes "table_ok (pr_drop r) t" and "port_ok (pr_sPort r)" and "port_ok (pr_dPort r)"
  shows "table_ok (pr_drop r) (t(pr_ip r \<mapsto> AList.update (pr_id r) r (rule_set t (pr_ip r))))"
  using assms unfolding table_ok_iff by (simp add: rs_ok_update update_nonempty)

lemma table_ok_delete:
  assumes "table_ok deny t" and "delete_rule t r = Some t'"
  shows "table_ok deny t'"
proof -
  obtain rs where rs: "t (pr_ip r) = Some rs"
      "t' = t(pr_ip r := if AList.delete (pr_id r) rs = [] then None else Some (AList.delete (pr_id r) rs))"
    using assms(2) by (auto simp: delete_rule_def Let_def split: option.splits if_splits)
  have "rs_ok deny (pr_ip r) (AList.delete (pr_id r) rs)"
    using assms(1) rs(1) rs_ok_delete by (simp add: table_ok_iff rule_set_def) (metis option.simps(5))
  then show ?thesis using assms(1) unfolding table_ok_iff rs(2) by simp
qed

lemma created_rules_ok: "create getenv isNetstack interfaces filterSet iface native disableServer mtu = Inr m \<Longrightarrow> rules_ok m \<and> installed_rules m = {}"
  by (auto simp: create_def initForwarder_def Let_def rules_ok_def peer_rules_ok_def route_rules_ok_def installed_rules_def
      rules_at_def rule_set_def split: prod.splits if_splits)

text \<open>The rule that \<open>AddPeerFiltering\<close> makes of its arguments.\<close>

definition new_peer_rule :: "string \<Rightarrow> bytes \<Rightarrow> IP \<Rightarrow> Protocol \<Rightarrow> Port option \<Rightarrow> Port option \<Rightarrow> Action \<Rightarrow> PeerRule" where
  "new_peer_rule uuid ident ip proto sPort dPort action =
     (let i = addr_Unmap (AddrFromSlice ip); ipLayer = if Is4 i then LayerTypeIPv4 else LayerTypeIPv6 in
      \<lparr>pr_id = uuid, pr_mgmtId = ident, pr_ip = i, pr_ipLayer = ipLayer,
       pr_matchByIP = Addr_String i \<notin> {''0.0.0.0'', ''::''},
       pr_protoLayer = protoToLayer proto ipLayer, pr_sPort = sPort, pr_dPort = dPort, pr_drop = (action = ActionDrop)\<rparr>)"

lemma AddPeerFiltering_eq:
  "AddPeerFiltering uuid m ident ip proto sPort dPort action =
     (let r = new_peer_rule uuid ident ip proto sPort dPort action in
      if AddrFromSlice ip = NoAddr then (m, Inl (InvalidIP ip))
      else if action = ActionDrop
      then (m\<lparr>incomingDenyRules := (incomingDenyRules m)
              (pr_ip r \<mapsto> AList.update (pr_id r) r (rule_set (incomingDenyRules m) (pr_ip r)))\<rparr>, Inr [r])
      else (m\<lparr>incomingRules := (incomingRules m)
              (pr_ip r \<mapsto> AList.update (pr_id r) r (rule_set (incomingRules m) (pr_ip r)))\<rparr>, Inr [r]))"
  by (simp add: AddPeerFiltering_def new_peer_rule_def Let_def rule_set_def)

lemma new_peer_rule_sel [simp]:
  "pr_id (new_peer_rule uuid ident ip proto sPort dPort action) = uuid"
  "pr_sPort (new_peer_rule uuid ident ip proto sPort dPort action) = sPort"
  "pr_dPort (new_peer_rule uuid ident ip proto sPort dPort action) = dPort"
  "pr_drop (new_peer_rule uuid ident ip proto sPort dPort action) = (action = ActionDrop)"
  by (simp_all add: new_peer_rule_def Let_def)

lemma AddPeerFiltering_ok:
  assumes "peer_rules_ok m" and "port_ok sPort" and "port_ok dPort"
  shows "peer_rules_ok (fst (AddPeerFiltering uuid m ident ip proto sPort dPort action))"
  using assms table_ok_put [of "new_peer_rule uuid ident ip proto sPort dPort action"]
  by (cases action) (simp_all add: AddPeerFiltering_eq Let_def peer_rules_ok_def)

lemma DeletePeerRule_ok: "peer_rules_ok m \<Longrightarrow> peer_rules_ok (fst (DeletePeerRule m r))"
  by (auto simp: DeletePeerRule_def peer_rules_ok_def intro: table_ok_delete split: option.splits)

text \<open>The rules under an address are the rules of that address.\<close>

lemma rules_at_rule:
  assumes "table_ok deny t" and "r \<in> rules_at t a"
  shows "pr_ip r = a \<and> pr_drop r = deny"
proof -
  obtain i where "(i, r) \<in> set (rule_set t a)" using assms(2) by (auto simp: rules_at_def)
  moreover have "rs_ok deny a (rule_set t a)" using assms(1) by (simp add: table_ok_iff)
  ultimately show ?thesis unfolding rs_ok_def by blast
qed

lemma rules_at_peer_rules:
  assumes "peer_rules_ok m"
  shows "r \<in> rules_at (incomingDenyRules m) a \<longleftrightarrow> r \<in> installed_rules m \<and> pr_drop r \<and> pr_ip r = a"
    and "r \<in> rules_at (incomingRules m) a \<longleftrightarrow> r \<in> installed_rules m \<and> \<not> pr_drop r \<and> pr_ip r = a"
proof -
  have t: "table_ok True (incomingDenyRules m)" "table_ok False (incomingRules m)" using assms by (auto simp: peer_rules_ok_def)
  show "r \<in> rules_at (incomingDenyRules m) a \<longleftrightarrow> r \<in> installed_rules m \<and> pr_drop r \<and> pr_ip r = a"
    "r \<in> rules_at (incomingRules m) a \<longleftrightarrow> r \<in> installed_rules m \<and> \<not> pr_drop r \<and> pr_ip r = a"
    unfolding installed_rules_def using rules_at_rule [OF t(1)] rules_at_rule [OF t(2)] by blast+
qed

lemma permitted_peer_rules:
  assumes "peer_rules_ok m"
  shows "permitted m src layer d \<longleftrightarrow>
    \<not> (\<exists>r \<in> installed_rules m. pr_drop r \<and> pr_ip r = src \<and> applies src layer d r) \<and>
    (\<exists>r \<in> installed_rules m. \<not> pr_drop r \<and> pr_ip r \<in> {src, Addr4 0, Addr6 0 []} \<and> applies src layer d r)"
  unfolding permitted_def Bex_def Un_iff rules_at_peer_rules [OF assms] by blast

definition peer_spec :: "PeerRule set \<Rightarrow> rule_op \<Rightarrow> PeerRule set" where
  "peer_spec S op =
     (case op of
        AddPeer uuid ident ip proto sPort dPort action \<Rightarrow>
          if AddrFromSlice ip = NoAddr then S else insert (new_peer_rule uuid ident ip proto sPort dPort action) S
      | DelPeer r \<Rightarrow> {q \<in> S. \<not> (pr_id q = pr_id r \<and> pr_ip q = pr_ip r \<and> pr_drop q = pr_drop r)}
      | CloseFilter \<Rightarrow> {}
      | _ \<Rightarrow> S)"

lemma rules_put:
  assumes "rs_ok deny a (rule_set t a)" and "\<forall>q \<in> rules_at t a. pr_id q \<noteq> k"
  shows "\<Union> (range (rules_at (t(a \<mapsto> AList.update k r (rule_set t a))))) = insert r (\<Union> (range (rules_at t)))"
proof -
  have "distinct (map fst (rule_set t a))" using assms(1) by (simp add: rs_ok_def)
  moreover have "fst x \<noteq> k" if x: "x \<in> set (rule_set t a)" for x
    using assms x by (cases x) (fastforce simp: rs_ok_def rules_at_def)
  ultimately have "rules_at (t(a \<mapsto> AList.update k r (rule_set t a))) b = (if b = a then insert r (rules_at t a) else rules_at t b)" for b
    by (auto simp: rules_at_def set_alist_update image_iff)
  then show ?thesis by (auto split: if_splits) metis
qed

lemma rules_at_delete:
  assumes "table_ok deny t"
  shows "rules_at (case delete_rule t r of None \<Rightarrow> t | Some t' \<Rightarrow> t') b =
    {q \<in> rules_at t b. \<not> (pr_id q = pr_id r \<and> b = pr_ip r)}"
proof -
  have ok: "pr_id q = i" if "(i, q) \<in> set (rule_set t b)" for i q
    using assms that unfolding table_ok_iff rs_ok_def by fastforce
  show ?thesis
  proof (cases "b = pr_ip r \<and> map_of (rule_set t b) (pr_id r) \<noteq> None")
    case True
    then obtain rs where rs: "t b = Some rs" by (cases "t b") (simp_all add: rule_set_def)
    have "rule_set (case delete_rule t r of None \<Rightarrow> t | Some t' \<Rightarrow> t') b = AList.delete (pr_id r) rs"
      using True rs by (auto simp: delete_rule_def rule_set_def Let_def)
    moreover have "rule_set t b = rs" using rs by (simp add: rule_set_def)
    ultimately show ?thesis using ok True by (force simp: rules_at_def AList.delete_eq)
  next
    case False
    have same: "rule_set (case delete_rule t r of None \<Rightarrow> t | Some t' \<Rightarrow> t') b = rule_set t b"
      using False by (auto simp: delete_rule_def rule_set_def Let_def split: option.splits)
    have "\<not> (pr_id q = pr_id r \<and> b = pr_ip r)" if "q \<in> rules_at t b" for q
      using False that ok by (force simp: rules_at_def map_of_eq_None_iff)
    then show ?thesis by (auto simp: rules_at_def same)
  qed
qed

lemma installed_rules_cong:
  "incomingDenyRules m1 = incomingDenyRules m \<Longrightarrow> incomingRules m1 = incomingRules m \<Longrightarrow>
   installed_rules m1 = installed_rules m \<and> peer_rules_ok m1 = peer_rules_ok m"
  by (simp add: installed_rules_def peer_rules_ok_def)

lemma peer_rules_add:
  assumes "peer_rules_ok m" and "uuid \<notin> pr_id ` installed_rules m"
  shows "installed_rules (fst (AddPeerFiltering uuid m ident ip proto sPort dPort action)) =
    peer_spec (installed_rules m) (AddPeer uuid ident ip proto sPort dPort action)"
proof -
  have ok: "rs_ok True a (rule_set (incomingDenyRules m) a)" "rs_ok False a (rule_set (incomingRules m) a)" for a
    using assms(1) by (simp_all add: peer_rules_ok_def table_ok_iff)
  have "\<forall>q \<in> rules_at (incomingDenyRules m) a. pr_id q \<noteq> uuid" "\<forall>q \<in> rules_at (incomingRules m) a. pr_id q \<noteq> uuid" for a
    using assms(2) unfolding installed_rules_def by auto
  note put = rules_put [OF ok(1) this(1)] rules_put [OF ok(2) this(2)]
  show ?thesis by (simp add: peer_spec_def AddPeerFiltering_eq Let_def installed_rules_def put)
qed

lemma peer_rules_del:
  assumes "peer_rules_ok m"
  shows "installed_rules (fst (DeletePeerRule m r)) = peer_spec (installed_rules m) (DelPeer r)"
proof -
  have t: "table_ok True (incomingDenyRules m)" "table_ok False (incomingRules m)" using assms by (auto simp: peer_rules_ok_def)
  have e: "incomingDenyRules (fst (DeletePeerRule m r)) =
      (if pr_drop r then case delete_rule (incomingDenyRules m) r of None \<Rightarrow> incomingDenyRules m | Some t \<Rightarrow> t else incomingDenyRules m)"
    "incomingRules (fst (DeletePeerRule m r)) =
      (if pr_drop r then incomingRules m else case delete_rule (incomingRules m) r of None \<Rightarrow> incomingRules m | Some t \<Rightarrow> t)"
    by (auto simp: DeletePeerRule_def split: option.splits)
  show ?thesis
    unfolding installed_rules_def e
    using rules_at_delete [OF t(1), of r] rules_at_delete [OF t(2), of r] rules_at_rule [OF t(1)] rules_at_rule [OF t(2)]
    by (cases "pr_drop r") (auto simp: peer_spec_def)
qed

section \<open>Route rules\<close>

lemma addRouteFiltering_ok:
  assumes "route_rules_ok m" and "port_ok sPort" and "port_ok dPort"
  shows "route_rules_ok (fst (addRouteFiltering nf m ident sources destination proto sPort dPort action))"
proof -
  let ?k = "GenerateRouteRuleKey sources destination proto sPort dPort action"
  let ?m = "fst (addRouteFiltering nf m ident sources destination proto sPort dPort action)"
  show ?thesis
  proof (cases "nativeRouter m \<and> nativeFirewall m \<or> ?k \<in> routeRulesMap m")
    case True
    then have "routeRules ?m = routeRules m" "routeRulesMap ?m = routeRulesMap m"
      by (auto simp: addRouteFiltering_def Let_def)
    then show ?thesis using assms(1) by (simp add: route_rules_ok_def)
  next
    case False
    then obtain r where r: "routeRules ?m = RouteRules_Sort (routeRules m @ [r])" "routeRulesMap ?m = insert ?k (routeRulesMap m)"
        "rr_id r = ?k" "rr_srcPort r = sPort" "rr_dstPort r = dPort"
      by (auto simp: addRouteFiltering_def Let_def)
    have "mset (map rr_id (RouteRules_Sort (routeRules m @ [r]))) = mset (map rr_id (routeRules m @ [r]))"
      by (simp add: RouteRules_Sort_def)
    then have "distinct (map rr_id (RouteRules_Sort (routeRules m @ [r]))) = distinct (map rr_id (routeRules m @ [r]))"
      by (rule mset_eq_imp_distinct_iff)
    moreover have "distinct (map rr_id (routeRules m @ [r]))" using False assms(1) r(3) by (auto simp: route_rules_ok_def)
    moreover have "sorted_wrt (\<lambda>a b. \<not> RouteRules_Less b a) (RouteRules_Sort (routeRules m @ [r]))"
      unfolding RouteRules_Sort_def by (rule sorted_sort_by [OF RouteRules_Less_order])
    moreover have "set (RouteRules_Sort (routeRules m @ [r])) = insert r (set (routeRules m))" by (simp add: RouteRules_Sort_def)
    ultimately show ?thesis using assms r unfolding route_rules_ok_def by simp
  qed
qed

lemma remove_first_Cons: "remove_first P (x # xs) = (if P x then xs else x # remove_first P xs)"
  by (simp add: remove_first_def)

lemma remove_first_filter: "distinct (map f xs) \<Longrightarrow> remove_first (\<lambda>x. f x = k) xs = filter (\<lambda>x. f x \<noteq> k) xs"
proof (induction xs)
  case (Cons x xs)
  then show ?case by (auto simp: remove_first_Cons intro!: filter_True [symmetric]) (metis image_eqI)
qed (simp add: remove_first_def)

lemma deleteRouteRule_ok:
  assumes "route_rules_ok m"
  shows "route_rules_ok (fst (deleteRouteRule nf m k))"
  using assms unfolding route_rules_ok_def
  by (auto simp: deleteRouteRule_def remove_first_filter sorted_wrt_filter distinct_map_filter)

text \<open>The destinations that \<open>UpdateSet\<close> gives to all rules of a set: those of the first one and the new ones.\<close>

definition merged :: "Prefix list \<Rightarrow> Prefix list \<Rightarrow> Prefix list" where
  "merged ds prefixes = remdups_adj (sort_by
     (\<lambda>p q. Addr_Less (pfx_Addr p) (pfx_Addr q) \<or> pfx_Addr p = pfx_Addr q \<and> pfx_Bits p < pfx_Bits q)
     (ds @ filter (\<lambda>p. Is4 (pfx_Addr p)) prefixes))"

lemma set_merged: "set (merged ds prefixes) = set ds \<union> {p \<in> set prefixes. Is4 (pfx_Addr p)}"
  by (auto simp: merged_def)

lemma UpdateSet_eq:
  "\<not> (nativeRouter m \<and> nativeFirewall m) \<Longrightarrow> filter (\<lambda>r. rr_dstSet r = s) (routeRules m) = r # rs \<Longrightarrow>
   UpdateSet nf m s prefixes =
     (m\<lparr>routeRules := map (\<lambda>q. if rr_dstSet q = s then q\<lparr>rr_destinations := merged (rr_destinations r) prefixes\<rparr> else q)
         (routeRules m)\<rparr>, None)"
  unfolding UpdateSet_def merged_def Let_def by (simp only: if_False list.case)

lemma map_rules_ok:
  assumes "route_rules_ok m" and "routeRules m' = map f (routeRules m)" and "routeRulesMap m' = routeRulesMap m"
    and f: "\<And>r. rr_id (f r) = rr_id r" "\<And>r. rr_action (f r) = rr_action r"
      "\<And>r. rr_srcPort (f r) = rr_srcPort r" "\<And>r. rr_dstPort (f r) = rr_dstPort r"
  shows "route_rules_ok m'"
proof -
  have "map (\<lambda>r. rr_id (f r)) rs = map rr_id rs" "(\<lambda>r. rr_id (f r)) ` S = rr_id ` S" for rs S by (simp_all add: f)
  moreover have "RouteRules_Less (f a) (f b) = RouteRules_Less a b" for a b by (simp add: RouteRules_Less_def f)
  ultimately show ?thesis using assms(1-3) by (simp add: route_rules_ok_def sorted_wrt_map f image_image o_def)
qed

lemma UpdateSet_ok:
  assumes "route_rules_ok m"
  shows "route_rules_ok (fst (UpdateSet nf m s prefixes))"
proof (cases "nativeRouter m \<and> nativeFirewall m \<or> filter (\<lambda>r. rr_dstSet r = s) (routeRules m) = []")
  case True
  then have "routeRules (fst (UpdateSet nf m s prefixes)) = map id (routeRules m) \<and>
      routeRulesMap (fst (UpdateSet nf m s prefixes)) = routeRulesMap m"
    by (auto simp: UpdateSet_def)
  then show ?thesis by (intro map_rules_ok [OF assms, where f = id]) simp_all
next
  case False
  then obtain r rs where "filter (\<lambda>r. rr_dstSet r = s) (routeRules m) = r # rs"
    by (cases "filter (\<lambda>r. rr_dstSet r = s) (routeRules m)") simp_all
  then show ?thesis using False
    by (intro map_rules_ok [OF assms,
          where f = "\<lambda>q. if rr_dstSet q = s then q\<lparr>rr_destinations := merged (rr_destinations r) prefixes\<rparr> else q"])
      (simp_all add: UpdateSet_eq)
qed

section \<open>Decisions as functions of the rules\<close>

definition route_matches :: "Addr \<Rightarrow> Addr \<Rightarrow> LayerType \<Rightarrow> 16 word \<Rightarrow> 16 word \<Rightarrow> RouteRule \<Rightarrow> bool" where
  "route_matches src dst layer sp dp r \<longleftrightarrow> ruleMatches r src dst layer sp dp = Some True"

lemma ruleMatches_total:
  "port_ok (rr_srcPort r) \<Longrightarrow> port_ok (rr_dstPort r) \<Longrightarrow>
   ruleMatches r src dst layer sp dp = Some (route_matches src dst layer sp dp r)"
  using ports_match2_total [of "rr_srcPort r" "rr_dstPort r" sp dp]
  by (auto simp: ruleMatches_def route_matches_def)

lemma routeACLsPass_find:
  assumes "\<forall>r \<in> set rs. port_ok (rr_srcPort r) \<and> port_ok (rr_dstPort r)"
  shows "routeACLsPass rs src dst layer sp dp =
    Some (case find (route_matches src dst layer sp dp) rs of
            Some r \<Rightarrow> (rr_mgmtId r, rr_action r = ActionAccept) | None \<Rightarrow> ([], False))"
  using assms by (induction rs) (simp_all add: ruleMatches_total)

text \<open>With the denying rules first, the first match is an accepting rule just when no denying rule matches.\<close>

lemma find_denying_first:
  assumes "sorted_wrt (\<lambda>a b. \<not> RouteRules_Less b a) rs"
  shows "(case find P rs of Some r \<Rightarrow> rr_action r = ActionAccept | None \<Rightarrow> False) \<longleftrightarrow>
    (\<exists>r \<in> set rs. P r \<and> rr_action r = ActionAccept) \<and> \<not> (\<exists>r \<in> set rs. P r \<and> rr_action r = ActionDrop)"
  using assms
proof (induction rs)
  case (Cons a rs)
  have "rr_action a = ActionAccept \<Longrightarrow> r \<in> set rs \<Longrightarrow> rr_action r \<noteq> ActionDrop" for r
    using Cons.prems by (auto simp: RouteRules_Less_def)
  then show ?case using Cons by (cases "rr_action a") auto
qed simp

lemma routeACLsPass_decides:
  assumes "route_rules_ok m"
  shows "\<exists>i. routeACLsPass (routeRules m) src dst layer sp dp =
    Some (i, (\<exists>r \<in> set (routeRules m). route_matches src dst layer sp dp r \<and> rr_action r = ActionAccept) \<and>
      \<not> (\<exists>r \<in> set (routeRules m). route_matches src dst layer sp dp r \<and> rr_action r = ActionDrop))"
  using assms find_denying_first [of "routeRules m" "route_matches src dst layer sp dp"]
  unfolding route_rules_ok_def by (auto simp: routeACLsPass_find split: option.splits)

text \<open>Route operations leave the peer rules alone, and routing modes leave all rules in order.\<close>

lemma route_ops_peers:
  "incomingDenyRules (fst (addRouteFiltering nf m ident sources destination proto sPort dPort action)) = incomingDenyRules m"
  "incomingRules (fst (addRouteFiltering nf m ident sources destination proto sPort dPort action)) = incomingRules m"
  "incomingDenyRules (fst (deleteRouteRule nf m k)) = incomingDenyRules m"
  "incomingRules (fst (deleteRouteRule nf m k)) = incomingRules m"
  "incomingDenyRules (fst (UpdateSet nf m s prefixes)) = incomingDenyRules m"
  "incomingRules (fst (UpdateSet nf m s prefixes)) = incomingRules m"
  by (simp_all add: addRouteFiltering_def deleteRouteRule_def UpdateSet_def Let_def split: list.splits)

lemma peer_ops_routes:
  "routeRules (fst (AddPeerFiltering uuid m ident ip proto sPort dPort action)) = routeRules m"
  "routeRulesMap (fst (AddPeerFiltering uuid m ident ip proto sPort dPort action)) = routeRulesMap m"
  "routeRules (fst (DeletePeerRule m r)) = routeRules m"
  "routeRulesMap (fst (DeletePeerRule m r)) = routeRulesMap m"
  by (simp_all add: AddPeerFiltering_def DeletePeerRule_def Let_def split: option.splits)

definition same_rules :: "Manager \<Rightarrow> Manager \<Rightarrow> bool" where
  "same_rules m m' \<longleftrightarrow> incomingDenyRules m' = incomingDenyRules m \<and> incomingRules m' = incomingRules m \<and>
     routeRules m' = routeRules m \<and> routeRulesMap m' = routeRulesMap m"

lemma same_rules_ok: "same_rules m m' \<Longrightarrow> rules_ok m' = rules_ok m \<and> installed_rules m' = installed_rules m"
  by (simp add: same_rules_def rules_ok_def peer_rules_ok_def route_rules_ok_def installed_rules_def)

lemma rules_ok_route:
  assumes "incomingDenyRules m' = incomingDenyRules m" and "incomingRules m' = incomingRules m"
    and "rules_ok m" and "route_rules_ok m'"
  shows "rules_ok m' \<and> installed_rules m' = installed_rules m"
  using assms installed_rules_cong [OF assms(1,2)] by (simp add: rules_ok_def)

lemma determineRouting_same: "same_rules m (fst (determineRouting getenv m))"
  by (simp add: determineRouting_def initForwarder_def same_rules_def Let_def split: prod.splits)

lemma EnableRouting_ok:
  assumes "rules_ok m"
  shows "rules_ok (fst (EnableRouting getenv nf m)) \<and> installed_rules (fst (EnableRouting getenv nf m)) = installed_rules m"
proof -
  obtain m1 e where d: "determineRouting getenv m = (m1, e)" by fastforce
  have m1: "rules_ok m1" "installed_rules m1 = installed_rules m"
    using same_rules_ok [OF determineRouting_same [of m getenv]] assms d by simp_all
  obtain m2 r where b: "blockInvalidRouted nf m1 = (m2, r)" by fastforce
  have "m2 = fst (blockInvalidRouted nf m1)" using b by simp
  moreover have "route_rules_ok m1" "port_ok None" using m1(1) by (simp_all add: rules_ok_def port_ok_def)
  ultimately have "rules_ok m2 \<and> installed_rules m2 = installed_rules m1"
    unfolding blockInvalidRouted_def using rules_ok_route [OF route_ops_peers(1,2) m1(1) addRouteFiltering_ok] by simp
  then show ?thesis using m1 same_rules_ok [of m2 "m2\<lparr>blockRule := x\<rparr>" for x]
    by (simp add: EnableRouting_def d b same_rules_def split: option.splits sum.splits)
qed

lemma DisableRouting_ok:
  assumes "rules_ok m"
  shows "rules_ok (fst (DisableRouting nf m)) \<and> installed_rules (fst (DisableRouting nf m)) = installed_rules m"
proof -
  let ?m = "m\<lparr>routingEnabled := False, nativeRouter := False, forwarder := None\<rparr>"
  have m: "rules_ok ?m" "installed_rules ?m = installed_rules m" using same_rules_ok [of m ?m] assms by (simp_all add: same_rules_def)
  have "rules_ok (fst (deleteRouteRule nf ?m k)) \<and> installed_rules (fst (deleteRouteRule nf ?m k)) = installed_rules ?m" for k
    using m(1) by (intro rules_ok_route route_ops_peers deleteRouteRule_ok) (simp_all add: rules_ok_def)
  then have "deleteRouteRule nf ?m k = (m3, e) \<Longrightarrow> rules_ok m3 \<and> installed_rules m3 = installed_rules m" for k m3 e
    using m(2) by (metis fst_conv)
  then show ?thesis
    using m assms same_rules_ok [of m "m\<lparr>routingEnabled := False, nativeRouter := False\<rparr>"]
      same_rules_ok [of x "x\<lparr>blockRule := None\<rparr>" for x]
    by (auto simp: DisableRouting_def Let_def same_rules_def split: option.splits prod.splits)
qed

interpretation rules: refining_machine "rule_step getenv nf" rule_legal rules_ok installed_rules peer_spec for getenv nf
proof
  fix m op
  assume ok: "rules_ok m" and legal: "rule_legal m op"
  have p: "peer_rules_ok m" and r: "route_rules_ok m" using ok by (simp_all add: rules_ok_def)
  have "rules_ok (rule_step getenv nf m op) \<and> installed_rules (rule_step getenv nf m op) = peer_spec (installed_rules m) op"
  proof (cases op)
    case (AddPeer uuid ident ip proto sPort dPort action)
    then show ?thesis using legal p r AddPeerFiltering_ok [OF p] peer_rules_add [OF p]
      by (simp add: rule_step_def rule_legal_def rules_ok_def route_rules_ok_def peer_ops_routes)
  next
    case (DelPeer q)
    then show ?thesis using r DeletePeerRule_ok [OF p] peer_rules_del [OF p]
      by (simp add: rule_step_def rules_ok_def route_rules_ok_def peer_ops_routes)
  next
    case (AddRoute ident sources destination proto sPort dPort action)
    then show ?thesis using legal ok rules_ok_route [OF route_ops_peers(1,2) ok addRouteFiltering_ok [OF r]]
      by (simp add: rule_step_def rule_legal_def peer_spec_def)
  next
    case (DelRoute k)
    then show ?thesis using rules_ok_route [OF route_ops_peers(3,4) ok deleteRouteRule_ok [OF r]]
      by (simp add: rule_step_def peer_spec_def)
  next
    case (UpdSet s prefixes)
    then show ?thesis using rules_ok_route [OF route_ops_peers(5,6) ok UpdateSet_ok [OF r]]
      by (simp add: rule_step_def peer_spec_def)
  next
    case Enable
    then show ?thesis using EnableRouting_ok [OF ok] by (simp add: rule_step_def peer_spec_def)
  next
    case Disable
    then show ?thesis using DisableRouting_ok [OF ok] by (simp add: rule_step_def peer_spec_def)
  next
    case CloseFilter
    then show ?thesis
      by (simp add: rule_step_def peer_spec_def resetState_def rules_ok_def peer_rules_ok_def route_rules_ok_def
          installed_rules_def rules_at_def rule_set_def)
  qed
  then show "rules_ok (rule_step getenv nf m op)" "installed_rules (rule_step getenv nf m op) = peer_spec (installed_rules m) op" by simp_all
qed

section \<open>The filter as a whole\<close>

text \<open>
  C3. The rules alone decide, whatever the history. After any sequence of legal operations on a new filter the peer rules are those
  that were added and not removed. A packet for a local address is blocked exactly when it is not an ICMP
  error and a rule for its source denies it or no rule for its source or for all sources allows it, in whatever order the maps
  are iterated. A routed packet passes exactly when some accepting route rule matches it and no denying one does. No decision panics.
\<close>

theorem filter_decides_by_rules:
  assumes "create getenv isNetstack interfaces filterSet iface native disableServer mtu = Inr m0"
    and "legal_run rule_legal (rule_step getenv nf) m0 ops" and "iteration iter"
    and "m = foldl (rule_step getenv nf) m0 ops" and "P = foldl peer_spec {} ops"
  shows "installed_rules m = P \<and>
    (\<exists>i. peerACLsBlock iter m src layer d = Some (i, \<not> isSpecialICMP layer d \<and>
       ((\<exists>r \<in> P. pr_drop r \<and> pr_ip r = src \<and> applies src layer d r) \<or>
        \<not> (\<exists>r \<in> P. \<not> pr_drop r \<and> pr_ip r \<in> {src, Addr4 0, Addr6 0 []} \<and> applies src layer d r)))) \<and>
    (\<exists>i. routeACLsPass (routeRules m) src dst layer sp dp =
       Some (i, (\<exists>r \<in> set (routeRules m). route_matches src dst layer sp dp r \<and> rr_action r = ActionAccept) \<and>
         \<not> (\<exists>r \<in> set (routeRules m). route_matches src dst layer sp dp r \<and> rr_action r = ActionDrop)))"
proof -
  have m0: "rules_ok m0" "installed_rules m0 = {}" using created_rules_ok [OF assms(1)] by simp_all
  have ok: "rules_ok m" using rules.run_inv [OF m0(1) assms(2)] assms(4) by simp
  have P: "installed_rules m = P" using rules.run_refines [OF m0(1) assms(2)] m0(2) assms(4,5) by simp
  have p: "peer_rules_ok m" "route_rules_ok m" using ok by (simp_all add: rules_ok_def)
  obtain i where "peerACLsBlock iter m src layer d = Some (i, \<not> isSpecialICMP layer d \<and> \<not> permitted m src layer d)"
    using peerACLsBlock_permitted [OF p(1) assms(3)] by blast
  note block = this [unfolded permitted_peer_rules [OF p(1)] P de_Morgan_conj not_not]
  show ?thesis by (intro conjI exI [of _ i] P block routeACLsPass_decides [OF p(2)])
qed

text \<open>A filter with one rule, which lets the peer 10.0.0.1 reach the name server of this peer, and a query.\<close>

definition dns_iface :: IFaceMapper where
  "dns_iface = \<lparr>wg_IP = Addr4 0x0A000002, wg_Network = \<lparr>pfx_Addr = Addr4 0x0A000000, pfx_Bits = 8\<rparr>, wg_Device = True, wg_forwards = True\<rparr>"

definition dns_rule :: rule_op where
  "dns_rule = AddPeer ''rule-1'' [7] (IP4 0x0A000001) ProtocolUDP None (Some \<lparr>IsRange = False, Values = [53]\<rparr>) ActionAccept"

definition dns_query :: decoder where
  "dns_query = dns_decoder\<lparr>ip4_SrcIP := [10, 0, 0, 1], ip4_DstIP := [10, 0, 0, 2], udp_SrcPort := 53, udp_DstPort := 53\<rparr>"

definition dns_env :: packet_env where
  "dns_env = \<lparr>decode = (\<lambda>d p. (dns_query, True)), clock = 0, fresh = 1, rule_order = id\<rparr>"

lemma dns_query_sel [simp]:
  "decoded dns_query = [LayerTypeIPv4, LayerTypeUDP]" "ip4_SrcIP dns_query = [10, 0, 0, 1]" "ip4_DstIP dns_query = [10, 0, 0, 2]"
  "udp_SrcPort dns_query = 53" "udp_DstPort dns_query = 53" "dnatOrigPort dns_query = 0"
  by (simp_all add: dns_query_def dns_decoder_def zero_decoder_def)

lemma dns_env_sel [simp]: "decode dns_env d p = (dns_query, True)" "clock dns_env = 0" "fresh dns_env = 1" "rule_order dns_env = id"
  by (simp_all add: dns_env_def)

text \<open>
  C4. No packet passes the filter by accident. When the tables of rules are well formed, as all operations on rules keep them, an inbound packet that the filter lets through is a
  fragment of an IPv4 packet, or, after the translation of addresses and ports, a reply of a flow that the trackers hold, or a
  packet for a local address that is an ICMP error or that no rule denies and some rule allows, or a packet to be routed
  while routing is left to the operating system.
\<close>

theorem inbound_needs_permission:
  assumes "filterInbound e m d0 p sz = Some (m', d', p', False)"
    and "peer_rules_ok m" and "iteration (rule_order e)"
  shows "(\<exists>d. isValidPacket e d0 p = (d, True, True)) \<or>
    (\<exists>d ips d1 src dst layer. isValidPacket e d0 p = (d, True, False) \<and> extractIPs d = Some ips \<and>
       translate_inbound e m p d ips = Some (d1, p', Some (src, dst)) \<and> transport d1 = Some layer \<and>
       (stateful m \<and> has_flow m layer d1 src dst \<or>
        IsLocalIP (localipmanager m) dst \<and> \<not> shouldForward m layer d1 dst \<and>
          (isSpecialICMP layer d1 \<or> permitted m src layer d1) \<or>
        \<not> IsLocalIP (localipmanager m) dst \<and> routingEnabled m \<and> nativeRouter m))"
proof -
  obtain d valid fragment where v: "isValidPacket e d0 p = (d, valid, fragment)" by (metis prod.exhaust)
  have valid: "valid" using assms(1) v by (cases valid) (simp_all add: filterInbound_def)
  show ?thesis
  proof (cases fragment)
    case False
    from assms(1) v valid False obtain ips d1 src dst m2 d2 where ips: "extractIPs d = Some ips"
        and tr: "translate_inbound e m p d ips = Some (d1, p', Some (src, dst))"
        and dec: "decide_inbound e m d1 p' src dst sz = Some (m2, d2, False)"
      unfolding filterInbound_def
      by (auto simp: Option.bind_eq_Some_conv split: if_splits option.splits prod.splits)
    have "isValidPacket e d0 p = (d, True, False)" using v valid False by simp
    with decide_inbound_passes [OF dec assms(2,3)] ips tr show ?thesis by blast
  qed (use v valid in simp)
qed

definition dns_filter :: Manager where
  "dns_filter = \<lparr>dnatEnabled = False, dnatMappings = Map.empty, dnatBiMap = None, portDNATEnabled = False, portDNATRules = [],
     localipmanager = UpdateLocalIPs (Some (wg_IP dns_iface)) None newLocalIPManager,
     incomingDenyRules = Map.empty, incomingRules = Map.empty, routeRules = [], routeRulesMap = {},
     wgIface = dns_iface, nativeFirewall = False, native_log = [], disableServerRoutes = False,
     routingEnabled = False, nativeRouter = False, stateful = True, netstack = False, localForwarding = False,
     udpTracker = Some (NewUDPTracker DefaultUDPTimeout), icmpTracker = Some (NewICMPTracker DefaultICMPTimeout),
     tcpTracker = Some (NewTCPTracker DefaultTCPTimeout), forwarder = None, flow_events = [], blockRule = None,
     netstackServices = {}, mssClampValue = 1240, mssClampEnabled = True, udpHookOut = None, tcpHookOut = None\<rparr>"

lemma dns_filter_created: "create (\<lambda>_. []) False None True dns_iface False False 1280 = Inr dns_filter"
  by (simp add: create_def parseCreateEnv_def env_bool_def dns_filter_def)

definition dns_filter1 :: Manager where
  "dns_filter1 = dns_filter\<lparr>incomingRules := [Addr4 0x0A000001 \<mapsto> [(''rule-1'', \<lparr>pr_id = ''rule-1'', pr_mgmtId = [7], pr_ip = Addr4 0x0A000001, pr_ipLayer = LayerTypeIPv4,
      pr_matchByIP = True, pr_protoLayer = LayerTypeUDP, pr_sPort = None, pr_dPort = Some \<lparr>IsRange = False, Values = [53]\<rparr>, pr_drop = False\<rparr>)]]\<rparr>"

lemma dns_rule_added: "rule_step (\<lambda>_. []) (\<lambda>_. None) dns_filter dns_rule = dns_filter1"
proof -
  have "Addr_String (Addr4 0x0A000001) = ''10.0.0.1''" by code_simp
  then show ?thesis
    by (simp add: rule_step_def dns_rule_def AddPeerFiltering_def AddrFromSlice_def addr_Unmap_def Is4_def protoToLayer_def
        dns_filter1_def dns_filter_def Let_def)
qed

lemma dns_rule_legal: "rule_legal dns_filter dns_rule"
  by (simp add: rule_legal_def dns_rule_def port_ok_def installed_rules_def rules_at_def rule_set_def dns_filter_def)

lemma addrs: "addr_of_bytes [10, 0, 0, 9] = Addr4 0x0A000009" "addr_of_bytes [10, 0, 0, 1] = Addr4 0x0A000001"
  "addr_of_bytes [10, 0, 0, 2] = Addr4 0x0A000002"
  by code_simp+

lemma dns_local: "IsLocalIP (localipmanager dns_filter1) (Addr4 0x0A000002)"
proof -
  have "IsLocalIP (UpdateLocalIPs (Some (Addr4 0x0A000002)) None newLocalIPManager) (Addr4 0x0A000002)" by code_simp
  then show ?thesis by (simp add: dns_filter1_def dns_filter_def dns_iface_def)
qed

lemma dns_tracked_not:
  "isValidTrackedConnection dns_env dns_filter1 LayerTypeUDP dns_query (Addr4 0x0A000001) (Addr4 0x0A000002) 28 = Some (dns_filter1, False)"
  by (simp add: isValidTrackedConnection_def udp_IsValidInbound_def udp_conn_def NewUDPTracker_def dns_filter1_def dns_filter_def Let_def)

lemma dns_acl: "peerACLsBlock id dns_filter1 (Addr4 0x0A000001) LayerTypeUDP dns_query = Some ([7], False)"
  by (simp add: peerACLsBlock_def isSpecialICMP_def rule_set_def dns_filter1_def dns_filter_def rule_applies_def
      ports_match2_def portsMatch_def)

lemma dns_tracked: "\<exists>m' d'. trackInbound dns_env dns_filter1 LayerTypeUDP dns_query (Addr4 0x0A000001) (Addr4 0x0A000002) [7] 28 = Some (m', d')"
  by (simp add: trackInbound_def udp_TrackInbound_def udp_track_def udp_updateIfExists_def udp_conn_def NewUDPTracker_def
      dns_filter1_def dns_filter_def Let_def)

lemma dns_passes: "\<exists>m' d'. filterInbound dns_env dns_filter1 dns_query dns_packet 28 = Some (m', d', dns_packet, False)"
proof -
  have "translate_inbound dns_env dns_filter1 dns_packet dns_query (Addr4 0x0A000001, Addr4 0x0A000002) =
      Some (dns_query, dns_packet, Some (Addr4 0x0A000001, Addr4 0x0A000002))"
    by (simp add: translate_inbound_def translateInboundPortDNAT_def translateInboundReverse_def redecode_def dns_filter1_def dns_filter_def)
  moreover have "isValidPacket dns_env dns_query dns_packet = (dns_query, True, False)" by (simp add: isValidPacket_def)
  moreover have "extractIPs dns_query = Some (Addr4 0x0A000001, Addr4 0x0A000002)" by (simp add: extractIPs_def addrs)
  moreover have "stateful dns_filter1" "\<not> shouldForward dns_filter1 LayerTypeUDP dns_query (Addr4 0x0A000002)"
    by (simp_all add: shouldForward_def dns_filter1_def dns_filter_def)
  ultimately show ?thesis using dns_tracked
    by (auto simp: filterInbound_def decide_inbound_def transport_def dns_tracked_not dns_local handleLocalTraffic_def dns_acl)
qed

lemma dns_rules_ok: "peer_rules_ok dns_filter1"
proof -
  have "rules_ok dns_filter" using created_rules_ok [OF dns_filter_created] by simp
  from rules.step_inv [OF this dns_rule_legal, of "\<lambda>_. []" "\<lambda>_. None"] show ?thesis by (simp add: dns_rule_added rules_ok_def)
qed

theorem filter_decides_by_rules_witness:
  "\<exists>i. peerACLsBlock rev dns_filter1 (Addr4 0x0A000001) LayerTypeUDP dns_query = Some (i, False)"
proof -
  let ?P = "foldl peer_spec {} [dns_rule]"
  have run: "legal_run rule_legal (rule_step (\<lambda>_. []) (\<lambda>_. None)) dns_filter [dns_rule]" by (simp add: dns_rule_legal)
  have m: "dns_filter1 = foldl (rule_step (\<lambda>_. []) (\<lambda>_. None)) dns_filter [dns_rule]" by (simp add: dns_rule_added)
  note d = filter_decides_by_rules [OF dns_filter_created run iteration_rev m refl, of "Addr4 0x0A000001" LayerTypeUDP dns_query]
  have "Addr_String (Addr4 0x0A000001) = ''10.0.0.1''" by code_simp
  then have r: "?P = {\<lparr>pr_id = ''rule-1'', pr_mgmtId = [7], pr_ip = Addr4 0x0A000001, pr_ipLayer = LayerTypeIPv4,
      pr_matchByIP = True, pr_protoLayer = LayerTypeUDP, pr_sPort = None, pr_dPort = Some \<lparr>IsRange = False, Values = [53]\<rparr>, pr_drop = False\<rparr>}"
    by (simp add: peer_spec_def dns_rule_def new_peer_rule_def AddrFromSlice_def addr_Unmap_def Is4_def protoToLayer_def Let_def)
  show ?thesis using d unfolding r
    by (simp add: isSpecialICMP_def applies_def rule_applies_def ports_match2_def portsMatch_def)
qed

theorem inbound_needs_permission_witness:
  "(\<exists>m' d'. filterInbound dns_env dns_filter1 dns_query dns_packet 28 = Some (m', d', dns_packet, False)) \<and>
   permitted dns_filter1 (Addr4 0x0A000001) LayerTypeUDP dns_query"
proof -
  obtain m' d' where p: "filterInbound dns_env dns_filter1 dns_query dns_packet 28 = Some (m', d', dns_packet, False)"
    using dns_passes by blast
  have "iteration (rule_order dns_env)" by (simp add: iteration_def)
  from inbound_needs_permission [OF p dns_rules_ok this]
  have "permitted dns_filter1 (Addr4 0x0A000001) LayerTypeUDP dns_query"
    by (auto simp: isValidPacket_def extractIPs_def addrs translate_inbound_def translateInboundPortDNAT_def translateInboundReverse_def
        redecode_def transport_def isSpecialICMP_def has_flow_def udp_conn_def NewUDPTracker_def dns_filter1_def dns_filter_def
        split: if_splits option.splits)
  with p show ?thesis by blast
qed

section \<open>What a denied packet leaves behind\<close>

text \<open>The parser writes to the layers of the decoder and leaves the original port.\<close>

definition keeps_port :: "packet_env \<Rightarrow> bool" where
  "keeps_port e \<longleftrightarrow> (\<forall>d p. dnatOrigPort (fst (decode e d p)) = dnatOrigPort d)"

lemma applyPortRule_port:
  "applyPortRule rules p d srcIP dstIP port protocol f = Some (p', d', True) \<Longrightarrow> dnatOrigPort d' = port"
  by (induction rules) (auto split: if_splits bind_splits)

lemma redirected_port:
  assumes "translateInboundPortDNAT m p d s t = Some (p', d', True)" and "transport d = Some LayerTypeUDP"
  shows "dnatOrigPort d' = udp_DstPort d"
  using assms applyPortRule_port by (auto simp: translateInboundPortDNAT_def split: if_splits)

lemma redecode_port:
  "keeps_port e \<Longrightarrow> redecode e b d p ips = Some (d', res) \<Longrightarrow> dnatOrigPort d' = dnatOrigPort d"
  unfolding keeps_port_def redecode_def
  by (auto split: if_splits prod.splits bind_splits) (metis fst_conv)+

lemma decide_dropped_port: "decide_inbound e m d p s t sz = Some (m', d', True) \<Longrightarrow> d' = d"
  by (auto simp: decide_inbound_def handleLocalTraffic_def handleRoutedTraffic_def handleForwardedLocalTraffic_def Let_def
      split: if_splits bind_splits option.splits prod.splits)

text \<open>A packet that is dropped after a redirection leaves its destination port in the decoder.\<close>

lemma dropped_keeps_port:
  assumes k: "keeps_port e" and dec: "decode e d0 p = (d, True)" and tr: "transport d = Some LayerTypeUDP" and ips: "extractIPs d = Some (s, t)" "s \<noteq> NoAddr"
    and red: "translateInboundPortDNAT m p d s t = Some (p1, dr, True)" and drop: "filterInbound e m d0 p sz = Some (m', d', p', True)"
  shows "dnatOrigPort d' = udp_DstPort d"
proof -
  have len: "2 \<le> length (decoded d)" using tr by (auto simp: transport_def split: if_splits)
  have port: "dnatOrigPort dr = udp_DstPort d" by (rule redirected_port [OF red tr])
  obtain d2 q res where t: "translate_inbound e m p d (s, t) = Some (d2, q, res)" "(case res of None \<Rightarrow> d' = d2 \<and> p' = q | Some (s', t') \<Rightarrow>
      (\<exists>m2. decide_inbound e m d2 q s' t' sz = Some (m2, d', True)))"
    using drop ips len
    by (auto simp: filterInbound_def isValidPacket_def dec split: bind_splits option.splits prod.splits)
  have "dnatOrigPort d2 = dnatOrigPort dr"
    using t(1) redecode_port [OF k] by (auto simp: translate_inbound_def red split: bind_splits option.splits prod.splits)
  then show ?thesis using t(2) port by (auto split: option.splits dest!: decide_dropped_port)
qed

text \<open>A UDP packet that the filter admits as the first of a connection to a local address, without translating it.\<close>

definition new_local_udp :: "packet_env \<Rightarrow> Manager \<Rightarrow> decoder \<Rightarrow> bytes \<Rightarrow> decoder \<Rightarrow> Addr \<Rightarrow> Addr \<Rightarrow> bool" where
  "new_local_udp e m d0 q d src dst \<longleftrightarrow>
     decode e d0 q = (d, True) \<and> transport d = Some LayerTypeUDP \<and> extractIPs d = Some (src, dst) \<and> src \<noteq> NoAddr \<and>
     translate_inbound e m q d (src, dst) = Some (d, q, Some (src, dst)) \<and> stateful m \<and> IsLocalIP (localipmanager m) dst \<and>
     (\<exists>i. peerACLsBlock (rule_order e) m src LayerTypeUDP d = Some (i, False)) \<and> \<not> shouldForward m LayerTypeUDP d dst \<and>
     (\<exists>t cs. udpTracker m = Some t \<and> udp_conns t = Some cs \<and>
        cs (conn_key src dst (udp_SrcPort d) (udp_DstPort d)) = None \<and> cs (conn_key dst src (udp_DstPort d) (udp_SrcPort d)) = None)"

lemma new_udp_recorded:
  assumes "keeps_port e" and "new_local_udp e m d0 q d src dst"
  shows "\<exists>m' d' t c. filterInbound e m d0 q sz = Some (m', d', q, False) \<and> m' = m\<lparr>udpTracker := Some t\<rparr> \<and>
    udp_conn t (conn_key src dst (udp_SrcPort d) (udp_DstPort d)) = Some c \<and> DNATOrigPort c = ucast (dnatOrigPort d0)"
proof -
  obtain i t cs where n: "decode e d0 q = (d, True)" "transport d = Some LayerTypeUDP" "extractIPs d = Some (src, dst)" "src \<noteq> NoAddr"
     "translate_inbound e m q d (src, dst) = Some (d, q, Some (src, dst))" "stateful m" "IsLocalIP (localipmanager m) dst"
     "peerACLsBlock (rule_order e) m src LayerTypeUDP d = Some (i, False)" "\<not> shouldForward m LayerTypeUDP d dst"
    and t: "udpTracker m = Some t" "udp_conns t = Some cs"
      "cs (conn_key src dst (udp_SrcPort d) (udp_DstPort d)) = None" "cs (conn_key dst src (udp_DstPort d) (udp_SrcPort d)) = None"
    using assms(2) unfolding new_local_udp_def by blast
  have len: "2 \<le> length (decoded d)" using n(2) by (auto simp: transport_def split: if_splits)
  have port: "dnatOrigPort d = dnatOrigPort d0" using assms(1) n(1) unfolding keeps_port_def by (metis fst_conv)
  have "m\<lparr>udpTracker := Some t\<rparr> = m" using t(1) by simp
  then have v: "isValidTrackedConnection e m LayerTypeUDP d src dst sz = Some (m, False)"
    using t by (simp add: isValidTrackedConnection_def udp_IsValidInbound_def udp_conn_def Let_def)
  obtain t' c where tr: "udp_TrackInbound (clock e) (fresh e) t src dst (udp_SrcPort d) (udp_DstPort d) i sz (dnatOrigPort d) = Some t'"
      "udp_conn t' (conn_key src dst (udp_SrcPort d) (udp_DstPort d)) = Some c" "DNATOrigPort c = ucast (dnatOrigPort d)"
    using t
    by (simp add: udp_TrackInbound_def udp_track_def udp_updateIfExists_def udp_conn_def udp_put_def
        udp_sendEvent_def UpdateCounters_def UpdateLastSeen_def BaseConnTrack.defs PortConnTrack.defs base_conn_def Let_def)
  have "filterInbound e m d0 q sz = Some (m\<lparr>udpTracker := Some t'\<rparr>, d\<lparr>dnatOrigPort := 0\<rparr>, q, False)"
    using n len by (simp add: filterInbound_def isValidPacket_def decide_inbound_def v handleLocalTraffic_def trackInbound_def t(1) tr(1))
  then show ?thesis using tr(2,3) port by auto
qed

text \<open>An answer to it.\<close>

definition answers :: "decoder \<Rightarrow> Addr \<Rightarrow> Addr \<Rightarrow> packet_env \<Rightarrow> decoder \<Rightarrow> bytes \<Rightarrow> decoder \<Rightarrow> bool" where
  "answers dq src dst e d0 r d \<longleftrightarrow>
     decode e d0 r = (d, True) \<and> transport d = Some LayerTypeUDP \<and> extractIPs d = Some (dst, src) \<and> dst \<noteq> NoAddr \<and>
     udp_SrcPort d = udp_DstPort dq \<and> udp_DstPort d = udp_SrcPort dq \<and> 20 \<le> header_len d \<and> header_len d + 8 \<le> length r"

lemma rewriteUDPPort_source:
  assumes "20 \<le> header_len d" and "header_len d + 8 \<le> length p"
  shows "\<exists>p'. rewriteUDPPort p d port 0 = Some (p', None) \<and> u16 p' (header_len d) = Some port"
proof -
  let ?i = "header_len d"
  obtain c where c: "u16 p ?i = Some c" using u16_exists [of ?i p] assms by auto
  obtain p1 where p1: "put16 p ?i port = Some p1" using put16_eq [of ?i p port] assms by auto
  have len: "length p1 = length p" using put16_length [OF p1] .
  obtain k where k: "u16 p1 (?i + 6) = Some k" using u16_exists [of "?i + 6" p1] assms len by auto
  obtain p2 where p2: "put16 p1 (?i + 6) (incrementalUpdate k (GoNet.be_bytes 2 c) (GoNet.be_bytes 2 port)) = Some p2"
    using put16_eq [of "?i + 6" p1] assms len by auto
  have "u16 p1 ?i = Some port" "u16 p2 ?i = Some port"
    using u16_put16 [OF p1] u16_put16_other [OF p2, of ?i] by simp_all
  then show ?thesis using assms c p1 k p2 len by (simp add: rewriteUDPPort_def header_len_def Let_def)
qed

lemma ucast_16_32: "(ucast (ucast (x :: 16 word) :: 32 word) :: 16 word) = x"
  by (rule bit_word_eqI) (simp add: bit_ucast_iff)

lemma answer_diverted:
  assumes "udpTracker m = Some t" and "udp_conn t (conn_key src dst (udp_SrcPort dq) (udp_DstPort dq)) = Some c"
    and "DNATOrigPort c = ucast port" and "port \<noteq> 0" and "udpHookOut m = None" and "\<not> dnatEnabled m" and "answers dq src dst e d0 r d"
  shows "\<exists>m' r'. filterOutbound e m d0 r sz = Some (m', d, r', False) \<and> u16 r' (header_len d) = Some port"
proof -
  have a: "decode e d0 r = (d, True)" "transport d = Some LayerTypeUDP" "extractIPs d = Some (dst, src)" "dst \<noteq> NoAddr"
     "udp_SrcPort d = udp_DstPort dq" "udp_DstPort d = udp_SrcPort dq" "20 \<le> header_len d" "header_len d + 8 \<le> length r"
    using assms(7) by (simp_all add: answers_def)
  have len: "2 \<le> length (decoded d)" using a(2) by (auto simp: transport_def split: if_splits)
  obtain r' where r': "rewriteUDPPort r d port 0 = Some (r', None)" "u16 r' (header_len d) = Some port"
    using rewriteUDPPort_source [OF a(7,8)] by blast
  have "trackOutbound e m LayerTypeUDP d dst src r sz =
      Some (m\<lparr>udpTracker := Some (fst (udp_updateIfExists (clock e) t (conn_key src dst (udp_SrcPort dq) (udp_DstPort dq)) Egress sz))\<rparr>, r')"
    using assms(1-4) a(5,6) r'(1) by (simp add: trackOutbound_def udp_TrackOutbound_def udp_updateIfExists_def ucast_16_32)
  then show ?thesis using a(1-4) len r'(2) assms(5,6)
    by (simp add: filterOutbound_def HookMatches_def translateOutboundDNAT_def)
qed

text \<open>
  UDP packets without options and checksum, a parser for them that leaves the rest of the decoder alone, and the filter
  from above with port 5000 of this peer redirected to port 5300.
\<close>

definition udp_packet :: "bytes \<Rightarrow> bytes \<Rightarrow> bytes \<Rightarrow> bytes \<Rightarrow> bytes" where
  "udp_packet src dst sport dport = [69, 0, 0, 28, 0, 0, 0, 0, 64, 17, 0, 0] @ src @ dst @ sport @ dport @ [0, 8, 0, 0]"

definition udp_parse :: "decoder \<Rightarrow> bytes \<Rightarrow> decoder \<times> bool" where
  "udp_parse d p =
     (d\<lparr>decoded := [LayerTypeIPv4, LayerTypeUDP], ip4_IHL := 5, ip4_SrcIP := take 4 (drop 12 p), ip4_DstIP := take 4 (drop 16 p),
        udp_SrcPort := GoNet.be_word (take 2 (drop 20 p)), udp_DstPort := GoNet.be_word (take 2 (drop 22 p))\<rparr>, True)"

definition udp_env :: packet_env where
  "udp_env = \<lparr>decode = udp_parse, clock = 0, fresh = 1, rule_order = id\<rparr>"

definition probe :: bytes where
  "probe = udp_packet [10, 0, 0, 9] [10, 0, 0, 2] [0, 99] [19, 136]"

definition query :: bytes where
  "query = udp_packet [10, 0, 0, 1] [10, 0, 0, 2] [0, 53] [0, 53]"

definition reply :: bytes where
  "reply = udp_packet [10, 0, 0, 2] [10, 0, 0, 1] [0, 53] [0, 53]"

definition redirect_filter :: Manager where
  "redirect_filter = fst (AddInboundDNAT dns_filter1 (Addr4 0x0A000002) ProtocolUDP 5000 5300)"

definition udp_decoder :: "decoder \<Rightarrow> bytes \<Rightarrow> bytes \<Rightarrow> 16 word \<Rightarrow> 16 word \<Rightarrow> decoder" where
  "udp_decoder d src dst sp dp = d\<lparr>decoded := [LayerTypeIPv4, LayerTypeUDP], ip4_IHL := 5, ip4_SrcIP := src, ip4_DstIP := dst,
     udp_SrcPort := sp, udp_DstPort := dp\<rparr>"

lemma udp_decoder_sel [simp]:
  "decoded (udp_decoder d src dst sp dp) = [LayerTypeIPv4, LayerTypeUDP]" "ip4_IHL (udp_decoder d src dst sp dp) = 5"
  "ip4_SrcIP (udp_decoder d src dst sp dp) = src" "ip4_DstIP (udp_decoder d src dst sp dp) = dst"
  "udp_SrcPort (udp_decoder d src dst sp dp) = sp" "udp_DstPort (udp_decoder d src dst sp dp) = dp"
  "dnatOrigPort (udp_decoder d src dst sp dp) = dnatOrigPort d"
  by (simp_all add: udp_decoder_def)

lemma ports: "(GoNet.be_word [0, 53] :: 16 word) = 53" "(GoNet.be_word [0, 99] :: 16 word) = 99"
  "(GoNet.be_word [19, 136] :: 16 word) = 5000" "(GoNet.be_word [20, 180] :: 16 word) = 5300"
  "be_bytes 2 (5300 :: 16 word) = [20, 180]" "be_bytes 2 (5000 :: 16 word) = [19, 136]"
  "(ucast (drop_bit 8 (5300 :: 16 word)) :: byte) = 20" "(ucast (5300 :: 16 word) :: byte) = 180"
  "(ucast (drop_bit 8 (5000 :: 16 word)) :: byte) = 19" "(ucast (5000 :: 16 word) :: byte) = 136"
  by code_simp+

lemma udp_env_decode:
  "length src = 4 \<Longrightarrow> length dst = 4 \<Longrightarrow> length sport = 2 \<Longrightarrow> length dport = 2 \<Longrightarrow>
   decode udp_env d (udp_packet src dst sport dport) = (udp_decoder d src dst (GoNet.be_word sport) (GoNet.be_word dport), True)"
  by (simp add: udp_env_def udp_parse_def udp_packet_def udp_decoder_def)

lemma udp_env_sel [simp]: "clock udp_env = 0" "fresh udp_env = 1" "rule_order udp_env = id"
  by (simp_all add: udp_env_def)

lemmas redirect_simps = redirect_filter_def AddInboundDNAT_def addPortRedirection_def dns_filter1_def dns_filter_def

lemma redirect_local: "IsLocalIP (localipmanager redirect_filter) (Addr4 0x0A000002)"
  using dns_local by (simp add: redirect_filter_def AddInboundDNAT_def addPortRedirection_def)

lemma probe_rewritten:
  "rewriteUDPPort probe (udp_decoder d s t 99 5000) 5300 2 = Some (udp_packet [10, 0, 0, 9] [10, 0, 0, 2] [0, 99] [20, 180], None)"
  by (simp add: rewriteUDPPort_def probe_def udp_packet_def u16_def put16_def ports GoNet.be_word_def Let_def)

definition probed :: decoder where
  "probed = udp_decoder (udp_decoder zero_decoder [10, 0, 0, 9] [10, 0, 0, 2] 99 5000\<lparr>dnatOrigPort := 5000\<rparr>) [10, 0, 0, 9] [10, 0, 0, 2] 99 5300"

lemma probed_sel [simp]:
  "decoded probed = [LayerTypeIPv4, LayerTypeUDP]" "ip4_SrcIP probed = [10, 0, 0, 9]" "ip4_DstIP probed = [10, 0, 0, 2]"
  "udp_SrcPort probed = 99" "udp_DstPort probed = 5300" "dnatOrigPort probed = 5000"
  by (simp_all add: probed_def)

lemma probe_denied:
  "\<exists>evs. filterInbound udp_env redirect_filter zero_decoder probe 28 =
     Some (redirect_filter\<lparr>flow_events := evs\<rparr>, probed, udp_packet [10, 0, 0, 9] [10, 0, 0, 2] [0, 99] [20, 180], True)"
proof -
  let ?d = "udp_decoder zero_decoder [10, 0, 0, 9] [10, 0, 0, 2] 99 5000"
  have dec: "decode udp_env zero_decoder probe = (?d, True)" unfolding probe_def by (subst udp_env_decode) (simp_all add: ports)
  have dec2: "decode udp_env (?d\<lparr>dnatOrigPort := 5000\<rparr>) (udp_packet [10, 0, 0, 9] [10, 0, 0, 2] [0, 99] [20, 180]) = (probed, True)"
    unfolding probed_def by (subst udp_env_decode) (simp_all add: ports)
  have "translateInboundPortDNAT redirect_filter probe ?d (Addr4 0x0A000009) (Addr4 0x0A000002) =
      Some (udp_packet [10, 0, 0, 9] [10, 0, 0, 2] [0, 99] [20, 180], ?d\<lparr>dnatOrigPort := 5000\<rparr>, True)"
    by (simp add: translateInboundPortDNAT_def transport_def redirect_simps probe_rewritten)
  moreover have "translateInboundReverse redirect_filter p d = Some (p, False)" for p d
    by (simp add: translateInboundReverse_def redirect_simps)
  ultimately have tr: "translate_inbound udp_env redirect_filter probe ?d (Addr4 0x0A000009, Addr4 0x0A000002) =
      Some (probed, udp_packet [10, 0, 0, 9] [10, 0, 0, 2] [0, 99] [20, 180], Some (Addr4 0x0A000009, Addr4 0x0A000002))"
    by (simp add: translate_inbound_def redecode_def dec2 extractIPs_def addrs)
  have "isValidTrackedConnection udp_env redirect_filter LayerTypeUDP probed (Addr4 0x0A000009) (Addr4 0x0A000002) 28 =
      Some (redirect_filter, False)"
    by (simp add: isValidTrackedConnection_def udp_IsValidInbound_def udp_conn_def NewUDPTracker_def redirect_simps Let_def)
  moreover have "peerACLsBlock id redirect_filter (Addr4 0x0A000009) LayerTypeUDP probed = Some ([], True)"
    by (simp add: peerACLsBlock_def isSpecialICMP_def rule_set_def redirect_simps)
  moreover have "stateful redirect_filter" by (simp add: redirect_simps)
  ultimately show ?thesis using redirect_local
    by (intro exI [of _ "flow_events redirect_filter @ [drop_event udp_env LayerTypeUDP probed (Addr4 0x0A000009) (Addr4 0x0A000002) [] 28]"])
      (simp add: filterInbound_def isValidPacket_def dec extractIPs_def addrs tr decide_inbound_def transport_def handleLocalTraffic_def)
qed


lemma query_new:
  fixes evs
  defines "m \<equiv> redirect_filter\<lparr>flow_events := evs\<rparr>"
  shows "new_local_udp udp_env m probed query (udp_decoder probed [10, 0, 0, 1] [10, 0, 0, 2] 53 53) (Addr4 0x0A000001) (Addr4 0x0A000002)"
proof -
  let ?d = "udp_decoder probed [10, 0, 0, 1] [10, 0, 0, 2] 53 53"
  have "decode udp_env probed query = (?d, True)" unfolding query_def by (subst udp_env_decode) (simp_all add: ports)
  moreover have "translate_inbound udp_env m query ?d (Addr4 0x0A000001, Addr4 0x0A000002) =
      Some (?d, query, Some (Addr4 0x0A000001, Addr4 0x0A000002))"
    by (simp add: translate_inbound_def redecode_def translateInboundPortDNAT_def translateInboundReverse_def transport_def
        m_def redirect_simps)
  moreover have "peerACLsBlock id m (Addr4 0x0A000001) LayerTypeUDP ?d = Some ([7], False)"
    by (simp add: peerACLsBlock_def isSpecialICMP_def rule_set_def rule_applies_def ports_match2_def portsMatch_def m_def redirect_simps)
  moreover have "IsLocalIP (localipmanager m) (Addr4 0x0A000002)" "\<not> shouldForward m LayerTypeUDP ?d (Addr4 0x0A000002)"
    using redirect_local by (simp_all add: m_def shouldForward_def redirect_simps)
  moreover have "stateful m" "udpTracker m = Some (NewUDPTracker (30 * second))" by (simp_all add: m_def redirect_simps)
  ultimately show ?thesis by (simp add: new_local_udp_def transport_def extractIPs_def addrs NewUDPTracker_def)
qed

lemma reply_answers:
  "answers (udp_decoder probed [10, 0, 0, 1] [10, 0, 0, 2] 53 53) (Addr4 0x0A000001) (Addr4 0x0A000002) udp_env zero_decoder reply
     (udp_decoder zero_decoder [10, 0, 0, 2] [10, 0, 0, 1] 53 53)"
proof -
  have "decode udp_env zero_decoder reply = (udp_decoder zero_decoder [10, 0, 0, 2] [10, 0, 0, 1] 53 53, True)"
    unfolding reply_def by (subst udp_env_decode) (simp_all add: ports)
  then show ?thesis by (simp add: answers_def transport_def extractIPs_def addrs header_len_def reply_def udp_packet_def)
qed

text \<open>
  C36. A dropped packet can divert the replies of another connection. When a UDP packet to a redirected port is dropped after the redirection, the
  decoder, which goes back to the pool, keeps the port. If the filter then meets with this decoder the first packet of another UDP connection to a
  local address, which it admits and does not translate, the connection is recorded as redirected from that port: the filter
  (without an outbound hook and address translation) lets the answers of this peer leave with the destination port of the dropped packet as their source
  port, not with the port that was asked. The parser is only assumed to leave the field for the port alone.
\<close>

theorem denied_packet_diverts_replies:
  assumes "keeps_port e1" and "keeps_port e2"
    and "decode e1 d0 p = (d, True)" and "transport d = Some LayerTypeUDP" and "extractIPs d = Some (s, t)" and "s \<noteq> NoAddr"
    and "translateInboundPortDNAT m p d s t = Some (p1, dr, True)" and "udp_DstPort d \<noteq> 0"
    and "filterInbound e1 m d0 p sz = Some (m1, d1, p', True)"
    and "new_local_udp e2 m2 d1 q dq src dst" and "udpHookOut m2 = None" and "\<not> dnatEnabled m2"
    and "answers dq src dst e3 d3 r d4"
  shows "\<exists>m3 d2 m4 r'. filterInbound e2 m2 d1 q sz2 = Some (m3, d2, q, False) \<and>
    filterOutbound e3 m3 d3 r sz3 = Some (m4, d4, r', False) \<and> u16 r' (header_len d4) = Some (udp_DstPort d)"
proof -
  have port: "dnatOrigPort d1 = udp_DstPort d" by (rule dropped_keeps_port [OF assms(1,3-7,9)])
  obtain m3 d2 u c where q: "filterInbound e2 m2 d1 q sz2 = Some (m3, d2, q, False)" "m3 = m2\<lparr>udpTracker := Some u\<rparr>"
      "udp_conn u (conn_key src dst (udp_SrcPort dq) (udp_DstPort dq)) = Some c" "DNATOrigPort c = ucast (udp_DstPort d)"
    using new_udp_recorded [OF assms(2,10), of sz2] port by auto
  then show ?thesis using answer_diverted [of m3 u src dst dq c "udp_DstPort d" e3 d3 r d4 sz3] assms(8,11-13) by auto
qed

lemma udp_env_keeps_port: "keeps_port udp_env"
  by (simp add: keeps_port_def udp_env_def udp_parse_def)

theorem denied_packet_diverts_replies_witness:
  "\<exists>m1 d1 p1 m2 d2 m3 d3 p3.
     filterInbound udp_env redirect_filter zero_decoder probe 28 = Some (m1, d1, p1, True) \<and>
     filterInbound udp_env m1 d1 query 28 = Some (m2, d2, query, False) \<and>
     filterOutbound udp_env m2 zero_decoder reply 28 = Some (m3, d3, p3, False) \<and>
     u16 reply 20 = Some 53 \<and> u16 p3 20 = Some 5000"
proof -
  let ?d = "udp_decoder zero_decoder [10, 0, 0, 9] [10, 0, 0, 2] 99 5000"
  obtain evs where pd: "filterInbound udp_env redirect_filter zero_decoder probe 28 =
      Some (redirect_filter\<lparr>flow_events := evs\<rparr>, probed, udp_packet [10, 0, 0, 9] [10, 0, 0, 2] [0, 99] [20, 180], True)"
    using probe_denied by blast
  have dec: "decode udp_env zero_decoder probe = (?d, True)" unfolding probe_def by (subst udp_env_decode) (simp_all add: ports)
  have red: "translateInboundPortDNAT redirect_filter probe ?d (Addr4 0x0A000009) (Addr4 0x0A000002) =
      Some (udp_packet [10, 0, 0, 9] [10, 0, 0, 2] [0, 99] [20, 180], ?d\<lparr>dnatOrigPort := 5000\<rparr>, True)"
    by (simp add: translateInboundPortDNAT_def transport_def redirect_simps probe_rewritten)
  have "u16 reply 20 = Some 53" by (simp add: u16_def reply_def udp_packet_def ports)
  moreover have "udpHookOut (redirect_filter\<lparr>flow_events := evs\<rparr>) = None" "\<not> dnatEnabled (redirect_filter\<lparr>flow_events := evs\<rparr>)"
    by (simp_all add: redirect_simps)
  ultimately show ?thesis
    using denied_packet_diverts_replies [OF udp_env_keeps_port udp_env_keeps_port dec _ _ _ red _ pd query_new [of evs] _ _ reply_answers, of 28 28] pd
    by (simp add: transport_def extractIPs_def addrs header_len_def) blast
qed

section \<open>Corner cases\<close>

text \<open>Without connection tracking the trackers are nil, and the first packet that leaves makes the filter panic.\<close>

lemma stateless_outbound_panics:
  assumes "create getenv isNetstack interfaces filterSet iface native disableServer mtu = Inr m"
    and "getenv ''NB_DISABLE_CONNTRACK'' = ''true''"
    and "decode e d p = (d', True)" and "extractIPs d' = Some (src, dst)" and "src \<noteq> NoAddr"
    and "transport d' = Some layer" and "layer \<in> {LayerTypeTCP, LayerTypeUDP, LayerTypeICMPv4}"
  shows "filterOutbound e m d p sz = None"
proof -
  have "fst (parseCreateEnv getenv) = True" by (simp add: parseCreateEnv_def env_bool_def assms(2) ParseBool_def)
  then obtain lf mss where env: "parseCreateEnv getenv = (True, lf, mss)" by (cases "parseCreateEnv getenv") auto
  have m: "udpTracker m = None" "tcpTracker m = None" "icmpTracker m = None" "udpHookOut m = None" "tcpHookOut m = None"
    using assms(1) by (auto simp: create_def env initForwarder_def Let_def split: if_splits)
  have "trackOutbound e m layer d' src dst q sz = None" for q using assms(7) m by (auto simp: trackOutbound_def)
  moreover have "2 \<le> length (decoded d')" using assms(6) by (auto simp: transport_def split: if_splits)
  ultimately show ?thesis using assms(3-7) m
    by (simp add: filterOutbound_def HookMatches_def bind_eq_None_conv split: prod.splits)
qed

text \<open>A rule that denies all sources is stored under the zero address, where no packet of another source looks.\<close>

lemma wildcard_deny_ignored:
  assumes "src \<noteq> Addr4 0"
  shows "peerACLsBlock iter (fst (AddPeerFiltering uuid m ident (IP4 0) proto sPort dPort ActionDrop)) src layer d =
    peerACLsBlock iter m src layer d"
  using assms by (simp add: AddPeerFiltering_def AddrFromSlice_def addr_Unmap_def peerACLsBlock_def Let_def)

text \<open>
  The destinations of a set are taken from its first rule. When a new rule of the set sorts first, the next update takes the addresses
  known so far away from the others.
\<close>

lemma update_forgets:
  assumes "\<not> (nativeRouter m \<and> nativeFirewall m)" and "routeRules m = [new, old]" and "rr_dstSet new = s" and "rr_dstSet old = s"
    and "rr_destinations new = []" and "p \<in> set (rr_destinations old)" and "p \<notin> set prefixes"
  shows "\<forall>r \<in> set (routeRules (fst (UpdateSet nf m s prefixes))). p \<notin> set (rr_destinations r)"
proof -
  have "filter (\<lambda>r. rr_dstSet r = s) (routeRules m) = [new, old]" using assms(2-4) by simp
  from UpdateSet_eq [OF assms(1) this] show ?thesis using assms by (simp add: set_merged)
qed

end
