(* ===== verification/ClientACL.thy ===== *)
theory ClientACL
  imports PacketRules AccessControl
begin

text \<open>
  The way of the access rules from the network map to the packet filter: the messages of
  \<open>management/internals/shared/grpc/conversion.go\<close>, the manager of access rules of the client,
  \<open>client/internal/acl/manager.go\<close>, with the sets and merged ranges of \<open>client/firewall/manager\<close>.

  The manager drives the userspace filter, so its firewall is the filter of the model. Enumerations of
  messages are numbers, since a message can hold any number. The names of IP sets are computed though the userspace
  filter ignores them; the text that groups rules under a name is represented by the tuple of the
  fields printed in it. A map of rules is an association list with an iteration order. Fresh identifiers
  of rules are an argument, one for every rule of the message. The conversion of domain names to Unicode
  (package \<open>idna\<close>) is a parameter.
\<close>

section \<open>Messages\<close>

abbreviation (input) RuleDirection_IN :: int where "RuleDirection_IN \<equiv> 0"
abbreviation (input) RuleDirection_OUT :: int where "RuleDirection_OUT \<equiv> 1"
abbreviation (input) RuleAction_ACCEPT :: int where "RuleAction_ACCEPT \<equiv> 0"
abbreviation (input) RuleAction_DROP :: int where "RuleAction_DROP \<equiv> 1"
abbreviation (input) RuleProtocol_UNKNOWN :: int where "RuleProtocol_UNKNOWN \<equiv> 0"
abbreviation (input) RuleProtocol_ALL :: int where "RuleProtocol_ALL \<equiv> 1"
abbreviation (input) RuleProtocol_TCP :: int where "RuleProtocol_TCP \<equiv> 2"
abbreviation (input) RuleProtocol_UDP :: int where "RuleProtocol_UDP \<equiv> 3"
abbreviation (input) RuleProtocol_ICMP :: int where "RuleProtocol_ICMP \<equiv> 4"

datatype PortInfo = PortInfo_unset | PortInfo_Port "32 word" | PortInfo_Range "(32 word \<times> 32 word) option"

record proto_FirewallRule =
  pf_PeerIP :: string
  pf_Direction :: int
  pf_Action :: int
  pf_Protocol :: int
  pf_Port :: string
  pf_PortInfo :: "PortInfo option"
  pf_PolicyID :: bytes

record proto_RouteFirewallRule =
  prf_SourceRanges :: "string list"
  prf_Action :: int
  prf_Destination :: string
  prf_Protocol :: int
  prf_PortInfo :: "PortInfo option"
  prf_IsDynamic :: bool
  prf_Domains :: "string list"
  prf_PolicyID :: bytes

record proto_NetworkMap =
  pm_FirewallRules :: "proto_FirewallRule list"
  pm_FirewallRulesIsEmpty :: bool
  pm_RoutesFirewallRules :: "proto_RouteFirewallRule list"

definition RulePortRange_ToProto :: "RulePortRange \<Rightarrow> PortInfo" where
  "RulePortRange_ToProto r = PortInfo_Range (Some (ucast (Start r), ucast (End r)))"

definition getProtoDirection :: "nat \<Rightarrow> int" where
  "getProtoDirection direction = (if direction = FirewallRuleDirectionOUT then RuleDirection_OUT else RuleDirection_IN)"

definition PolicyTrafficActionDrop :: string where "PolicyTrafficActionDrop = ''drop''"

definition getProtoAction :: "string \<Rightarrow> int" where
  "getProtoAction action = (if action = PolicyTrafficActionDrop then RuleAction_DROP else RuleAction_ACCEPT)"

definition getProtoProtocol :: "string \<Rightarrow> int" where
  "getProtoProtocol protocol =
     (if protocol = PolicyRuleProtocolALL then RuleProtocol_ALL
      else if protocol = PolicyRuleProtocolTCP then RuleProtocol_TCP
      else if protocol = PolicyRuleProtocolUDP then RuleProtocol_UDP
      else if protocol = PolicyRuleProtocolICMP then RuleProtocol_ICMP
      else RuleProtocol_UNKNOWN)"

definition getProtoPortInfo :: "RouteFirewallRule \<Rightarrow> PortInfo" where
  "getProtoPortInfo rule =
     (if rfr_Port rule \<noteq> 0 then PortInfo_Port (ucast (rfr_Port rule))
      else if Start (rfr_PortRange rule) \<noteq> 0 \<and> End (rfr_PortRange rule) \<noteq> 0
      then PortInfo_Range (Some (ucast (Start (rfr_PortRange rule)), ucast (End (rfr_PortRange rule))))
      else PortInfo_unset)"

definition shouldUsePortRange :: "proto_FirewallRule \<Rightarrow> bool" where
  "shouldUsePortRange rule \<longleftrightarrow> pf_Port rule = [] \<and> (pf_Protocol rule = RuleProtocol_UDP \<or> pf_Protocol rule = RuleProtocol_TCP)"

definition toProtocolFirewallRule :: "FirewallRule \<Rightarrow> proto_FirewallRule" where
  "toProtocolFirewallRule rule =
     (let fwRule = \<lparr>pf_PeerIP = PeerIP rule, pf_Direction = getProtoDirection (Direction rule), pf_Action = getProtoAction (fw_Action rule),
            pf_Protocol = getProtoProtocol (fw_Protocol rule), pf_Port = FirewallRule.Port rule, pf_PortInfo = None,
            pf_PolicyID = bytes_of (PolicyID rule)\<rparr>
      in if shouldUsePortRange fwRule then fwRule\<lparr>pf_PortInfo := Some (RulePortRange_ToProto (PortRange rule))\<rparr> else fwRule)"

definition toProtocolFirewallRules :: "FirewallRule list \<Rightarrow> proto_FirewallRule list" where
  "toProtocolFirewallRules rules = map toProtocolFirewallRule rules"

text \<open>The part of \<open>toSyncResponse\<close> that is about access rules.\<close>

definition map_message :: "FirewallRule list \<Rightarrow> proto_RouteFirewallRule list \<Rightarrow> proto_NetworkMap" where
  "map_message rules routesFirewallRules =
     (let firewallRules = toProtocolFirewallRules rules in
      \<lparr>pm_FirewallRules = firewallRules, pm_FirewallRulesIsEmpty = (length firewallRules = 0), pm_RoutesFirewallRules = routesFirewallRules\<rparr>)"

section \<open>Conversion of rules\<close>

datatype acl_error =
    InvalidPeerIP string | InvalidProtocol int | InvalidAction int | BadPort string | InvalidDirection int | AddRule filter_error
  | ErrSourceRangesEmpty | ParseSourceRange string | ParseDestination string

definition convertToFirewallProtocol :: "int \<Rightarrow> acl_error + Protocol" where
  "convertToFirewallProtocol protocol =
     (if protocol = RuleProtocol_TCP then Inr ProtocolTCP
      else if protocol = RuleProtocol_UDP then Inr ProtocolUDP
      else if protocol = RuleProtocol_ICMP then Inr ProtocolICMP
      else if protocol = RuleProtocol_ALL then Inr ProtocolALL
      else Inl (InvalidProtocol protocol))"

definition convertFirewallAction :: "int \<Rightarrow> acl_error + Action" where
  "convertFirewallAction action =
     (if action = RuleAction_ACCEPT then Inr ActionAccept
      else if action = RuleAction_DROP then Inr ActionDrop
      else Inl (InvalidAction action))"

definition portInfoEmpty :: "PortInfo option \<Rightarrow> bool" where
  "portInfoEmpty portInfo =
     (case portInfo of
        None \<Rightarrow> True
      | Some PortInfo_unset \<Rightarrow> True
      | Some (PortInfo_Port p) \<Rightarrow> p = 0
      | Some (PortInfo_Range r) \<Rightarrow> (case r of None \<Rightarrow> True | Some (s, e) \<Rightarrow> s = 0 \<or> e = 0))"

definition convertPortInfo :: "PortInfo option \<Rightarrow> Port option" where
  "convertPortInfo portInfo =
     (case portInfo of
        Some (PortInfo_Port p) \<Rightarrow> if p \<noteq> 0 then Some \<lparr>IsRange = False, Values = [ucast p]\<rparr> else None
      | Some (PortInfo_Range (Some (s, e))) \<Rightarrow> Some \<lparr>IsRange = True, Values = [ucast s, ucast e]\<rparr>
      | _ \<Rightarrow> None)"

definition shouldSkipInvertedRule :: "Protocol \<Rightarrow> Port option \<Rightarrow> bool" where
  "shouldSkipInvertedRule protocol port \<longleftrightarrow> protocol = ProtocolALL \<or> protocol = ProtocolICMP \<or> port = None"

text \<open>\<open>md5.New().Sum(x)\<close> appends the hash of the empty text to \<open>x\<close>.\<close>

definition md5_empty :: bytes where
  "md5_empty = [0xd4, 0x1d, 0x8c, 0xd9, 0x8f, 0x00, 0xb2, 0x04, 0xe9, 0x80, 0x09, 0x98, 0xec, 0xf8, 0x42, 0x7e]"

definition getPeerRuleID :: "IP \<Rightarrow> Protocol \<Rightarrow> int \<Rightarrow> Port option \<Rightarrow> Action \<Rightarrow> string" where
  "getPeerRuleID ip proto direction port action =
     (let idStr = net_IP_String ip @ proto @ FormatInt direction @ itoa (Action_int action) @
            (case port of Some p \<Rightarrow> Port_String p | None \<Rightarrow> [])
      in hex_bytes (bytes_of idStr @ md5_empty))"

type_synonym rule_pairs = "(string \<times> PeerRule list) list"

definition addInRules ::
    "string \<Rightarrow> Manager \<Rightarrow> bytes \<Rightarrow> IP \<Rightarrow> Protocol \<Rightarrow> Port option \<Rightarrow> Action \<Rightarrow> Manager \<times> (acl_error + PeerRule list)" where
  "addInRules uuid fw ident ip protocol port action =
     (case AddPeerFiltering uuid fw ident ip protocol None port action of
        (fw', Inl e) \<Rightarrow> (fw', Inl (AddRule e))
      | (fw', Inr rules) \<Rightarrow> (fw', Inr rules))"

definition addOutRules ::
    "string \<Rightarrow> Manager \<Rightarrow> bytes \<Rightarrow> IP \<Rightarrow> Protocol \<Rightarrow> Port option \<Rightarrow> Action \<Rightarrow> Manager \<times> (acl_error + PeerRule list)" where
  "addOutRules uuid fw ident ip protocol port action =
     (if shouldSkipInvertedRule protocol port then (fw, Inr [])
      else case AddPeerFiltering uuid fw ident ip protocol port None action of
        (fw', Inl e) \<Rightarrow> (fw', Inl (AddRule e))
      | (fw', Inr rules) \<Rightarrow> (fw', Inr rules))"

text \<open>The conversions at the start of \<open>protoRuleToFirewallRule\<close>.\<close>

definition rule_parts :: "proto_FirewallRule \<Rightarrow> acl_error + IP \<times> Protocol \<times> Action \<times> Port option" where
  "rule_parts r =
     (case ParseIP (pf_PeerIP r) of
        NilIP \<Rightarrow> Inl (InvalidPeerIP (pf_PeerIP r))
      | ip \<Rightarrow>
          (case convertToFirewallProtocol (pf_Protocol r) of
             Inl e \<Rightarrow> Inl e
           | Inr protocol \<Rightarrow>
               (case convertFirewallAction (pf_Action r) of
                  Inl e \<Rightarrow> Inl e
                | Inr action \<Rightarrow>
                    if \<not> portInfoEmpty (pf_PortInfo r) then Inr (ip, protocol, action, convertPortInfo (pf_PortInfo r))
                    else if pf_Port r \<noteq> [] then
                      (case ParseInt (pf_Port r) of
                         None \<Rightarrow> Inl (BadPort (pf_Port r))
                       | Some v \<Rightarrow> Inr (ip, protocol, action, Some \<lparr>IsRange = False, Values = [word_of_int v]\<rparr>))
                    else Inr (ip, protocol, action, None))))"

definition protoRuleToFirewallRule ::
    "string \<Rightarrow> Manager \<Rightarrow> rule_pairs \<Rightarrow> proto_FirewallRule \<Rightarrow> Manager \<times> (acl_error + string \<times> PeerRule list)" where
  "protoRuleToFirewallRule uuid fw pairs r =
     (case rule_parts r of
        Inl e \<Rightarrow> (fw, Inl e)
      | Inr (ip, protocol, action, port) \<Rightarrow>
          let ruleID = getPeerRuleID ip protocol (pf_Direction r) port action in
          case map_of pairs ruleID of
            Some rulesPair \<Rightarrow> (fw, Inr (ruleID, rulesPair))
          | None \<Rightarrow>
              if pf_Direction r = RuleDirection_IN then
                (case addInRules uuid fw (pf_PolicyID r) ip protocol port action of
                   (fw', Inl e) \<Rightarrow> (fw', Inl e)
                 | (fw', Inr rules) \<Rightarrow> (fw', Inr (ruleID, rules)))
              else if pf_Direction r = RuleDirection_OUT then
                (if stateful fw then (fw, Inr ([], []))
                 else case addOutRules uuid fw (pf_PolicyID r) ip protocol port action of
                   (fw', Inl e) \<Rightarrow> (fw', Inl e)
                 | (fw', Inr rules) \<Rightarrow> (fw', Inr (ruleID, rules)))
              else (fw, Inl (InvalidDirection (pf_Direction r))))"

section \<open>Applying a network map\<close>

type_synonym selector = "int \<times> int \<times> int \<times> string \<times> PortInfo option"

definition getRuleGroupingSelector :: "proto_FirewallRule \<Rightarrow> selector" where
  "getRuleGroupingSelector rule = (pf_Direction rule, pf_Action rule, pf_Protocol rule, pf_Port rule, pf_PortInfo rule)"

text \<open>The state of the loop over the rules.\<close>

record acl_loop =
  l_fw :: Manager
  l_counter :: nat
  l_pairs :: rule_pairs
  l_new :: rule_pairs
  l_sets :: "(selector \<times> string) list"

definition ipset_name :: "nat \<Rightarrow> string" where
  "ipset_name n = ''nb'' @ replicate (7 - length (itoa n)) (CHR ''0'') @ itoa n"

definition name_ipset :: "acl_loop \<Rightarrow> proto_FirewallRule \<Rightarrow> acl_loop" where
  "name_ipset s r =
     (let selector = getRuleGroupingSelector r in
      if map_of (l_sets s) selector \<noteq> None then s
      else s\<lparr>l_counter := l_counter s + 1, l_sets := (selector, ipset_name (l_counter s + 1)) # l_sets s\<rparr>)"

definition delete_all :: "Manager \<Rightarrow> PeerRule list \<Rightarrow> Manager" where
  "delete_all fw rules = foldl (\<lambda>fw rule. fst (DeletePeerRule fw rule)) fw rules"

definition rollBack :: "(rule_pairs \<Rightarrow> rule_pairs) \<Rightarrow> Manager \<Rightarrow> rule_pairs \<Rightarrow> Manager" where
  "rollBack iter fw newRulePairs = delete_all fw (concat (map snd (iter newRulePairs)))"

fun apply_rules :: "(rule_pairs \<Rightarrow> rule_pairs) \<Rightarrow> string list \<Rightarrow> proto_FirewallRule list \<Rightarrow> acl_loop \<Rightarrow> acl_loop" where
  "apply_rules iter (uuid # uuids) (r # rs) s =
     (let s1 = name_ipset s r in
      case protoRuleToFirewallRule uuid (l_fw s1) (l_pairs s1) r of
        (fw, Inl e) \<Rightarrow> s1\<lparr>l_fw := rollBack iter fw (l_new s1)\<rparr>
      | (fw, Inr (pairID, rulePair)) \<Rightarrow>
          apply_rules iter uuids rs
            (if rulePair = [] then s1\<lparr>l_fw := fw\<rparr>
             else s1\<lparr>l_fw := fw, l_pairs := AList.update pairID rulePair (l_pairs s1),
                     l_new := AList.update pairID rulePair (l_new s1)\<rparr>))"
| "apply_rules iter uuids rs s = s"

definition allow_all :: "proto_FirewallRule list" where
  "allow_all =
     [\<lparr>pf_PeerIP = ''0.0.0.0'', pf_Direction = RuleDirection_IN, pf_Action = RuleAction_ACCEPT, pf_Protocol = RuleProtocol_ALL,
       pf_Port = [], pf_PortInfo = None, pf_PolicyID = []\<rparr>,
      \<lparr>pf_PeerIP = ''0.0.0.0'', pf_Direction = RuleDirection_OUT, pf_Action = RuleAction_ACCEPT, pf_Protocol = RuleProtocol_ALL,
       pf_Port = [], pf_PortInfo = None, pf_PolicyID = []\<rparr>]"

definition effective_rules :: "proto_NetworkMap \<Rightarrow> proto_FirewallRule list" where
  "effective_rules nm =
     (if pm_FirewallRules nm = [] \<and> \<not> pm_FirewallRulesIsEmpty nm then allow_all else pm_FirewallRules nm)"

record DefaultManager =
  firewall :: "Manager option"
  ipsetCounter :: nat
  peerRulesPairs :: rule_pairs
  acl_routeRules :: "string list"

definition NewDefaultManager :: "Manager option \<Rightarrow> DefaultManager" where
  "NewDefaultManager fm = \<lparr>firewall = fm, ipsetCounter = 0, peerRulesPairs = [], acl_routeRules = []\<rparr>"

definition applyPeerACLs ::
    "(rule_pairs \<Rightarrow> rule_pairs) \<Rightarrow> string list \<Rightarrow> Manager \<Rightarrow> nat \<Rightarrow> rule_pairs \<Rightarrow> proto_NetworkMap \<Rightarrow> Manager \<times> nat \<times> rule_pairs" where
  "applyPeerACLs iter uuids fw counter pairs nm =
     (let s = apply_rules iter uuids (effective_rules nm)
            \<lparr>l_fw = fw, l_counter = counter, l_pairs = pairs, l_new = [], l_sets = []\<rparr>;
          stale = filter (\<lambda>(pairID, _). map_of (l_new s) pairID = None) (iter (l_pairs s))
      in (delete_all (l_fw s) (concat (map snd stale)), l_counter s, l_new s))"

section \<open>Route rules\<close>

definition getDefault :: "Prefix \<Rightarrow> Prefix" where
  "getDefault prefix = (if is_Addr6 (pfx_Addr prefix) then \<lparr>pfx_Addr = Addr6 0 [], pfx_Bits = 0\<rparr> else \<lparr>pfx_Addr = Addr4 0, pfx_Bits = 0\<rparr>)"

definition FromPunycodeList :: "string list \<Rightarrow> string list" where
  "FromPunycodeList s = map ToLower s"

definition Domain_SafeStrings :: "(string \<Rightarrow> string option) \<Rightarrow> string list \<Rightarrow> string" where
  "Domain_SafeStrings toUnicode domains =
     (if list_all (\<lambda>d. toUnicode d \<noteq> None) domains then Join (map (\<lambda>d. the (toUnicode d)) domains) '', ''
      else Join domains '', '')"

definition NewDomainSet :: "(string \<Rightarrow> string option) \<Rightarrow> string list \<Rightarrow> Set" where
  "NewDomainSet toUnicode domains =
     (let sorted = sort_by string_less domains in
      \<lparr>set_hash = take 4 (sha256 (bytes_of (concat sorted))), set_comment = Domain_SafeStrings toUnicode sorted\<rparr>)"

definition determineDestination ::
    "(string \<Rightarrow> string option) \<Rightarrow> proto_RouteFirewallRule \<Rightarrow> bool \<Rightarrow> Prefix list \<Rightarrow> acl_error + Network" where
  "determineDestination toUnicode rule dynamicResolver sources =
     (let no_prefix = \<lparr>pfx_Addr = NoAddr, pfx_Bits = 0\<rparr> in
      if prf_IsDynamic rule then
        (if dynamicResolver \<and> prf_Domains rule \<noteq> []
         then Inr \<lparr>nw_Set = NewDomainSet toUnicode (FromPunycodeList (prf_Domains rule)), nw_Prefix = no_prefix\<rparr>
         else Inr \<lparr>nw_Set = zero_Set, nw_Prefix = getDefault (hd sources)\<rparr>)
      else case ParsePrefix (prf_Destination rule) of
        None \<Rightarrow> Inl (ParseDestination (prf_Destination rule))
      | Some prefix \<Rightarrow> Inr \<lparr>nw_Set = zero_Set, nw_Prefix = prefix\<rparr>)"

fun parse_sources :: "string list \<Rightarrow> acl_error + Prefix list" where
  "parse_sources [] = Inr []"
| "parse_sources (s # ss) =
     (case ParsePrefix s of
        None \<Rightarrow> Inl (ParseSourceRange s)
      | Some p \<Rightarrow> (case parse_sources ss of Inl e \<Rightarrow> Inl e | Inr ps \<Rightarrow> Inr (p # ps)))"

definition applyRouteACL ::
    "(string \<Rightarrow> string option) \<Rightarrow> (native_call \<Rightarrow> string option) \<Rightarrow> Manager \<Rightarrow> proto_RouteFirewallRule \<Rightarrow> bool \<Rightarrow> Manager \<times> (acl_error + string)" where
  "applyRouteACL toUnicode nf fw rule dynamicResolver =
     (if prf_SourceRanges rule = [] then (fw, Inl ErrSourceRangesEmpty)
      else case parse_sources (prf_SourceRanges rule) of
        Inl e \<Rightarrow> (fw, Inl e)
      | Inr sources \<Rightarrow>
          (case determineDestination toUnicode rule dynamicResolver sources of
             Inl e \<Rightarrow> (fw, Inl e)
           | Inr destination \<Rightarrow>
               (case convertToFirewallProtocol (prf_Protocol rule) of
                  Inl e \<Rightarrow> (fw, Inl e)
                | Inr protocol \<Rightarrow>
                    (case convertFirewallAction (prf_Action rule) of
                       Inl e \<Rightarrow> (fw, Inl e)
                     | Inr action \<Rightarrow>
                         (case addRouteFiltering nf fw (prf_PolicyID rule) sources destination protocol None (convertPortInfo (prf_PortInfo rule)) action of
                            (fw', Inl e) \<Rightarrow> (fw', Inl (AddRule e))
                          | (fw', Inr i) \<Rightarrow> (fw', Inr i))))))"

fun apply_routes ::
    "(string \<Rightarrow> string option) \<Rightarrow> (native_call \<Rightarrow> string option) \<Rightarrow> bool \<Rightarrow> proto_RouteFirewallRule list \<Rightarrow> Manager \<Rightarrow> string list \<times> acl_error list
      \<Rightarrow> Manager \<times> string list \<times> acl_error list" where
  "apply_routes toUnicode nf dyn [] fw (ids, errs) = (fw, ids, errs)"
| "apply_routes toUnicode nf dyn (r # rs) fw (ids, errs) =
     (case applyRouteACL toUnicode nf fw r dyn of
        (fw', Inl e) \<Rightarrow> apply_routes toUnicode nf dyn rs fw' (ids, if e = ErrSourceRangesEmpty then errs else errs @ [e])
      | (fw', Inr i) \<Rightarrow> apply_routes toUnicode nf dyn rs fw' (List.insert i ids, errs))"

definition applyRouteACLs ::
    "(string \<Rightarrow> string option) \<Rightarrow> (native_call \<Rightarrow> string option) \<Rightarrow> (string list \<Rightarrow> string list) \<Rightarrow> Manager \<Rightarrow> string list
      \<Rightarrow> proto_RouteFirewallRule list \<Rightarrow> bool \<Rightarrow> Manager \<times> string list \<times> acl_error list" where
  "applyRouteACLs toUnicode nf iter fw old rules dyn =
     (case apply_routes toUnicode nf dyn rules fw ([], []) of
        (fw1, new, errs) \<Rightarrow>
          (case foldl (\<lambda>(fw, errs) i. case deleteRouteRule nf fw i of
                   (fw', None) \<Rightarrow> (fw', errs) | (fw', Some e) \<Rightarrow> (fw', errs @ [AddRule e]))
                 (fw1, errs) (filter (\<lambda>i. i \<notin> set new) (iter old)) of
             (fw2, errs2) \<Rightarrow> (fw2, new, errs2)))"

text \<open>The userspace filter has nothing to flush.\<close>

definition ApplyFiltering ::
    "(string \<Rightarrow> string option) \<Rightarrow> (native_call \<Rightarrow> string option) \<Rightarrow> (rule_pairs \<Rightarrow> rule_pairs) \<Rightarrow> (string list \<Rightarrow> string list) \<Rightarrow> string list
      \<Rightarrow> DefaultManager \<Rightarrow> proto_NetworkMap \<Rightarrow> bool \<Rightarrow> DefaultManager" where
  "ApplyFiltering toUnicode nf iter iter2 uuids d nm dnsRouteFeatureFlag =
     (case firewall d of
        None \<Rightarrow> d
      | Some fw \<Rightarrow>
          (case applyPeerACLs iter uuids fw (ipsetCounter d) (peerRulesPairs d) nm of
             (fw1, counter, pairs) \<Rightarrow>
               (case applyRouteACLs toUnicode nf iter2 fw1 (acl_routeRules d) (pm_RoutesFirewallRules nm) dnsRouteFeatureFlag of
                  (fw2, routes, _) \<Rightarrow>
                    d\<lparr>firewall := Some fw2, ipsetCounter := counter, peerRulesPairs := pairs, acl_routeRules := routes\<rparr>)))"

section \<open>Merged ranges\<close>

fun merge_ranges :: "Prefix \<Rightarrow> Prefix list \<Rightarrow> Prefix list" where
  "merge_ranges l [] = [l]"
| "merge_ranges l (p # ps) =
     (if GoNet.Contains l (pfx_Addr p) then merge_ranges l ps
      else if GoNet.Contains p (pfx_Addr l) then merge_ranges p ps
      else l # merge_ranges p ps)"

definition MergeIPRanges :: "Prefix list \<Rightarrow> Prefix list" where
  "MergeIPRanges prefixes = (case prefixes of [] \<Rightarrow> [] | p # ps \<Rightarrow> merge_ranges p ps)"

section \<open>Identifiers of rules\<close>

text \<open>The ports that the manager makes.\<close>

definition port_form :: "Port option \<Rightarrow> bool" where
  "port_form port \<longleftrightarrow>
     (case port of None \<Rightarrow> True | Some p \<Rightarrow> (\<exists>v. p = \<lparr>IsRange = False, Values = [v]\<rparr>) \<or> (\<exists>a b. p = \<lparr>IsRange = True, Values = [a, b]\<rparr>))"

lemma of_hex_char: "d < 16 \<Longrightarrow> (of_char (digit_char d) :: nat) = (if d < 10 then 48 + d else 87 + d)"
  by (simp add: digit_char_def)

lemma hex_digits_inj: "m < 16 \<Longrightarrow> n < 16 \<Longrightarrow> digit_char m = digit_char n \<Longrightarrow> m = n"
proof -
  assume d: "m < 16" "n < 16" and e: "digit_char m = digit_char n"
  have "(of_char (digit_char m) :: nat) = of_char (digit_char n)" by (simp only: e)
  then show "m = n" unfolding of_hex_char [OF d(1)] of_hex_char [OF d(2)] by (simp split: if_splits)
qed

lemma hex_byte_inj: "hex_byte a = hex_byte b \<Longrightarrow> a = b"
proof -
  assume "hex_byte a = hex_byte b"
  moreover have "unat a < 256" "unat b < 256" using unsigned_less [of a] unsigned_less [of b] by simp_all
  ultimately have "unat a div 16 = unat b div 16" "unat a mod 16 = unat b mod 16"
    using hex_digits_inj by (simp_all add: hex_byte_def)
  then have "unat a = unat b" by (metis div_mult_mod_eq)
  then show "a = b" by (simp add: word_unat_eq_iff)
qed

lemma hex_bytes_inj: "hex_bytes xs = hex_bytes ys \<Longrightarrow> xs = ys"
proof (induction xs arbitrary: ys)
  case Nil
  then have "length (hex_bytes []) = length (hex_bytes ys)" by (rule arg_cong)
  then have "length ys = 0" unfolding length_hex_bytes by simp
  then show ?case by simp
next
  case (Cons x xs)
  have "length (hex_bytes (x # xs)) = length (hex_bytes ys)" using Cons.prems by (rule arg_cong)
  then have "length ys = Suc (length xs)" unfolding length_hex_bytes by simp
  then obtain y ys' where "ys = y # ys'" by (cases ys) simp_all
  with Cons show ?case using hex_byte_inj [of x y] by (auto simp: hex_bytes_def hex_byte_def)
qed

definition is_digit :: "char \<Rightarrow> bool" where
  "is_digit c \<longleftrightarrow> 48 \<le> (of_char c :: nat) \<and> (of_char c :: nat) \<le> 57"

lemma itoa_chars: "\<forall>c \<in> set (itoa n). is_digit c"
  using itoa_digits by (simp add: is_digit_def)

lemma itoa_inj: "itoa m = itoa n \<Longrightarrow> m = n"
  by (metis option.inject parse_digits_itoa)

lemma takeWhile_split:
  assumes "\<forall>c \<in> set xs. P c" and "zs \<noteq> [] \<longrightarrow> \<not> P (hd zs)"
  shows "takeWhile P (xs @ zs) = xs"
  using assms by (induction xs) (auto simp: takeWhile_eq_Nil_iff)

lemma split_inj:
  assumes "xs @ zs = ys @ ws" and "\<forall>c \<in> set xs. P c" and "\<forall>c \<in> set ys. P c"
    and "zs \<noteq> [] \<longrightarrow> \<not> P (hd zs)" and "ws \<noteq> [] \<longrightarrow> \<not> P (hd ws)"
  shows "xs = ys \<and> zs = ws"
  using takeWhile_split [OF assms(2,4)] takeWhile_split [OF assms(3,5)] assms(1) by (metis append_same_eq same_append_eq)

lemma IP_String_chars: "\<forall>c \<in> set (IP_String w). is_digit c \<or> c = CHR ''.''"
  using itoa_chars by (auto simp: IP_String_def)

lemma hd_itoa_digit: "is_digit (hd (itoa n @ x))"
  using itoa_chars [of n] itoa_nonempty [of n] by (cases "itoa n") auto

lemma range_inj: "itoa a @ '','' @ itoa b = itoa c @ '','' @ itoa d \<Longrightarrow> a = c \<and> b = d"
proof -
  assume e: "itoa a @ '','' @ itoa b = itoa c @ '','' @ itoa d"
  have "itoa a = itoa c \<and> '','' @ itoa b = '','' @ itoa d"
    by (rule split_inj [OF e itoa_chars itoa_chars]) (simp_all add: is_digit_def)
  then show "a = c \<and> b = d" using itoa_inj by simp
qed

lemma Port_String_inj:
  assumes "port_form (Some p)" and "port_form (Some q)" and "Port_String p = Port_String q"
  shows "p = q"
proof -
  have r: "itoa n \<noteq> ''range:'' @ x" for n x
    using hd_itoa_digit [of n "[]"] by (auto simp: is_digit_def)
  have P: "(\<exists>v. p = \<lparr>IsRange = False, Values = [v]\<rparr>) \<or> (\<exists>a b. p = \<lparr>IsRange = True, Values = [a, b]\<rparr>)"
      "(\<exists>v. q = \<lparr>IsRange = False, Values = [v]\<rparr>) \<or> (\<exists>a b. q = \<lparr>IsRange = True, Values = [a, b]\<rparr>)"
    using assms(1,2) by (simp_all add: port_form_def)
  have single: "Port_String \<lparr>IsRange = False, Values = [v]\<rparr> = itoa (unat v)" for v by (simp add: Port_String_def)
  have range: "Port_String \<lparr>IsRange = True, Values = [a, b]\<rparr> = ''range:'' @ itoa (unat a) @ '','' @ itoa (unat b)" for a b
    by (simp add: Port_String_def)
  from P show ?thesis
  proof (elim disjE exE)
    fix v w assume "p = \<lparr>IsRange = False, Values = [v]\<rparr>" "q = \<lparr>IsRange = False, Values = [w]\<rparr>"
    then show ?thesis using assms(3) single itoa_inj [of "unat v" "unat w"] by (simp add: word_unat_eq_iff)
  next
    fix v a b assume pq: "p = \<lparr>IsRange = False, Values = [v]\<rparr>" "q = \<lparr>IsRange = True, Values = [a, b]\<rparr>"
    show ?thesis using assms(3) unfolding pq single range by (rule notE [OF r])
  next
    fix v a b assume pq: "q = \<lparr>IsRange = False, Values = [v]\<rparr>" "p = \<lparr>IsRange = True, Values = [a, b]\<rparr>"
    show ?thesis using assms(3) [symmetric] unfolding pq single range by (rule notE [OF r])
  next
    fix a b c d assume pq: "p = \<lparr>IsRange = True, Values = [a, b]\<rparr>" "q = \<lparr>IsRange = True, Values = [c, d]\<rparr>"
    then have "itoa (unat a) @ '','' @ itoa (unat b) = itoa (unat c) @ '','' @ itoa (unat d)"
      using assms(3) unfolding pq range by (simp only: same_append_eq)
    from range_inj [OF this] show ?thesis by (simp add: pq word_unat_eq_iff)
  qed
qed

lemma Port_String_start: "port_form (Some p) \<Longrightarrow> Port_String p \<noteq> []"
  by (auto simp: port_form_def Port_String_def)

lemma FormatInt_direction: "d = 0 \<or> d = 1 \<Longrightarrow> FormatInt d = [digit_char (nat d)]"
  by (auto simp: FormatInt_def itoa.simps)

lemma itoa_action: "itoa (Action_int a) = [digit_char (Action_int a)]" "Action_int a < 2"
  by (cases a; simp add: Action_int_def itoa.simps)+

abbreviation protocols :: "Protocol set" where
  "protocols \<equiv> {ProtocolTCP, ProtocolUDP, ProtocolICMP, ProtocolALL}"

lemma id_text_inj:
  assumes "IP_String v @ p @ FormatInt d @ itoa (Action_int a) @ t = IP_String w @ q @ FormatInt e @ itoa (Action_int b) @ u"
    and "p \<in> protocols" and "q \<in> protocols" and "d = 0 \<or> d = 1" and "e = 0 \<or> e = 1"
  shows "v = w \<and> p = q \<and> d = e \<and> a = b \<and> t = u"
proof -
  let ?P = "\<lambda>c. is_digit c \<or> c = CHR ''.''"
  have h: "\<not> ?P (hd (p @ x))" "\<forall>c \<in> set p. \<not> ?P c" if "p \<in> protocols" for p x
    using that by (auto simp: is_digit_def)
  have dg: "?P (digit_char n)" if "n < 10" for n using that by (simp add: is_digit_def of_digit_char)
  have n: "nat d < 10" "nat e < 10" using assms(4,5) by auto
  note f = FormatInt_direction [OF assms(4)] FormatInt_direction [OF assms(5)] itoa_action(1)
  have 1: "IP_String v = IP_String w \<and> p @ FormatInt d @ itoa (Action_int a) @ t = q @ FormatInt e @ itoa (Action_int b) @ u"
    by (rule split_inj [OF assms(1) IP_String_chars IP_String_chars]) (rule impI, rule h, rule assms)+
  have d: "\<not> \<not> ?P (hd (FormatInt d @ x))" "\<not> \<not> ?P (hd (FormatInt e @ x))" for x
    using dg [OF n(1)] dg [OF n(2)] by (simp_all add: f)
  have 2: "p = q \<and> FormatInt d @ itoa (Action_int a) @ t = FormatInt e @ itoa (Action_int b) @ u"
    by (rule split_inj [where P = "\<lambda>c. \<not> ?P c", OF 1 [THEN conjunct2] h(2) [OF assms(2)] h(2) [OF assms(3)]])
      (rule impI, rule d)+
  then have "digit_char (nat d) = digit_char (nat e)" "digit_char (Action_int a) = digit_char (Action_int b)" "t = u"
    by (simp_all add: f)
  then have "nat d = nat e" "Action_int a = Action_int b" "t = u"
    using hex_digits_inj n itoa_action(2) [of a] itoa_action(2) [of b] by simp_all
  then show ?thesis using 1 2 assms(4,5) by (cases a; cases b) (auto simp: Action_int_def)
qed

lemma net_IP_String_mapped: "net_IP_String (IP16 (mapped w)) = IP_String w"
  by (simp add: net_IP_String_def)

lemma bytes_of_inj: "bytes_of s = bytes_of t \<Longrightarrow> s = t"
  by (metis string_of_bytes_of)

text \<open>Rules for IPv4 addresses have different identifiers unless they agree in everything but the policy.\<close>

lemma getPeerRuleID_inj:
  assumes "getPeerRuleID (IP16 (mapped v)) p d port a = getPeerRuleID (IP16 (mapped w)) q e port' b"
    and "p \<in> protocols" and "q \<in> protocols" and "d = 0 \<or> d = 1" and "e = 0 \<or> e = 1" and "port_form port" and "port_form port'"
  shows "v = w \<and> p = q \<and> d = e \<and> port = port' \<and> a = b"
proof -
  let ?s = "\<lambda>port. case port of Some p \<Rightarrow> Port_String p | None \<Rightarrow> []"
  have "IP_String v @ p @ FormatInt d @ itoa (Action_int a) @ ?s port = IP_String w @ q @ FormatInt e @ itoa (Action_int b) @ ?s port'"
    using assms(1) unfolding getPeerRuleID_def Let_def net_IP_String_mapped
    by (intro bytes_of_inj) (drule hex_bytes_inj, simp only: append_same_eq)
  from id_text_inj [OF this assms(2-5)] have "v = w \<and> p = q \<and> d = e \<and> a = b" and s: "?s port = ?s port'" by simp_all
  moreover have "port = port'"
  proof (cases port; cases port')
    fix x y assume xy: "port = Some x" "port' = Some y"
    then show ?thesis using Port_String_inj [of x y] s assms(6,7) by simp
  qed (use s assms(6,7) Port_String_start in \<open>simp_all, metis\<close>)
  ultimately show ?thesis by simp
qed

section \<open>What a rule of the network map asks for\<close>

definition good_rule :: "proto_FirewallRule \<Rightarrow> bool" where
  "good_rule r \<longleftrightarrow> (\<exists>w. pf_PeerIP r = IP_String w) \<and> (pf_Direction r = 0 \<or> pf_Direction r = 1) \<and> (\<exists>x. rule_parts r = Inr x)"

definition rule_ID_of :: "proto_FirewallRule \<Rightarrow> string" where
  "rule_ID_of r =
     (case rule_parts r of Inl _ \<Rightarrow> [] | Inr (ip, protocol, action, port) \<Rightarrow> getPeerRuleID ip protocol (pf_Direction r) port action)"

text \<open>
  The rule of the filter for a rule of the map, with neither identifier nor policy: inbound rules restrict the destination port,
  outbound rules are needed by a stateless filter only and restrict the source port of the replies.
\<close>

definition enforced :: "bool \<Rightarrow> proto_FirewallRule \<Rightarrow> PeerRule option" where
  "enforced st r =
     (case rule_parts r of
        Inl _ \<Rightarrow> None
      | Inr (ip, protocol, action, port) \<Rightarrow>
          if pf_Direction r = RuleDirection_IN then Some (new_peer_rule [] [] ip protocol None port action)
          else if st \<or> shouldSkipInvertedRule protocol port then None
          else Some (new_peer_rule [] [] ip protocol port None action))"

definition content :: "PeerRule \<Rightarrow> PeerRule" where
  "content q = q\<lparr>pr_id := [], pr_mgmtId := []\<rparr>"

lemma content_new [simp]: "content (new_peer_rule uuid ident ip proto sPort dPort action) = new_peer_rule [] [] ip proto sPort dPort action"
  by (simp add: content_def new_peer_rule_def Let_def)

lemma rule_parts_form:
  assumes "rule_parts r = Inr (ip, protocol, action, port)"
  shows "protocol \<in> protocols \<and> port_form port \<and> ip = ParseIP (pf_PeerIP r) \<and> ip \<noteq> NilIP"
proof -
  have proto: "convertToFirewallProtocol x = Inr p \<Longrightarrow> p \<in> protocols" for x p
    by (auto simp: convertToFirewallProtocol_def split: if_splits)
  have port: "port_form (convertPortInfo x)" for x
    by (auto simp: port_form_def convertPortInfo_def split: option.splits PortInfo.splits)
  have "port_form None" "port_form (Some \<lparr>IsRange = False, Values = [v]\<rparr>)" for v by (simp_all add: port_form_def)
  then show ?thesis using assms proto port unfolding rule_parts_def
    by (auto split: IP.splits sum.splits if_splits option.splits)
qed

lemma good_rule_parts:
  assumes "good_rule r"
  obtains w protocol action port where "rule_parts r = Inr (IP16 (mapped w), protocol, action, port)"
    "pf_PeerIP r = IP_String w" "protocol \<in> protocols" "port_form port"
proof -
  obtain w x where w: "pf_PeerIP r = IP_String w" "rule_parts r = Inr x" using assms by (auto simp: good_rule_def)
  obtain ip protocol action port where x: "x = (ip, protocol, action, port)" by (metis prod.exhaust)
  show thesis using that rule_parts_form [OF w(2) [unfolded x]] w x ParseIP_IP_String by metis
qed

lemma rule_ID_enforced:
  assumes "good_rule r" and "good_rule r'" and "rule_ID_of r = rule_ID_of r'"
  shows "enforced st r = enforced st r'"
proof -
  obtain w p a port where r: "rule_parts r = Inr (IP16 (mapped w), p, a, port)" "p \<in> protocols" "port_form port"
    by (rule good_rule_parts [OF assms(1)])
  obtain w' p' a' port' where r': "rule_parts r' = Inr (IP16 (mapped w'), p', a', port')" "p' \<in> protocols" "port_form port'"
    by (rule good_rule_parts [OF assms(2)])
  have d: "pf_Direction r = 0 \<or> pf_Direction r = 1" "pf_Direction r' = 0 \<or> pf_Direction r' = 1"
    using assms(1,2) by (simp_all add: good_rule_def)
  have "getPeerRuleID (IP16 (mapped w)) p (pf_Direction r) port a = getPeerRuleID (IP16 (mapped w')) p' (pf_Direction r') port' a'"
    using assms(3) by (simp add: rule_ID_of_def r r')
  from getPeerRuleID_inj [OF this r(2) r'(2) d r(3) r'(3)] show ?thesis by (simp add: enforced_def r r')
qed

lemma port_form_ok: "port_form p \<Longrightarrow> port_ok p"
  by (auto simp: port_form_def port_ok_def split: option.splits)

section \<open>The table of the manager and the rules in the filter\<close>

definition pair_rules :: "rule_pairs \<Rightarrow> PeerRule list" where
  "pair_rules pairs = concat (map snd pairs)"

definition acl_ok :: "Manager \<Rightarrow> rule_pairs \<Rightarrow> bool" where
  "acl_ok fw pairs \<longleftrightarrow>
     peer_rules_ok fw \<and> distinct (map fst pairs) \<and> distinct (map pr_id (pair_rules pairs)) \<and> installed_rules fw = set (pair_rules pairs) \<and>
     (\<forall>i rs. (i, rs) \<in> set pairs \<longrightarrow>
        (\<exists>q r. rs = [q] \<and> good_rule r \<and> rule_ID_of r = i \<and> enforced (stateful fw) r = Some (content q)))"

lemma update_same: "map_of xs k = Some v \<Longrightarrow> AList.update k v xs = xs"
  by (induction xs) (auto split: if_splits)

lemma update_new: "map_of xs k = None \<Longrightarrow> AList.update k v xs = xs @ [(k, v)]"
  by (induction xs) (auto split: if_splits)

lemma AddPeerFiltering_new:
  assumes "AddrFromSlice ip \<noteq> NoAddr"
  shows "\<exists>fw'. AddPeerFiltering uuid fw ident ip proto sPort dPort action = (fw', Inr [new_peer_rule uuid ident ip proto sPort dPort action]) \<and>
    stateful fw' = stateful fw"
  using assms by (simp add: AddPeerFiltering_eq Let_def)

lemma acl_ok_add:
  assumes "acl_ok fw pairs" and "good_rule r" and "map_of pairs (rule_ID_of r) = None" and "uuid \<notin> pr_id ` installed_rules fw"
    and "AddPeerFiltering uuid fw ident ip proto sPort dPort action = (fw', Inr [q])"
    and "enforced (stateful fw) r = Some (content q)" and "port_ok sPort" and "port_ok dPort" and "AddrFromSlice ip \<noteq> NoAddr"
  shows "acl_ok fw' (AList.update (rule_ID_of r) [q] pairs) \<and> stateful fw' = stateful fw \<and>
    pr_id ` installed_rules fw' \<subseteq> insert uuid (pr_id ` installed_rules fw)"
proof -
  have q: "q = new_peer_rule uuid ident ip proto sPort dPort action" "stateful fw' = stateful fw"
    using AddPeerFiltering_new [OF assms(9), of uuid fw ident proto sPort dPort action] assms(5) by auto
  have p: "peer_rules_ok fw" using assms(1) by (simp add: acl_ok_def)
  have "peer_rules_ok fw'" using AddPeerFiltering_ok [OF p assms(7,8), of uuid ident ip proto action] assms(5) by simp
  moreover have "installed_rules fw' = insert q (installed_rules fw)"
    using peer_rules_add [OF p assms(4), of ident ip proto sPort dPort action] assms(5,9) q(1) by (simp add: peer_spec_def)
  moreover have "pr_id q = uuid" using q(1) by simp
  moreover have "rule_ID_of r \<notin> fst ` set pairs" using assms(3) by (simp add: map_of_eq_None_iff)
  ultimately show ?thesis
    using assms(1,2,4,6) q(2) unfolding acl_ok_def update_new [OF assms(3)] by (auto simp: pair_rules_def)
qed

lemma acl_step:
  assumes ok: "acl_ok fw pairs" and good: "good_rule r" and fresh: "uuid \<notin> pr_id ` installed_rules fw"
  shows "(enforced (stateful fw) r = None \<and> (\<exists>i. protoRuleToFirewallRule uuid fw pairs r = (fw, Inr (i, [])))) \<or>
    (\<exists>fw' q. enforced (stateful fw) r = Some (content q) \<and> protoRuleToFirewallRule uuid fw pairs r = (fw', Inr (rule_ID_of r, [q])) \<and>
       stateful fw' = stateful fw \<and> acl_ok fw' (AList.update (rule_ID_of r) [q] pairs) \<and>
       pr_id ` installed_rules fw' \<subseteq> insert uuid (pr_id ` installed_rules fw) \<and> set pairs \<subseteq> set (AList.update (rule_ID_of r) [q] pairs))"
proof -
  obtain w p a port where r: "rule_parts r = Inr (IP16 (mapped w), p, a, port)" "p \<in> protocols" "port_form port"
    by (rule good_rule_parts [OF good])
  let ?ip = "IP16 (mapped w)"
  have i: "getPeerRuleID ?ip p (pf_Direction r) port a = rule_ID_of r" by (simp add: rule_ID_of_def r)
  have ip: "AddrFromSlice ?ip \<noteq> NoAddr" by (simp add: AddrFromSlice_def)
  have pk: "port_ok port" "port_ok None" using port_form_ok [OF r(3)] by (simp_all add: port_ok_def)
  have dir: "pf_Direction r = 0 \<or> pf_Direction r = 1" using good by (simp add: good_rule_def)
  show ?thesis
  proof (cases "map_of pairs (rule_ID_of r)")
    case (Some rs)
    then have "(rule_ID_of r, rs) \<in> set pairs" by (rule map_of_SomeD)
    then obtain q r' where q: "rs = [q]" "good_rule r'" "rule_ID_of r' = rule_ID_of r" "enforced (stateful fw) r' = Some (content q)"
      using ok unfolding acl_ok_def by blast
    have "enforced (stateful fw) r = Some (content q)" using rule_ID_enforced [OF q(2) good q(3)] q(4) by simp
    moreover have "protoRuleToFirewallRule uuid fw pairs r = (fw, Inr (rule_ID_of r, [q]))"
      using Some by (simp add: protoRuleToFirewallRule_def r i Let_def q(1))
    ultimately show ?thesis using ok update_same [OF Some [unfolded q(1)]] by auto
  next
    case None
    have new: "set pairs \<subseteq> set (AList.update (rule_ID_of r) v pairs)" for v by (auto simp: update_new [OF None])
    show ?thesis
    proof (cases "pf_Direction r = 0")
      case True
      let ?q = "new_peer_rule uuid (pf_PolicyID r) ?ip p None port a"
      obtain fw' where add: "AddPeerFiltering uuid fw (pf_PolicyID r) ?ip p None port a = (fw', Inr [?q])"
        using AddPeerFiltering_new [OF ip, of uuid fw "pf_PolicyID r" p None port a] by blast
      have e: "enforced (stateful fw) r = Some (content ?q)" by (simp add: enforced_def r True)
      have "protoRuleToFirewallRule uuid fw pairs r = (fw', Inr (rule_ID_of r, [?q]))"
        by (simp add: protoRuleToFirewallRule_def r i [unfolded True] Let_def None True addInRules_def add)
      then show ?thesis using acl_ok_add [OF ok good None fresh add e pk(2) pk(1) ip] e new by blast
    next
      case False
      then have out: "pf_Direction r = 1" using dir by simp
      show ?thesis
      proof (cases "stateful fw \<or> shouldSkipInvertedRule p port")
        case True
        then show ?thesis
          by (auto simp: enforced_def protoRuleToFirewallRule_def r i [unfolded out] Let_def None out addOutRules_def)
      next
        case False
        let ?q = "new_peer_rule uuid (pf_PolicyID r) ?ip p port None a"
        obtain fw' where add: "AddPeerFiltering uuid fw (pf_PolicyID r) ?ip p port None a = (fw', Inr [?q])"
          using AddPeerFiltering_new [OF ip, of uuid fw "pf_PolicyID r" p port None a] by blast
        have e: "enforced (stateful fw) r = Some (content ?q)" using False by (simp add: enforced_def r out)
        have "protoRuleToFirewallRule uuid fw pairs r = (fw', Inr (rule_ID_of r, [?q]))"
          using False by (simp add: protoRuleToFirewallRule_def r i [unfolded out] Let_def None out addOutRules_def add)
        then show ?thesis using acl_ok_add [OF ok good None fresh add e pk ip] e new by blast
      qed
    qed
  qed
qed

lemma name_ipset_sel [simp]:
  "l_fw (name_ipset s r) = l_fw s" "l_pairs (name_ipset s r) = l_pairs s" "l_new (name_ipset s r) = l_new s"
  by (simp_all add: name_ipset_def Let_def)

lemma eq_key_eq_value: "distinct (map fst xs) \<Longrightarrow> (k, v) \<in> set xs \<Longrightarrow> (k, w) \<in> set xs \<Longrightarrow> v = w"
  by (meson eq_key_imp_eq_value)

definition loop_ok :: "acl_loop \<Rightarrow> bool" where
  "loop_ok s \<longleftrightarrow> acl_ok (l_fw s) (l_pairs s) \<and> set (l_new s) \<subseteq> set (l_pairs s) \<and> distinct (map fst (l_new s))"

lemma loop_step:
  assumes "loop_ok s" and "acl_ok fw' (AList.update i [q] (l_pairs s))" and "set (l_pairs s) \<subseteq> set (AList.update i [q] (l_pairs s))"
  defines "s' \<equiv> s\<lparr>l_fw := fw', l_pairs := AList.update i [q] (l_pairs s), l_new := AList.update i [q] (l_new s)\<rparr>"
  shows "loop_ok s' \<and> set (pair_rules (l_new s')) = insert q (set (pair_rules (l_new s))) \<and>
    fst ` set (l_new s') = insert i (fst ` set (l_new s))"
proof -
  let ?P = "AList.update i [q] (l_pairs s)"
  have P: "distinct (map fst ?P)" using assms(2) by (simp add: acl_ok_def)
  have d: "distinct (map fst (l_pairs s))" using assms(1) by (simp add: loop_ok_def acl_ok_def)
  have iq: "(i, [q]) \<in> set ?P" using d by (simp add: set_alist_update)
  have sub: "set (l_new s) \<subseteq> set ?P" using assms(1,3) by (auto simp: loop_ok_def)
  show ?thesis
  proof (cases "map_of (l_new s) i")
    case (Some v)
    then have "(i, v) \<in> set ?P" using sub map_of_SomeD by fast
    then have v: "v = [q]" using eq_key_eq_value [OF P] iq by blast
    then have "q \<in> set (pair_rules (l_new s))" using map_of_SomeD [OF Some] by (force simp: pair_rules_def)
    moreover have "i \<in> fst ` set (l_new s)" using map_of_SomeD [OF Some] by force
    ultimately show ?thesis
      using assms(1,2) sub update_same [OF Some [unfolded v]] by (auto simp: s'_def loop_ok_def)
  next
    case None
    then have "i \<notin> fst ` set (l_new s)" by (simp add: map_of_eq_None_iff)
    then show ?thesis using assms(1,2) sub iq by (auto simp: s'_def loop_ok_def update_new [OF None] pair_rules_def)
  qed
qed

text \<open>One round of the loop with a well-formed rule.\<close>

lemma loop_one:
  assumes "loop_ok s" and "good_rule r" and "uuid \<notin> pr_id ` installed_rules (l_fw s)"
  obtains s' where "\<forall>us rs. apply_rules iter (uuid # us) (r # rs) s = apply_rules iter us rs s'"
    "loop_ok s'" "pr_id ` installed_rules (l_fw s') \<subseteq> insert uuid (pr_id ` installed_rules (l_fw s))"
    "stateful (l_fw s') = stateful (l_fw s)" "set (l_pairs s) \<subseteq> set (l_pairs s')"
    "content ` set (pair_rules (l_new s')) = content ` set (pair_rules (l_new s)) \<union> set_option (enforced (stateful (l_fw s)) r)"
    "fst ` set (l_new s') = fst ` set (l_new s) \<union> (if enforced (stateful (l_fw s)) r = None then {} else {rule_ID_of r})"
proof -
  define s1 where "s1 = name_ipset s r"
  have s1: "loop_ok s1" "l_fw s1 = l_fw s" "l_pairs s1 = l_pairs s" "l_new s1 = l_new s"
    using assms(1) by (simp_all add: s1_def loop_ok_def)
  have ok: "acl_ok (l_fw s1) (l_pairs s1)" using s1(1) by (simp add: loop_ok_def)
  have rw: "apply_rules iter (uuid # us) (r # rs) s =
      (case protoRuleToFirewallRule uuid (l_fw s1) (l_pairs s1) r of
        (fw, Inl e) \<Rightarrow> s1\<lparr>l_fw := rollBack iter fw (l_new s1)\<rparr>
      | (fw, Inr (pairID, rulePair)) \<Rightarrow>
          apply_rules iter us rs
            (if rulePair = [] then s1\<lparr>l_fw := fw\<rparr>
             else s1\<lparr>l_fw := fw, l_pairs := AList.update pairID rulePair (l_pairs s1),
                     l_new := AList.update pairID rulePair (l_new s1)\<rparr>))" for us rs
    by (simp only: s1_def Let_def apply_rules.simps)
  from acl_step [OF ok assms(2), of uuid] assms(3) s1(2)
  consider (skip) i where "enforced (stateful (l_fw s)) r = None"
      "protoRuleToFirewallRule uuid (l_fw s1) (l_pairs s1) r = (l_fw s1, Inr (i, []))"
    | (add) fw' q where "enforced (stateful (l_fw s)) r = Some (content q)"
      "protoRuleToFirewallRule uuid (l_fw s1) (l_pairs s1) r = (fw', Inr (rule_ID_of r, [q]))" "stateful fw' = stateful (l_fw s)"
      "acl_ok fw' (AList.update (rule_ID_of r) [q] (l_pairs s1))"
      "pr_id ` installed_rules fw' \<subseteq> insert uuid (pr_id ` installed_rules (l_fw s1))"
      "set (l_pairs s1) \<subseteq> set (AList.update (rule_ID_of r) [q] (l_pairs s1))"
    by auto
  then show thesis
  proof cases
    case skip
    have "apply_rules iter (uuid # us) (r # rs) s = apply_rules iter us rs s1" for us rs unfolding rw skip(2) by simp
    then have "\<forall>us rs. apply_rules iter (uuid # us) (r # rs) s = apply_rules iter us rs s1" by blast
    then show thesis using skip s1 by (intro that [of s1]) (assumption | auto)+
  next
    case add
    let ?s = "s1\<lparr>l_fw := fw', l_pairs := AList.update (rule_ID_of r) [q] (l_pairs s1), l_new := AList.update (rule_ID_of r) [q] (l_new s1)\<rparr>"
    have "apply_rules iter (uuid # us) (r # rs) s = apply_rules iter us rs ?s" for us rs unfolding rw add(2) by simp
    then have "\<forall>us rs. apply_rules iter (uuid # us) (r # rs) s = apply_rules iter us rs ?s" by blast
    then show thesis using add s1 loop_step [OF s1(1) add(4,6)] by (intro that [of ?s]) (assumption | auto)+
  qed
qed

lemma apply_rules_ok:
  assumes "loop_ok s" and "\<forall>r \<in> set rs. good_rule r" and "length rs \<le> length uuids" and "distinct uuids"
    and "set uuids \<inter> pr_id ` installed_rules (l_fw s) = {}"
  shows "loop_ok (apply_rules iter uuids rs s) \<and> set (l_pairs s) \<subseteq> set (l_pairs (apply_rules iter uuids rs s)) \<and>
    stateful (l_fw (apply_rules iter uuids rs s)) = stateful (l_fw s) \<and>
    content ` set (pair_rules (l_new (apply_rules iter uuids rs s))) =
      content ` set (pair_rules (l_new s)) \<union> {c. \<exists>r \<in> set rs. enforced (stateful (l_fw s)) r = Some c} \<and>
    fst ` set (l_new (apply_rules iter uuids rs s)) =
      fst ` set (l_new s) \<union> rule_ID_of ` {r \<in> set rs. enforced (stateful (l_fw s)) r \<noteq> None} \<and>
    (\<forall>us rest. length rs = length uuids \<longrightarrow> apply_rules iter (uuids @ us) (rs @ rest) s = apply_rules iter us rest (apply_rules iter uuids rs s))"
  using assms
proof (induction rs arbitrary: s uuids)
  case (Cons r rs)
  obtain uuid us where u: "uuids = uuid # us" using Cons.prems(3) by (cases uuids) simp_all
  have us: "distinct us" "length rs \<le> length us" "uuid \<notin> pr_id ` installed_rules (l_fw s)" "uuid \<notin> set us"
    "set us \<inter> pr_id ` installed_rules (l_fw s) = {}" and gr: "good_rule r" "\<forall>r \<in> set rs. good_rule r"
    using Cons.prems(2-5) u by auto
  obtain s' where s': "\<forall>us rs. apply_rules iter (uuid # us) (r # rs) s = apply_rules iter us rs s'"
      "loop_ok s'" "pr_id ` installed_rules (l_fw s') \<subseteq> insert uuid (pr_id ` installed_rules (l_fw s))"
      "stateful (l_fw s') = stateful (l_fw s)" "set (l_pairs s) \<subseteq> set (l_pairs s')"
      "content ` set (pair_rules (l_new s')) = content ` set (pair_rules (l_new s)) \<union> set_option (enforced (stateful (l_fw s)) r)"
      "fst ` set (l_new s') = fst ` set (l_new s) \<union> (if enforced (stateful (l_fw s)) r = None then {} else {rule_ID_of r})"
    by (rule loop_one [OF Cons.prems(1) gr(1) us(3), where iter = iter])
  have f: "set us \<inter> pr_id ` installed_rules (l_fw s') = {}" using s'(3) us(4,5) by auto
  have "{x \<in> set (r # rs). P x} = {x \<in> set rs. P x} \<union> (if P r then {r} else {})" for P by auto
  then show ?case using Cons.IH [OF s'(2) gr(2) us(2,1) f] s'(4-7)
    unfolding u append_Cons s'(1) [rule_format] by auto
qed simp

lemma apply_rules_ids:
  assumes "loop_ok s" and "\<forall>r \<in> set rs. good_rule r" and "length rs \<le> length uuids" and "distinct uuids"
    and "set uuids \<inter> pr_id ` installed_rules (l_fw s) = {}"
  shows "pr_id ` installed_rules (l_fw (apply_rules iter uuids rs s)) \<subseteq> set uuids \<union> pr_id ` installed_rules (l_fw s)"
  using assms
proof (induction rs arbitrary: s uuids)
  case (Cons r rs)
  obtain uuid us where u: "uuids = uuid # us" using Cons.prems(3) by (cases uuids) simp_all
  have us: "distinct us" "length rs \<le> length us" "uuid \<notin> pr_id ` installed_rules (l_fw s)" "uuid \<notin> set us"
    "set us \<inter> pr_id ` installed_rules (l_fw s) = {}" and gr: "good_rule r" "\<forall>r \<in> set rs. good_rule r"
    using Cons.prems(2-5) u by auto
  obtain s' where s': "\<forall>us rs. apply_rules iter (uuid # us) (r # rs) s = apply_rules iter us rs s'"
      "loop_ok s'" "pr_id ` installed_rules (l_fw s') \<subseteq> insert uuid (pr_id ` installed_rules (l_fw s))"
    by (rule loop_one [OF Cons.prems(1) gr(1) us(3), where iter = iter])
  have f: "set us \<inter> pr_id ` installed_rules (l_fw s') = {}" using s'(3) us(4,5) by auto
  show ?case using Cons.IH [OF s'(2) gr(2) us(2,1) f] s'(3) unfolding u s'(1) [rule_format] by auto
qed simp

lemma DeletePeerRule_frame:
  "stateful (fst (DeletePeerRule fw r)) = stateful fw"
  by (simp add: DeletePeerRule_def split: option.splits)

lemma delete_all_ok:
  assumes "peer_rules_ok fw" and "installed_rules fw \<subseteq> U" and "set rules \<subseteq> U" and "inj_on pr_id U"
  shows "peer_rules_ok (delete_all fw rules) \<and> installed_rules (delete_all fw rules) = installed_rules fw - set rules \<and>
    stateful (delete_all fw rules) = stateful fw"
  using assms
proof (induction rules arbitrary: fw)
  case (Cons r rules)
  let ?fw = "fst (DeletePeerRule fw r)"
  have "installed_rules ?fw = installed_rules fw - {r}"
    using peer_rules_del [OF Cons.prems(1), of r] Cons.prems(2-4) unfolding peer_spec_def inj_on_def by auto
  moreover have "peer_rules_ok ?fw" by (rule DeletePeerRule_ok [OF Cons.prems(1)])
  ultimately show ?case using Cons.IH [of ?fw] Cons.prems(2-4) DeletePeerRule_frame by (auto simp: delete_all_def)
qed (simp add: delete_all_def)

lemma pair_rules_simps [simp]: "pair_rules [] = []" "pair_rules (p # ps) = snd p @ pair_rules ps"
  by (simp_all add: pair_rules_def)

lemma pair_rules_filter_subset: "set (pair_rules (filter P ps)) \<subseteq> set (pair_rules ps)"
  by (induction ps) auto

lemma pair_rules_filter:
  "distinct (pair_rules ps) \<Longrightarrow> set (pair_rules ps) - set (pair_rules (filter P ps)) = set (pair_rules (filter (\<lambda>p. \<not> P p) ps))"
proof (induction ps)
  case (Cons p ps)
  have "set (snd p) \<inter> set (pair_rules ps) = {}" "distinct (pair_rules ps)" using Cons.prems by auto
  then show ?case using Cons.IH pair_rules_filter_subset [of P ps] pair_rules_filter_subset [of "\<lambda>p. \<not> P p" ps] by auto
qed simp

lemma pair_rules_mset: "mset xs = mset ys \<Longrightarrow> mset (pair_rules xs) = mset (pair_rules ys)"
  unfolding pair_rules_def mset_concat by (metis mset_map sum_mset_sum_list)

lemma distinct_map_perm: "mset xs = mset ys \<Longrightarrow> distinct (map f xs) = distinct (map f ys)"
  by (rule mset_eq_imp_distinct_iff) simp

lemma pair_rules_distinct_filter: "distinct (map f (pair_rules ps)) \<Longrightarrow> distinct (map f (pair_rules (filter P ps)))"
proof (induction ps)
  case (Cons p ps)
  then show ?case using pair_rules_filter_subset [of P ps] by auto
qed simp

text \<open>The entries of the new table are those of the old one that are not stale.\<close>

lemma new_pairs:
  assumes "loop_ok s"
  defines "kept \<equiv> filter (\<lambda>p. map_of (l_new s) (fst p) \<noteq> None) (l_pairs s)"
  shows "mset (pair_rules (l_new s)) = mset (pair_rules kept)"
proof -
  have d: "distinct (map fst (l_pairs s))" "distinct (map fst (l_new s))" "set (l_new s) \<subseteq> set (l_pairs s)"
    using assms(1) by (simp_all add: loop_ok_def acl_ok_def)
  have "p \<in> set (l_new s)" if p: "p \<in> set (l_pairs s)" "map_of (l_new s) (fst p) \<noteq> None" for p
  proof -
    obtain v where "map_of (l_new s) (fst p) = Some v" using p(2) by blast
    then have "(fst p, v) \<in> set (l_new s)" by (rule map_of_SomeD)
    moreover from this have "v = snd p" using eq_key_eq_value [OF d(1), of "fst p" v "snd p"] d(3) p(1) by auto
    ultimately show ?thesis by simp
  qed
  moreover have "map_of (l_new s) (fst p) \<noteq> None" if "p \<in> set (l_new s)" for p
    using that by (simp add: map_of_eq_None_iff del: not_None_eq)
  ultimately have "set (l_new s) = set kept" using d(3) unfolding kept_def by auto
  moreover have "distinct (l_new s)" "distinct kept" using d(1,2) by (auto simp: kept_def distinct_map)
  ultimately have "mset (l_new s) = mset kept" by (simp add: set_eq_iff_mset_eq_distinct)
  then show ?thesis by (rule pair_rules_mset)
qed

lemma acl_ok_inj: "acl_ok fw pairs \<Longrightarrow> inj_on pr_id (installed_rules fw) \<and> distinct (pair_rules pairs)"
  unfolding acl_ok_def by (simp add: distinct_map)

lemma applyPeerACLs_ok:
  assumes ok: "acl_ok fw pairs" and "\<forall>r \<in> set (effective_rules nm). good_rule r" and "length (effective_rules nm) \<le> length uuids"
    and "distinct uuids" and "set uuids \<inter> pr_id ` installed_rules fw = {}" and "iteration iter"
    and res: "applyPeerACLs iter uuids fw counter pairs nm = (fw', counter', pairs')"
  shows "acl_ok fw' pairs' \<and> stateful fw' = stateful fw \<and>
    content ` installed_rules fw' = {c. \<exists>r \<in> set (effective_rules nm). enforced (stateful fw) r = Some c}"
proof -
  let ?s0 = "\<lparr>l_fw = fw, l_counter = counter, l_pairs = pairs, l_new = [], l_sets = []\<rparr>"
  define s where "s = apply_rules iter uuids (effective_rules nm) ?s0"
  define old where "old = filter (\<lambda>p. map_of (l_new s) (fst p) = None) (l_pairs s)"
  define stale where "stale = filter (\<lambda>(pairID, _). map_of (l_new s) pairID = None) (iter (l_pairs s))"
  have "loop_ok ?s0" using ok by (simp add: loop_ok_def)
  from apply_rules_ok [OF this assms(2-4)] assms(5)
  have s: "loop_ok s" "stateful (l_fw s) = stateful fw"
      "content ` set (pair_rules (l_new s)) = {c. \<exists>r \<in> set (effective_rules nm). enforced (stateful fw) r = Some c}"
    by (simp_all add: s_def)
  then have a: "acl_ok (l_fw s) (l_pairs s)" by (simp add: loop_ok_def)
  note inj = acl_ok_inj [OF a]
  have i: "installed_rules (l_fw s) = set (pair_rules (l_pairs s))" "peer_rules_ok (l_fw s)" using a by (simp_all add: acl_ok_def)
  have new: "mset (pair_rules (l_new s)) = mset (pair_rules (filter (\<lambda>p. map_of (l_new s) (fst p) \<noteq> None) (l_pairs s)))"
    by (rule new_pairs [OF s(1)])
  have "set stale = set old" using assms(6) by (auto simp: stale_def old_def)
  then have st: "set (pair_rules stale) = set (pair_rules old)" by (simp add: pair_rules_def)
  have "set (pair_rules old) \<subseteq> installed_rules (l_fw s)" unfolding i old_def by (rule pair_rules_filter_subset)
  then have d: "peer_rules_ok (delete_all (l_fw s) (pair_rules stale))"
      "installed_rules (delete_all (l_fw s) (pair_rules stale)) = installed_rules (l_fw s) - set (pair_rules old)"
      "stateful (delete_all (l_fw s) (pair_rules stale)) = stateful fw"
    using delete_all_ok [OF i(2) subset_refl _ inj [THEN conjunct1], of "pair_rules stale"] st s(2) by simp_all
  have f: "fw' = delete_all (l_fw s) (pair_rules stale)" "pairs' = l_new s"
    using res unfolding applyPeerACLs_def Let_def s_def [symmetric] stale_def [symmetric] pair_rules_def [symmetric] by simp_all
  have "installed_rules fw' = set (pair_rules (l_new s))"
    unfolding f(1) d(2) i(1) old_def using pair_rules_filter [OF inj [THEN conjunct2]] mset_eq_setD [OF new] by simp
  moreover have "distinct (map pr_id (pair_rules (l_pairs s)))" using a by (simp add: acl_ok_def)
  then have "distinct (map pr_id (pair_rules (l_new s)))"
    unfolding distinct_map_perm [OF new] by (rule pair_rules_distinct_filter)
  moreover have "distinct (map fst (l_new s))" "set (l_new s) \<subseteq> set (l_pairs s)" using s(1) by (simp_all add: loop_ok_def)
  moreover have "\<exists>q r. rs = [q] \<and> good_rule r \<and> rule_ID_of r = i \<and> enforced (stateful fw) r = Some (content q)"
    if "(i, rs) \<in> set (l_pairs s)" for i rs
    using a that s(2) unfolding acl_ok_def by simp
  ultimately show ?thesis using d(1,3) s(3) unfolding acl_ok_def f(2) by (simp add: f(1) subset_iff)
qed

text \<open>A packet is judged by what rules say, not by their identifiers and policies.\<close>

lemma applies_content [simp]: "applies src layer d (content q) = applies src layer d q"
  by (simp add: applies_def rule_applies_def content_def split: LayerType.split)

lemma content_sel [simp]: "pr_ip (content q) = pr_ip q" "pr_drop (content q) = pr_drop q"
  by (simp_all add: content_def)

lemma permitted_content:
  assumes "peer_rules_ok fw" and "content ` installed_rules fw = C"
  shows "permitted fw src layer d \<longleftrightarrow>
    \<not> (\<exists>c \<in> C. pr_drop c \<and> pr_ip c = src \<and> applies src layer d c) \<and>
    (\<exists>c \<in> C. \<not> pr_drop c \<and> pr_ip c \<in> {src, Addr4 0, Addr6 0 []} \<and> applies src layer d c)"
  unfolding permitted_peer_rules [OF assms(1)] assms(2) [symmetric] by simp

section \<open>Route rules leave the peer rules alone\<close>

definition same_peers :: "Manager \<Rightarrow> Manager \<Rightarrow> bool" where
  "same_peers fw fw' \<longleftrightarrow> incomingDenyRules fw' = incomingDenyRules fw \<and> incomingRules fw' = incomingRules fw \<and> stateful fw' = stateful fw"

lemma same_peers_trans: "same_peers a b \<Longrightarrow> same_peers b c \<Longrightarrow> same_peers a c"
  by (simp add: same_peers_def)

lemma same_peers_refl [simp]: "same_peers a a"
  by (simp add: same_peers_def)

lemma same_peers_route:
  "same_peers fw (fst (addRouteFiltering nf fw ident sources destination proto sPort dPort action))"
  "same_peers fw (fst (deleteRouteRule nf fw k))"
  by (simp_all add: same_peers_def addRouteFiltering_def deleteRouteRule_def Let_def)

lemma same_peers_acl: "same_peers fw fw' \<Longrightarrow> acl_ok fw' pairs = acl_ok fw pairs \<and> installed_rules fw' = installed_rules fw"
  by (simp add: same_peers_def acl_ok_def peer_rules_ok_def installed_rules_def)

text \<open>In the userspace mode the IDs of the new rules are added to those of the filter and those of the old rules removed.\<close>

definition userspace :: "Manager \<Rightarrow> bool" where
  "userspace fw \<longleftrightarrow> \<not> (nativeRouter fw \<and> nativeFirewall fw)"

lemma addRouteFiltering_userspace:
  assumes "userspace fw" and "addRouteFiltering nf fw ident sources destination proto sPort dPort action = (fw', res)"
  shows "userspace fw' \<and> (\<exists>i. res = Inr i \<and> routeRulesMap fw' = insert i (routeRulesMap fw))"
  using assms by (auto simp: addRouteFiltering_def userspace_def Let_def split: if_splits)

lemma deleteRouteRule_userspace:
  assumes "userspace fw" and "route_rules_ok fw"
  shows "userspace (fst (deleteRouteRule nf fw k)) \<and> routeRulesMap (fst (deleteRouteRule nf fw k)) = routeRulesMap fw - {k}"
  using assms by (auto simp: deleteRouteRule_def userspace_def route_rules_ok_def list_ex_iff)

lemma applyRouteACL_ok:
  assumes "applyRouteACL toUnicode nf fw r dyn = (fw', res)" and "route_rules_ok fw"
  shows "same_peers fw fw' \<and> route_rules_ok fw' \<and>
    (userspace fw \<longrightarrow> userspace fw' \<and> routeRulesMap fw' = routeRulesMap fw \<union> (case res of Inl _ \<Rightarrow> {} | Inr i \<Rightarrow> {i}))"
proof (cases "fw' = fw \<and> (\<exists>e. res = Inl e)")
  case False
  then obtain sources destination protocol action where add: "addRouteFiltering nf fw (prf_PolicyID r) sources destination protocol None
      (convertPortInfo (prf_PortInfo r)) action = (fw', case res of Inl e \<Rightarrow> Inl (case e of AddRule e \<Rightarrow> e | _ \<Rightarrow> NativeFailed) | Inr i \<Rightarrow> Inr i)"
    using assms(1) unfolding applyRouteACL_def by (auto split: if_splits sum.splits prod.splits) metis
  have pk: "port_ok None" "port_ok (convertPortInfo x)" for x
    by (simp_all add: port_ok_def convertPortInfo_def split: option.splits PortInfo.splits)
  have "route_rules_ok fw'" using addRouteFiltering_ok [OF assms(2) pk] add by (metis fst_conv)
  moreover have "same_peers fw fw'" using same_peers_route(1) add by (metis fst_conv)
  moreover have "userspace fw' \<and> routeRulesMap fw' = routeRulesMap fw \<union> (case res of Inl _ \<Rightarrow> {} | Inr i \<Rightarrow> {i})" if u: "userspace fw"
  proof -
    from addRouteFiltering_userspace [OF u add] obtain i where i: "userspace fw'" "routeRulesMap fw' = insert i (routeRulesMap fw)"
        "(case res of Inl e \<Rightarrow> Inl (case e of AddRule e \<Rightarrow> e | _ \<Rightarrow> NativeFailed) | Inr i \<Rightarrow> Inr i) = Inr i"
      by blast
    from i(3) have "res = Inr i" by (cases res) simp_all
    with i(1,2) show ?thesis by simp
  qed
  ultimately show ?thesis by blast
qed (use assms in auto)

lemma apply_routes_ok:
  assumes "apply_routes toUnicode nf dyn rs fw (ids, errs) = (fw', ids', errs')" and "route_rules_ok fw"
  shows "same_peers fw fw' \<and> route_rules_ok fw' \<and>
    (userspace fw \<longrightarrow> userspace fw' \<and> (\<exists>new. set ids' = set ids \<union> new \<and> routeRulesMap fw' = routeRulesMap fw \<union> new))"
  using assms
proof (induction rs arbitrary: fw ids errs)
  case (Cons r rs)
  obtain fw1 res where r: "applyRouteACL toUnicode nf fw r dyn = (fw1, res)" by fastforce
  note ok = applyRouteACL_ok [OF r Cons.prems(2)]
  show ?case
  proof (cases res)
    case (Inl e)
    then have "apply_routes toUnicode nf dyn rs fw1 (ids, if e = ErrSourceRangesEmpty then errs else errs @ [e]) = (fw', ids', errs')"
      using Cons.prems(1) by (simp add: r)
    from Cons.IH [OF this] ok have ih: "same_peers fw1 fw' \<and> route_rules_ok fw' \<and>
        (userspace fw1 \<longrightarrow> userspace fw' \<and> (\<exists>new. set ids' = set ids \<union> new \<and> routeRulesMap fw' = routeRulesMap fw1 \<union> new))"
      by blast
    then show ?thesis using ok same_peers_trans [of fw fw1 fw'] unfolding Inl by (simp, intro impI, simp)
  next
    case (Inr i)
    then have "apply_routes toUnicode nf dyn rs fw1 (List.insert i ids, errs) = (fw', ids', errs')"
      using Cons.prems(1) by (simp add: r)
    from Cons.IH [OF this] ok have ih: "same_peers fw1 fw'" "route_rules_ok fw'"
        "userspace fw1 \<Longrightarrow> userspace fw' \<and> (\<exists>new. set ids' = set (List.insert i ids) \<union> new \<and> routeRulesMap fw' = routeRulesMap fw1 \<union> new)"
      by blast+
    have "userspace fw' \<and> (\<exists>new. set ids' = set ids \<union> new \<and> routeRulesMap fw' = routeRulesMap fw \<union> new)" if u: "userspace fw"
    proof -
      have f: "userspace fw1" "routeRulesMap fw1 = routeRulesMap fw \<union> {i}" using ok u Inr by simp_all
      from ih(3) [OF f(1)] obtain new where "userspace fw'" "set ids' = set (List.insert i ids) \<union> new" "routeRulesMap fw' = routeRulesMap fw1 \<union> new"
        by blast
      then show ?thesis using f(2) by (intro conjI exI [of _ "insert i new"]) simp_all
    qed
    then show ?thesis using ih ok same_peers_trans [of fw fw1 fw'] by blast
  qed
qed auto

lemma delete_routes_ok:
  assumes "route_rules_ok fw"
    and "foldl (\<lambda>(fw, errs) i. case deleteRouteRule nf fw i of (fw', None) \<Rightarrow> (fw', errs) | (fw', Some e) \<Rightarrow> (fw', errs @ [AddRule e]))
      (fw, errs) is = (fw', errs')"
  shows "same_peers fw fw' \<and> route_rules_ok fw' \<and> (userspace fw \<longrightarrow> routeRulesMap fw' = routeRulesMap fw - set is)"
  using assms
proof (induction "is" arbitrary: fw errs)
  case (Cons i "is")
  let ?fw = "fst (deleteRouteRule nf fw i)"
  have ok: "route_rules_ok ?fw" "same_peers fw ?fw" using deleteRouteRule_ok [OF Cons.prems(1)] same_peers_route(2) by blast+
  obtain es where "foldl (\<lambda>(fw, errs) i. case deleteRouteRule nf fw i of (fw', None) \<Rightarrow> (fw', errs) | (fw', Some e) \<Rightarrow> (fw', errs @ [AddRule e]))
      (?fw, es) is = (fw', errs')"
    using Cons.prems(2) by (cases "deleteRouteRule nf fw i"; cases "snd (deleteRouteRule nf fw i)") auto
  from Cons.IH [OF ok(1) this] show ?case
    using deleteRouteRule_userspace [OF _ Cons.prems(1), of nf i] ok(2) same_peers_trans [of fw ?fw fw'] by auto
qed simp

lemma applyRouteACLs_ok:
  assumes "route_rules_ok fw" and "applyRouteACLs toUnicode nf iter fw old rules dyn = (fw', new, errs)" and "iteration iter"
  shows "same_peers fw fw' \<and> route_rules_ok fw' \<and>
    (userspace fw \<longrightarrow> routeRulesMap fw' = (routeRulesMap fw - set old) \<union> set new)"
proof -
  obtain fw1 ids es where a: "apply_routes toUnicode nf dyn rules fw ([], []) = (fw1, ids, es)" by (metis prod.exhaust)
  note ok = apply_routes_ok [OF a assms(1)]
  obtain fw2 es2 where f: "foldl (\<lambda>(fw, errs) i. case deleteRouteRule nf fw i of (fw', None) \<Rightarrow> (fw', errs) | (fw', Some e) \<Rightarrow> (fw', errs @ [AddRule e]))
      (fw1, es) (filter (\<lambda>i. i \<notin> set ids) (iter old)) = (fw2, es2)" by fastforce
  have r: "fw2 = fw'" "ids = new" using assms(2) f by (simp_all add: applyRouteACLs_def a)
  have "same_peers fw1 fw2 \<and> route_rules_ok fw2 \<and> (userspace fw1 \<longrightarrow> routeRulesMap fw2 = routeRulesMap fw1 - set (filter (\<lambda>i. i \<notin> set ids) (iter old)))"
    by (rule delete_routes_ok [OF _ f]) (use ok in blast)
  moreover have "routeRulesMap fw1 = routeRulesMap fw \<union> set ids \<and> userspace fw1" if "userspace fw" using ok that by auto
  ultimately show ?thesis using ok same_peers_trans [of fw fw1 fw2] assms(3) unfolding r by auto
qed

section \<open>What the filter does after an update\<close>

definition manager_ok :: "DefaultManager \<Rightarrow> bool" where
  "manager_ok d \<longleftrightarrow> (case firewall d of None \<Rightarrow> False | Some fw \<Rightarrow> acl_ok fw (peerRulesPairs d) \<and> route_rules_ok fw)"

definition fresh_ids :: "DefaultManager \<Rightarrow> string list \<Rightarrow> nat \<Rightarrow> bool" where
  "fresh_ids d uuids n \<longleftrightarrow> distinct uuids \<and> n \<le> length uuids \<and>
     (case firewall d of None \<Rightarrow> True | Some fw \<Rightarrow> set uuids \<inter> pr_id ` installed_rules fw = {})"

lemma delete_all_routes: "routeRules (delete_all fw rs) = routeRules fw \<and> routeRulesMap (delete_all fw rs) = routeRulesMap fw"
  by (induction rs arbitrary: fw) (simp_all add: delete_all_def peer_ops_routes)

lemma protoRule_routes:
  assumes "protoRuleToFirewallRule uuid fw pairs r = (fw', res)"
  shows "routeRules fw' = routeRules fw \<and> routeRulesMap fw' = routeRulesMap fw"
proof -
  have "AddPeerFiltering uuid fw ident ip proto sPort dPort action = (x, y) \<Longrightarrow> routeRules x = routeRules fw \<and> routeRulesMap x = routeRulesMap fw"
    for ident ip proto sPort dPort action x y
    using peer_ops_routes(1,2) by (metis fst_conv)
  then show ?thesis using assms
    by (auto simp: protoRuleToFirewallRule_def addInRules_def addOutRules_def Let_def split: sum.splits option.splits if_splits prod.splits)
qed

lemma apply_rules_routes:
  "routeRules (l_fw (apply_rules iter uuids rs s)) = routeRules (l_fw s) \<and> routeRulesMap (l_fw (apply_rules iter uuids rs s)) = routeRulesMap (l_fw s)"
proof (induction iter uuids rs s rule: apply_rules.induct)
  case (1 iter uuid uuids r rs s)
  obtain fw res where p: "protoRuleToFirewallRule uuid (l_fw s) (l_pairs s) r = (fw, res)" by fastforce
  show ?case using 1 protoRule_routes [OF p] delete_all_routes
    by (cases res) (auto simp: Let_def p rollBack_def split: prod.splits)
qed simp_all

lemma applyPeerACLs_routes:
  assumes "applyPeerACLs iter uuids fw counter pairs nm = (fw', counter', pairs')" and "route_rules_ok fw"
  shows "route_rules_ok fw'"
proof -
  have "routeRules fw' = routeRules fw \<and> routeRulesMap fw' = routeRulesMap fw"
    using assms(1) delete_all_routes apply_rules_routes by (auto simp: applyPeerACLs_def Let_def)
  then show ?thesis using assms(2) by (simp add: route_rules_ok_def)
qed

lemma ApplyFiltering_ok:
  assumes "manager_ok d" and "firewall d = Some fw" and "\<forall>r \<in> set (effective_rules nm). good_rule r"
    and "fresh_ids d uuids (length (effective_rules nm))" and "iteration iter" and "iteration iter2"
  shows "\<exists>fw'. firewall (ApplyFiltering toUnicode nf iter iter2 uuids d nm flag) = Some fw' \<and>
    manager_ok (ApplyFiltering toUnicode nf iter iter2 uuids d nm flag) \<and> stateful fw' = stateful fw \<and>
    content ` installed_rules fw' = {c. \<exists>r \<in> set (effective_rules nm). enforced (stateful fw) r = Some c}"
proof -
  obtain fw1 counter pairs where p: "applyPeerACLs iter uuids fw (ipsetCounter d) (peerRulesPairs d) nm = (fw1, counter, pairs)"
    by (metis prod.exhaust)
  obtain fw2 routes errs where r: "applyRouteACLs toUnicode nf iter2 fw1 (acl_routeRules d) (pm_RoutesFirewallRules nm) flag = (fw2, routes, errs)"
    by (metis prod.exhaust)
  have d: "acl_ok fw (peerRulesPairs d)" "route_rules_ok fw" using assms(1,2) by (simp_all add: manager_ok_def)
  have u: "length (effective_rules nm) \<le> length uuids" "distinct uuids" "set uuids \<inter> pr_id ` installed_rules fw = {}"
    using assms(2,4) by (simp_all add: fresh_ids_def)
  have ok: "acl_ok fw1 pairs \<and> stateful fw1 = stateful fw \<and>
      content ` installed_rules fw1 = {c. \<exists>r \<in> set (effective_rules nm). enforced (stateful fw) r = Some c}"
    by (rule applyPeerACLs_ok [OF d(1) assms(3) u assms(5) p])
  have "route_rules_ok fw1" using applyPeerACLs_routes p d(2) by blast
  note routes = applyRouteACLs_ok [OF this r assms(6)]
  have s: "same_peers fw1 fw2" using routes by blast
  have "ApplyFiltering toUnicode nf iter iter2 uuids d nm flag =
      d\<lparr>firewall := Some fw2, ipsetCounter := counter, peerRulesPairs := pairs, acl_routeRules := routes\<rparr>"
    by (simp add: ApplyFiltering_def assms(2) p r)
  then show ?thesis using ok routes same_peers_acl [OF s] s by (simp add: manager_ok_def same_peers_def)
qed

definition port_covers :: "Port option \<Rightarrow> 16 word \<Rightarrow> bool" where
  "port_covers port x =
     (case port of None \<Rightarrow> True | Some p \<Rightarrow> if IsRange p then Values p ! 0 \<le> x \<and> x \<le> Values p ! 1 else x \<in> set (Values p))"

text \<open>Whether a packet of a transport protocol to a port is what a rule of the map is about.\<close>

definition rule_covers :: "proto_FirewallRule \<Rightarrow> LayerType \<Rightarrow> decoder \<Rightarrow> bool" where
  "rule_covers r layer d =
     (case rule_parts r of
        Inl _ \<Rightarrow> False
      | Inr (_, protocol, _, port) \<Rightarrow>
          protocol = ProtocolALL \<or>
          protocol = ProtocolTCP \<and> layer = LayerTypeTCP \<and> port_covers port (tcp_DstPort d) \<or>
          protocol = ProtocolUDP \<and> layer = LayerTypeUDP \<and> port_covers port (udp_DstPort d) \<or>
          protocol = ProtocolICMP \<and> layer = LayerTypeICMPv4)"

lemma portsMatch_covers: "port_form p \<Longrightarrow> portsMatch p x = Some (port_covers p x)"
  by (auto simp: port_form_def portsMatch_def port_covers_def split: option.splits)

lemma unmap_mapped: "addr_Unmap (AddrFromSlice (IP16 (mapped w))) = Addr4 w"
  by (simp add: AddrFromSlice_def addr_Unmap_def)

lemma IP_String_wild: "IP_String w \<notin> {''0.0.0.0'', ''::''} \<longleftrightarrow> w \<noteq> 0"
proof -
  have "IP_String w \<noteq> ''::''" using IP_String_chars [of w] by (auto simp: is_digit_def)
  moreover have "IP_String 0 = ''0.0.0.0''" by code_simp
  ultimately show ?thesis by (metis IP_String_inject insert_iff singletonD)
qed

lemma rule_parts_action: "rule_parts r = Inr (ip, protocol, action, port) \<Longrightarrow> action = ActionDrop \<longleftrightarrow> pf_Action r = 1"
  by (auto simp: rule_parts_def convertFirewallAction_def split: IP.splits sum.splits if_splits option.splits)

lemma enforced_IN:
  assumes "good_rule r" and "pf_Direction r = 0" and "pf_PeerIP r = IP_String w"
  shows "\<exists>c. enforced st r = Some c \<and> pr_ip c = Addr4 w \<and> (pr_drop c \<longleftrightarrow> pf_Action r = 1) \<and>
    (\<forall>s layer d. applies (Addr4 s) layer d c \<longleftrightarrow> (w = 0 \<or> w = s) \<and> rule_covers r layer d)"
proof -
  obtain v p a port where r: "rule_parts r = Inr (IP16 (mapped v), p, a, port)" "pf_PeerIP r = IP_String v" "p \<in> protocols" "port_form port"
    by (rule good_rule_parts [OF assms(1)])
  have v: "v = w" using r(2) assms(3) by simp
  let ?c = "new_peer_rule [] [] (IP16 (mapped w)) p None port a"
  have c: "pr_ip ?c = Addr4 w" "pr_matchByIP ?c \<longleftrightarrow> w \<noteq> 0" "pr_protoLayer ?c = protoToLayer p LayerTypeIPv4"
    using IP_String_wild [of w] by (simp_all add: new_peer_rule_def unmap_mapped Let_def Is4_def Addr_String_def)
  have none: "portsMatch None x = Some True" for x by (simp add: portsMatch_def)
  have m: "ports_match2 None x port y = Some (port_covers port y)" for x y
    by (simp add: ports_match2_def none portsMatch_covers [OF r(4)])
  have "applies (Addr4 s) layer d ?c \<longleftrightarrow> (w = 0 \<or> w = s) \<and> rule_covers r layer d" for s layer d
  proof -
    consider "p = ProtocolTCP" | "p = ProtocolUDP" | "p = ProtocolICMP" | "p = ProtocolALL" using r(3) by blast
    then show ?thesis
      unfolding applies_def rule_applies_def c rule_covers_def r(1) new_peer_rule_sel m
      by cases (simp_all add: protoToLayer_def eq_commute [of s w] split: LayerType.split)
  qed
  then show ?thesis using assms(2) rule_parts_action [OF r(1)] c by (auto simp: enforced_def r(1) v)
qed

lemma enforced_OUT: "pf_Direction r = 1 \<Longrightarrow> enforced True r = None"
  by (auto simp: enforced_def split: sum.splits)

lemma good_rule_action: "good_rule r \<Longrightarrow> (pf_Action r = 1) = False \<longleftrightarrow> pf_Action r = 0"
  by (auto simp: good_rule_def rule_parts_def convertFirewallAction_def split: IP.splits sum.splits if_splits option.splits)

lemma enforced_matches:
  assumes g: "good_rule r"
  shows "(\<exists>c. enforced True r = Some c \<and> pr_drop c = x \<and> pr_ip c \<in> Addr4 ` W \<and> applies (Addr4 s) layer pkt c) \<longleftrightarrow>
      pf_Direction r = 0 \<and> (pf_Action r = 1) = x \<and> (\<exists>w \<in> W. pf_PeerIP r = IP_String w \<and> (w = 0 \<or> w = s)) \<and> rule_covers r layer pkt"
    and "enforced True r = Some c \<Longrightarrow> pr_ip c \<noteq> Addr6 0 []"
proof -
  obtain w where w: "pf_PeerIP r = IP_String w" using g by (auto simp: good_rule_def)
  have "pf_Direction r = 0 \<or> pf_Direction r = 1" using g by (simp add: good_rule_def)
  then show "(\<exists>c. enforced True r = Some c \<and> pr_drop c = x \<and> pr_ip c \<in> Addr4 ` W \<and> applies (Addr4 s) layer pkt c) \<longleftrightarrow>
      pf_Direction r = 0 \<and> (pf_Action r = 1) = x \<and> (\<exists>w \<in> W. pf_PeerIP r = IP_String w \<and> (w = 0 \<or> w = s)) \<and> rule_covers r layer pkt"
    and "enforced True r = Some c \<Longrightarrow> pr_ip c \<noteq> Addr6 0 []"
    using enforced_IN [OF g _ w, of True] w by (auto simp: enforced_OUT)
qed

lemma permitted_effective:
  assumes "peer_rules_ok fw" and "content ` installed_rules fw = {c. \<exists>r \<in> R. enforced True r = Some c}" and good: "\<forall>r \<in> R. good_rule r"
  shows "permitted fw (Addr4 s) layer pkt \<longleftrightarrow>
    \<not> (\<exists>r \<in> R. pf_Direction r = 0 \<and> pf_Action r = 1 \<and> pf_PeerIP r = IP_String s \<and> rule_covers r layer pkt) \<and>
    (\<exists>r \<in> R. pf_Direction r = 0 \<and> pf_Action r = 0 \<and> pf_PeerIP r \<in> {IP_String s, IP_String 0} \<and> rule_covers r layer pkt)"
  unfolding permitted_content [OF assms(1,2)]
proof (intro arg_cong2 [where f = "\<lambda>x y. \<not> x \<and> y"])
  have L: "(\<exists>c \<in> {c. \<exists>r \<in> R. enforced True r = Some c}. Q c) = (\<exists>r \<in> R. \<exists>c. enforced True r = Some c \<and> Q c)" for Q
    by blast
  show "(\<exists>c \<in> {c. \<exists>r \<in> R. enforced True r = Some c}. pr_drop c \<and> pr_ip c = Addr4 s \<and> applies (Addr4 s) layer pkt c) \<longleftrightarrow>
      (\<exists>r \<in> R. pf_Direction r = 0 \<and> pf_Action r = 1 \<and> pf_PeerIP r = IP_String s \<and> rule_covers r layer pkt)"
    unfolding L by (rule bex_cong [OF refl]) (use good enforced_matches(1) [where W = "{s}" and x = True] in simp)
  show "(\<exists>c \<in> {c. \<exists>r \<in> R. enforced True r = Some c}. \<not> pr_drop c \<and> pr_ip c \<in> {Addr4 s, Addr4 0, Addr6 0 []} \<and> applies (Addr4 s) layer pkt c) \<longleftrightarrow>
      (\<exists>r \<in> R. pf_Direction r = 0 \<and> pf_Action r = 0 \<and> pf_PeerIP r \<in> {IP_String s, IP_String 0} \<and> rule_covers r layer pkt)"
    unfolding L
  proof (rule bex_cong [OF refl])
    fix r assume "r \<in> R"
    then have r: "good_rule r" using good by blast
    have "(\<exists>c. enforced True r = Some c \<and> \<not> pr_drop c \<and> pr_ip c \<in> {Addr4 s, Addr4 0, Addr6 0 []} \<and> applies (Addr4 s) layer pkt c) =
        (\<exists>c. enforced True r = Some c \<and> pr_drop c = False \<and> pr_ip c \<in> Addr4 ` {s, 0} \<and> applies (Addr4 s) layer pkt c)"
      using enforced_matches(2) [OF r] by blast
    then show "(\<exists>c. enforced True r = Some c \<and> \<not> pr_drop c \<and> pr_ip c \<in> {Addr4 s, Addr4 0, Addr6 0 []} \<and> applies (Addr4 s) layer pkt c) \<longleftrightarrow>
        pf_Direction r = 0 \<and> pf_Action r = 0 \<and> pf_PeerIP r \<in> {IP_String s, IP_String 0} \<and> rule_covers r layer pkt"
      unfolding enforced_matches(1) [OF r] good_rule_action [OF r] by auto
  qed
qed

section \<open>The network map is enforced\<close>

text \<open>
  After a network map whose rules are well formed has been applied, from any state that earlier
  maps left, a stateful filter blocks a packet from an IPv4 address for this peer exactly when it is not an ICMP error
  and an inbound rule of the map drops it, or no inbound rule of the map for its source or for all sources accepts it;
  maps of servers that know no rules allow everything.
\<close>

lemma network_map_enforced:
  assumes "manager_ok d" and "firewall d = Some fw" and "stateful fw" and "\<forall>r \<in> set (effective_rules nm). good_rule r"
    and "fresh_ids d uuids (length (effective_rules nm))" and "iteration iter" and "iteration iter2" and "iteration iter3"
  shows "\<exists>fw' i. manager_ok (ApplyFiltering toUnicode nf iter iter2 uuids d nm flag) \<and>
    firewall (ApplyFiltering toUnicode nf iter iter2 uuids d nm flag) = Some fw' \<and> stateful fw' \<and>
    peerACLsBlock iter3 fw' (Addr4 s) layer pkt = Some (i, \<not> isSpecialICMP layer pkt \<and>
      ((\<exists>r \<in> set (effective_rules nm). pf_Direction r = 0 \<and> pf_Action r = 1 \<and> pf_PeerIP r = IP_String s \<and> rule_covers r layer pkt) \<or>
       \<not> (\<exists>r \<in> set (effective_rules nm). pf_Direction r = 0 \<and> pf_Action r = 0 \<and>
           pf_PeerIP r \<in> {IP_String s, IP_String 0} \<and> rule_covers r layer pkt)))"
proof -
  let ?d = "ApplyFiltering toUnicode nf iter iter2 uuids d nm flag" and ?R = "set (effective_rules nm)"
  obtain fw' where f: "firewall ?d = Some fw'" "manager_ok ?d" "stateful fw'"
      "content ` installed_rules fw' = {c. \<exists>r \<in> ?R. enforced True r = Some c}"
    using ApplyFiltering_ok [OF assms(1,2,4-7), of toUnicode nf flag] assms(3) by auto
  have p: "peer_rules_ok fw'" using f(1,2) by (simp add: manager_ok_def acl_ok_def)
  note perm = permitted_effective [OF p f(4) assms(4), of s layer pkt]
  show ?thesis using peerACLsBlock_permitted [OF p assms(8), of "Addr4 s" layer pkt] f unfolding perm
    by (simp only: de_Morgan_conj not_not) blast
qed

section \<open>After a rule that cannot be converted\<close>

lemma rollBack_installed:
  assumes "loop_ok t" and "iteration iter"
  shows "installed_rules (rollBack iter (l_fw t) (l_new t)) = installed_rules (l_fw t) - set (pair_rules (l_new t)) \<and>
    peer_rules_ok (rollBack iter (l_fw t) (l_new t)) \<and> stateful (rollBack iter (l_fw t) (l_new t)) = stateful (l_fw t)"
proof -
  have ok: "acl_ok (l_fw t) (l_pairs t)" "set (l_new t) \<subseteq> set (l_pairs t)" using assms(1) by (simp_all add: loop_ok_def)
  have i: "installed_rules (l_fw t) = set (pair_rules (l_pairs t))" "peer_rules_ok (l_fw t)" using ok(1) by (simp_all add: acl_ok_def)
  have s: "set (pair_rules (iter (l_new t))) = set (pair_rules (l_new t))" using assms(2) by (simp add: pair_rules_def)
  have "set (pair_rules (l_new t)) \<subseteq> installed_rules (l_fw t)" using ok(2) unfolding i pair_rules_def by auto
  then show ?thesis
    using delete_all_ok [OF i(2) subset_refl _ acl_ok_inj [OF ok(1), THEN conjunct1], of "pair_rules (iter (l_new t))"] s
    unfolding rollBack_def pair_rules_def [symmetric] by simp
qed

text \<open>
  The filter is empty, though the table of the manager keeps the rules before the bad one.
\<close>

lemma failed_map:
  assumes ok: "acl_ok fw pairs" and "effective_rules nm = rs @ bad # rest" and "\<forall>r \<in> set rs. good_rule r" and "rule_parts bad = Inl e"
    and "length rs < length uuids" and "distinct uuids" and "set uuids \<inter> pr_id ` installed_rules fw = {}" and "iteration iter"
    and res: "applyPeerACLs iter uuids fw counter pairs nm = (fw', counter', pairs')"
  shows "installed_rules fw' = {} \<and> peer_rules_ok fw' \<and> stateful fw' = stateful fw \<and>
    distinct (map fst pairs') \<and> inj_on pr_id (set (pair_rules pairs')) \<and>
    fst ` set pairs' = rule_ID_of ` {r \<in> set rs. enforced (stateful fw) r \<noteq> None} \<and>
    pr_id ` set (pair_rules pairs') \<subseteq> set uuids \<union> pr_id ` installed_rules fw"
proof -
  let ?s0 = "\<lparr>l_fw = fw, l_counter = counter, l_pairs = pairs, l_new = [], l_sets = []\<rparr>"
  define us where "us = take (length rs) uuids"
  obtain u us' where u: "uuids = us @ u # us'"
    using assms(5) unfolding us_def by (metis append_take_drop_id drop_eq_Nil linorder_not_le neq_Nil_conv)
  have len: "length rs = length us" using assms(5) by (simp add: us_def)
  define t where "t = apply_rules iter us rs ?s0"
  have l0: "loop_ok ?s0" using ok by (simp add: loop_ok_def)
  have us: "distinct us" "set us \<inter> pr_id ` installed_rules fw = {}" using assms(6,7) by (auto simp: u)
  have "pr_id ` installed_rules (l_fw t) \<subseteq> set us \<union> pr_id ` installed_rules fw"
    using apply_rules_ids [OF l0, of rs us iter] us assms(3) len unfolding t_def by simp
  with l0 us have t: "loop_ok t" "stateful (l_fw t) = stateful fw" "pr_id ` installed_rules (l_fw t) \<subseteq> set uuids \<union> pr_id ` installed_rules fw"
      "fst ` set (l_new t) = rule_ID_of ` {r \<in> set rs. enforced (stateful fw) r \<noteq> None}"
      "apply_rules iter uuids (effective_rules nm) ?s0 = apply_rules iter (u # us') (bad # rest) t"
    using apply_rules_ok [of ?s0 rs us iter] assms(3) len unfolding t_def assms(2) u by auto
  define s where "s = (name_ipset t bad)\<lparr>l_fw := rollBack iter (l_fw t) (l_new t)\<rparr>"
  have s: "apply_rules iter uuids (effective_rules nm) ?s0 = s"
    unfolding t(5) s_def by (simp add: protoRuleToFirewallRule_def assms(4))
  have sel: "l_new s = l_new t" "l_pairs s = l_pairs t" "l_fw s = rollBack iter (l_fw t) (l_new t)" by (simp_all add: s_def)
  note rb = rollBack_installed [OF t(1) assms(8)]
  define stale where "stale = filter (\<lambda>(pairID, _). map_of (l_new s) pairID = None) (iter (l_pairs s))"
  have a: "acl_ok (l_fw t) (l_pairs t)" using t(1) by (simp add: loop_ok_def)
  note inj = acl_ok_inj [OF a]
  have i: "installed_rules (l_fw t) = set (pair_rules (l_pairs t))" using a by (simp add: acl_ok_def)
  have "set stale = set (filter (\<lambda>p. map_of (l_new t) (fst p) = None) (l_pairs t))"
    using assms(8) by (auto simp: stale_def sel)
  then have st: "set (pair_rules stale) = set (pair_rules (filter (\<lambda>p. map_of (l_new t) (fst p) = None) (l_pairs t)))"
    by (simp add: pair_rules_def)
  then have "set (pair_rules stale) = set (pair_rules (l_pairs t)) - set (pair_rules (l_new t))"
    using pair_rules_filter [OF inj [THEN conjunct2], of "\<lambda>p. map_of (l_new t) (fst p) \<noteq> None"] mset_eq_setD [OF new_pairs [OF t(1)]] by simp
  moreover from this have "peer_rules_ok (delete_all (l_fw s) (pair_rules stale)) \<and>
      installed_rules (delete_all (l_fw s) (pair_rules stale)) = installed_rules (l_fw s) - set (pair_rules stale) \<and>
      stateful (delete_all (l_fw s) (pair_rules stale)) = stateful (l_fw s)"
    using rb inj unfolding sel(3) by (intro delete_all_ok [where U = "installed_rules (l_fw t)"]) (auto simp: i)
  moreover have "fw' = delete_all (l_fw s) (pair_rules stale) \<and> pairs' = l_new s"
    using res unfolding applyPeerACLs_def Let_def s stale_def [symmetric] pair_rules_def [symmetric] by simp
  moreover have "set (pair_rules (l_new t)) \<subseteq> set (pair_rules (l_pairs t))" "distinct (map fst (l_new t))"
    using t(1) by (auto simp: loop_ok_def pair_rules_def)
  ultimately show ?thesis using rb t(2-4) i inj by (auto simp: sel intro: inj_on_subset)
qed

text \<open>
  The table then has entries for rules that are not installed. The rules of a later map are looked up there first, so that those
  with the identifier of such a ghost are taken for installed, and the others are installed.
\<close>

definition ghosts_ok :: "rule_pairs \<Rightarrow> acl_loop \<Rightarrow> rule_pairs \<Rightarrow> bool" where
  "ghosts_ok gp s p \<longleftrightarrow>
     l_pairs s = gp @ p \<and> acl_ok (l_fw s) p \<and> fst ` set p \<inter> fst ` set gp = {} \<and> set p \<subseteq> set (l_new s) \<and> distinct (map fst (l_new s))"

lemma map_of_ghosts: "k \<notin> fst ` set gp \<Longrightarrow> map_of (gp @ p) k = map_of p k"
  by (simp add: map_of_append map_add_def map_of_eq_None_iff split: option.split) (metis map_of_eq_None_iff option.distinct(1))

lemma update_ghosts: "k \<notin> fst ` set gp \<Longrightarrow> AList.update k v (gp @ p) = gp @ AList.update k v p"
  by (induction gp) auto

lemma ghost_reused:
  assumes "ghosts_ok gp s p" and "good_rule r" and "rule_ID_of r \<in> fst ` set gp"
  obtains s' where "\<forall>us rs. apply_rules iter (uuid # us) (r # rs) s = apply_rules iter us rs s'" "ghosts_ok gp s' p" "l_fw s' = l_fw s"
proof -
  obtain w pr a port where r: "rule_parts r = Inr (IP16 (mapped w), pr, a, port)" by (rule good_rule_parts [OF assms(2)])
  let ?i = "rule_ID_of r"
  have i: "getPeerRuleID (IP16 (mapped w)) pr (pf_Direction r) port a = ?i" by (simp add: rule_ID_of_def r)
  have g: "l_pairs s = gp @ p" "acl_ok (l_fw s) p" "fst ` set p \<inter> fst ` set gp = {}" "set p \<subseteq> set (l_new s)" "distinct (map fst (l_new s))"
    using assms(1) by (simp_all add: ghosts_ok_def)
  obtain rp where m: "map_of (gp @ p) ?i = Some rp"
    using assms(3) by (metis map_of_eq_None_iff image_Un in_set_conv_decomp not_None_eq set_append UnI1)
  define s1 where "s1 = name_ipset s r"
  have s1: "l_fw s1 = l_fw s" "l_pairs s1 = gp @ p" "l_new s1 = l_new s" using g(1) by (simp_all add: s1_def)
  define s' where "s' = (if rp = [] then s1 else s1\<lparr>l_pairs := gp @ p, l_new := AList.update ?i rp (l_new s1)\<rparr>)"
  have "protoRuleToFirewallRule uuid (l_fw s1) (l_pairs s1) r = (l_fw s1, Inr (?i, rp))"
    using m by (simp add: protoRuleToFirewallRule_def r i Let_def s1)
  then have "apply_rules iter (uuid # us) (r # rs) s = apply_rules iter us rs s'" for us rs
    using update_same [OF m] by (simp add: s1_def [symmetric] s'_def Let_def s1(2))
  moreover have "?i \<notin> fst ` set p" using assms(3) g(3) by blast
  then have "set p \<subseteq> set (AList.update ?i rp (l_new s))"
    using g(4) unfolding set_alist_update [OF g(5)] by force
  then have "ghosts_ok gp s' p" using g distinct_update [OF g(5)] by (auto simp: ghosts_ok_def s'_def s1)
  ultimately show thesis using that [of s'] by (simp add: s'_def s1)
qed

lemma ghost_other:
  assumes "ghosts_ok gp s p" and "good_rule r" and "rule_ID_of r \<notin> fst ` set gp" and "uuid \<notin> pr_id ` installed_rules (l_fw s)"
  obtains s' p' where "\<forall>us rs. apply_rules iter (uuid # us) (r # rs) s = apply_rules iter us rs s'" "ghosts_ok gp s' p'"
    "stateful (l_fw s') = stateful (l_fw s)" "pr_id ` installed_rules (l_fw s') \<subseteq> insert uuid (pr_id ` installed_rules (l_fw s))"
    "content ` set (pair_rules p') = content ` set (pair_rules p) \<union> set_option (enforced (stateful (l_fw s)) r)"
proof -
  let ?i = "rule_ID_of r"
  have g: "l_pairs s = gp @ p" "acl_ok (l_fw s) p" "fst ` set p \<inter> fst ` set gp = {}" "set p \<subseteq> set (l_new s)" "distinct (map fst (l_new s))"
    using assms(1) by (simp_all add: ghosts_ok_def)
  have d: "distinct (map fst p)" using g(2) by (simp add: acl_ok_def)
  define s1 where "s1 = name_ipset s r"
  have s1: "l_fw s1 = l_fw s" "l_pairs s1 = gp @ p" "l_new s1 = l_new s" using g(1) by (simp_all add: s1_def)
  have same: "protoRuleToFirewallRule uuid (l_fw s1) (l_pairs s1) r = protoRuleToFirewallRule uuid (l_fw s) p r"
  proof -
    obtain w pr a port where r: "rule_parts r = Inr (IP16 (mapped w), pr, a, port)" by (rule good_rule_parts [OF assms(2)])
    have "getPeerRuleID (IP16 (mapped w)) pr (pf_Direction r) port a = ?i" by (simp add: rule_ID_of_def r)
    then show ?thesis using map_of_ghosts [OF assms(3), of p] by (simp add: protoRuleToFirewallRule_def r Let_def s1(1,2))
  qed
  have rw: "apply_rules iter (uuid # us) (r # rs) s =
      (case protoRuleToFirewallRule uuid (l_fw s) p r of
        (fw, Inl e) \<Rightarrow> s1\<lparr>l_fw := rollBack iter fw (l_new s1)\<rparr>
      | (fw, Inr (pairID, rulePair)) \<Rightarrow>
          apply_rules iter us rs
            (if rulePair = [] then s1\<lparr>l_fw := fw\<rparr>
             else s1\<lparr>l_fw := fw, l_pairs := AList.update pairID rulePair (l_pairs s1),
                     l_new := AList.update pairID rulePair (l_new s1)\<rparr>))" for us rs
    unfolding same [symmetric] by (simp only: s1_def Let_def apply_rules.simps)
  from acl_step [OF g(2) assms(2,4)]
  consider (skip) i where "enforced (stateful (l_fw s)) r = None" "protoRuleToFirewallRule uuid (l_fw s) p r = (l_fw s, Inr (i, []))"
    | (add) fw' q where "enforced (stateful (l_fw s)) r = Some (content q)"
      "protoRuleToFirewallRule uuid (l_fw s) p r = (fw', Inr (?i, [q]))" "stateful fw' = stateful (l_fw s)"
      "acl_ok fw' (AList.update ?i [q] p)"
      "pr_id ` installed_rules fw' \<subseteq> insert uuid (pr_id ` installed_rules (l_fw s))"
      "set p \<subseteq> set (AList.update ?i [q] p)"
    by auto
  then show thesis
  proof cases
    case skip
    have "apply_rules iter (uuid # us) (r # rs) s = apply_rules iter us rs (s1\<lparr>l_fw := l_fw s\<rparr>)" for us rs
      unfolding rw skip(2) by simp
    then have "\<forall>us rs. apply_rules iter (uuid # us) (r # rs) s = apply_rules iter us rs (s1\<lparr>l_fw := l_fw s\<rparr>)" by blast
    moreover have "ghosts_ok gp (s1\<lparr>l_fw := l_fw s\<rparr>) p" using g by (simp add: ghosts_ok_def s1)
    ultimately show thesis using skip(1) by (intro that [of "s1\<lparr>l_fw := l_fw s\<rparr>" p]) (assumption | auto)+
  next
    case add
    let ?p = "AList.update ?i [q] p"
    let ?s = "s1\<lparr>l_fw := fw', l_pairs := AList.update ?i [q] (l_pairs s1), l_new := AList.update ?i [q] (l_new s1)\<rparr>"
    have run: "\<forall>us rs. apply_rules iter (uuid # us) (r # rs) s = apply_rules iter us rs ?s" unfolding rw add(2) by simp
    have P: "set ?p = insert (?i, [q]) (set p)"
      using add(6) set_alist_update [OF d, of ?i "[q]"] by auto
    have dp: "distinct (map fst ?p)" using add(4) by (simp add: acl_ok_def)
    have "snd x = [q]" if "x \<in> set p" "fst x = ?i" for x
      using eq_key_eq_value [OF dp, of ?i "[q]" "snd x"] that P by (cases x) auto
    then have "set ?p \<subseteq> set (AList.update ?i [q] (l_new s))"
      unfolding P set_alist_update [OF g(5)] using g(4) by (auto simp: prod_eq_iff)
    then have gs: "ghosts_ok gp ?s ?p"
      using add(4) g(3) assms(3) distinct_update [OF g(5)] P update_ghosts [OF assms(3), of "[q]" p] by (auto simp: ghosts_ok_def s1)
    have "set (pair_rules ?p) = insert q (set (pair_rules p))" using P by (auto simp: pair_rules_def)
    then show thesis using add by (intro that [OF run gs]) auto
  qed
qed

lemma ghost_loop:
  assumes "ghosts_ok gp s p" and "\<forall>r \<in> set rs. good_rule r" and "length rs \<le> length uuids" and "distinct uuids"
    and "set uuids \<inter> pr_id ` installed_rules (l_fw s) = {}"
  shows "\<exists>p'. ghosts_ok gp (apply_rules iter uuids rs s) p' \<and> stateful (l_fw (apply_rules iter uuids rs s)) = stateful (l_fw s) \<and>
    pr_id ` installed_rules (l_fw (apply_rules iter uuids rs s)) \<subseteq> set uuids \<union> pr_id ` installed_rules (l_fw s) \<and>
    content ` set (pair_rules p') = content ` set (pair_rules p) \<union>
      {c. \<exists>r \<in> set rs. enforced (stateful (l_fw s)) r = Some c \<and> rule_ID_of r \<notin> fst ` set gp}"
  using assms
proof (induction rs arbitrary: s p uuids)
  case (Cons r rs)
  obtain uuid us where u: "uuids = uuid # us" using Cons.prems(3) by (cases uuids) simp_all
  have us: "distinct us" "length rs \<le> length us" "uuid \<notin> pr_id ` installed_rules (l_fw s)" "uuid \<notin> set us"
    "set us \<inter> pr_id ` installed_rules (l_fw s) = {}" and gr: "good_rule r" "\<forall>r \<in> set rs. good_rule r"
    using Cons.prems(2-5) u by auto
  obtain s' p' where s': "\<forall>us rs. apply_rules iter (uuid # us) (r # rs) s = apply_rules iter us rs s'" "ghosts_ok gp s' p'"
      "stateful (l_fw s') = stateful (l_fw s)" "pr_id ` installed_rules (l_fw s') \<subseteq> insert uuid (pr_id ` installed_rules (l_fw s))"
      "content ` set (pair_rules p') = content ` set (pair_rules p) \<union>
        (if rule_ID_of r \<in> fst ` set gp then {} else set_option (enforced (stateful (l_fw s)) r))"
  proof (cases "rule_ID_of r \<in> fst ` set gp")
    case True
    obtain s' where "\<forall>us rs. apply_rules iter (uuid # us) (r # rs) s = apply_rules iter us rs s'" "ghosts_ok gp s' p" "l_fw s' = l_fw s"
      by (rule ghost_reused [OF Cons.prems(1) gr(1) True, where iter = iter and uuid = uuid])
    with True show ?thesis by (intro that [of s' p]) (assumption | auto)+
  next
    case False
    obtain s' p' where "\<forall>us rs. apply_rules iter (uuid # us) (r # rs) s = apply_rules iter us rs s'" "ghosts_ok gp s' p'"
        "stateful (l_fw s') = stateful (l_fw s)" "pr_id ` installed_rules (l_fw s') \<subseteq> insert uuid (pr_id ` installed_rules (l_fw s))"
        "content ` set (pair_rules p') = content ` set (pair_rules p) \<union> set_option (enforced (stateful (l_fw s)) r)"
      by (rule ghost_other [OF Cons.prems(1) gr(1) False us(3), where iter = iter])
    with False show ?thesis by (intro that [of s' p']) (assumption | auto)+
  qed
  have f: "set us \<inter> pr_id ` installed_rules (l_fw s') = {}" using s'(4) us(4,5) by auto
  from Cons.IH [OF s'(2) gr(2) us(2,1) f] obtain p'' where h: "ghosts_ok gp (apply_rules iter us rs s') p''"
      "stateful (l_fw (apply_rules iter us rs s')) = stateful (l_fw s)"
      "pr_id ` installed_rules (l_fw (apply_rules iter us rs s')) \<subseteq> set us \<union> pr_id ` installed_rules (l_fw s')"
      "content ` set (pair_rules p'') = content ` set (pair_rules p') \<union>
        {c. \<exists>r \<in> set rs. enforced (stateful (l_fw s)) r = Some c \<and> rule_ID_of r \<notin> fst ` set gp}"
    unfolding s'(3) by blast
  have "pr_id ` installed_rules (l_fw (apply_rules iter us rs s')) \<subseteq> set uuids \<union> pr_id ` installed_rules (l_fw s)"
    using h(3) s'(4) unfolding u by auto
  moreover have "{c. \<exists>x \<in> set (r # rs). enforced (stateful (l_fw s)) x = Some c \<and> rule_ID_of x \<notin> fst ` set gp} =
      (if rule_ID_of r \<in> fst ` set gp then {} else set_option (enforced (stateful (l_fw s)) r)) \<union>
      {c. \<exists>x \<in> set rs. enforced (stateful (l_fw s)) x = Some c \<and> rule_ID_of x \<notin> fst ` set gp}"
    by (cases "enforced (stateful (l_fw s)) r") auto
  ultimately show ?case using h(1,2,4) s'(5) unfolding u s'(1) [rule_format] by (intro exI [of _ p'']) (simp only: Un_assoc)
qed auto

text \<open>What a map of good rules does to a manager all of whose entries are ghosts.\<close>

lemma ghost_map:
  assumes "installed_rules fw = {}" and "peer_rules_ok fw" and "inj_on pr_id (set (pair_rules gp))"
    and "\<forall>r \<in> set (effective_rules nm). good_rule r" and "length (effective_rules nm) \<le> length uuids" and "distinct uuids"
    and "set uuids \<inter> pr_id ` set (pair_rules gp) = {}" and "iteration iter"
    and res: "applyPeerACLs iter uuids fw counter gp nm = (fw', counter', pairs')"
  shows "peer_rules_ok fw' \<and>
    content ` installed_rules fw' = {c. \<exists>r \<in> set (effective_rules nm). enforced (stateful fw) r = Some c \<and> rule_ID_of r \<notin> fst ` set gp}"
proof -
  let ?s0 = "\<lparr>l_fw = fw, l_counter = counter, l_pairs = gp, l_new = [], l_sets = []\<rparr>"
  define s where "s = apply_rules iter uuids (effective_rules nm) ?s0"
  define stale where "stale = filter (\<lambda>(pairID, _). map_of (l_new s) pairID = None) (iter (l_pairs s))"
  have "ghosts_ok gp ?s0 []" using assms(1,2) by (simp add: ghosts_ok_def acl_ok_def)
  from ghost_loop [OF this assms(4-6), of iter] obtain p where p: "ghosts_ok gp s p" "pr_id ` installed_rules (l_fw s) \<subseteq> set uuids"
      "content ` set (pair_rules p) = {c. \<exists>r \<in> set (effective_rules nm). enforced (stateful fw) r = Some c \<and> rule_ID_of r \<notin> fst ` set gp}"
    using assms(1) unfolding s_def by auto
  have a: "acl_ok (l_fw s) p" "l_pairs s = gp @ p" "set p \<subseteq> set (l_new s)" using p(1) by (simp_all add: ghosts_ok_def)
  have i: "installed_rules (l_fw s) = set (pair_rules p)" "peer_rules_ok (l_fw s)" using a(1) by (simp_all add: acl_ok_def)
  have "map_of (l_new s) (fst x) \<noteq> None" if "x \<in> set p" for x
    using that a(3) unfolding map_of_eq_None_iff by force
  then have "set stale \<subseteq> set gp" using assms(8) a(2) by (fastforce simp: stale_def)
  then have st: "set (pair_rules stale) \<subseteq> set (pair_rules gp)" by (auto simp: pair_rules_def)
  have inj: "inj_on pr_id (installed_rules (l_fw s) \<union> set (pair_rules gp))"
    using acl_ok_inj [OF a(1)] assms(3,7) p(2) by (auto simp: inj_on_Un)
  have apart: "installed_rules (l_fw s) \<inter> set (pair_rules gp) = {}" using assms(7) p(2) by blast
  have "fw' = delete_all (l_fw s) (pair_rules stale)"
    using res unfolding applyPeerACLs_def Let_def s_def [symmetric] stale_def [symmetric] pair_rules_def [symmetric] by simp
  moreover have "peer_rules_ok (delete_all (l_fw s) (pair_rules stale)) \<and>
      installed_rules (delete_all (l_fw s) (pair_rules stale)) = installed_rules (l_fw s) - set (pair_rules stale)"
    using delete_all_ok [OF i(2) Un_upper1 _ inj, of "pair_rules stale"] st by auto
  moreover have "installed_rules (l_fw s) - set (pair_rules stale) = set (pair_rules p)" using apart st i(1) by auto
  ultimately show ?thesis using p(3) by simp
qed

lemma blocked_without_rules:
  assumes "peer_rules_ok fw" and "installed_rules fw = {}" and "\<not> isSpecialICMP layer pkt" and "iteration iter"
  shows "\<exists>i. peerACLsBlock iter fw src layer pkt = Some (i, True)"
  using peerACLsBlock_permitted [OF assms(1,4), of src layer pkt] assms(2,3) by (simp add: permitted_peer_rules [OF assms(1)])

lemma stateful_IN: "good_rule r \<Longrightarrow> enforced True r = None \<Longrightarrow> pf_Direction r = 1"
  using enforced_IN [of r _ True] by (auto simp: good_rule_def)

text \<open>
  C35. One rule that cannot be converted locks out the rules before it for good. In a stateful filter, when a map contains such a rule
  after well-formed rules \<open>rs\<close>, all rules are removed from the filter, also those of earlier maps: every packet but an ICMP error is blocked. The manager
  still lists \<open>rs\<close> as installed, and when the next map consists of well-formed rules, exactly those that agree in their identifier with none of \<open>rs\<close>
  are installed: a packet from an IPv4 address that is not an ICMP error then passes only if one of these accepts it and none of them drops it. In particular, when the
  next map just leaves out the bad rule and those after it, everything stays blocked.
\<close>

theorem bad_rule_locks_out:
  assumes "acl_ok fw pairs" and "stateful fw" and "effective_rules nm = rs @ bad # rest" and "\<forall>r \<in> set rs. good_rule r"
    and "rule_parts bad = Inl e" and "length rs < length uuids" and "distinct uuids"
    and "set uuids \<inter> pr_id ` installed_rules fw = {}" and "iteration iter" and "iteration iter2"
    and "applyPeerACLs iter uuids fw counter pairs nm = (fw1, counter1, pairs1)"
    and "\<forall>r \<in> set (effective_rules nm2). good_rule r" and "length (effective_rules nm2) \<le> length uuids2" and "distinct uuids2"
    and "set uuids2 \<inter> (set uuids \<union> pr_id ` installed_rules fw) = {}"
    and "applyPeerACLs iter uuids2 fw1 counter1 pairs1 nm2 = (fw2, counter2, pairs2)"
  shows "installed_rules fw1 = {} \<and>
    content ` installed_rules fw2 =
      {c. \<exists>r \<in> set (effective_rules nm2). enforced True r = Some c \<and> rule_ID_of r \<notin> rule_ID_of ` set rs} \<and>
    (\<forall>src layer pkt. \<not> isSpecialICMP layer pkt \<longrightarrow> (\<exists>i. peerACLsBlock iter2 fw1 src layer pkt = Some (i, True))) \<and>
    (\<forall>src layer pkt. \<exists>i. peerACLsBlock iter2 fw2 (Addr4 src) layer pkt = Some (i, \<not> isSpecialICMP layer pkt \<and>
      ((\<exists>r \<in> {r \<in> set (effective_rules nm2). rule_ID_of r \<notin> rule_ID_of ` set rs}.
          pf_Direction r = 0 \<and> pf_Action r = 1 \<and> pf_PeerIP r = IP_String src \<and> rule_covers r layer pkt) \<or>
       \<not> (\<exists>r \<in> {r \<in> set (effective_rules nm2). rule_ID_of r \<notin> rule_ID_of ` set rs}.
          pf_Direction r = 0 \<and> pf_Action r = 0 \<and> pf_PeerIP r \<in> {IP_String src, IP_String 0} \<and> rule_covers r layer pkt))))"
proof -
  have f: "installed_rules fw1 = {}" "peer_rules_ok fw1" "stateful fw1" "inj_on pr_id (set (pair_rules pairs1))"
      "fst ` set pairs1 = rule_ID_of ` {r \<in> set rs. enforced True r \<noteq> None}"
      "pr_id ` set (pair_rules pairs1) \<subseteq> set uuids \<union> pr_id ` installed_rules fw"
    using failed_map [OF assms(1,3-9,11)] assms(2) by simp_all
  have "set uuids2 \<inter> pr_id ` set (pair_rules pairs1) = {}" using f(6) assms(15) by blast
  from ghost_map [OF f(1,2,4) assms(12-14) this assms(9,16)]
  have g: "peer_rules_ok fw2" "content ` installed_rules fw2 =
      {c. \<exists>r \<in> set (effective_rules nm2). enforced True r = Some c \<and> rule_ID_of r \<notin> fst ` set pairs1}"
    using f(3) by simp_all
  have "rule_ID_of r \<in> fst ` set pairs1 \<longleftrightarrow> rule_ID_of r \<in> rule_ID_of ` set rs"
    if r: "r \<in> set (effective_rules nm2)" "enforced True r = Some c" for r c
  proof -
    have "enforced True r' = Some c" if "r' \<in> set rs" "rule_ID_of r' = rule_ID_of r" for r'
      using rule_ID_enforced [of r' r True] assms(4,12) r that by simp
    then show ?thesis unfolding f(5) by (auto simp: image_iff)
  qed
  then have c: "content ` installed_rules fw2 =
      {c. \<exists>r \<in> set (effective_rules nm2). enforced True r = Some c \<and> rule_ID_of r \<notin> rule_ID_of ` set rs}"
    unfolding g(2) by blast
  let ?R = "{r \<in> set (effective_rules nm2). rule_ID_of r \<notin> rule_ID_of ` set rs}"
  have R: "content ` installed_rules fw2 = {c. \<exists>r \<in> ?R. enforced True r = Some c}" "\<forall>r \<in> ?R. good_rule r"
    unfolding c using assms(12) by auto
  have "\<exists>i. peerACLsBlock iter2 fw2 (Addr4 src) layer pkt = Some (i, \<not> isSpecialICMP layer pkt \<and>
      ((\<exists>r \<in> ?R. pf_Direction r = 0 \<and> pf_Action r = 1 \<and> pf_PeerIP r = IP_String src \<and> rule_covers r layer pkt) \<or>
       \<not> (\<exists>r \<in> ?R. pf_Direction r = 0 \<and> pf_Action r = 0 \<and> pf_PeerIP r \<in> {IP_String src, IP_String 0} \<and> rule_covers r layer pkt)))"
    for src layer pkt
    using peerACLsBlock_permitted [OF g(1) assms(10), of "Addr4 src" layer pkt]
    unfolding permitted_effective [OF g(1) R] by (simp only: de_Morgan_conj not_not)
  then show ?thesis using blocked_without_rules [OF f(2,1) _ assms(10)] f(1) c by blast
qed

section \<open>Merged ranges\<close>

text \<open>
  Sorted prefixes have the longer one first when they share an address, and then the shorter one counts as
  contained in it: merging drops addresses.
\<close>

lemma merge_loses_addresses:
  "let wide = \<lparr>pfx_Addr = Addr4 0x0A000000, pfx_Bits = 16\<rparr>; narrow = \<lparr>pfx_Addr = Addr4 0x0A000000, pfx_Bits = 24\<rparr>;
       merged = MergeIPRanges (SortPrefixes [wide, narrow])
   in merged = [narrow] \<and> GoNet.Contains wide (Addr4 0x0A000105) \<and> \<not> list_ex (\<lambda>p. GoNet.Contains p (Addr4 0x0A000105)) merged"
  by (simp add: MergeIPRanges_def SortPrefixes_def sort_by_def Addr_Less_def GoNet.Contains_def Masked_def Prefix_IsValid_def BitLen_def Let_def)

section \<open>Examples\<close>

lemma manager_ok_new: "create getenv isNetstack interfaces filterSet iface native disableServer mtu = Inr fw \<Longrightarrow> manager_ok (NewDefaultManager (Some fw))"
  using created_rules_ok by (auto simp: manager_ok_def NewDefaultManager_def acl_ok_def rules_ok_def)

definition dns_message :: proto_FirewallRule where
  "dns_message = \<lparr>pf_PeerIP = IP_String 0x0A000001, pf_Direction = RuleDirection_IN, pf_Action = RuleAction_ACCEPT,
     pf_Protocol = RuleProtocol_UDP, pf_Port = [], pf_PortInfo = Some (PortInfo_Port 53), pf_PolicyID = [7]\<rparr>"

definition dns_map :: "proto_FirewallRule list \<Rightarrow> proto_NetworkMap" where
  "dns_map rules = \<lparr>pm_FirewallRules = rules, pm_FirewallRulesIsEmpty = False, pm_RoutesFirewallRules = []\<rparr>"

lemma dns_message_parts:
  "rule_parts dns_message = Inr (IP16 (mapped 0x0A000001), ProtocolUDP, ActionAccept, Some \<lparr>IsRange = False, Values = [53]\<rparr>)"
  by (simp add: rule_parts_def dns_message_def ParseIP_IP_String convertToFirewallProtocol_def convertFirewallAction_def portInfoEmpty_def
      convertPortInfo_def)

lemma dns_message_good: "good_rule dns_message"
  using dns_message_parts by (auto simp: good_rule_def dns_message_def)

lemma dns_message_rule_covers: "rule_covers dns_message LayerTypeUDP dns_query"
  by (simp add: rule_covers_def dns_message_parts port_covers_def)

lemma dns_manager: "manager_ok (NewDefaultManager (Some dns_filter))" "acl_ok dns_filter []" "installed_rules dns_filter = {}" "stateful dns_filter"
  using manager_ok_new [OF dns_filter_created] created_rules_ok [OF dns_filter_created]
  by (simp_all add: manager_ok_def NewDefaultManager_def) (simp add: dns_filter_def)

theorem bad_rule_locks_out_witness:
  "let nm = dns_map [dns_message, dns_message\<lparr>pf_Protocol := RuleProtocol_UNKNOWN\<rparr>]; nm2 = dns_map [dns_message];
       (fw1, counter1, pairs1) = applyPeerACLs rev [''u1'', ''u2''] dns_filter 0 [] nm;
       (fw2, counter2, pairs2) = applyPeerACLs rev [''u3''] fw1 counter1 pairs1 nm2
   in \<exists>i. peerACLsBlock rev fw2 (Addr4 0x0A000001) LayerTypeUDP dns_query = Some (i, True)"
proof -
  let ?bad = "dns_message\<lparr>pf_Protocol := RuleProtocol_UNKNOWN\<rparr>"
  obtain fw1 c1 p1 where 1: "applyPeerACLs rev [''u1'', ''u2''] dns_filter 0 [] (dns_map [dns_message, ?bad]) = (fw1, c1, p1)"
    by (metis prod.exhaust)
  obtain fw2 c2 p2 where 2: "applyPeerACLs rev [''u3''] fw1 c1 p1 (dns_map [dns_message]) = (fw2, c2, p2)" by (metis prod.exhaust)
  have bad: "rule_parts ?bad = Inl (InvalidProtocol 0)"
    by (simp add: rule_parts_def dns_message_def ParseIP_IP_String convertToFirewallProtocol_def)
  have e: "effective_rules (dns_map [dns_message, ?bad]) = [dns_message] @ ?bad # []" "effective_rules (dns_map [dns_message]) = [dns_message]"
    by (simp_all add: effective_rules_def dns_map_def)
  have all: "\<forall>src layer pkt. \<exists>i. peerACLsBlock rev fw2 (Addr4 src) layer pkt = Some (i, \<not> isSpecialICMP layer pkt)"
    using bad_rule_locks_out [OF dns_manager(2,4) e(1) _ bad _ _ _ iteration_rev iteration_rev 1 _ _ _ _ 2] dns_message_good dns_manager(3)
    by (simp add: e(2))
  have "\<not> isSpecialICMP LayerTypeUDP dns_query" by (simp add: isSpecialICMP_def)
  then have "\<exists>i. peerACLsBlock rev fw2 (Addr4 0x0A000001) LayerTypeUDP dns_query = Some (i, True)" using all by metis
  then show ?thesis by (simp add: 1 2)
qed

end
