(* ===== verification/PolicyEnforcement.thy ===== *)
theory PolicyEnforcement
  imports ClientACL
begin

text \<open>
  From the policies of an account to the fate of a packet. The management server turns the policies into firewall rules for a
  peer (theory \<open>AccessControl\<close>), sends them in a message, and the manager of access rules installs them in the packet filter of the
  peer (theory \<open>ClientACL\<close>). This theory puts the parts together.
\<close>

section \<open>Rules of policies as messages\<close>

text \<open>
  Policies as the API hands them to the account (\<open>policies_handler.go\<close>): a known protocol, ports between 1 and 65535 written in the usual
  way, no ports for \<open>all\<close> and \<open>icmp\<close>. That a range does not end at 0 is not checked there; the lemma \<open>zero_end_opens_all\<close>
  shows what such a range does.
\<close>

definition policy_rule_ok :: "PolicyRule \<Rightarrow> bool" where
  "policy_rule_ok r \<longleftrightarrow>
     Protocol r \<in> {PolicyRuleProtocolALL, PolicyRuleProtocolTCP, PolicyRuleProtocolUDP, PolicyRuleProtocolICMP, PolicyRuleProtocolNetbirdSSH} \<and>
     (Protocol r \<in> {PolicyRuleProtocolALL, PolicyRuleProtocolICMP} \<longrightarrow> Ports r = [] \<and> PortRanges r = []) \<and>
     (\<forall>port \<in> set (Ports r). \<exists>n :: 16 word. n \<noteq> 0 \<and> port = itoa (unat n)) \<and>
     (\<forall>range \<in> set (PortRanges r). Start range \<noteq> 0 \<and> End range \<noteq> 0)"

lemma policy_rule_okD:
  "policy_rule_ok r \<Longrightarrow> port \<in> set (Ports r) \<Longrightarrow> \<exists>n :: 16 word. n \<noteq> 0 \<and> port = itoa (unat n)"
  "policy_rule_ok r \<Longrightarrow> pr \<in> set (PortRanges r) \<Longrightarrow> Start pr \<noteq> 0 \<and> End pr \<noteq> 0"
  unfolding policy_rule_ok_def by blast+

definition policies_ok :: "Account \<Rightarrow> bool" where
  "policies_ok a \<longleftrightarrow> (\<forall>(policy, r) \<in> set (enabled_rules (Policies a)). policy_rule_ok r)"

text \<open>What a policy rule is about: its protocol, and the ports it lists for the software that the peer \<open>p\<close> runs.\<close>

definition port_listed :: "version_lib \<Rightarrow> nbpeer \<Rightarrow> PolicyRule \<Rightarrow> 16 word \<Rightarrow> bool" where
  "port_listed meets p r x \<longleftrightarrow>
     (if Ports r \<noteq> [] then itoa (unat x) \<in> set (Ports r)
      else \<exists>range \<in> set (PortRanges r).
        (portRanges (peerSupportedFirewallFeatures meets (WtVersion p)) \<or> Start range = End range) \<and> Start range \<le> x \<and> x \<le> End range)"

definition port_open :: "version_lib \<Rightarrow> nbpeer \<Rightarrow> PolicyRule \<Rightarrow> 16 word \<Rightarrow> bool" where
  "port_open meets p r x \<longleftrightarrow>
     Ports r = [] \<and> PortRanges r = [] \<or> port_listed meets p r x \<or>
     x = nativeSSHPortNumber \<and> port_listed meets p r defaultSSHPortNumber \<and>
       (shouldCheckRulesForNativeSSH (nativeSSH (peerSupportedFirewallFeatures meets (WtVersion p))) r p \<or> Protocol r = PolicyRuleProtocolNetbirdSSH)"

definition policy_covers :: "version_lib \<Rightarrow> nbpeer \<Rightarrow> PolicyRule \<Rightarrow> LayerType \<Rightarrow> decoder \<Rightarrow> bool" where
  "policy_covers meets p r layer pkt \<longleftrightarrow>
     Protocol r = PolicyRuleProtocolALL \<or>
     Protocol r \<in> {PolicyRuleProtocolTCP, PolicyRuleProtocolNetbirdSSH} \<and> layer = LayerTypeTCP \<and> port_open meets p r (tcp_DstPort pkt) \<or>
     Protocol r = PolicyRuleProtocolUDP \<and> layer = LayerTypeUDP \<and> port_open meets p r (udp_DstPort pkt) \<or>
     Protocol r = PolicyRuleProtocolICMP \<and> layer = LayerTypeICMPv4"

lemmas protocol_names = PolicyRuleProtocolALL_def PolicyRuleProtocolTCP_def PolicyRuleProtocolUDP_def PolicyRuleProtocolICMP_def
  PolicyRuleProtocolNetbirdSSH_def

text \<open>The ports of a firewall rule of the server, written in the usual way.\<close>

definition fw_port :: "FirewallRule \<Rightarrow> 16 word \<Rightarrow> bool" where
  "fw_port f x \<longleftrightarrow>
     (if FirewallRule.Port f \<noteq> [] then FirewallRule.Port f = itoa (unat x)
      else Start (PortRange f) = 0 \<or> End (PortRange f) = 0 \<or> Start (PortRange f) \<le> x \<and> x \<le> End (PortRange f))"

definition fw_ok :: "FirewallRule \<Rightarrow> bool" where
  "fw_ok f \<longleftrightarrow>
     fw_Protocol f \<in> {PolicyRuleProtocolALL, PolicyRuleProtocolTCP, PolicyRuleProtocolUDP, PolicyRuleProtocolICMP} \<and>
     (FirewallRule.Port f = [] \<or> (\<exists>n :: 16 word. FirewallRule.Port f = itoa (unat n)))"

lemma ParseInt_port: "ParseInt (itoa (unat (n :: 16 word))) = Some (uint n)"
proof -
  have "uint n < 65536" using unsigned_less [of n, where ?'a = int] by simp
  moreover have "- (2 ^ 63) \<le> uint n" by (rule order_trans [of _ 0]) simp_all
  ultimately have "ParseInt (FormatInt (uint n)) = Some (uint n)" by (intro ParseInt_FormatInt) simp_all
  then show ?thesis by (simp add: FormatInt_def)
qed

lemma native_port: "nativeSSHPortString = itoa (unat nativeSSHPortNumber)"
  by (simp add: nativeSSHPortString_def nativeSSHPortNumber_def itoa.simps digit_char_def char_of_def bit_0)

lemma default_port: "defaultSSHPortString = itoa (unat defaultSSHPortNumber)"
  by (simp add: defaultSSHPortString_def defaultSSHPortNumber_def itoa.simps digit_char_def char_of_def bit_0)

lemma ssh_ports: "nativeSSHPortNumber \<noteq> 0" "defaultSSHPortNumber \<noteq> 0"
  by (simp_all add: nativeSSHPortNumber_def defaultSSHPortNumber_def)

lemma itoa_port_inj: "itoa (unat (m :: 16 word)) = itoa (unat n) \<longleftrightarrow> m = n"
  using itoa_inj [of "unat m" "unat n"] by (auto simp: word_unat_eq_iff)

lemma message_fields:
  "pf_PeerIP (toProtocolFirewallRule f) = PeerIP f" "pf_Direction (toProtocolFirewallRule f) = getProtoDirection (Direction f)"
  "pf_Action (toProtocolFirewallRule f) = getProtoAction (fw_Action f)" "pf_Protocol (toProtocolFirewallRule f) = getProtoProtocol (fw_Protocol f)"
  "pf_Port (toProtocolFirewallRule f) = FirewallRule.Port f"
  "pf_PortInfo (toProtocolFirewallRule f) =
     (if FirewallRule.Port f = [] \<and> fw_Protocol f \<in> {PolicyRuleProtocolTCP, PolicyRuleProtocolUDP}
      then Some (RulePortRange_ToProto (PortRange f)) else None)"
  by (auto simp: toProtocolFirewallRule_def Let_def shouldUsePortRange_def getProtoProtocol_def protocol_names)

text \<open>How the client reads the message for such a rule.\<close>

lemma ucast_back: "(ucast (ucast (x :: 16 word) :: 32 word) :: 16 word) = x"
  by (rule ucast_up_ucast_id) (simp add: is_up)

lemma ucast_zero: "(ucast (x :: 16 word) :: 32 word) = 0 \<longleftrightarrow> x = 0"
  by (metis ucast_back ucast_0)

lemma message_parts:
  assumes "fw_ok f" and "PeerIP f = IP_String s"
  shows "\<exists>ip action port. rule_parts (toProtocolFirewallRule f) = Inr (ip, fw_Protocol f, action, port) \<and>
    (fw_Protocol f \<in> {PolicyRuleProtocolTCP, PolicyRuleProtocolUDP} \<longrightarrow> port_covers port = fw_port f)"
proof -
  let ?m = "toProtocolFirewallRule f"
  have conv: "convertToFirewallProtocol (pf_Protocol ?m) = Inr (fw_Protocol f)"
    using assms(1) by (auto simp: fw_ok_def message_fields getProtoProtocol_def convertToFirewallProtocol_def protocol_names)
  have "\<exists>a. convertFirewallAction (pf_Action ?m) = Inr a"
    by (simp add: message_fields getProtoAction_def convertFirewallAction_def)
  then obtain a where a: "convertFirewallAction (pf_Action ?m) = Inr a" by blast
  have ip: "ParseIP (pf_PeerIP ?m) = IP16 (mapped s)" by (simp add: message_fields assms(2) ParseIP_IP_String)
  consider "FirewallRule.Port f = []" | n :: "16 word" where "FirewallRule.Port f = itoa (unat n)" "FirewallRule.Port f \<noteq> []"
    using assms(1) unfolding fw_ok_def by fastforce
  then show ?thesis
  proof cases
    case 1
    then show ?thesis
      by (auto simp: rule_parts_def conv a ip message_fields(5,6) portInfoEmpty_def convertPortInfo_def RulePortRange_ToProto_def port_covers_def
          fw_port_def ucast_back ucast_zero fun_eq_iff)
  next
    case 2
    then have "rule_parts ?m = Inr (IP16 (mapped s), fw_Protocol f, a, Some \<lparr>IsRange = False, Values = [n]\<rparr>)"
      by (simp add: rule_parts_def conv a ip message_fields(5,6) portInfoEmpty_def ParseInt_port)
    moreover have "port_covers (Some \<lparr>IsRange = False, Values = [n]\<rparr>) = fw_port f"
      using 2 by (auto simp: port_covers_def fw_port_def fun_eq_iff itoa_port_inj)
    ultimately show ?thesis by blast
  qed
qed

lemma message_covers:
  assumes "fw_ok f" and "PeerIP f = IP_String s"
  shows "rule_covers (toProtocolFirewallRule f) layer pkt \<longleftrightarrow>
    fw_Protocol f = PolicyRuleProtocolALL \<or>
    fw_Protocol f = PolicyRuleProtocolTCP \<and> layer = LayerTypeTCP \<and> fw_port f (tcp_DstPort pkt) \<or>
    fw_Protocol f = PolicyRuleProtocolUDP \<and> layer = LayerTypeUDP \<and> fw_port f (udp_DstPort pkt) \<or>
    fw_Protocol f = PolicyRuleProtocolICMP \<and> layer = LayerTypeICMPv4"
proof -
  obtain ip action port where parts: "rule_parts (toProtocolFirewallRule f) = Inr (ip, fw_Protocol f, action, port)"
      "fw_Protocol f \<in> {PolicyRuleProtocolTCP, PolicyRuleProtocolUDP} \<longrightarrow> port_covers port = fw_port f"
    using message_parts [OF assms] by blast
  have "fw_Protocol f \<in> {PolicyRuleProtocolALL, PolicyRuleProtocolTCP, PolicyRuleProtocolUDP, PolicyRuleProtocolICMP}"
    using assms(1) unfolding fw_ok_def by (rule conjunct1)
  then show ?thesis using parts(2) by (elim insertE) (simp_all add: rule_covers_def parts(1) protocol_names)
qed

text \<open>The rules that the server makes of a policy rule for one peer.\<close>

definition expanded_rules :: "version_lib \<Rightarrow> FirewallRule \<Rightarrow> PolicyRule \<Rightarrow> nbpeer \<Rightarrow> FirewallRule list" where
  "expanded_rules meets base r p =
     map (\<lambda>p. base\<lparr>Port := p\<rparr>) (Ports r) @
     (if Ports r \<noteq> [] then [] else concat (map (expand_range (peerSupportedFirewallFeatures meets (WtVersion p)) base) (PortRanges r)))"

lemma expanded_cases:
  assumes "policy_rule_ok r" and "f \<in> set (expanded_rules meets (base_rule r q d) r p)"
  shows "(\<exists>n :: 16 word. n \<noteq> 0 \<and> f = (base_rule r q d)\<lparr>FirewallRule.Port := itoa (unat n)\<rparr>) \<or>
    (\<exists>range. Start range \<noteq> 0 \<and> End range \<noteq> 0 \<and> f = (base_rule r q d)\<lparr>PortRange := range\<rparr>)"
  using assms unfolding policy_rule_ok_def expanded_rules_def
  by (fastforce simp: expand_range_def split: if_splits)

lemma expanded_port:
  assumes "policy_rule_ok r"
  shows "(\<exists>f \<in> set (expanded_rules meets (base_rule r q d) r p). fw_port f x) \<longleftrightarrow> port_listed meets p r x"
proof (cases "Ports r = []")
  case True
  let ?base = "base_rule r q d"
  have f: "fw_port (?base\<lparr>PortRange := range\<rparr>) x \<longleftrightarrow> Start range \<le> x \<and> x \<le> End range" if "range \<in> set (PortRanges r)" for range
    using policy_rule_okD(2) [OF assms that] by (simp add: fw_port_def base_rule_def)
  have g: "fw_port (?base\<lparr>FirewallRule.Port := itoa (unat (Start range))\<rparr>) x \<longleftrightarrow> x = Start range" for range
    by (auto simp: fw_port_def base_rule_def itoa_port_inj)
  have "(\<exists>f \<in> set (expand_range features ?base range). fw_port f x) \<longleftrightarrow>
      (portRanges features \<or> Start range = End range) \<and> Start range \<le> x \<and> x \<le> End range" if "range \<in> set (PortRanges r)" for range features
    using f [OF that] g [of range] by (auto simp: expand_range_def)
  then show ?thesis using True by (simp add: expanded_rules_def port_listed_def)
next
  case False
  have "fw_port ((base_rule r q d)\<lparr>FirewallRule.Port := port\<rparr>) x \<longleftrightarrow> port = itoa (unat x)" if "port \<in> set (Ports r)" for port
  proof -
    have "port \<noteq> []" using policy_rule_okD(1) [OF assms that] by auto
    then show ?thesis by (simp add: fw_port_def)
  qed
  then show ?thesis using False by (auto simp: expanded_rules_def port_listed_def)
qed

lemma expanded_in_rule:
  assumes "policy_rule_ok r" and "x \<noteq> 0"
  shows "list_ex (isPortInRule (itoa (unat x)) x) (expanded_rules meets (base_rule r q d) r p) \<longleftrightarrow> port_listed meets p r x"
proof -
  have "isPortInRule (itoa (unat x)) x f \<longleftrightarrow> fw_port f x" if "f \<in> set (expanded_rules meets (base_rule r q d) r p)" for f
    using expanded_cases [OF assms(1) that] assms(2)
    by (auto simp: isPortInRule_def fw_port_def base_rule_def itoa_port_inj itoa_nonempty [THEN not_sym])
  then show ?thesis using expanded_port [OF assms(1), of meets q d p x] by (auto simp: list_ex_iff)
qed

lemma peer_rules_expanded:
  "set (peer_rules meets p r q d) =
    (if Ports r = [] \<and> PortRanges r = [] then {base_rule r q d}
     else set (expanded_rules meets (base_rule r q d) r p) \<union>
       (if port_open meets p r nativeSSHPortNumber \<and> \<not> port_listed meets p r nativeSSHPortNumber
        then {(base_rule r q d)\<lparr>FirewallRule.Port := nativeSSHPortString\<rparr>} else {}))"
  if "policy_rule_ok r"
  using expanded_in_rule [OF that, of nativeSSHPortNumber meets q d p] expanded_in_rule [OF that, of defaultSSHPortNumber meets q d p] ssh_ports
  unfolding peer_rules_def expandPortsAndRanges_def Let_def addNativeSSHRule_def native_port default_port expanded_rules_def [symmetric]
  by (auto simp: port_open_def)

lemma peer_rules_ok:
  assumes "policy_rule_ok r" and "f \<in> set (peer_rules meets p r q d)"
  shows "fw_ok f" "fw_Protocol f = rule_protocol r" "PeerIP f = IP_String (peer_IP q)"
proof -
  have b: "fw_Protocol (base_rule r q d) = rule_protocol r" "FirewallRule.Port (base_rule r q d) = []" by (simp_all add: base_rule_def)
  have p: "rule_protocol r \<in> {PolicyRuleProtocolALL, PolicyRuleProtocolTCP, PolicyRuleProtocolUDP, PolicyRuleProtocolICMP}"
    using assms(1) by (auto simp: policy_rule_ok_def rule_protocol_def)
  have "f = base_rule r q d \<or> f = (base_rule r q d)\<lparr>FirewallRule.Port := nativeSSHPortString\<rparr> \<or>
      f \<in> set (expanded_rules meets (base_rule r q d) r p)"
    using assms(2) unfolding peer_rules_expanded [OF assms(1)] by (simp split: if_split_asm) blast
  then have "f = base_rule r q d \<or> (\<exists>n :: 16 word. f = (base_rule r q d)\<lparr>FirewallRule.Port := itoa (unat n)\<rparr>) \<or>
      (\<exists>range. f = (base_rule r q d)\<lparr>PortRange := range\<rparr>)"
    using expanded_cases [OF assms(1), of f meets q d p] unfolding native_port by blast
  then show "fw_ok f" "fw_Protocol f = rule_protocol r" using p b by (auto simp: fw_ok_def)
  show "PeerIP f = IP_String (peer_IP q)" using peer_rules_fields [OF assms(2)] by simp
qed

lemma peer_rules_port:
  assumes "policy_rule_ok r"
  shows "(\<exists>f \<in> set (peer_rules meets p r q d). fw_port f x) \<longleftrightarrow> port_open meets p r x"
proof -
  have 1: "fw_port (base_rule r q d) x" by (simp add: fw_port_def base_rule_def)
  have 2: "fw_port ((base_rule r q d)\<lparr>FirewallRule.Port := nativeSSHPortString\<rparr>) x \<longleftrightarrow> x = nativeSSHPortNumber"
    unfolding native_port by (auto simp: fw_port_def itoa_port_inj)
  show ?thesis
    using 1 2 expanded_port [OF assms, of meets q d p x] unfolding peer_rules_expanded [OF assms] by (auto simp: port_open_def)
qed

lemma peer_rules_cover:
  assumes "policy_rule_ok r"
  shows "(\<exists>f \<in> set (peer_rules meets p r q d). rule_covers (toProtocolFirewallRule f) layer pkt) \<longleftrightarrow> policy_covers meets p r layer pkt"
proof -
  let ?rules = "set (peer_rules meets p r q d)"
  have m: "rule_covers (toProtocolFirewallRule f) layer pkt \<longleftrightarrow>
      rule_protocol r = PolicyRuleProtocolALL \<or>
      rule_protocol r = PolicyRuleProtocolTCP \<and> layer = LayerTypeTCP \<and> fw_port f (tcp_DstPort pkt) \<or>
      rule_protocol r = PolicyRuleProtocolUDP \<and> layer = LayerTypeUDP \<and> fw_port f (udp_DstPort pkt) \<or>
      rule_protocol r = PolicyRuleProtocolICMP \<and> layer = LayerTypeICMPv4" if "f \<in> ?rules" for f
    using message_covers [OF peer_rules_ok(1,3) [OF assms that]] unfolding peer_rules_ok(2) [OF assms that] .
  have ne: "\<exists>f. f \<in> ?rules" if "Protocol r \<in> {PolicyRuleProtocolALL, PolicyRuleProtocolICMP}"
  proof -
    have "Ports r = [] \<and> PortRanges r = []" using assms that unfolding policy_rule_ok_def by blast
    then show ?thesis by (simp add: peer_rules_def)
  qed
  have "Protocol r \<in> {PolicyRuleProtocolALL, PolicyRuleProtocolTCP, PolicyRuleProtocolUDP, PolicyRuleProtocolICMP, PolicyRuleProtocolNetbirdSSH}"
    using assms unfolding policy_rule_ok_def by (rule conjunct1)
  then show ?thesis using ne peer_rules_port [OF assms, of meets p q d]
    by (elim insertE) (simp_all add: m policy_covers_def rule_protocol_def protocol_names cong: bex_cong)
qed

lemma message_good:
  assumes "policy_rule_ok r" and "f \<in> set (peer_rules meets p r q d)"
  shows "good_rule (toProtocolFirewallRule f)"
proof -
  obtain ip action port where "rule_parts (toProtocolFirewallRule f) = Inr (ip, fw_Protocol f, action, port)" using message_parts peer_rules_ok [OF assms] by blast
  then show ?thesis using peer_rules_ok(3) [OF assms] by (auto simp: good_rule_def message_fields getProtoDirection_def)
qed

text \<open>
  The API checks where a range starts and that it ends by 65535, not that it ends after it starts. A range that ends at 0 lets in every port.
\<close>

lemma zero_end_opens_all:
  assumes "Protocol r = PolicyRuleProtocolTCP" and "Ports r = []" and "PortRanges r = [\<lparr>Start = n, End = 0\<rparr>]"
    and "portRanges (peerSupportedFirewallFeatures meets (WtVersion p))" and "\<not> SSHEnabled p"
  shows "\<exists>f \<in> set (peer_rules meets p r q d). rule_covers (toProtocolFirewallRule f) LayerTypeTCP pkt"
proof -
  let ?f = "(base_rule r q d)\<lparr>PortRange := \<lparr>Start = n, End = 0\<rparr>\<rparr>"
  have "fw_ok ?f" "PeerIP ?f = IP_String (peer_IP q)" "fw_port ?f (tcp_DstPort pkt)" "fw_Protocol ?f = PolicyRuleProtocolTCP"
    using assms(1) by (simp_all add: fw_ok_def base_rule_def rule_protocol_def fw_port_def protocol_names)
  moreover have "?f \<in> set (peer_rules meets p r q d)"
    using assms by (simp add: peer_rules_def expandPortsAndRanges_def shouldCheckRulesForNativeSSH_def expand_range_def protocol_names)
  ultimately show ?thesis using message_covers by blast
qed

section \<open>Policies decide about packets\<close>

text \<open>
  Some policy rule of the account lets the peer with address \<open>s\<close> into \<open>p\<close>, or denies it, for packets like \<open>pkt\<close>.
\<close>

definition policy_says ::
    "bool \<Rightarrow> version_lib \<Rightarrow> Account \<Rightarrow> string set \<Rightarrow> nbpeer \<Rightarrow> 32 word \<Rightarrow> LayerType \<Rightarrow> decoder \<Rightarrow> bool" where
  "policy_says deny meets a V p s layer pkt \<longleftrightarrow>
     (\<exists>q r. GetPeer a (peer_ID q) = Some q \<and> peer_IP q = s \<and> r \<in> access a V (peer_ID p) (peer_ID q) FirewallRuleDirectionIN \<and>
        (Action r = PolicyTrafficActionDrop) = deny \<and> policy_covers meets p r layer pkt)"

lemma access_enabled: "r \<in> access a V t q d \<Longrightarrow> \<exists>policy. (policy, r) \<in> set (enabled_rules (Policies a))"
  by (auto simp: access_def)

lemma access_direction: "r \<in> access a V t q d \<Longrightarrow> d = FirewallRuleDirectionIN \<or> d = FirewallRuleDirectionOUT"
  by (auto simp: access_def Let_def)

lemma inbound_message: "pf_Direction (toProtocolFirewallRule f) = 0 \<longleftrightarrow> Direction f \<noteq> FirewallRuleDirectionOUT"
  by (simp add: message_fields getProtoDirection_def)

lemma access_ok: "policies_ok a \<Longrightarrow> r \<in> access a V t q d \<Longrightarrow> policy_rule_ok r"
  using access_enabled [of r a V t q d] by (auto simp: policies_ok_def)

lemma rules_says:
  assumes "R = acl_rules meets a V p" and "policies_ok a"
  shows "(\<exists>m \<in> toProtocolFirewallRule ` R. pf_Direction m = 0 \<and> pf_Action m = (if deny then 1 else 0) \<and> pf_PeerIP m = IP_String s \<and> rule_covers m layer pkt)
    \<longleftrightarrow> policy_says deny meets a V p s layer pkt"
proof
  assume "\<exists>m \<in> toProtocolFirewallRule ` R. pf_Direction m = 0 \<and> pf_Action m = (if deny then 1 else 0) \<and> pf_PeerIP m = IP_String s \<and> rule_covers m layer pkt"
  then obtain f where f: "f \<in> R" "pf_Direction (toProtocolFirewallRule f) = 0" "getProtoAction (fw_Action f) = (if deny then 1 else 0)"
      "PeerIP f = IP_String s" "rule_covers (toProtocolFirewallRule f) layer pkt"
    by (auto simp: message_fields(1,3))
  then obtain q d r where q: "GetPeer a (peer_ID q) = Some q" "r \<in> access a V (peer_ID p) (peer_ID q) d" "f \<in> set (peer_rules meets p r q d)"
    unfolding assms(1) acl_rules_def by blast
  note fields = peer_rules_fields [OF q(3)]
  have d: "d = FirewallRuleDirectionIN" using access_direction [OF q(2)] f(2) fields unfolding inbound_message by blast
  have "(Action r = PolicyTrafficActionDrop) = deny" using f(3) fields by (auto simp: getProtoAction_def split: if_splits)
  moreover have "peer_IP q = s" using f(4) fields by simp
  moreover have "policy_covers meets p r layer pkt" using peer_rules_cover [OF access_ok [OF assms(2) q(2)]] q(3) f(5) by blast
  ultimately show "policy_says deny meets a V p s layer pkt" unfolding policy_says_def using q unfolding d by blast
next
  assume "policy_says deny meets a V p s layer pkt"
  then obtain q r where q': "GetPeer a (peer_ID q) = Some q" "peer_IP q = s" "r \<in> access a V (peer_ID p) (peer_ID q) FirewallRuleDirectionIN"
      "(Action r = PolicyTrafficActionDrop) = deny" "policy_covers meets p r layer pkt"
    unfolding policy_says_def by blast
  then obtain f where "f \<in> set (peer_rules meets p r q FirewallRuleDirectionIN)" "rule_covers (toProtocolFirewallRule f) layer pkt"
    using peer_rules_cover [OF access_ok [OF assms(2) q'(3)]] by blast
  note q = q'(1-4) this
  have "f \<in> R" using q unfolding assms(1) acl_rules_def by blast
  moreover have "pf_Direction (toProtocolFirewallRule f) = 0 \<and> pf_Action (toProtocolFirewallRule f) = (if deny then 1 else 0) \<and>
      pf_PeerIP (toProtocolFirewallRule f) = IP_String s"
    using peer_rules_fields [OF q(5)] q(2,4)
    by (simp add: message_fields getProtoDirection_def getProtoAction_def FirewallRuleDirectionIN_def FirewallRuleDirectionOUT_def)
  ultimately show "\<exists>m \<in> toProtocolFirewallRule ` R. pf_Direction m = 0 \<and> pf_Action m = (if deny then 1 else 0) \<and> pf_PeerIP m = IP_String s \<and> rule_covers m layer pkt"
    using q(6) by blast
qed

lemma effective_message: "set (effective_rules (map_message rules routes)) = toProtocolFirewallRule ` set rules"
  "length (effective_rules (map_message rules routes)) = length rules"
  by (simp_all add: effective_rules_def map_message_def toProtocolFirewallRules_def)

text \<open>
  C1. The policies of an account decide which packets enter a peer. The server computes the firewall rules of a peer from the policies and
  sends them; the client installs them, whatever it had installed before. Then the filter of the client blocks a packet of another peer that no
  tracked flow lets in exactly when some policy rule denies it or none allows it, ICMP errors apart, which always pass. A rule allows or
  denies what its protocol and its ports say. The account is well formed, its policies are as the API accepts them, no peer has the address 0.0.0.0,
  and the identifiers that the client draws for new rules are new.
\<close>

theorem policies_enforced:
  assumes "wf_account a" and "policies_ok a" and "\<And>i q. GetPeer a i = Some q \<Longrightarrow> peer_IP q \<noteq> 0"
    and "iteration it" and "rules = fst (snd (GetPeerConnectionResources it meets a p V gu))"
    and "manager_ok d" and "firewall d = Some fw" and "stateful fw" and "fresh_ids d uuids (length rules)"
    and "iteration iter" and "iteration iter2" and "iteration iter3"
  shows "\<exists>fw' i. firewall (ApplyFiltering toUnicode nf iter iter2 uuids d (map_message rules routes) flag) = Some fw' \<and>
    peerACLsBlock iter3 fw' (Addr4 s) layer pkt = Some (i, \<not> isSpecialICMP layer pkt \<and>
      (policy_says True meets a V p s layer pkt \<or> \<not> policy_says False meets a V p s layer pkt))"
proof -
  let ?nm = "map_message rules routes"
  have R: "set rules = acl_rules meets a V p"
    unfolding assms(5) GetPeerConnectionResources_def using account_rules assms(1,4) by simp
  have "\<exists>q r d. GetPeer a (peer_ID q) = Some q \<and> PeerIP f = IP_String (peer_IP q) \<and> f \<in> set (peer_rules meets p r q d) \<and> policy_rule_ok r"
    if "f \<in> set rules" for f
  proof -
    from that obtain q d r where q: "GetPeer a (peer_ID q) = Some q" "r \<in> access a V (peer_ID p) (peer_ID q) d" "f \<in> set (peer_rules meets p r q d)"
      unfolding R acl_rules_def by blast
    then have "policy_rule_ok r" using assms(2) access_enabled [OF q(2)] by (auto simp: policies_ok_def)
    then show ?thesis using q peer_rules_fields [OF q(3)] by blast
  qed
  then have good: "\<forall>m \<in> set (effective_rules ?nm). good_rule m" and zero: "\<forall>m \<in> set (effective_rules ?nm). pf_PeerIP m \<noteq> IP_String 0"
    using message_good assms(3) unfolding effective_message by (fastforce simp: message_fields)+
  have fresh: "fresh_ids d uuids (length (effective_rules ?nm))" using assms(9) by (simp add: effective_message)
  note says = rules_says [OF R assms(2)]
  have deny: "(\<exists>m \<in> set (effective_rules ?nm). pf_Direction m = 0 \<and> pf_Action m = 1 \<and> pf_PeerIP m = IP_String s \<and> rule_covers m layer pkt) \<longleftrightarrow>
      policy_says True meets a V p s layer pkt" using says [of True s layer pkt] by (simp add: effective_message)
  have allow: "(\<exists>m \<in> set (effective_rules ?nm). pf_Direction m = 0 \<and> pf_Action m = 0 \<and> pf_PeerIP m \<in> {IP_String s, IP_String 0} \<and> rule_covers m layer pkt) \<longleftrightarrow>
      policy_says False meets a V p s layer pkt" using says [of False s layer pkt] zero unfolding effective_message by auto
  show ?thesis
    using network_map_enforced [OF assms(6-8) good fresh assms(10-12), of toUnicode nf flag s layer pkt] unfolding deny allow by blast
qed

section \<open>An example\<close>

text \<open>The policy of \<open>demo_account\<close> lets \<open>a\<close> reach port 22 of \<open>b\<close>.\<close>

definition ssh_packet :: decoder where
  "ssh_packet = zero_decoder\<lparr>decoded := [LayerTypeIPv4, LayerTypeTCP], tcp_DstPort := 22, tcp_SYN := True\<rparr>"

lemma ssh_port: "''22'' = itoa (unat (22 :: 16 word))"
  using default_port by (simp add: defaultSSHPortString_def defaultSSHPortNumber_def)

lemma demo_policies_ok: "policies_ok demo_account"
proof -
  have "\<exists>n :: 16 word. n \<noteq> 0 \<and> ''22'' = itoa (unat n)" unfolding ssh_port by (rule exI [of _ 22]) simp
  then show ?thesis by (simp add: policies_ok_def enabled_rules_def demo_account_def demo_rule_def policy_rule_ok_def protocol_names)
qed

lemma demo_access: "demo_rule \<in> access demo_account {''a'', ''b'', ''c''} ''b'' ''a'' FirewallRuleDirectionIN"
proof -
  let ?p = "\<lparr>policy_ID = ''p1'', policy_Enabled = True, Rules = [demo_rule], SourcePostureChecks = [''pc'']\<rparr>"
  have "(?p, demo_rule) \<in> set (enabled_rules (Policies demo_account))"
    by (simp add: enabled_rules_def demo_account_def demo_rule_def)
  moreover have "GetGroup demo_account ''dev'' = Some \<lparr>group_ID = ''dev'', group_Name = ''dev'', group_Peers = [''a''], group_Resources = []\<rparr>"
    "GetGroup demo_account ''srv'' = Some \<lparr>group_ID = ''srv'', group_Name = ''srv'', group_Peers = [''b''], group_Resources = []\<rparr>"
    by (simp_all add: GetGroup_def demo_account_def)
  moreover have "usable_peer demo_account [''pc''] {''a'', ''b'', ''c''} ''a'' \<noteq> None" "usable_peer demo_account [] {''a'', ''b'', ''c''} ''b'' \<noteq> None"
    by code_simp+
  ultimately have "(?p, demo_rule) \<in> set (enabled_rules (Policies demo_account))" "''a'' \<in> source_ids demo_account {''a'', ''b'', ''c''} ?p demo_rule"
    "''b'' \<in> dest_ids demo_account {''a'', ''b'', ''c''} demo_rule"
    by (simp_all add: source_ids_def dest_ids_def end_ids_def demo_rule_def no_resource_def is_peer_resource_def)
  then show ?thesis unfolding access_def Let_def by auto
qed

lemma demo_says:
  "policy_says False (\<lambda>m v. Some True) demo_account {''a'', ''b'', ''c''} (demo_peer ''b'' 0x64400002) 0x64400001 LayerTypeTCP ssh_packet"
proof -
  let ?q = "demo_peer ''a'' 0x64400001"
  have "policy_covers (\<lambda>m v. Some True) (demo_peer ''b'' 0x64400002) demo_rule LayerTypeTCP ssh_packet"
    by (simp add: policy_covers_def port_open_def port_listed_def demo_rule_def protocol_names ssh_packet_def ssh_port)
  moreover have "GetPeer demo_account (peer_ID ?q) = Some ?q" by (simp add: GetPeer_def demo_account_def demo_peer_def)
  moreover have "peer_IP ?q = 0x64400001" "peer_ID ?q = ''a''" "peer_ID (demo_peer ''b'' 0x64400002) = ''b''" by (simp_all add: demo_peer_def)
  moreover have "Action demo_rule \<noteq> PolicyTrafficActionDrop" by (simp add: demo_rule_def PolicyTrafficActionDrop_def)
  ultimately show ?thesis unfolding policy_says_def using demo_access by metis
qed

lemma demo_denies_nothing: "\<not> policy_says True meets demo_account V p s layer pkt"
proof
  assume "policy_says True meets demo_account V p s layer pkt"
  then obtain r policy where "(policy, r) \<in> set (enabled_rules (Policies demo_account))" "Action r = PolicyTrafficActionDrop"
    unfolding policy_says_def using access_enabled by blast
  then show False by (simp add: enabled_rules_def demo_account_def demo_rule_def PolicyTrafficActionDrop_def)
qed

theorem policies_enforced_witness:
  "let rules = fst (snd (GetPeerConnectionResources (\<lambda>xs. xs) (\<lambda>m v. Some True) demo_account (demo_peer ''b'' 0x64400002) {''a'', ''b'', ''c''} Map.empty));
       d = NewDefaultManager (Some dns_filter);
       d' = ApplyFiltering (\<lambda>s. Some s) (\<lambda>a. None) rev rev (map itoa [0..<length rules]) d (map_message rules []) False
   in \<exists>fw i. firewall d' = Some fw \<and> peerACLsBlock rev fw (Addr4 0x64400001) LayerTypeTCP ssh_packet = Some (i, False)"
proof -
  let ?rules = "fst (snd (GetPeerConnectionResources (\<lambda>xs. xs) (\<lambda>m v. Some True) demo_account (demo_peer ''b'' 0x64400002) {''a'', ''b'', ''c''} Map.empty))"
  have ips: "\<And>i q. GetPeer demo_account i = Some q \<Longrightarrow> peer_IP q \<noteq> 0"
    by (auto simp: GetPeer_def demo_account_def demo_peer_def split: if_splits)
  have fresh: "fresh_ids (NewDefaultManager (Some dns_filter)) (map itoa [0..<length ?rules]) (length ?rules)"
    using itoa_inj by (auto simp: fresh_ids_def NewDefaultManager_def dns_manager(3) distinct_map inj_on_def)
  have fw: "firewall (NewDefaultManager (Some dns_filter)) = Some dns_filter" by (simp add: NewDefaultManager_def)
  have "\<not> isSpecialICMP LayerTypeTCP ssh_packet" by (simp add: isSpecialICMP_def)
  then show ?thesis unfolding Let_def
    using policies_enforced [OF wf_demo_account demo_policies_ok ips iteration_id refl dns_manager(1) fw dns_manager(4) fresh
        iteration_rev iteration_rev iteration_rev, where toUnicode = "\<lambda>s. Some s" and nf = "\<lambda>a. None" and
          routes = "[]" and flag = False and s = "0x64400001" and layer = LayerTypeTCP and pkt = ssh_packet] demo_says
    by (simp add: demo_denies_nothing)
qed

end
