(* ===== verification/Spec2Isabelle.thy ===== *)
theory Spec2Isabelle
  imports DistLock SignalServer LoginFilter Ephemeral RelayServer Refcounter RouteSelection AccountUpdates CompactedMap PeerIPs PolicyEnforcement
begin

text \<open>
  This library verifies the core of NetBird with high availability: the servers of which several instances share a Redis server
  (management, signal, relay), and the part of the client that enforces the access policy. Paths are relative to \<open>src/\<close>.

  \<^bold>\<open>The program.\<close> Peers build an encrypted network between each other. The \<^emph>\<open>management server\<close> keeps an account with
  peers, groups, policies and routes. It computes for every peer a network map and sends it as an update over the stream the peer
  holds open. The \<^emph>\<open>signal server\<close> forwards the messages with which two peers set up a connection; the \<^emph>\<open>relay server\<close>
  carries the packets of peers that cannot reach each other. With high availability each server runs in several instances: a registry
  in Redis says which instance holds the stream of a peer, messages for peers of other instances and notices of changed accounts travel on Redis channels,
  and a lock in Redis serialises what must not run twice. The \<^emph>\<open>client\<close> turns its network map into
  firewall rules and, without a firewall of the operating system, filters the packets itself.

  \<^bold>\<open>Conventions.\<close> Times and durations are integers in nanoseconds; integers keep their width as words where the
  code can overflow; strings are character lists and byte slices lists of words. A Go map over which the code iterates is an association list, and the
  order of an iteration is an argument \<open>iter\<close> of which only \<open>iteration iter\<close> is assumed (it permutes the
  list). The clock, random draws, fresh identifiers and environment variables are arguments. Writes to streams, calls of the store and events are
  logs in the state. A nil pointer is \<^const>\<open>None\<close>; a panic or a loop that does not end is the result \<^const>\<open>None\<close>, and an
  error is a value of a sum type. Mutexes make an operation one step; where the code releases them in between, or instances run side by side, the
  steps are interleaved explicitly. A function of the source whose loop or part is a definition of its own here (such as the body of a loop) has
  further definitions next to it; the entry of the function in the map covers their lines.

  \<^bold>\<open>The theories.\<close>
  \<^item> \<open>Prelude\<close>: names of types, lemmas on lists, maps and words, and the interfaces as locales. \<open>op_machine\<close>: operations that keep an
    invariant; \<open>refining_machine\<close>: operations that also simulate a specification; \<open>owner_map\<close>: tables in which the newest owner
    of a key wins and a late removal by an old owner does nothing; \<open>codec\<close>: encoders and decoders; \<open>flow_table\<close> and
    \<open>idle_table\<close>: tables of connections that are opened by some packets only and expire. Each is interpreted on the components below.
    \<open>GoLib\<close>, \<open>GoNet\<close> and \<open>Sha256\<close> model what the code uses of \<open>strings\<close>, \<open>strconv\<close>, \<open>slices\<close>, \<open>net\<close>, \<open>net/netip\<close>,
    \<open>crypto/sha256\<close> and \<open>crypto/hmac\<close>, \<open>Redis\<close> the commands of Redis as a parameter with its documented laws and a concrete
    server that satisfies them.
  \<^item> \<open>HAConfiguration\<close> (\<open>shared/distributed\<close>, \<open>signal/server/config.go\<close>, \<open>management/server/distributed/config.go\<close>): reading and
    checking the configuration; what \<open>Validate\<close> establishes.
  \<^item> \<open>DistLock\<close> (\<open>management/server/distributed/lock.go\<close>, \<open>registry.go\<close>): the lock with its heartbeat and
    the registry of peers; mutual exclusion and progress over all interleavings of callers and expiry, and the laws of the registry.
  \<^item> \<open>SignalRegistry\<close>, \<open>SignalServer\<close> (\<open>signal/peer/peer.go\<close>, \<open>signal/server/signal.go\<close>): the registry of streams under races of registrations, interleaved at
    their atomic actions, signed envelopes, and the delivery of a message to a peer of another instance.
  \<^item> \<open>LoginFilter\<close> (\<open>loginfilter.go\<close>): bans after too many logins, exactly when the limit is passed; with Redis, a peer without a record is never admitted.
  \<^item> \<open>Ephemeral\<close> (\<open>ephemeral.go\<close>, \<open>modules/peers/manager.go\<close>): the linked list of peers to be deleted, on a heap of nodes; it refines a list of deadlines and
    of requests to delete, and a restart with Redis deletes the idle peers only.
  \<^item> \<open>RelayMessages\<close>, \<open>RelayServer\<close> (\<open>shared/relay/messages\<close>, \<open>shared/relay/auth/hmac\<close>, \<open>relay/server\<close>): round trips of the wire format,
    tokens, the handshake, the store of peers, delivery of transport messages through the read buffer. \<open>relay_login\<close> below joins the management's
    tokens with the relay's handshake.
  \<^item> \<open>Conntrack\<close>, \<open>ConntrackDatagram\<close> (\<open>client/firewall/uspfilter/conntrack\<close>): the trackers of TCP, UDP and ICMP with their flow
    events; what enters was asked for, every flow is accounted for once, whole sessions pass.
  \<^item> \<open>Refcounter\<close>, \<open>RouteSelection\<close> (\<open>client/internal/routemanager/refcounter\<close>, \<open>client/internal/routeselector\<close>): installed routes are those with
    users and those whose removal failed; the selector refines a set of routes that are off.
  \<^item> \<open>UpdateChannels\<close>, \<open>AccountUpdates\<close> (\<open>updatechannel.go\<close>, \<open>update_debouncer.go\<close>, \<open>grpc/server.go\<close>, \<open>controller.go\<close>): channels of updates that
    never panic, a debouncer that loses nothing, what an update of an account sends to which channel and publishes, and which buffered requests are served.
  \<^item> \<open>AccountTypes\<close>, \<open>AccessControl\<close>, \<open>NetworkMap\<close>, \<open>NetworkMapComponents\<close>, \<open>CompactedMap\<close> (\<open>management/server/types\<close>): the account; who may talk
    to whom, against a specification by sets, for every provider of the ends of a rule (locale \<open>ends_provider\<close>); the network map from the
    whole account and from a selection of its parts, and that both agree where they see the same peers.
  \<^item> \<open>PeerIPs\<close> (\<open>management/server/types/network.go\<close>, \<open>account.go\<close>, \<open>accounts_handler.go\<close>): allocation of addresses; a range that passes
    the check has an address for every peer.
  \<^item> \<open>LocalIPs\<close>, \<open>PacketRewrite\<close>, \<open>PacketFilter\<close>, \<open>PacketRules\<close> (\<open>client/firewall/uspfilter\<close>, \<open>client/firewall/manager\<close>): the bitmap of
    local addresses; translation of addresses and ports and clamping on the bytes of packets, with the checksums; the state of the filter,
    the path of packets in both directions; the filter as a machine that refines the set of its rules, and what an inbound packet needs to pass and what a dropped one leaves behind.
  \<^item> \<open>ClientACL\<close>, \<open>PolicyEnforcement\<close> (\<open>conversion.go\<close>, \<open>client/internal/acl/manager.go\<close>): the rules as messages, the manager that installs them, what
    remains after a rule it cannot convert, and the end-to-end theorem: the decisions of the filter are those of the policies of the account.

  \<^bold>\<open>Hypotheses and bounds.\<close> Theorems about accounts assume \<open>wf_account\<close> (keys are identifiers, the group of all peers holds all peers, rule
  identifiers are unique and none is another one followed by a digit), those about Redis the laws of the commands and where needed that commands succeed; every theorem with hypotheses has a
  witness next to it at a concrete input. No definition uses fuel. Loops over lists are structural recursions; the loops of \<open>Ephemeral\<close> over pointers and the
  waiting loop of the signal server are partial functions, and the theorems show that they return. Fixed sizes of the code are kept: 244 events of a listener of the
  relay, the sizes of relay messages, the buffers of update channels, the table of 256 pages of 8192 words of local addresses.

  \<^bold>\<open>Not modelled.\<close> The SQL store, the identity providers, users, setup keys and permissions, and the HTTP handlers other than the check of a range: their
  behaviour is that of the database and of outside services, and the theorems hold for whatever account they produce. The incremental builder of network maps
  (\<open>networkmapbuilder.go\<close>) is an experiment that is switched on by an environment variable; the two computations in use are modelled. Posture checks are arbitrary predicates on
  peers. On the client the engine, the connections of peers (ICE, WireGuard), the native firewalls, the DNS servers, the SSH
  server, the network stack behind the forwarder and the user interface are input and output around outside libraries; where the modelled parts call them they are parameters with a
  log. The parser \<open>gopacket\<close>, the comparison of versions, punycode, JSON and the dispatcher of the signal server are parameters. The order of bytes
  on a stream, TLS, metrics, traces and log lines are left out.
\<close>

section \<open>Across components\<close>

lemma length_token:
  assumes "NewGenerator AuthAlgoHMACSHA256 secret ttl = Inr g"
  shows "length (Token_Marshal (GenerateToken now g)) = 33 + length (FormatInt (Unix (now + ttl)))"
proof -
  have "g = \<lparr>gen_algo = 1, gen_secret = secret, gen_timeToLive = ttl\<rparr>"
    using assms by (simp add: NewGenerator_def AuthAlgo_New_def)
  then show ?thesis by (simp add: Token_Marshal_eq GenerateToken_def AuthAlgo_New_def Let_def)
qed

text \<open>
  C25. A token of the management server opens the relay. When a peer sends its ID and a token
  generated for the relay's secret, and no running listener that waits for the peer has a full channel, then up to the expiry of the token
  \<open>Accept\<close> stores the new connection under the ID, leaves every other entry of the store, tells the listeners
  that wait for the peer and adds a listener for it; after the expiry its connection is closed and nothing else changes.
\<close>

theorem relay_login:
  assumes "NewGenerator AuthAlgoHMACSHA256 secret ttl = Inr g" and "10 ^ 9 \<le> Unix (t0 + ttl)" and "Unix (t0 + ttl) < 2 ^ 63"
    and "peer_id i" and "\<not> r_closed r" and "\<forall>x \<in> set (r_notifier r). can_hear i (snd x)"
    and "v_auth v = Validate now secret"
  shows "\<exists>m. MarshalAuthMsg i (Token_Marshal (GenerateToken t0 g)) = Inr m \<and>
    (if Unix now \<le> Unix (t0 + ttl)
     then \<exists>r' ls. Accept wr v hr r a (Some m) = Some (r', Some \<lparr>p_addr = a, p_id = i\<rparr>) \<and>
       st_peers (r_store r') = (st_peers (r_store r))(i := Some \<lparr>p_addr = a, p_id = i\<rparr>) \<and>
       PeerCameOnline (r_notifier r) i = Some ls \<and> r_notifier r' = NewListener ls a
     else Accept wr v hr r a (Some m) = Some (Close r a, None))"
proof -
  let ?tok = "Token_Marshal (GenerateToken t0 g)"
  have len: "length ?tok \<le> 170" using length_token [OF assms(1), of t0] length_FormatInt [OF _ assms(3)] assms(2) by simp
  define m where "m = [CurrentProtocolVersion, MsgTypeAuth] @ magicHeader @ i @ ?tok"
  have m: "MarshalAuthMsg i ?tok = Inr m" using len assms(4) by (simp add: MarshalAuthMsg_eq m_def)
  have "length m \<le> 212" "m \<noteq> []" using len assms(4) by (simp_all add: m_def peer_id_def)
  moreover have "UnmarshalAuthMsg m = Inr (i, ?tok)"
    using auth.dec_enc [of "(i, ?tok)"] len assms(4) m by (simp add: auth_enc_def)
  moreover have "ValidateVersion m = Inr 1" "DetermineClientMessageType m = Inr MsgTypeAuth"
    by (simp_all add: m_def ValidateVersion_def DetermineClientMessageType_def)
  ultimately have h: "handshakeReceive v (Some m) =
      (case Validate now secret ?tok of Some e \<Rightarrow> Inl (HsToken e) | None \<Rightarrow> Inr (i, True))"
    by (simp add: handshakeReceive_def handleAuthMsg_def assms(7) Let_def split: option.split)
  show ?thesis
  proof (cases "Unix now \<le> Unix (t0 + ttl)")
    case True
    then have "handshakeReceive v (Some m) = Inr (i, True)" using h Validate_generated [OF assms(1-3)] by simp
    then obtain r' ls where acc: "Accept wr v hr r a (Some m) = Some (r', Some \<lparr>p_addr = a, p_id = i\<rparr>)"
        and "PeerCameOnline (r_notifier r) i = Some ls" "r_notifier r' = NewListener ls a"
      using Accept_returns [OF assms(5,6)] by blast
    with True m Accept_peer(3) [OF acc] show ?thesis by auto
  next
    case False
    then show ?thesis using m assms(5) by (auto simp: Accept_def h Validate_generated [OF assms(1-3)])
  qed
qed

theorem relay_login_witness:
  "\<exists>m r'. MarshalAuthMsg (HashID ''a'') (Token_Marshal (GenerateToken (1700000000 * second)
        \<lparr>gen_algo = 1, gen_secret = [1], gen_timeToLive = hour\<rparr>)) = Inr m \<and>
     Accept (\<lambda>a m. True) \<lparr>v_auth = Validate (1700000000 * second) [1], v_hello = (\<lambda>d. False)\<rparr> [] demo_relay 1 (Some m) =
       Some (r', Some \<lparr>p_addr = 1, p_id = HashID ''a''\<rparr>) \<and>
     r_notifier r' = [(1, newListener)]"
proof -
  have "Unix (1700000000 * second) \<le> Unix (1700000000 * second + hour)" by (simp add: Unix_def)
  then show ?thesis
    using relay_login [of "[1]" hour "\<lparr>gen_algo = 1, gen_secret = [1], gen_timeToLive = hour\<rparr>" "1700000000 * second"
        "HashID ''a''" demo_relay "\<lparr>v_auth = Validate (1700000000 * second) [1], v_hello = (\<lambda>d. False)\<rparr>"
        "1700000000 * second" "\<lambda>a m. True" "[]" 1] peer_id_HashID
    by (auto simp: NewGenerator_def AuthAlgo_New_def Unix_def demo_relay_def PeerCameOnline_def NewListener_def)
qed

end
